(* ===== verification/Neptune_Prelude.thy ===== *)
theory Neptune_Prelude
  imports Main "HOL-Library.Word" "HOL-Library.Monad_Syntax"
begin

text \<open>
  Shared vocabulary of the development: the Amiga integer types, byte buffers and the
  accesses the C code makes to them.

  A buffer is a list of bytes. An access outside it is undefined behaviour in C, so every read
  and write here is partial: \<open>None\<close> stands for an access outside the buffer, and a component
  is memory safe exactly when its model never yields \<open>None\<close>. Lengths of and offsets into a
  buffer are natural numbers (a buffer lies in a 32 bit address space, so they do not wrap);
  values that are stored in fields of the code's structures and that the code lets wrap are
  words of the field's width.
\<close>

type_synonym u8 = "8 word"
type_synonym u16 = "16 word"
type_synonym u32 = "32 word"
type_synonym bytes = "u8 list"

named_theorems rd_simps \<open>evaluation of buffer accesses\<close>
named_theorems step_defs \<open>definitions of the step functions of a component\<close>

section \<open>Reading a buffer\<close>

definition rd8 :: "bytes \<Rightarrow> nat \<Rightarrow> u8 option" where
  "rd8 b i = (if i < length b then Some (b ! i) else None)"

definition le16 :: "u8 \<Rightarrow> u8 \<Rightarrow> nat" where
  "le16 b0 b1 = unat b0 + 256 * unat b1"

definition le32 :: "u8 \<Rightarrow> u8 \<Rightarrow> u8 \<Rightarrow> u8 \<Rightarrow> nat" where
  "le32 b0 b1 b2 b3 = unat b0 + 256 * (unat b1 + 256 * (unat b2 + 256 * unat b3))"

definition rd_le16 :: "bytes \<Rightarrow> nat \<Rightarrow> nat option" where
  "rd_le16 b i = (if i + 2 \<le> length b then Some (le16 (b ! i) (b ! (i + 1))) else None)"

definition rd_be16 :: "bytes \<Rightarrow> nat \<Rightarrow> nat option" where
  "rd_be16 b i = (if i + 2 \<le> length b then Some (le16 (b ! (i + 1)) (b ! i)) else None)"

definition rd_le32 :: "bytes \<Rightarrow> nat \<Rightarrow> nat option" where
  "rd_le32 b i = (if i + 4 \<le> length b
     then Some (le32 (b ! i) (b ! (i + 1)) (b ! (i + 2)) (b ! (i + 3))) else None)"

definition rd_be32 :: "bytes \<Rightarrow> nat \<Rightarrow> nat option" where
  "rd_be32 b i = (if i + 4 \<le> length b
     then Some (le32 (b ! (i + 3)) (b ! (i + 2)) (b ! (i + 1)) (b ! i)) else None)"

text \<open>The bytes from an offset on, as many as asked for (the source of a copy).\<close>

definition rd_slice :: "bytes \<Rightarrow> nat \<Rightarrow> nat \<Rightarrow> bytes option" where
  "rd_slice b off n = (if off + n \<le> length b then Some (take n (drop off b)) else None)"

section \<open>Writing a buffer\<close>

definition wr_bytes :: "bytes \<Rightarrow> nat \<Rightarrow> bytes \<Rightarrow> bytes option" where
  "wr_bytes b off d = (if off + length d \<le> length b
     then Some (take off b @ d @ drop (off + length d) b) else None)"

definition enc_le16 :: "nat \<Rightarrow> bytes" where
  "enc_le16 n = [word_of_nat n, word_of_nat (n div 256)]"

definition enc_le32 :: "nat \<Rightarrow> bytes" where
  "enc_le32 n = [word_of_nat n, word_of_nat (n div 256), word_of_nat (n div 65536),
     word_of_nat (n div 16777216)]"

definition enc_be32 :: "nat \<Rightarrow> bytes" where
  "enc_be32 n = rev (enc_le32 n)"

section \<open>Memory\<close>

text \<open>The answers psdAllocVec() of neptune.library is going to give: each allocation takes the first;
  when they are used up every further one succeeds. The memory comes from a pool that clears it.\<close>

type_synonym mem = "bool list"

definition psdAllocVec :: "mem \<Rightarrow> bool \<times> mem" where
  "psdAllocVec m = (case m of [] \<Rightarrow> (True, []) | b # m' \<Rightarrow> (b, m'))"

section \<open>Laws of the accesses\<close>

lemma rd8_Some [rd_simps]: "i < length b \<Longrightarrow> rd8 b i = Some (b ! i)"
  by (simp add: rd8_def)

lemma rd_le16_Some [rd_simps]:
  "i + 2 \<le> length b \<Longrightarrow> rd_le16 b i = Some (le16 (b ! i) (b ! (i + 1)))"
  by (simp add: rd_le16_def)

lemma rd_be16_Some [rd_simps]:
  "i + 2 \<le> length b \<Longrightarrow> rd_be16 b i = Some (le16 (b ! (i + 1)) (b ! i))"
  by (simp add: rd_be16_def)

lemma rd_le32_Some [rd_simps]:
  "i + 4 \<le> length b \<Longrightarrow>
   rd_le32 b i = Some (le32 (b ! i) (b ! (i + 1)) (b ! (i + 2)) (b ! (i + 3)))"
  by (simp add: rd_le32_def)

lemma rd_be32_Some [rd_simps]:
  "i + 4 \<le> length b \<Longrightarrow>
   rd_be32 b i = Some (le32 (b ! (i + 3)) (b ! (i + 2)) (b ! (i + 1)) (b ! i))"
  by (simp add: rd_be32_def)

lemma rd_slice_Some [rd_simps]:
  "off + n \<le> length b \<Longrightarrow> rd_slice b off n = Some (take n (drop off b))"
  by (simp add: rd_slice_def)

lemma wr_bytes_Some [rd_simps]:
  "off + length d \<le> length b \<Longrightarrow>
   wr_bytes b off d = Some (take off b @ d @ drop (off + length d) b)"
  by (simp add: wr_bytes_def)

lemma wr_bytes_length: "wr_bytes b off d = Some b' \<Longrightarrow> length b' = length b"
  by (auto simp: wr_bytes_def split: if_splits)

lemma unat_u8_less: "unat (b :: u8) < 256"
  using unsigned_less [of b] by simp

lemma le16_less: "le16 b0 b1 < 65536"
  using unat_u8_less [of b0] unat_u8_less [of b1] by (simp add: le16_def)

lemma le32_less: "le32 b0 b1 b2 b3 < 4294967296"
  using unat_u8_less [of b0] unat_u8_less [of b1] unat_u8_less [of b2] unat_u8_less [of b3]
  by (simp add: le32_def)

lemma unat_of_nat_u8: "unat (word_of_nat n :: u8) = n mod 256"
  by (simp add: unat_of_nat)

lemma le16_enc: "le16 (word_of_nat n) (word_of_nat (n div 256)) = n mod 65536"
proof -
  have "n mod (256 * 256) = 256 * (n div 256 mod 256) + n mod 256"
    by (simp only: mod_mult2_eq)
  then show ?thesis by (simp add: le16_def unat_of_nat_u8)
qed

lemma le32_enc:
  "le32 (word_of_nat n) (word_of_nat (n div 256)) (word_of_nat (n div 65536))
     (word_of_nat (n div 16777216)) = n mod 4294967296"
proof -
  have "n mod 4294967296 = n mod (256 * 16777216)" by simp
  also have "\<dots> = 256 * (n div 256 mod 16777216) + n mod 256"
    by (simp only: mod_mult2_eq)
  also have "n div 256 mod 16777216 = n div 256 mod (256 * 65536)" by simp
  also have "\<dots> = 256 * (n div 256 div 256 mod 65536) + n div 256 mod 256"
    by (simp only: mod_mult2_eq)
  also have "n div 256 div 256 mod 65536 = n div 256 div 256 mod (256 * 256)" by simp
  also have "\<dots> = 256 * (n div 256 div 256 div 256 mod 256) + n div 256 div 256 mod 256"
    by (simp only: mod_mult2_eq)
  finally show ?thesis
    by (simp add: le32_def unat_of_nat_u8 div_mult2_eq [symmetric])
qed

lemma length_enc [simp]:
  "length (enc_le16 n) = 2" "length (enc_le32 n) = 4" "length (enc_be32 n) = 4"
  by (simp_all add: enc_le16_def enc_le32_def enc_be32_def)

lemma rd_be32_enc: "rd_be32 (enc_be32 n @ r) 0 = Some (n mod 4294967296)"
  by (simp add: rd_be32_def enc_be32_def enc_le32_def le32_enc)

lemma rd_be32_append: "i + 4 \<le> length a \<Longrightarrow> rd_be32 (a @ b) i = rd_be32 a i"
  by (simp add: rd_be32_def nth_append)

lemma rd_be32_drop: "i \<le> length b \<Longrightarrow> rd_be32 (drop i b) j = rd_be32 b (i + j)"
  by (auto simp: rd_be32_def algebra_simps)

section \<open>Invariants of a step relation\<close>

locale step_invariant =
  fixes step :: "'s \<Rightarrow> 's \<Rightarrow> bool" and I :: "'s \<Rightarrow> bool"
  assumes keeps: "step s t \<Longrightarrow> I s \<Longrightarrow> I t"
begin

lemma reach: "step\<^sup>*\<^sup>* s t \<Longrightarrow> I s \<Longrightarrow> I t"
  by (induction rule: rtranclp_induct) (auto intro: keeps)

end

end
