(* ===== verification/Midi_Tx.thy ===== *)
theory Midi_Tx
  imports Neptune_Prelude
begin

text \<open>
  The MIDI converter of the CAMD class (\<open>classes/camdmidi/camdusbmidi.class.c\<close>) and the
  driver hook it pulls from (\<open>camd/camd_driver.c\<close>): a MIDI 1.0 byte stream becomes
  four byte USB-MIDI event packets, and event packets become bytes for the open ports.

  The output pointer of the C functions is the list of the bytes stored so far; a function
  returns it extended, where the C code returns the pointer advanced.
\<close>

unbundle bit_operations_syntax

section \<open>State of one port's converter\<close>

datatype tx_state =
    TX_UNKNOWN | TX_1PARAM | TX_2PARAM_1 | TX_2PARAM_2 | TX_SYSEX_0 | TX_SYSEX_1 | TX_SYSEX_2

record usbMidiTx =
  tx_State :: tx_state
  tx_Status :: u8
  tx_Data0 :: u8
  tx_Data1 :: u8

abbreviation MS_EOX :: u8 where "MS_EOX \<equiv> 0xF7"

section \<open>Stream bytes to event packets\<close>

definition usbmidi_header :: "u8 \<Rightarrow> u8 \<Rightarrow> u8" where
  "usbmidi_header cable cin = (push_bit 4 cable OR cin)"

definition nTxPacket :: "bytes \<Rightarrow> u8 \<Rightarrow> u8 \<Rightarrow> u8 \<Rightarrow> u8 \<Rightarrow> u8 \<Rightarrow> bytes" where
  "nTxPacket out cable cin b0 b1 b2 = out @ [usbmidi_header cable cin, b0, b1, b2]"

definition nTxMessage ::
  "usbMidiTx \<Rightarrow> u8 \<Rightarrow> u8 \<Rightarrow> u8 \<Rightarrow> u8 \<Rightarrow> bytes \<Rightarrow> usbMidiTx \<times> bytes" where
  "nTxMessage tx cable len d0 d1 out =
     (if tx_Status tx < 0xF0
      then (tx\<lparr>tx_State := (if len = 2 then TX_1PARAM else TX_2PARAM_1)\<rparr>,
            nTxPacket out cable (drop_bit 4 (tx_Status tx)) (tx_Status tx) d0 d1)
      else (tx\<lparr>tx_State := TX_UNKNOWN\<rparr>, nTxPacket out cable len (tx_Status tx) d0 d1))"

definition nTxData :: "usbMidiTx \<Rightarrow> u8 \<Rightarrow> u8 \<Rightarrow> bytes \<Rightarrow> usbMidiTx \<times> bytes" where
  "nTxData tx cable b out =
     (case tx_State tx of
        TX_1PARAM \<Rightarrow> nTxMessage tx cable 2 b 0 out
      | TX_2PARAM_1 \<Rightarrow> (tx\<lparr>tx_Data0 := b, tx_State := TX_2PARAM_2\<rparr>, out)
      | TX_2PARAM_2 \<Rightarrow> nTxMessage tx cable 3 (tx_Data0 tx) b out
      | TX_SYSEX_0 \<Rightarrow> (tx\<lparr>tx_Data0 := b, tx_State := TX_SYSEX_1\<rparr>, out)
      | TX_SYSEX_1 \<Rightarrow> (tx\<lparr>tx_Data1 := b, tx_State := TX_SYSEX_2\<rparr>, out)
      | TX_SYSEX_2 \<Rightarrow> (tx\<lparr>tx_State := TX_SYSEX_0\<rparr>,
                        nTxPacket out cable 4 (tx_Data0 tx) (tx_Data1 tx) b)
      | TX_UNKNOWN \<Rightarrow> (tx, out))"

definition nTxSysExEnd :: "usbMidiTx \<Rightarrow> u8 \<Rightarrow> bytes \<Rightarrow> usbMidiTx \<times> bytes" where
  "nTxSysExEnd tx cable out =
     (tx\<lparr>tx_State := TX_UNKNOWN\<rparr>,
      (case tx_State tx of
         TX_SYSEX_0 \<Rightarrow> nTxPacket out cable 5 MS_EOX 0 0
       | TX_SYSEX_1 \<Rightarrow> nTxPacket out cable 6 (tx_Data0 tx) MS_EOX 0
       | TX_SYSEX_2 \<Rightarrow> nTxPacket out cable 7 (tx_Data0 tx) (tx_Data1 tx) MS_EOX
       | _ \<Rightarrow> out))"

definition nTxSysExCut :: "usbMidiTx \<Rightarrow> u8 \<Rightarrow> bytes \<Rightarrow> bytes" where
  "nTxSysExCut tx cable out =
     (case tx_State tx of
        TX_SYSEX_1 \<Rightarrow> nTxPacket out cable 5 (tx_Data0 tx) 0 0
      | TX_SYSEX_2 \<Rightarrow> nTxPacket out cable 6 (tx_Data0 tx) (tx_Data1 tx) 0
      | _ \<Rightarrow> out)"

definition nTxSystem :: "usbMidiTx \<Rightarrow> u8 \<Rightarrow> u8 \<Rightarrow> bytes \<Rightarrow> usbMidiTx \<times> bytes" where
  "nTxSystem tx cable b out =
     (if b = 0xF0 then (tx\<lparr>tx_Data0 := b, tx_State := TX_SYSEX_1\<rparr>, out)
      else if b = 0xF1 \<or> b = 0xF3 then (tx\<lparr>tx_Status := b, tx_State := TX_1PARAM\<rparr>, out)
      else if b = 0xF2 then (tx\<lparr>tx_Status := b, tx_State := TX_2PARAM_1\<rparr>, out)
      else if b = 0xF6 then (tx\<lparr>tx_State := TX_UNKNOWN\<rparr>, nTxPacket out cable 5 b 0 0)
      else if b = MS_EOX then nTxSysExEnd tx cable out
      else (tx\<lparr>tx_State := TX_UNKNOWN\<rparr>, out))"

definition nTxByte :: "usbMidiTx \<Rightarrow> u8 \<Rightarrow> u8 \<Rightarrow> bytes \<Rightarrow> usbMidiTx \<times> bytes" where
  "nTxByte tx cable b out =
     (if 0xF8 \<le> b then (tx, nTxPacket out cable 0xF b 0 0)
      else let out = (if b AND 0x80 \<noteq> 0 \<and> b \<noteq> MS_EOX then nTxSysExCut tx cable out else out)
           in if 0xF0 \<le> b then nTxSystem tx cable b out
              else if b AND 0x80 \<noteq> 0
              then (tx\<lparr>tx_Status := b,
                       tx_State := (if b AND 0xF0 = 0xC0 \<or> b AND 0xF0 = 0xD0
                                    then TX_1PARAM else TX_2PARAM_1)\<rparr>, out)
              else nTxData tx cable b out)"

text \<open>The loop of \<open>nPullPort\<close> over the bytes it pulled.\<close>

fun nTxBytes :: "usbMidiTx \<Rightarrow> u8 \<Rightarrow> bytes \<Rightarrow> bytes \<Rightarrow> usbMidiTx \<times> bytes" where
  "nTxBytes tx cable [] out = (tx, out)"
| "nTxBytes tx cable (b # bs) out =
     (let (tx', out') = nTxByte tx cable b out in nTxBytes tx' cable bs out')"

section \<open>Pulling queued output from camd\<close>

text \<open>
  \<open>ca_TXFunc\<close> is camd's transmit function, called with the port's user data: an argument of
  the model, from camd's state for the port to the two result registers and the new state.
  A binding is known by a number; \<open>None\<close> is the NULL pointer of a detached port.
\<close>

type_synonym 'c txfunc = "'c \<Rightarrow> (u32 \<times> u32) \<times> 'c"

record 'c camdAdapter =
  ca_Binding :: "nat option"
  ca_IsOpen :: bool
  ca_TXActive :: bool
  ca_PortNum :: u8
  ca_UserData :: 'c
  ca_TX :: usbMidiTx

definition XMIT_NOBYTE :: u32 where "XMIT_NOBYTE = 0x8100"

fun pull_loop :: "'c txfunc \<Rightarrow> bool \<Rightarrow> nat \<Rightarrow> bytes \<Rightarrow> 'c camdAdapter \<Rightarrow> bytes \<times> 'c camdAdapter"
where
  "pull_loop f v40 0 buf ca = (buf, ca)"
| "pull_loop f v40 (Suc k) buf ca =
     (if \<not> ca_TXActive ca then (buf, ca)
      else let ((d0, d1), c') = f (ca_UserData ca);
               ca' = ca\<lparr>ca_UserData := c'\<rparr>
           in if d0 AND XMIT_NOBYTE = 0
              then pull_loop f v40 k (buf @ [ucast d0])
                     (if \<not> v40 \<and> d1 AND 0xFF \<noteq> 0 then ca'\<lparr>ca_TXActive := False\<rparr> else ca')
              else (buf, ca'\<lparr>ca_TXActive := False\<rparr>))"

definition PullFromCAMD ::
  "'c txfunc \<Rightarrow> bool \<Rightarrow> nat \<Rightarrow> 'c camdAdapter \<Rightarrow> bytes \<times> 'c camdAdapter" where
  "PullFromCAMD f v40 mx ca =
     (if \<not> ca_IsOpen ca \<or> \<not> ca_TXActive ca then ([], ca) else pull_loop f v40 mx [] ca)"

definition TX_CHUNK :: nat where "TX_CHUNK = 64"
definition TX_PULL_MAX :: nat where "TX_PULL_MAX = (TX_CHUNK + 1) * 4"
definition OUTBUF_SIZE :: nat where "OUTBUF_SIZE = 8192"

record nepClassMidi =
  nch_Id :: nat
  nch_InCables :: u8
  nch_OutCables :: u8

definition nPullPort ::
  "'c txfunc \<Rightarrow> bool \<Rightarrow> nepClassMidi \<Rightarrow> 'c camdAdapter \<Rightarrow> bytes \<Rightarrow> nat \<times> 'c camdAdapter \<times> bytes"
where
  "nPullPort f v40 nch ca out =
     (let (tmp, ca') = PullFromCAMD f v40 TX_CHUNK ca
      in if ca_PortNum ca' < nch_OutCables nch
         then let (tx', out') = nTxBytes (ca_TX ca') (ca_PortNum ca') tmp out
              in (length tmp, ca'\<lparr>ca_TX := tx'\<rparr>, out')
         else (length tmp, ca', out))"

fun nPullPorts ::
  "'c txfunc \<Rightarrow> bool \<Rightarrow> nepClassMidi \<Rightarrow> nat \<Rightarrow> 'c camdAdapter list \<Rightarrow> bytes \<Rightarrow>
   bool \<times> 'c camdAdapter list \<times> bytes" where
  "nPullPorts f v40 nch lastpos [] out = (False, [], out)"
| "nPullPorts f v40 nch lastpos (ca # cas) out =
     (if length out \<le> lastpos
      then if ca_Binding ca = Some (nch_Id nch) \<and> ca_TXActive ca
           then let (n, ca', out') = nPullPort f v40 nch ca out;
                    (got, cas', out'') = nPullPorts f v40 nch lastpos cas out'
                in (n \<noteq> 0 \<or> got, ca' # cas', out'')
           else let (got, cas', out') = nPullPorts f v40 nch lastpos cas out
                in (got, ca # cas', out')
      else (False, ca # cas, out))"

text \<open>
  One round of the loop of \<open>nTransmit\<close>: a pass over the ports, then the bulk transfer if one
  is due. The transfer is the third component, \<open>None\<close> when nothing is sent.
\<close>

definition nTransmit_round ::
  "'c txfunc \<Rightarrow> bool \<Rightarrow> nepClassMidi \<Rightarrow> 'c camdAdapter list \<Rightarrow> bytes \<Rightarrow>
   bool \<times> 'c camdAdapter list \<times> bytes option \<times> bytes" where
  "nTransmit_round f v40 nch cas out =
     (let lastpos = OUTBUF_SIZE - TX_PULL_MAX;
          (again, cas', out') = nPullPorts f v40 nch lastpos cas out
      in if lastpos < length out' \<or> \<not> again \<and> out' \<noteq> []
         then (again, cas', Some out', [])
         else (again, cas', None, out'))"

text \<open>The loop, with as many rounds as there is fuel: \<open>None\<close> if it has not ended by then.\<close>

fun nTransmit ::
  "nat \<Rightarrow> 'c txfunc \<Rightarrow> bool \<Rightarrow> nepClassMidi \<Rightarrow> 'c camdAdapter list \<Rightarrow> bytes \<Rightarrow>
   ('c camdAdapter list \<times> bytes list) option" where
  "nTransmit 0 f v40 nch cas out = None"
| "nTransmit (Suc n) f v40 nch cas out =
     (let (again, cas', sent, out') = nTransmit_round f v40 nch cas out;
          xs = (case sent of None \<Rightarrow> [] | Some x \<Rightarrow> [x])
      in if again
         then map_option (\<lambda>(cas'', ys). (cas'', xs @ ys)) (nTransmit n f v40 nch cas' out')
         else Some (cas', xs))"

section \<open>Event packets to bytes\<close>

definition cinlength :: "nat list" where
  "cinlength = [0, 0, 2, 3, 3, 1, 2, 3, 3, 3, 3, 3, 2, 2, 3, 1]"

definition packet_cable :: "u8 \<Rightarrow> u8" where "packet_cable h = drop_bit 4 h"
definition packet_count :: "u8 \<Rightarrow> nat" where "packet_count h = cinlength ! unat (h AND 0x0F)"

fun nFindPort :: "nat \<Rightarrow> u8 \<Rightarrow> 'c camdAdapter list \<Rightarrow> 'c camdAdapter option" where
  "nFindPort nch port [] = None"
| "nFindPort nch port (ca # cas) =
     (if ca_Binding ca = Some nch \<and> ca_PortNum ca = port then Some ca else nFindPort nch port cas)"

text \<open>What goes to the receive hooks, in order: the cable and its bytes.\<close>

fun nParseMidi :: "nepClassMidi \<Rightarrow> 'c camdAdapter list \<Rightarrow> bytes \<Rightarrow> (u8 \<times> bytes) list" where
  "nParseMidi nch cas (h # b0 # b1 # b2 # r) =
     (let cable = packet_cable h; cnt = packet_count h
      in (if cnt \<noteq> 0 \<and> cable < nch_InCables nch
          then (case nFindPort (nch_Id nch) cable cas of
                  None \<Rightarrow> []
                | Some ca \<Rightarrow> if ca_IsOpen ca then [(cable, take cnt [b0, b1, b2])] else [])
          else []) @ nParseMidi nch cas r)"
| "nParseMidi nch cas _ = []"


section \<open>Laws\<close>

lemmas tx_defs [step_defs] =
  nTxByte_def nTxSystem_def nTxSysExCut_def nTxSysExEnd_def nTxData_def nTxMessage_def
  nTxPacket_def Let_def

lemma nTxByte_append:
  "nTxByte tx cable b out = (fst (nTxByte tx cable b []), out @ snd (nTxByte tx cable b []))"
  by (cases "tx_State tx") (simp_all add: step_defs)

lemma nTxBytes_append:
  "nTxBytes tx cable bs out = (fst (nTxBytes tx cable bs []), out @ snd (nTxBytes tx cable bs []))"
proof (induction bs arbitrary: tx out)
  case Nil
  then show ?case by simp
next
  case (Cons b bs)
  obtain tx' p where s: "nTxByte tx cable b [] = (tx', p)" by fastforce
  then have "nTxByte tx cable b out = (tx', out @ p)"
    using nTxByte_append [of tx cable b out] by simp
  then show ?case using Cons.IH [of tx' "out @ p"] Cons.IH [of tx' p] s by simp
qed

text \<open>A SysEx packet being filled is at most one packet that is still to come.\<close>

definition held :: "usbMidiTx \<Rightarrow> nat" where
  "held tx = (if tx_State tx \<in> {TX_SYSEX_1, TX_SYSEX_2} then 1 else 0)"

lemma held_le: "held tx \<le> 1"
  by (simp add: held_def)

lemma nTxByte_length:
  "length (snd (nTxByte tx cable b [])) + 4 * held (fst (nTxByte tx cable b [])) \<le> 4 + 4 * held tx"
  by (cases "tx_State tx") (auto simp: step_defs held_def)

lemma four_dvd_Suc: "4 dvd Suc (Suc (Suc (Suc n))) \<longleftrightarrow> 4 dvd n"
  by presburger

lemma nTxByte_packets: "4 dvd length (snd (nTxByte tx cable b []))"
  by (cases "tx_State tx") (auto simp: step_defs four_dvd_Suc)

lemma nTxBytes_length:
  "length (snd (nTxBytes tx cable bs [])) + 4 * held (fst (nTxBytes tx cable bs []))
     \<le> 4 * length bs + 4 * held tx"
proof (induction bs arbitrary: tx)
  case Nil
  then show ?case by simp
next
  case (Cons b bs)
  obtain tx' p where s: "nTxByte tx cable b [] = (tx', p)" by fastforce
  then have "length p + 4 * held tx' \<le> 4 + 4 * held tx"
    using nTxByte_length [of tx cable b] by simp
  then show ?case using Cons.IH [of tx'] s
    by (simp add: nTxBytes_append [of tx' cable bs p])
qed

lemma nTxBytes_packets: "4 dvd length (snd (nTxBytes tx cable bs []))"
proof (induction bs arbitrary: tx)
  case (Cons b bs)
  obtain tx' p where s: "nTxByte tx cable b [] = (tx', p)" by fastforce
  then show ?case using Cons.IH [of tx'] nTxByte_packets [of tx cable b]
    by (simp add: nTxBytes_append [of tx' cable bs p])
qed simp

section \<open>Headers and packets\<close>

text \<open>
  The packets of a buffer, and the MIDI bytes they carry: a receiver reads both through the Code
  Index Number.
\<close>

lemma nibble_take: "(x :: u8) < 16 \<Longrightarrow> take_bit 4 x = x"
  by (simp add: word_unat_eq_iff unsigned_take_bit_eq take_bit_nat_eq_self word_less_nat_alt)

lemma bit_nibble: "(x :: u8) < 16 \<Longrightarrow> bit x n \<Longrightarrow> n < 4"
  by (metis nibble_take bit_take_bit_iff)

lemma header_cable: "c < 16 \<Longrightarrow> cin < 16 \<Longrightarrow> packet_cable (usbmidi_header c cin) = c"
  unfolding packet_cable_def usbmidi_header_def
  by (rule bit_word_eqI) (auto simp: bit_simps dest: bit_nibble)

lemma F_mask: "(0xF :: u8) = mask 4" by (simp add: mask_eq_exp_minus_1)

lemma header_cin: "cin < 16 \<Longrightarrow> usbmidi_header c cin AND 0x0F = cin"
  unfolding usbmidi_header_def F_mask
  by (rule bit_word_eqI) (auto simp: bit_simps dest: bit_nibble)

lemma status_cin: "(s :: u8) < 0xF0 \<Longrightarrow> drop_bit 4 s < 0xF"
  by (simp add: word_less_nat_alt unat_drop_bit_eq drop_bit_eq_div less_mult_imp_div_less unat_div)

lemma status_cin_neq: "(s :: u8) < 0xF0 \<Longrightarrow> drop_bit 4 s \<noteq> 0xF"
  using status_cin [of s] by auto

lemma odd_div_128: "(n :: nat) < 256 \<Longrightarrow> odd (n div 128) \<longleftrightarrow> 128 \<le> n"
proof -
  assume n: "n < 256"
  have "n div 128 = (if 128 \<le> n then 1 else 0)"
    using n by (auto intro!: div_nat_eqI)
  then show ?thesis by simp
qed

lemma statusbit: "(b :: u8) AND 0x80 \<noteq> 0 \<longleftrightarrow> 0x80 \<le> b"
proof -
  have "b AND 2 ^ 7 = 0 \<longleftrightarrow> \<not> bit b 7" by (simp only: and_exp_eq_0_iff_not_bit)
  moreover have "bit b 7 \<longleftrightarrow> bit (unat b) 7" by (simp add: bit_unsigned_iff)
  moreover have "bit (unat b) 7 \<longleftrightarrow> odd (unat b div 128)" by (simp add: bit_iff_odd)
  moreover have "odd (unat b div 128) \<longleftrightarrow> 128 \<le> unat b"
    using unat_u8_less [of b] by (intro odd_div_128)
  ultimately show ?thesis by (simp add: word_le_nat_alt)
qed

fun packets :: "bytes \<Rightarrow> (u8 \<times> bytes) list" where
  "packets (h # b0 # b1 # b2 # r) = (h, [b0, b1, b2]) # packets r"
| "packets _ = []"

lemma packets_append: "4 dvd length p \<Longrightarrow> packets (p @ q) = packets p @ packets q"
proof (induction p rule: packets.induct)
  case (1 h b0 b1 b2 r)
  then have "4 dvd length r" by (simp add: four_dvd_Suc)
  then show ?case using "1.IH" by simp
qed (auto dest!: dvd_imp_le)

lemma packets_TxPacket:
  "4 dvd length out \<Longrightarrow>
   packets (nTxPacket out c cin b0 b1 b2) = packets out @ [(usbmidi_header c cin, [b0, b1, b2])]"
  by (simp add: nTxPacket_def packets_append)

definition packet_payload :: "u8 \<times> bytes \<Rightarrow> bytes" where
  "packet_payload p = take (packet_count (fst p)) (snd p)"

definition payload :: "bytes \<Rightarrow> bytes" where "payload p = concat (map packet_payload (packets p))"

lemma header_count: "cin < 16 \<Longrightarrow> packet_count (usbmidi_header c cin) = cinlength ! unat cin"
  by (simp add: packet_count_def header_cin)

lemma payload_TxPacket:
  "4 dvd length out \<Longrightarrow> cin < 16 \<Longrightarrow>
   payload (nTxPacket out c cin b0 b1 b2) = payload out @ take (cinlength ! unat cin) [b0, b1, b2]"
  by (simp add: payload_def packets_TxPacket packet_payload_def header_count)

definition held_bytes :: "usbMidiTx \<Rightarrow> bytes" where
  "held_bytes tx = (case tx_State tx of TX_SYSEX_1 \<Rightarrow> [tx_Data0 tx]
     | TX_SYSEX_2 \<Rightarrow> [tx_Data0 tx, tx_Data1 tx] | _ \<Rightarrow> [])"

definition in_sysex :: "usbMidiTx \<Rightarrow> bool" where
  "in_sysex tx \<longleftrightarrow> tx_State tx \<in> {TX_SYSEX_0, TX_SYSEX_1, TX_SYSEX_2}"

lemma data_byte: "(b :: u8) < 0x80 \<Longrightarrow> b AND 0x80 = 0 \<and> \<not> 0xF8 \<le> b \<and> \<not> 0xF0 \<le> b"
  using statusbit [of b] by (auto simp: word_less_nat_alt word_le_nat_alt)

lemma sysex_data:
  "in_sysex tx \<Longrightarrow> b < 0x80 \<Longrightarrow> 4 dvd length out \<Longrightarrow>
   nTxByte tx c b out = (tx', out') \<Longrightarrow>
   in_sysex tx' \<and> payload out' @ held_bytes tx' = payload out @ held_bytes tx @ [b]"
  using data_byte [of b]
  by (auto simp: nTxByte_def nTxData_def in_sysex_def held_bytes_def payload_TxPacket cinlength_def
      split: tx_state.splits)

lemma sysex_datas:
  "in_sysex tx \<Longrightarrow> \<forall>b \<in> set bs. b < 0x80 \<Longrightarrow> 4 dvd length out \<Longrightarrow>
   nTxBytes tx c bs out = (tx', out') \<Longrightarrow>
   in_sysex tx' \<and> payload out' @ held_bytes tx' = payload out @ held_bytes tx @ bs"
proof (induction bs arbitrary: tx out)
  case Nil
  then show ?case by simp
next
  case (Cons b bs)
  obtain t p where s: "nTxByte tx c b out = (t, p)" by fastforce
  have "4 dvd length p"
    using Cons.prems(3) nTxByte_append [of tx c b out] nTxByte_packets [of tx c b] s by simp
  moreover have "in_sysex t \<and> payload p @ held_bytes t = payload out @ held_bytes tx @ [b]"
    using sysex_data [OF Cons.prems(1) _ Cons.prems(3) s] Cons.prems(2) by simp
  ultimately show ?case using Cons.IH [of t p] Cons.prems s by (auto simp del: append_assoc simp flip: append_assoc)
qed

lemma sysex_end:
  "in_sysex tx \<Longrightarrow> 4 dvd length out \<Longrightarrow>
   payload (snd (nTxByte tx c MS_EOX out)) = payload out @ held_bytes tx @ [MS_EOX]"
  by (auto simp: nTxByte_def nTxSystem_def nTxSysExEnd_def in_sysex_def held_bytes_def
      payload_TxPacket cinlength_def)

section \<open>What the receiving side gets\<close>

lemma nTxByte_cables:
  "c < 16 \<Longrightarrow> x \<in> set (packets (snd (nTxByte tx c b []))) \<Longrightarrow> packet_cable (fst x) = c"
proof -
  assume c: "c < 16"
  have "drop_bit 4 (s :: u8) < 16" for s
    using unat_u8_less [of s]
    by (simp add: word_less_nat_alt unat_drop_bit_eq drop_bit_eq_div unat_div less_mult_imp_div_less)
  then show "x \<in> set (packets (snd (nTxByte tx c b []))) \<Longrightarrow> packet_cable (fst x) = c"
    using c by (cases "tx_State tx")
      (auto simp: step_defs header_cable split: if_splits)
qed

lemma nTxBytes_cables:
  "c < 16 \<Longrightarrow> x \<in> set (packets (snd (nTxBytes tx c bs []))) \<Longrightarrow> packet_cable (fst x) = c"
proof (induction bs arbitrary: tx)
  case (Cons b bs)
  obtain t p where s: "nTxByte tx c b [] = (t, p)" by fastforce
  then have "4 dvd length p" using nTxByte_packets [of tx c b] by simp
  then show ?case using Cons s nTxByte_cables [of c x tx b]
    by (auto simp: nTxBytes_append [of t c bs p] packets_append)
qed simp

lemma nParseMidi_payload:
  assumes "c < nch_InCables nch" and "nFindPort (nch_Id nch) c cas = Some ca" and "ca_IsOpen ca"
  shows "\<forall>x \<in> set (packets p). packet_cable (fst x) = c \<Longrightarrow>
    concat (map snd (nParseMidi nch cas p)) = payload p \<and>
    (\<forall>x \<in> set (nParseMidi nch cas p). fst x = c)"
proof (induction p rule: packets.induct)
  case (1 h b0 b1 b2 r)
  then have h: "packet_cable h = c" and r: "\<forall>x \<in> set (packets r). packet_cable (fst x) = c"
    by auto
  note IH = "1.IH" [OF r]
  show ?case
    by (cases "packet_count h = 0")
       (use IH assms h in \<open>simp_all add: Let_def payload_def packet_payload_def\<close>)
qed (auto simp: payload_def)

lemma payload_Nil [simp]: "payload [] = []"
  by (simp add: payload_def)

lemma sysex_start:
  "held tx = 0 \<Longrightarrow>
   nTxByte tx c 0xF0 [] = (tx\<lparr>tx_Data0 := 0xF0, tx_State := TX_SYSEX_1\<rparr>, [])"
  by (cases "tx_State tx") (simp_all add: step_defs held_def)

lemma sysex_payload:
  assumes "held tx = 0" and "\<forall>b \<in> set ds. b < 0x80"
  shows "payload (snd (nTxBytes tx c (0xF0 # ds @ [MS_EOX]) [])) = 0xF0 # ds @ [MS_EOX]"
proof -
  define t0 where "t0 = tx\<lparr>tx_Data0 := 0xF0, tx_State := TX_SYSEX_1\<rparr>"
  have t0: "in_sysex t0" "held_bytes t0 = [0xF0]"
    by (simp_all add: t0_def in_sysex_def held_bytes_def)
  obtain t1 p1 where s: "nTxBytes t0 c ds [] = (t1, p1)" by fastforce
  have d: "4 dvd length p1" using nTxBytes_packets [of t0 c ds] s by simp
  have i: "in_sysex t1 \<and> payload p1 @ held_bytes t1 = 0xF0 # ds"
    using sysex_datas [OF t0(1) assms(2) _ s] t0(2) by simp
  have run: "nTxBytes t c (xs @ ys) out =
      nTxBytes (fst (nTxBytes t c xs out)) c ys (snd (nTxBytes t c xs out))" for t xs ys out
    by (induction xs arbitrary: t out) (simp_all add: case_prod_beta)
  have "nTxBytes tx c (0xF0 # ds @ [MS_EOX]) [] = nTxBytes t1 c [MS_EOX] p1"
    using sysex_start [OF assms(1)] s by (simp add: run t0_def)
  then show ?thesis
    using sysex_end [of t1 p1 c] i d by (simp add: case_prod_beta)
qed


section \<open>The transmit hook\<close>

text \<open>
  The class calls a hook that the driver installs; it relies on one thing, that the hook stores no
  more bytes than it was given room for.
\<close>

locale tx_hook =
  fixes pull :: "nat \<Rightarrow> 'p \<Rightarrow> bytes \<times> 'p"
  assumes pull_bound: "length (fst (pull mx p)) \<le> mx"
begin

lemma pulled_packets:
  "length (snd (nTxBytes tx c (fst (pull TX_CHUNK p)) out)) \<le> length out + TX_PULL_MAX"
proof -
  let ?bs = "fst (pull TX_CHUNK p)"
  have "length (snd (nTxBytes tx c ?bs [])) \<le> 4 * length ?bs + 4 * held tx"
    using nTxBytes_length [of tx c ?bs] by simp
  also have "\<dots> \<le> TX_PULL_MAX"
    using pull_bound [of TX_CHUNK p] held_le [of tx] by (simp add: TX_PULL_MAX_def)
  finally show ?thesis by (simp add: nTxBytes_append [of tx c ?bs out])
qed

end

lemma pull_loop_bound: "length (fst (pull_loop f v40 k buf ca)) \<le> length buf + k"
proof (induction k arbitrary: buf ca)
  case (Suc k)
  obtain d0 d1 c' where f: "f (ca_UserData ca) = ((d0, d1), c')" by (metis surj_pair)
  show ?case
    using Suc.IH [of "buf @ [ucast d0]"] by (force simp: f Let_def)
qed simp

interpretation camd_hook: tx_hook "PullFromCAMD f v40" for f v40
proof unfold_locales
  fix mx p
  show "length (fst (PullFromCAMD f v40 mx p)) \<le> mx"
    using pull_loop_bound [of f v40 mx "[]" p] by (simp add: PullFromCAMD_def)
qed

lemma nPullPort_out:
  assumes "nPullPort f v40 nch ca out = (n, ca', out')"
  shows "length out' \<le> length out + TX_PULL_MAX" and "4 dvd length out \<Longrightarrow> 4 dvd length out'"
    and "out' \<noteq> [] \<or> out = []"
proof -
  obtain tmp cb where p: "PullFromCAMD f v40 TX_CHUNK ca = (tmp, cb)" by fastforce
  have o: "out' = out \<or> out' = snd (nTxBytes (ca_TX cb) (ca_PortNum cb) tmp out)"
    using assms p by (auto simp: nPullPort_def case_prod_beta split: if_splits)
  have "tmp = fst (PullFromCAMD f v40 TX_CHUNK ca)" using p by simp
  then show "length out' \<le> length out + TX_PULL_MAX"
    using o camd_hook.pulled_packets [of "ca_TX cb" "ca_PortNum cb" f v40 ca out] by auto
  show "4 dvd length out \<Longrightarrow> 4 dvd length out'"
    using o nTxBytes_packets by (auto simp: nTxBytes_append [of _ _ _ out])
  show "out' \<noteq> [] \<or> out = []"
    using o by (auto simp: nTxBytes_append [of _ _ _ out])
qed

lemma nPullPorts_out:
  assumes "nPullPorts f v40 nch lastpos cas out = (got, cas', out')"
    and "length out \<le> lastpos + TX_PULL_MAX" and "4 dvd length out"
  shows "length out' \<le> lastpos + TX_PULL_MAX \<and> 4 dvd length out'"
  using assms
proof (induction cas arbitrary: out got cas' out')
  case (Cons ca cas)
  show ?case
  proof (cases "length out \<le> lastpos \<and> ca_Binding ca = Some (nch_Id nch) \<and> ca_TXActive ca")
    case True
    obtain n ca1 o1 where p: "nPullPort f v40 nch ca out = (n, ca1, o1)" by (metis surj_pair)
    from nPullPort_out(1,2) [OF p] True Cons.prems(3)
    have "length o1 \<le> lastpos + TX_PULL_MAX" "4 dvd length o1" by auto
    moreover obtain g c u where q: "nPullPorts f v40 nch lastpos cas o1 = (g, c, u)"
      by (metis surj_pair)
    moreover have "out' = u" using Cons.prems(1) True p q by simp
    ultimately show ?thesis using Cons.IH [of o1] by blast
  next
    case False
    obtain g c u where q: "nPullPorts f v40 nch lastpos cas out = (g, c, u)" by (metis surj_pair)
    then have "out' = u \<or> out' = out" using Cons.prems(1) False by (auto split: if_splits)
    then show ?thesis using Cons.IH [OF q] Cons.prems(2,3) by auto
  qed
qed simp

lemma nTransmit_round_out:
  assumes "nTransmit_round f v40 nch cas out = (again, cas', sent, out')"
    and "length out \<le> OUTBUF_SIZE - TX_PULL_MAX" and "4 dvd length out"
  shows "length out' \<le> OUTBUF_SIZE - TX_PULL_MAX \<and> 4 dvd length out' \<and>
    (\<forall>x. sent = Some x \<longrightarrow> x \<noteq> [] \<and> length x \<le> OUTBUF_SIZE \<and> 4 dvd length x)"
proof -
  obtain g c o1 where p: "nPullPorts f v40 nch (OUTBUF_SIZE - TX_PULL_MAX) cas out = (g, c, o1)"
    by (metis surj_pair)
  have "TX_PULL_MAX \<le> OUTBUF_SIZE" by (simp add: TX_PULL_MAX_def OUTBUF_SIZE_def TX_CHUNK_def)
  then show ?thesis
    using nPullPorts_out [OF p] assms p
    by (auto simp: nTransmit_round_def Let_def split: if_splits)
qed

lemma nTransmit_fits:
  assumes "nTransmit n f v40 nch cas out = Some (cas', xs)"
    and "length out \<le> OUTBUF_SIZE - TX_PULL_MAX" and "4 dvd length out" and "x \<in> set xs"
  shows "x \<noteq> [] \<and> length x \<le> OUTBUF_SIZE \<and> 4 dvd length x"
  using assms
proof (induction n arbitrary: cas out xs)
  case (Suc n)
  obtain again c s o1 where r: "nTransmit_round f v40 nch cas out = (again, c, s, o1)"
    by (metis surj_pair)
  note R = nTransmit_round_out [OF r Suc.prems(2,3)]
  show ?case
  proof (cases again)
    case True
    with Suc.prems(1) r obtain ys where y: "nTransmit n f v40 nch c o1 = Some (cas', ys)"
      and xs: "xs = (case s of None \<Rightarrow> [] | Some x \<Rightarrow> [x]) @ ys"
      by (auto simp: case_prod_beta)
    show ?thesis
      using Suc.IH [OF y] R xs Suc.prems(4) by (auto split: option.splits)
  next
    case False
    then show ?thesis using Suc.prems r R by (auto split: option.splits)
  qed
qed simp

text \<open>
  camd gives its queue away byte by byte and answers with a marker when there is none left; with
  nothing new queued meanwhile, the loop of \<open>nTransmit\<close> ends.
\<close>

definition camd_drains :: "('c \<Rightarrow> nat) \<Rightarrow> 'c txfunc \<Rightarrow> bool" where
  "camd_drains m f \<longleftrightarrow> (\<forall>c. m (snd (f c)) \<le> m c \<and>
     (fst (fst (f c)) AND XMIT_NOBYTE = 0 \<longrightarrow> m (snd (f c)) < m c))"

lemma pull_loop_drains:
  assumes "camd_drains m f" and "pull_loop f v40 k buf ca = (buf', ca')"
  shows "m (ca_UserData ca') + length buf' \<le> m (ca_UserData ca) + length buf"
  using assms(2)
proof (induction k arbitrary: buf ca)
  case (Suc k)
  obtain d0 d1 c' where f: "f (ca_UserData ca) = ((d0, d1), c')" by (metis surj_pair)
  have le: "m c' \<le> m (ca_UserData ca)"
    using assms(1) f unfolding camd_drains_def by (metis snd_conv)
  have lt: "d0 AND XMIT_NOBYTE = 0 \<Longrightarrow> m c' < m (ca_UserData ca)"
    using assms(1) f unfolding camd_drains_def by (metis fst_conv snd_conv)
  show ?case
  proof (cases "ca_TXActive ca \<and> d0 AND XMIT_NOBYTE = 0")
    case True
    let ?cb = "if \<not> v40 \<and> d1 AND 0xFF \<noteq> 0
      then ca\<lparr>ca_UserData := c', ca_TXActive := False\<rparr> else ca\<lparr>ca_UserData := c'\<rparr>"
    have "pull_loop f v40 k (buf @ [ucast d0]) ?cb = (buf', ca')"
      using Suc.prems True by (simp add: f Let_def)
    from Suc.IH [OF this] lt True show ?thesis by (auto split: if_splits)
  next
    case False
    then show ?thesis using Suc.prems le by (auto simp: f Let_def split: if_splits)
  qed
qed simp

definition pending :: "('c \<Rightarrow> nat) \<Rightarrow> 'c camdAdapter list \<Rightarrow> nat" where
  "pending m cas = sum_list (map (\<lambda>ca. m (ca_UserData ca)) cas)"

lemma nPullPort_drains:
  assumes "camd_drains m f" and "nPullPort f v40 nch ca out = (n, ca', out')"
  shows "m (ca_UserData ca') + n \<le> m (ca_UserData ca)"
proof -
  obtain tmp cb where p: "PullFromCAMD f v40 TX_CHUNK ca = (tmp, cb)" by fastforce
  have "m (ca_UserData cb) + length tmp \<le> m (ca_UserData ca)"
    using pull_loop_drains [OF assms(1), of v40 TX_CHUNK "[]" ca] p
    by (auto simp: PullFromCAMD_def split: if_splits)
  then show ?thesis
    using assms(2) p by (auto simp: nPullPort_def case_prod_beta split: if_splits)
qed

lemma nPullPorts_drains:
  assumes "camd_drains m f"
  shows "nPullPorts f v40 nch lastpos cas out = (got, cas', out') \<Longrightarrow>
    pending m cas' \<le> pending m cas \<and> (got \<longrightarrow> pending m cas' < pending m cas)"
proof (induction cas arbitrary: out got cas' out')
  case Nil
  then show ?case by (simp add: pending_def)
next
  case (Cons ca cas)
  obtain n ca1 o1 where p: "nPullPort f v40 nch ca out = (n, ca1, o1)" by (metis surj_pair)
  obtain g1 c1 u1 where q: "nPullPorts f v40 nch lastpos cas o1 = (g1, c1, u1)" by (metis surj_pair)
  obtain g2 c2 u2 where r: "nPullPorts f v40 nch lastpos cas out = (g2, c2, u2)" by (metis surj_pair)
  have "m (ca_UserData ca1) + n \<le> m (ca_UserData ca)" by (rule nPullPort_drains [OF assms p])
  then show ?case
    using Cons.prems Cons.IH [OF q] Cons.IH [OF r] p q r
    by (auto simp: pending_def split: if_splits)
qed

lemma nTransmit_ends:
  assumes "camd_drains m f"
  shows "pending m cas < n \<Longrightarrow> \<exists>r. nTransmit n f v40 nch cas out = Some r"
proof (induction n arbitrary: cas out)
  case (Suc n)
  obtain again c s o1 where r: "nTransmit_round f v40 nch cas out = (again, c, s, o1)"
    by (metis surj_pair)
  obtain g c' o' where p: "nPullPorts f v40 nch (OUTBUF_SIZE - TX_PULL_MAX) cas out = (g, c', o')"
    by (metis surj_pair)
  have "again \<longrightarrow> pending m c < pending m cas"
    using r p nPullPorts_drains [OF assms p] by (auto simp: nTransmit_round_def Let_def split: if_splits)
  then show ?case using Suc.IH [of c o1] Suc.prems r by (auto split: option.splits)
qed simp


section \<open>Realtime bytes\<close>

lemma nonrt_cin:
  assumes "b < 0xF8" and "x \<in> set (packets (snd (nTxByte tx c b [])))"
  shows "fst x AND 0x0F \<noteq> 0xF"
proof -
  have "\<not> 0xF8 \<le> b" using assms(1) by simp
  moreover have "drop_bit 4 (s :: u8) < 0xF \<and> drop_bit 4 s < 16" if "s < 0xF0" for s
    using status_cin [OF that] by (auto simp: word_less_nat_alt)
  ultimately show ?thesis
    using assms(2) by (cases "tx_State tx")
      (auto simp: step_defs header_cin status_cin_neq split: if_splits)
qed

lemma nTxByte_realtime: "0xF8 \<le> b \<Longrightarrow> nTxByte tx c b [] = (tx, [usbmidi_header c 0xF, b, 0, 0])"
  by (simp add: nTxByte_def nTxPacket_def)

section \<open>Properties\<close>

text \<open>C37: If camd's queues run dry, sending ends after at most one round more than there are bytes
  queued (the last one finds nothing), and every bulk transfer it made holds whole packets, is not empty and lies inside the output
  buffer: the pass over the ports stops in time for the largest possible pull.\<close>

theorem nTransmit_sends:
  assumes "camd_drains m f" and "pending m cas + 1 \<le> n"
  shows "\<exists>cas' xs. nTransmit n f v40 nch cas [] = Some (cas', xs) \<and>
    (\<forall>x \<in> set xs. x \<noteq> [] \<and> length x \<le> OUTBUF_SIZE \<and> 4 dvd length x)"
proof -
  obtain cas' xs where r: "nTransmit n f v40 nch cas [] = Some (cas', xs)"
    using nTransmit_ends [OF assms(1), of cas n v40 nch "[]"] assms(2) by auto
  then show ?thesis using nTransmit_fits [OF r] by auto
qed

text \<open>C38: A SysEx message of any length, packed into event packets for a cable and unpacked again
  by the receiving side, arrives byte for byte, and only at the port of that cable.\<close>

theorem sysex_roundtrip:
  assumes "held tx = 0" and "\<forall>b \<in> set ds. b < 0x80" and "cable < 16"
    and "cable < nch_InCables nch" and "nFindPort (nch_Id nch) cable cas = Some ca"
    and "ca_IsOpen ca"
  defines "got \<equiv> nParseMidi nch cas (snd (nTxBytes tx cable (0xF0 # ds @ [0xF7]) []))"
  shows "concat (map snd got) = 0xF0 # ds @ [0xF7] \<and> (\<forall>x \<in> set got. fst x = cable)"
  unfolding got_def
  using nParseMidi_payload [OF assms(4-6)] nTxBytes_cables [OF assms(3)] sysex_payload [OF assms(1,2)]
  by metis

text \<open>C39: Under running status, every further pair of data bytes becomes a packet of its own that
  carries the status again, with the status' high nibble as its Code Index Number; an open SysEx is
  flushed before.\<close>

theorem running_status:
  assumes "0x80 \<le> st" and "st < 0xF0" and "st AND 0xF0 \<noteq> 0xC0" and "st AND 0xF0 \<noteq> 0xD0"
    and "\<forall>(a, b) \<in> set ps. a < 0x80 \<and> b < 0x80"
  shows "snd (nTxBytes tx cable (st # concat (map (\<lambda>(a, b). [a, b]) ps)) []) =
    nTxSysExCut tx cable [] @
    concat (map (\<lambda>(a, b). [usbmidi_header cable (drop_bit 4 st), st, a, b]) ps)"
proof -
  have data: "tx_Status t = st \<Longrightarrow> tx_State t = TX_2PARAM_1 \<Longrightarrow> \<forall>(a, b) \<in> set ps. a < 0x80 \<and> b < 0x80 \<Longrightarrow>
      snd (nTxBytes t cable (concat (map (\<lambda>(a, b). [a, b]) ps)) out) =
      out @ concat (map (\<lambda>(a, b). [usbmidi_header cable (drop_bit 4 st), st, a, b]) ps)" for t out
  proof (induction ps arbitrary: t out)
    case (Cons p ps)
    obtain a b where p: "p = (a, b)" by fastforce
    with Cons.prems have ab: "a < 0x80" "b < 0x80" by auto
    let ?t = "t\<lparr>tx_Data0 := a, tx_State := TX_2PARAM_1\<rparr>"
    have "nTxByte t cable a out = (t\<lparr>tx_Data0 := a, tx_State := TX_2PARAM_2\<rparr>, out)"
      using data_byte [OF ab(1)] Cons.prems by (simp add: nTxByte_def nTxData_def)
    moreover have "nTxByte (t\<lparr>tx_Data0 := a, tx_State := TX_2PARAM_2\<rparr>) cable b out =
        (?t, out @ [usbmidi_header cable (drop_bit 4 st), st, a, b])"
      using data_byte [OF ab(2)] Cons.prems assms(2)
      by (simp add: nTxByte_def nTxData_def nTxMessage_def nTxPacket_def)
    ultimately show ?case using Cons.IH [of ?t] Cons.prems p by simp
  qed simp
  let ?t = "tx\<lparr>tx_Status := st, tx_State := TX_2PARAM_1\<rparr>"
  have "\<not> 0xF8 \<le> st" "\<not> 0xF0 \<le> st" "st \<noteq> 0xF7"
    using assms(2) by (auto simp: word_less_nat_alt word_le_nat_alt)
  then have "nTxByte tx cable st [] = (?t, nTxSysExCut tx cable [])"
    using statusbit [of st] assms(1,3,4) by (simp add: nTxByte_def)
  then show ?thesis using data [of ?t] assms(5) by simp
qed

text \<open>C40: A realtime byte is transparent: taking all realtime bytes out of a stream takes exactly
  their packets out of the output and leaves every other packet and the state as they were, and
  the realtime packets are those bytes in their order.\<close>

theorem realtime_transparent:
  "packets (snd (nTxBytes tx c (filter (\<lambda>b. b < 0xF8) bs) [])) =
     filter (\<lambda>x. fst x AND 0x0F \<noteq> 0xF) (packets (snd (nTxBytes tx c bs []))) \<and>
   filter (\<lambda>x. fst x AND 0x0F = 0xF) (packets (snd (nTxBytes tx c bs []))) =
     map (\<lambda>b. (usbmidi_header c 0xF, [b, 0, 0])) (filter (\<lambda>b. 0xF8 \<le> b) bs) \<and>
   fst (nTxBytes tx c (filter (\<lambda>b. b < 0xF8) bs) []) = fst (nTxBytes tx c bs [])"
proof (induction bs arbitrary: tx)
  case (Cons b bs)
  obtain t p where s: "nTxByte tx c b [] = (t, p)" by fastforce
  have d: "4 dvd length p" using nTxByte_packets [of tx c b] s by simp
  note app = nTxBytes_append [of t c _ p] packets_append [OF d]
  show ?case
  proof (cases "0xF8 \<le> b")
    case True
    then have tp: "t = tx" "p = [usbmidi_header c 0xF, b, 0, 0]"
      using s nTxByte_realtime [of b tx c] by auto
    have "nTxBytes tx c (b # bs) [] =
        (fst (nTxBytes tx c bs []), p @ snd (nTxBytes tx c bs []))"
      using s app(1) tp by simp
    then show ?thesis
      using Cons.IH [of tx] True packets_append [OF d, of "snd (nTxBytes tx c bs [])"]
      by (simp add: tp(2) header_cin leD)
  next
    case False
    then have "\<forall>x \<in> set (packets p). fst x AND 0x0F \<noteq> 0xF"
      using nonrt_cin [of b _ tx c] s by auto
    then have "filter (\<lambda>x. fst x AND 0x0F \<noteq> 0xF) (packets p) = packets p"
      "filter (\<lambda>x. fst x AND 0x0F = 0xF) (packets p) = []"
      by (auto simp: filter_empty_conv)
    then show ?thesis using Cons.IH [of t] False s by (simp add: app not_le)
  qed
qed simp

section \<open>Witnesses\<close>

definition example_tx :: usbMidiTx where
  "example_tx = \<lparr>tx_State = TX_UNKNOWN, tx_Status = 0, tx_Data0 = 0, tx_Data1 = 0\<rparr>"

definition example_midi :: nepClassMidi where
  "example_midi = \<lparr>nch_Id = 7, nch_InCables = 2, nch_OutCables = 2\<rparr>"

definition example_port :: "bytes camdAdapter" where
  "example_port = \<lparr>ca_Binding = Some 7, ca_IsOpen = True, ca_TXActive = True, ca_PortNum = 1,
     ca_UserData = [0x90, 0x3C, 0x7F], ca_TX = example_tx\<rparr>"

text \<open>A camd that hands out the bytes of a list and then says that there are none.\<close>

fun example_camd :: "bytes txfunc" where
  "example_camd [] = ((0x100, 0), [])"
| "example_camd (b # bs) = ((ucast b, 0), bs)"

lemma example_camd_drains: "camd_drains length example_camd"
  unfolding camd_drains_def
proof
  fix c show "length (snd (example_camd c)) \<le> length c \<and>
    (fst (fst (example_camd c)) AND XMIT_NOBYTE = 0 \<longrightarrow> length (snd (example_camd c)) < length c)"
    by (cases c) (simp_all add: XMIT_NOBYTE_def)
qed

theorem nTransmit_sends_witness:
  "\<exists>cas' xs. nTransmit 4 example_camd True example_midi [example_port] [] = Some (cas', xs) \<and>
    (\<forall>x \<in> set xs. x \<noteq> [] \<and> length x \<le> OUTBUF_SIZE \<and> 4 dvd length x)"
  by (rule nTransmit_sends [OF example_camd_drains]) (simp add: pending_def example_port_def)

theorem sysex_roundtrip_witness:
  "concat (map snd (nParseMidi example_midi [example_port]
      (snd (nTxBytes example_tx 1 (0xF0 # [1, 2, 3, 4] @ [0xF7]) [])))) = [0xF0, 1, 2, 3, 4, 0xF7]"
  using sysex_roundtrip [of example_tx "[1, 2, 3, 4]" 1 example_midi "[example_port]" example_port]
  by (simp add: held_def example_tx_def example_midi_def example_port_def)

theorem running_status_witness:
  "snd (nTxBytes example_tx 1 [0x90, 0x3C, 0x7F, 0x3E, 0x40] []) =
     [0x19, 0x90, 0x3C, 0x7F, 0x19, 0x90, 0x3E, 0x40]"
  using running_status [of "0x90" "[(0x3C, 0x7F), (0x3E, 0x40)]" example_tx 1]
  by (simp add: nTxSysExCut_def example_tx_def usbmidi_header_def)

end
