(* ===== verification/Cdc_Sana.thy ===== *)
theory Cdc_Sana
  imports Neptune_Prelude "HOL-Library.Multiset"
begin

text \<open>
  The SANA-II device of the CDC Ethernet class: the unit's state
  (\<open>classes/cdceth/cdceth.class.h\<close>) and the device commands a network stack sends it
  (\<open>classes/cdceth/dev.c\<close>), with the event delivery they share with the class task
  (\<open>nDoEvent\<close> of \<open>classes/cdceth/cdceth.class.c\<close>).

  An exec list is a list, head first; a request is moved between lists as a value and known by
  its number. The functions a client registers (copy and filter hooks) are fields of its buffer
  management node: any functions of their types. \<open>ncp_Replied\<close> lists the requests that went
  through \<open>ReplyMsg\<close>, \<open>ncp_Quick\<close> those finished without one (\<open>IOF_QUICK\<close>). Flag words are
  records of the flags. A command that allocates memory gets what \<open>AllocVec\<close> answers as its first
  argument: \<open>None\<close>, or the address of the new node. \<open>ncp_ForbidCnt\<close> is the \<open>Forbid\<close> nesting that
  commands leave behind: every path pairs its \<open>Forbid\<close> with a \<open>Permit\<close> unless the field changes.
\<close>

unbundle bit_operations_syntax

section \<open>Requests\<close>

datatype node_type = NT_MESSAGE | NT_REPLYMSG | NT_FREEMSG

datatype sana_cmd =
    CMD_READ | CMD_FLUSH | CMD_WRITE | S2_GETSTATIONADDRESS | S2_DEVICEQUERY | S2_CONFIGINTERFACE
  | S2_ADDMULTICASTADDRESS | S2_DELMULTICASTADDRESS | S2_MULTICAST | S2_BROADCAST | S2_TRACKTYPE
  | S2_UNTRACKTYPE | S2_GETTYPESTATS | S2_GETSPECIALSTATS | S2_GETGLOBALSTATS | S2_ONEVENT
  | S2_READORPHAN | S2_ONLINE | S2_OFFLINE | NSCMD_DEVICEQUERY | S2_ADDMULTICASTADDRESSES
  | S2_DELMULTICASTADDRESSES | CMD_OTHER

record typestats =
  ts_PacketsSent :: u32
  ts_PacketsReceived :: u32
  ts_BytesSent :: u32
  ts_BytesReceived :: u32
  ts_PacketsDropped :: u32

record devstats =
  ds_PacketsReceived :: u32
  ds_PacketsSent :: u32
  ds_BadData :: u32
  ds_UnknownTypesReceived :: u32

text \<open>
  What a query command stores in the client's memory. The first longword of that memory, which
  some commands read (the room the client has), comes first.
\<close>

datatype sana_out =
    Out_None
  | Out_TypeStats typestats
  | Out_Global devstats
  | Out_Special "(nat \<times> u32) list"
  | Out_NoRoom
  | Out_Query nat nat nat nat

record statdata =
  sd_First :: nat
  sd_Out :: sana_out

record nsquery =
  nq_Format :: nat
  nq_SizeAvailable :: nat
  nq_Commands :: "sana_cmd list"

record sana2req =
  ios_Id :: nat
  ios_Type :: node_type
  io_Command :: sana_cmd
  io_Quick :: bool
  io_Raw :: bool
  io_Bcast :: bool
  io_Mcast :: bool
  io_Error :: int
  ios2_WireError :: u32
  ios2_PacketType :: u32
  ios2_SrcAddr :: bytes
  ios2_DstAddr :: bytes
  ios2_DataLength :: nat
  ios2_Data :: nat
  ios2_BufferManagement :: "nat option"
  ios2_StatData :: "statdata option"
  io_Length :: nat
  io_NSQuery :: "nsquery option"

section \<open>The unit\<close>

record bufman =
  bm_Id :: nat
  bm_CopyFromBuf :: "(nat \<Rightarrow> nat \<Rightarrow> bytes option) option"
  bm_CopyToBuf :: "(nat \<Rightarrow> bytes \<Rightarrow> bool) option"
  bm_PacketFilter :: "(sana2req \<Rightarrow> bytes \<Rightarrow> bool) option"
  bm_RXQueue :: "sana2req list"

record mcast_range =
  mar_UseCount :: u32
  mar_LowerAddr :: bytes
  mar_UpperAddr :: bytes

record track_node =
  pts_Node :: nat
  pts_PacketType :: u32
  pts_Stats :: typestats

datatype encap_type = ENCAP_ECM | ENCAP_EEM | ENCAP_NCM

record nepEth =
  ncp_Configured :: bool
  ncp_Online :: bool
  ncp_Offline :: bool
  ncp_UnitNo :: nat
  unit_OpenCnt :: u16
  ncp_Prom :: bool
  ncp_Mine :: bool
  ncp_BufManList :: "bufman list"
  ncp_EventList :: "sana2req list"
  ncp_TrackList :: "track_node list"
  ncp_Multicasts :: "mcast_range list"
  ncp_MacAddress :: bytes
  ncp_ROMAddress :: bytes
  ncp_MulticastArray :: bytes
  ncp_Retries :: u32
  ncp_BadMulticasts :: u32
  ncp_EncapType :: encap_type
  ncp_ReadBufSize :: nat
  ncp_WriteBufSize :: nat
  ncp_NtbMaxSize :: nat
  ncp_NcmMaxSegment :: u16
  ncp_NcmSeq :: u16
  ncp_DeviceStats :: devstats
  ncp_TypeStats2048 :: "nat option"
  ncp_TypeStats2054 :: "nat option"
  ncp_WriteBuffer :: "bytes list"
  ncp_WriteBufNum :: nat
  ncp_ReadPending :: "nat option"
  ncp_ReadBufNum :: nat
  ncp_WritePending :: "sana2req option"
  ncp_OrphanQueue :: "sana2req list"
  ncp_WriteQueue :: "sana2req list"
  ncp_UnitPort :: "sana2req list"
  ncp_Replied :: "sana2req list"
  ncp_Quick :: "sana2req list"
  ncp_Copied :: "(nat \<times> bytes) list"
  ncp_Sent :: "bytes list"
  ncp_ForbidCnt :: nat

definition ETHER_ADDR_SIZE :: nat where "ETHER_ADDR_SIZE = 6"
definition SANA2_MAX_ADDR_BYTES :: nat where "SANA2_MAX_ADDR_BYTES = 16"
definition ETHERPKT_SIZE :: nat where "ETHERPKT_SIZE = 1500"
definition RAWPKT_SIZE :: nat where "RAWPKT_SIZE = 1514"

section \<open>Error codes and return values\<close>

abbreviation (input) S2ERR_NO_RESOURCES :: int where "S2ERR_NO_RESOURCES \<equiv> 1"
abbreviation (input) S2ERR_BAD_ARGUMENT :: int where "S2ERR_BAD_ARGUMENT \<equiv> 3"
abbreviation (input) S2ERR_BAD_STATE :: int where "S2ERR_BAD_STATE \<equiv> 4"
abbreviation (input) S2ERR_BAD_ADDRESS :: int where "S2ERR_BAD_ADDRESS \<equiv> 5"
abbreviation (input) S2ERR_MTU_EXCEEDED :: int where "S2ERR_MTU_EXCEEDED \<equiv> 6"
abbreviation (input) S2ERR_NOT_SUPPORTED :: int where "S2ERR_NOT_SUPPORTED \<equiv> 8"
abbreviation (input) S2ERR_OUTOFSERVICE :: int where "S2ERR_OUTOFSERVICE \<equiv> 10"
abbreviation (input) S2ERR_TX_FAILURE :: int where "S2ERR_TX_FAILURE \<equiv> 11"
abbreviation (input) IOERR_ABORTED :: int where "IOERR_ABORTED \<equiv> - 2"
abbreviation (input) IOERR_NOCMD :: int where "IOERR_NOCMD \<equiv> - 3"

abbreviation (input) S2WERR_GENERIC_ERROR :: int where "S2WERR_GENERIC_ERROR \<equiv> 0"
abbreviation (input) S2WERR_NOT_CONFIGURED :: int where "S2WERR_NOT_CONFIGURED \<equiv> 1"
abbreviation (input) S2WERR_UNIT_OFFLINE :: int where "S2WERR_UNIT_OFFLINE \<equiv> 3"
abbreviation (input) S2WERR_ALREADY_TRACKED :: int where "S2WERR_ALREADY_TRACKED \<equiv> 4"
abbreviation (input) S2WERR_NOT_TRACKED :: int where "S2WERR_NOT_TRACKED \<equiv> 5"
abbreviation (input) S2WERR_BUFF_ERROR :: int where "S2WERR_BUFF_ERROR \<equiv> 6"
abbreviation (input) S2WERR_SRC_ADDRESS :: int where "S2WERR_SRC_ADDRESS \<equiv> 7"
abbreviation (input) S2WERR_BAD_MULTICAST :: int where "S2WERR_BAD_MULTICAST \<equiv> 10"
abbreviation (input) S2WERR_BAD_EVENT :: int where "S2WERR_BAD_EVENT \<equiv> 12"
abbreviation (input) S2WERR_BAD_STATDATA :: int where "S2WERR_BAD_STATDATA \<equiv> 13"
abbreviation (input) S2WERR_IS_CONFIGURED :: int where "S2WERR_IS_CONFIGURED \<equiv> 15"
abbreviation (input) S2WERR_NULL_POINTER :: int where "S2WERR_NULL_POINTER \<equiv> 16"

abbreviation (input) S2EVENT_ERROR :: u32 where "S2EVENT_ERROR \<equiv> 0x01"
abbreviation (input) S2EVENT_TX :: u32 where "S2EVENT_TX \<equiv> 0x02"
abbreviation (input) S2EVENT_RX :: u32 where "S2EVENT_RX \<equiv> 0x04"
abbreviation (input) S2EVENT_ONLINE :: u32 where "S2EVENT_ONLINE \<equiv> 0x08"
abbreviation (input) S2EVENT_OFFLINE :: u32 where "S2EVENT_OFFLINE \<equiv> 0x10"
abbreviation (input) S2EVENT_BUFF :: u32 where "S2EVENT_BUFF \<equiv> 0x20"
abbreviation (input) S2EVENT_HARDWARE :: u32 where "S2EVENT_HARDWARE \<equiv> 0x40"

text \<open>A signed 16 bit return code (\<open>WORD\<close>); its low byte as the signed \<open>io_Error\<close>.\<close>

definition RC_OK :: int where "RC_OK = 0"
definition RC_DONTREPLY :: int where "RC_DONTREPLY = - 1"

definition deverror :: "int \<Rightarrow> int \<Rightarrow> int" where
  "deverror ioerr wireerr = wireerr * 256 + ioerr mod 256"

definition err_byte :: "int \<Rightarrow> int" where
  "err_byte e = (e + 128) mod 256 - 128"

definition set_error :: "int \<Rightarrow> sana2req \<Rightarrow> sana2req" where
  "set_error e r = r\<lparr>io_Error := err_byte e, ios2_WireError := word_of_int (e div 256)\<rparr>"

section \<open>Replying\<close>

definition ReplyMsg :: "nepEth \<Rightarrow> sana2req \<Rightarrow> nepEth" where
  "ReplyMsg ncp r = ncp\<lparr>ncp_Replied := ncp_Replied ncp @ [r\<lparr>ios_Type := NT_REPLYMSG\<rparr>]\<rparr>"

definition TermIO :: "nepEth \<Rightarrow> sana2req \<Rightarrow> nepEth" where
  "TermIO ncp r =
     (let r = r\<lparr>ios_Type := NT_FREEMSG\<rparr>
      in if \<not> io_Quick r then ReplyMsg ncp r else ncp\<lparr>ncp_Quick := ncp_Quick ncp @ [r]\<rparr>)"

fun reply_all :: "(sana2req \<Rightarrow> sana2req) \<Rightarrow> nepEth \<Rightarrow> sana2req list \<Rightarrow> nepEth" where
  "reply_all f ncp [] = ncp"
| "reply_all f ncp (r # rs) = reply_all f (ReplyMsg ncp (f r)) rs"

definition nDoEvent :: "nepEth \<Rightarrow> u32 \<Rightarrow> nepEth" where
  "nDoEvent ncp events =
     (let hit = (\<lambda>r. ios2_WireError r AND events \<noteq> 0)
      in reply_all (\<lambda>r. r\<lparr>ios_Type := NT_REPLYMSG\<rparr>)
           (ncp\<lparr>ncp_EventList := filter (\<lambda>r. \<not> hit r) (ncp_EventList ncp)\<rparr>)
           (filter hit (ncp_EventList ncp)))"

definition nSetOnline :: "nepEth \<Rightarrow> nepEth" where
  "nSetOnline ncp = nDoEvent (ncp\<lparr>ncp_Online := True, ncp_Offline := False\<rparr>) S2EVENT_ONLINE"

section \<open>Buffer management nodes\<close>

fun find_bufman :: "nat \<Rightarrow> bufman list \<Rightarrow> bufman option" where
  "find_bufman i [] = None"
| "find_bufman i (b # bs) = (if bm_Id b = i then Some b else find_bufman i bs)"

fun upd_bufman :: "nat \<Rightarrow> (bufman \<Rightarrow> bufman) \<Rightarrow> bufman list \<Rightarrow> bufman list" where
  "upd_bufman i f [] = []"
| "upd_bufman i f (b # bs) = (if bm_Id b = i then f b # bs else b # upd_bufman i f bs)"

text \<open>
  The node a request names; \<open>None\<close> is the NULL pointer. (A pointer to a node that is not on the
  list is outside the contract of the device; it reads as NULL here.)
\<close>

definition req_bufman :: "nepEth \<Rightarrow> sana2req \<Rightarrow> bufman option" where
  "req_bufman ncp r =
     (case ios2_BufferManagement r of None \<Rightarrow> None | Some i \<Rightarrow> find_bufman i (ncp_BufManList ncp))"

section \<open>Aborting\<close>

text \<open>\<open>AbortList\<close> with a buffer manager, and with none (the whole list).\<close>

definition abort_of :: "nat option \<Rightarrow> sana2req \<Rightarrow> bool" where
  "abort_of bm r = (case bm of None \<Rightarrow> True | Some i \<Rightarrow> ios2_BufferManagement r = Some i)"

definition AbortList :: "nepEth \<Rightarrow> sana2req list \<Rightarrow> nat option \<Rightarrow> int \<Rightarrow> nepEth \<times> sana2req list" where
  "AbortList ncp l bm err =
     (reply_all (set_error err) ncp (filter (abort_of bm) l), filter (\<lambda>r. \<not> abort_of bm r) l)"

definition AbortRW :: "nepEth \<Rightarrow> nat \<Rightarrow> int \<Rightarrow> nepEth" where
  "AbortRW ncp bm err =
     (let rx = (case find_bufman bm (ncp_BufManList ncp) of None \<Rightarrow> [] | Some b \<Rightarrow> bm_RXQueue b);
          (ncp, rx') = AbortList ncp rx None err;
          ncp = ncp\<lparr>ncp_BufManList :=
                  upd_bufman bm (\<lambda>b. b\<lparr>bm_RXQueue := rx'\<rparr>) (ncp_BufManList ncp)\<rparr>;
          (ncp, oq) = AbortList ncp (ncp_OrphanQueue ncp) (Some bm) err;
          ncp = ncp\<lparr>ncp_OrphanQueue := oq\<rparr>;
          (ncp, wq) = AbortList ncp (ncp_WriteQueue ncp) (Some bm) err
      in ncp\<lparr>ncp_WriteQueue := wq\<rparr>)"

text \<open>\<open>AbortReq\<close> on one list: the unit, what is left of the list, and whether it was there.\<close>

fun AbortReq :: "nepEth \<Rightarrow> sana2req list \<Rightarrow> nat \<Rightarrow> nepEth \<times> sana2req list \<times> bool" where
  "AbortReq ncp [] i = (ncp, [], False)"
| "AbortReq ncp (r # rs) i =
     (if ios_Id r = i then (ReplyMsg ncp (r\<lparr>ios_Type := NT_REPLYMSG, io_Error := IOERR_ABORTED\<rparr>), rs, True)
      else let (ncp', rs', hit) = AbortReq ncp rs i in (ncp', r # rs', hit))"

section \<open>Reading, writing and events\<close>

definition queue_rx :: "nepEth \<Rightarrow> nat \<Rightarrow> sana2req \<Rightarrow> nepEth" where
  "queue_rx ncp bm r = ncp\<lparr>ncp_BufManList :=
     upd_bufman bm (\<lambda>b. b\<lparr>bm_RXQueue := bm_RXQueue b @ [r]\<rparr>) (ncp_BufManList ncp)\<rparr>"

definition cmdRead :: "nepEth \<Rightarrow> sana2req \<Rightarrow> int \<times> nepEth \<times> sana2req" where
  "cmdRead ncp r =
     (if \<not> ncp_Configured ncp then (deverror S2ERR_BAD_STATE S2WERR_NOT_CONFIGURED, ncp, r)
      else if \<not> ncp_Online ncp then (deverror S2ERR_OUTOFSERVICE S2WERR_UNIT_OFFLINE, ncp, r)
      else case req_bufman ncp r of
             None \<Rightarrow> (deverror S2ERR_BAD_ARGUMENT S2WERR_NULL_POINTER, ncp, r)
           | Some b \<Rightarrow>
               if bm_CopyToBuf b = None
               then (deverror S2ERR_BAD_ARGUMENT S2WERR_NULL_POINTER, ncp, r)
               else let r = r\<lparr>io_Quick := False\<rparr> in (RC_DONTREPLY, queue_rx ncp (bm_Id b) r, r))"

definition cmdWrite :: "nepEth \<Rightarrow> sana2req \<Rightarrow> int \<times> nepEth \<times> sana2req" where
  "cmdWrite ncp r =
     (if \<not> ncp_Configured ncp then (deverror S2ERR_BAD_STATE S2WERR_NOT_CONFIGURED, ncp, r)
      else if \<not> ncp_Online ncp then (deverror S2ERR_OUTOFSERVICE S2WERR_UNIT_OFFLINE, ncp, r)
      else case req_bufman ncp r of
             None \<Rightarrow> (deverror S2ERR_BAD_ARGUMENT S2WERR_NULL_POINTER, ncp, r)
           | Some b \<Rightarrow>
               if bm_CopyFromBuf b = None
               then (deverror S2ERR_BAD_ARGUMENT S2WERR_NULL_POINTER, ncp, r)
               else if (if io_Raw r then RAWPKT_SIZE else ETHERPKT_SIZE) < ios2_DataLength r
               then (deverror S2ERR_MTU_EXCEEDED S2WERR_GENERIC_ERROR,
                     nDoEvent ncp (S2EVENT_ERROR OR S2EVENT_TX), r)
               else let r = r\<lparr>io_Quick := False\<rparr>
                    in (RC_DONTREPLY, ncp\<lparr>ncp_WriteQueue := ncp_WriteQueue ncp @ [r]\<rparr>, r))"

definition cmdMulticast :: "nepEth \<Rightarrow> sana2req \<Rightarrow> int \<times> nepEth \<times> sana2req" where
  "cmdMulticast ncp r =
     (if ios2_DstAddr r ! 0 AND 1 \<noteq> 0 then cmdWrite ncp r
      else (deverror S2ERR_BAD_ADDRESS S2WERR_BAD_MULTICAST,
            nDoEvent ncp (S2EVENT_ERROR OR S2EVENT_TX), r))"

definition cmdBroadcast :: "nepEth \<Rightarrow> sana2req \<Rightarrow> int \<times> nepEth \<times> sana2req" where
  "cmdBroadcast ncp r =
     cmdWrite ncp (r\<lparr>ios2_DstAddr :=
       replicate ETHER_ADDR_SIZE 0xff @ drop ETHER_ADDR_SIZE (ios2_DstAddr r)\<rparr>)"

definition cmdReadOrphan :: "nepEth \<Rightarrow> sana2req \<Rightarrow> int \<times> nepEth \<times> sana2req" where
  "cmdReadOrphan ncp r =
     (if \<not> ncp_Configured ncp then (deverror S2ERR_BAD_STATE S2WERR_NOT_CONFIGURED, ncp, r)
      else if \<not> ncp_Online ncp then (deverror S2ERR_OUTOFSERVICE S2WERR_UNIT_OFFLINE, ncp, r)
      else case req_bufman ncp r of
             None \<Rightarrow> (deverror S2ERR_BAD_ARGUMENT S2WERR_NULL_POINTER, ncp, r)
           | Some b \<Rightarrow>
               if bm_CopyToBuf b = None
               then (deverror S2ERR_BAD_ARGUMENT S2WERR_NULL_POINTER, ncp, r)
               else let r = r\<lparr>io_Quick := False\<rparr>
                    in (RC_DONTREPLY, ncp\<lparr>ncp_OrphanQueue := ncp_OrphanQueue ncp @ [r]\<rparr>, r))"

definition KNOWN_EVENTS :: u32 where
  "KNOWN_EVENTS = S2EVENT_ERROR OR S2EVENT_TX OR S2EVENT_RX OR S2EVENT_ONLINE OR S2EVENT_OFFLINE
     OR S2EVENT_BUFF OR S2EVENT_HARDWARE"

definition cmdOnEvent :: "nepEth \<Rightarrow> sana2req \<Rightarrow> int \<times> nepEth \<times> sana2req" where
  "cmdOnEvent ncp r =
     (if ios2_WireError r AND NOT KNOWN_EVENTS \<noteq> 0
      then (deverror S2ERR_NOT_SUPPORTED S2WERR_BAD_EVENT, ncp, r)
      else if ncp_Online ncp \<and> ios2_WireError r AND S2EVENT_ONLINE \<noteq> 0
      then (RC_OK, ncp, r\<lparr>ios2_WireError := S2EVENT_ONLINE\<rparr>)
      else if \<not> ncp_Online ncp \<and> ios2_WireError r AND S2EVENT_OFFLINE \<noteq> 0
      then (RC_OK, ncp, r\<lparr>ios2_WireError := S2EVENT_OFFLINE\<rparr>)
      else let r = r\<lparr>io_Quick := False\<rparr>
           in (RC_DONTREPLY, ncp\<lparr>ncp_EventList := ncp_EventList ncp @ [r]\<rparr>, r))"

definition cmdFlush :: "nepEth \<Rightarrow> sana2req \<Rightarrow> int \<times> nepEth \<times> sana2req" where
  "cmdFlush ncp r =
     (case ios2_BufferManagement r of
        None \<Rightarrow> (RC_OK, ncp, r)
      | Some bm \<Rightarrow>
          let err = deverror IOERR_ABORTED S2WERR_GENERIC_ERROR;
              ncp = AbortRW ncp bm err;
              (ncp, el) = AbortList ncp (ncp_EventList ncp) (Some bm) err
          in (RC_OK, ncp\<lparr>ncp_EventList := el\<rparr>, r))"

section \<open>Going on and off line\<close>

text \<open>A request handed to the class task through the unit's message port.\<close>

definition put_unit :: "nepEth \<Rightarrow> sana2req \<Rightarrow> int \<times> nepEth \<times> sana2req" where
  "put_unit ncp r =
     (let r = r\<lparr>io_Quick := False, ios_Type := NT_MESSAGE\<rparr>
      in (RC_DONTREPLY, ncp\<lparr>ncp_UnitPort := ncp_UnitPort ncp @ [r]\<rparr>, r))"

definition cmdOnline :: "nepEth \<Rightarrow> sana2req \<Rightarrow> int \<times> nepEth \<times> sana2req" where
  "cmdOnline ncp r =
     (if \<not> ncp_Online ncp
      then if \<not> ncp_Configured ncp
           then (deverror S2ERR_BAD_STATE S2WERR_NOT_CONFIGURED, ncp, r)
           else put_unit (ncp\<lparr>ncp_Offline := False\<rparr>) r
      else (RC_OK, ncp, r))"

definition cmdOffline :: "nepEth \<Rightarrow> sana2req \<Rightarrow> int \<times> nepEth \<times> sana2req" where
  "cmdOffline ncp r =
     (let ncp = ncp\<lparr>ncp_Offline := True\<rparr>
      in if ncp_Online ncp
         then let ncp = ncp\<lparr>ncp_Online := False\<rparr>;
                  ncp = (case ios2_BufferManagement r of
                           None \<Rightarrow> ncp
                         | Some bm \<Rightarrow>
                             AbortRW ncp bm (deverror S2ERR_OUTOFSERVICE S2WERR_UNIT_OFFLINE))
              in put_unit (nDoEvent ncp S2EVENT_OFFLINE) r
         else (RC_OK, ncp, r))"

definition set_addr :: "bytes \<Rightarrow> bytes \<Rightarrow> bytes" where
  "set_addr a mac = take ETHER_ADDR_SIZE mac @ drop ETHER_ADDR_SIZE a"

definition cmdConfigInterface :: "nepEth \<Rightarrow> sana2req \<Rightarrow> int \<times> nepEth \<times> sana2req" where
  "cmdConfigInterface ncp r =
     (if ncp_Configured ncp
      then (deverror S2ERR_BAD_STATE S2WERR_IS_CONFIGURED, ncp,
            r\<lparr>ios2_SrcAddr := set_addr (ios2_SrcAddr r) (ncp_MacAddress ncp)\<rparr>)
      else if ios2_SrcAddr r ! 0 AND 1 \<noteq> 0
      then (deverror S2ERR_BAD_ADDRESS S2WERR_SRC_ADDRESS, ncp, r)
      else put_unit (ncp\<lparr>ncp_MacAddress := take ETHER_ADDR_SIZE (ios2_SrcAddr r)\<rparr>) r)"

definition cmdGetStationAddress :: "nepEth \<Rightarrow> sana2req \<Rightarrow> int \<times> nepEth \<times> sana2req" where
  "cmdGetStationAddress ncp r =
     (let pad = replicate (SANA2_MAX_ADDR_BYTES - ETHER_ADDR_SIZE) 0
      in (RC_OK, ncp, r\<lparr>ios2_SrcAddr := take ETHER_ADDR_SIZE (ncp_MacAddress ncp) @ pad,
                        ios2_DstAddr := take ETHER_ADDR_SIZE (ncp_ROMAddress ncp) @ pad\<rparr>))"

section \<open>Multicast ranges\<close>

definition crc_bit :: "u32 \<Rightarrow> bool \<Rightarrow> u32" where
  "crc_bit crc b = push_bit 1 crc XOR (if bit crc 31 \<noteq> b then 0x04c11db7 else 0)"

definition crc_byte :: "u32 \<Rightarrow> u8 \<Rightarrow> u32" where
  "crc_byte crc c = foldl crc_bit crc (map (bit c) [0..<8])"

definition ether_crc :: "bytes \<Rightarrow> u32" where
  "ether_crc d = foldl crc_byte 0xffffffff d"

definition mcast_hash :: "bytes \<Rightarrow> nat" where
  "mcast_hash a = unat (drop_bit 26 (ether_crc a))"

definition set_hash :: "bytes \<Rightarrow> nat \<Rightarrow> bytes" where
  "set_hash arr h = arr[h div 8 := arr ! (h div 8) OR push_bit (h mod 8) 1]"

fun inc_rev :: "bytes \<Rightarrow> bytes" where
  "inc_rev [] = []"
| "inc_rev (b # bs) = (if b + 1 \<noteq> 0 then (b + 1) # bs else 0 # inc_rev bs)"

definition addr_succ :: "bytes \<Rightarrow> bytes" where
  "addr_succ a = rev (inc_rev (rev a))"

partial_function (option) range_loop :: "bytes \<Rightarrow> bytes \<Rightarrow> bytes \<Rightarrow> bytes option" where
  "range_loop upper addr arr =
     (let arr' = set_hash arr (mcast_hash addr)
      in if addr = upper then Some arr' else range_loop upper (addr_succ addr) arr')"

fun ranges_loop :: "mcast_range list \<Rightarrow> bytes \<Rightarrow> bytes option" where
  "ranges_loop [] arr = Some arr"
| "ranges_loop (m # ms) arr =
     (case range_loop (mar_UpperAddr m) (mar_LowerAddr m) arr of
        None \<Rightarrow> None | Some arr' \<Rightarrow> ranges_loop ms arr')"

definition UpdateMulticastHash :: "nepEth \<Rightarrow> nepEth option" where
  "UpdateMulticastHash ncp =
     (if ncp_Prom ncp then Some (ncp\<lparr>ncp_MulticastArray := replicate 8 0xff\<rparr>)
      else map_option (\<lambda>arr. ncp\<lparr>ncp_MulticastArray := arr\<rparr>)
             (ranges_loop (ncp_Multicasts ncp) (replicate 8 0)))"

definition same_range :: "bytes \<Rightarrow> bytes \<Rightarrow> mcast_range \<Rightarrow> bool" where
  "same_range lower upper m \<longleftrightarrow> mar_LowerAddr m = lower \<and> mar_UpperAddr m = upper"

fun inc_range :: "bytes \<Rightarrow> bytes \<Rightarrow> mcast_range list \<Rightarrow> mcast_range list option" where
  "inc_range lower upper [] = None"
| "inc_range lower upper (m # ms) =
     (if same_range lower upper m then Some (m\<lparr>mar_UseCount := mar_UseCount m + 1\<rparr> # ms)
      else map_option (Cons m) (inc_range lower upper ms))"

text \<open>The list after the release, and whether the range was removed.\<close>

fun dec_range :: "bytes \<Rightarrow> bytes \<Rightarrow> mcast_range list \<Rightarrow> (mcast_range list \<times> bool) option" where
  "dec_range lower upper [] = None"
| "dec_range lower upper (m # ms) =
     (if same_range lower upper m
      then if mar_UseCount m - 1 = 0 then Some (ms, True)
           else Some (m\<lparr>mar_UseCount := mar_UseCount m - 1\<rparr> # ms, False)
      else map_option (\<lambda>(ms', g). (m # ms', g)) (dec_range lower upper ms))"

definition AddMCastRange ::
  "nat option \<Rightarrow> nepEth \<Rightarrow> sana2req \<Rightarrow> bytes \<Rightarrow> bytes \<Rightarrow> (int \<times> nepEth \<times> sana2req) option" where
  "AddMCastRange mem ncp r lower upper =
     (if lower ! 0 AND 1 = 0 \<or> upper ! 0 AND 1 = 0
      then Some (deverror S2ERR_BAD_ADDRESS S2WERR_BAD_MULTICAST, ncp, r)
      else case inc_range lower upper (ncp_Multicasts ncp) of
             Some ms \<Rightarrow> Some (RC_OK, ncp\<lparr>ncp_Multicasts := ms\<rparr>, r)
           | None \<Rightarrow>
               if mem = None then Some (deverror S2ERR_NO_RESOURCES S2WERR_GENERIC_ERROR, ncp, r)
               else map_option (\<lambda>n. put_unit n r)
                      (UpdateMulticastHash (ncp\<lparr>ncp_Multicasts := ncp_Multicasts ncp @
                         [\<lparr>mar_UseCount = 1, mar_LowerAddr = lower, mar_UpperAddr = upper\<rparr>]\<rparr>)))"

definition DelMCastRange ::
  "nepEth \<Rightarrow> sana2req \<Rightarrow> bytes \<Rightarrow> bytes \<Rightarrow> (int \<times> nepEth \<times> sana2req) option" where
  "DelMCastRange ncp r lower upper =
     (case dec_range lower upper (ncp_Multicasts ncp) of
        None \<Rightarrow> Some (deverror S2ERR_BAD_STATE S2WERR_BAD_MULTICAST, ncp, r)
      | Some (ms, gone) \<Rightarrow>
          if gone
          then map_option (\<lambda>n. put_unit n r) (UpdateMulticastHash (ncp\<lparr>ncp_Multicasts := ms\<rparr>))
          else Some (RC_OK, ncp\<lparr>ncp_Multicasts := ms\<rparr>, r))"

definition eth_addr :: "bytes \<Rightarrow> bytes" where
  "eth_addr a = take ETHER_ADDR_SIZE a"

definition cmdAddMulticastAddress where
  "cmdAddMulticastAddress mem ncp r =
     AddMCastRange mem ncp r (eth_addr (ios2_SrcAddr r)) (eth_addr (ios2_SrcAddr r))"

definition cmdDelMulticastAddress where
  "cmdDelMulticastAddress ncp r =
     DelMCastRange ncp r (eth_addr (ios2_SrcAddr r)) (eth_addr (ios2_SrcAddr r))"

definition cmdAddMulticastAddresses where
  "cmdAddMulticastAddresses mem ncp r =
     AddMCastRange mem ncp r (eth_addr (ios2_SrcAddr r)) (eth_addr (ios2_DstAddr r))"

definition cmdDelMulticastAddresses where
  "cmdDelMulticastAddresses ncp r =
     DelMCastRange ncp r (eth_addr (ios2_SrcAddr r)) (eth_addr (ios2_DstAddr r))"

section \<open>Packet type statistics\<close>

text \<open>A pointer to a node's statistics is the node's address.\<close>

fun find_track :: "u32 \<Rightarrow> track_node list \<Rightarrow> track_node option" where
  "find_track t [] = None"
| "find_track t (p # ps) = (if pts_PacketType p = t then Some p else find_track t ps)"

definition FindPacketTypeStats :: "nepEth \<Rightarrow> u32 \<Rightarrow> nat option" where
  "FindPacketTypeStats ncp t =
     (if t = 2048 then ncp_TypeStats2048 ncp
      else if t = 2054 then ncp_TypeStats2054 ncp
      else map_option pts_Node (find_track t (ncp_TrackList ncp)))"

fun track_at :: "nat \<Rightarrow> track_node list \<Rightarrow> typestats option" where
  "track_at a [] = None"
| "track_at a (p # ps) = (if pts_Node p = a then Some (pts_Stats p) else track_at a ps)"

fun upd_track :: "nat \<Rightarrow> (typestats \<Rightarrow> typestats) \<Rightarrow> track_node list \<Rightarrow> track_node list" where
  "upd_track a f [] = []"
| "upd_track a f (p # ps) =
     (if pts_Node p = a then p\<lparr>pts_Stats := f (pts_Stats p)\<rparr> # ps else p # upd_track a f ps)"

definition no_stats :: typestats where
  "no_stats = \<lparr>ts_PacketsSent = 0, ts_PacketsReceived = 0, ts_BytesSent = 0, ts_BytesReceived = 0,
     ts_PacketsDropped = 0\<rparr>"

definition cmdTrackType :: "nat option \<Rightarrow> nepEth \<Rightarrow> sana2req \<Rightarrow> int \<times> nepEth \<times> sana2req" where
  "cmdTrackType mem ncp r =
     (let t = ios2_PacketType r
      in if find_track t (ncp_TrackList ncp) \<noteq> None
         then (deverror S2ERR_BAD_STATE S2WERR_ALREADY_TRACKED, ncp, r)
         else case mem of
                None \<Rightarrow> (deverror S2ERR_NO_RESOURCES S2WERR_NOT_TRACKED,
                         ncp\<lparr>ncp_ForbidCnt := ncp_ForbidCnt ncp + 1\<rparr>, r)
              | Some a \<Rightarrow>
                  let ncp = ncp\<lparr>ncp_TrackList := ncp_TrackList ncp @
                        [\<lparr>pts_Node = a, pts_PacketType = t, pts_Stats = no_stats\<rparr>]\<rparr>
                  in (RC_OK,
                      (if t = 2048 then ncp\<lparr>ncp_TypeStats2048 := Some a\<rparr>
                       else if t = 2054 then ncp\<lparr>ncp_TypeStats2054 := Some a\<rparr> else ncp), r))"

fun del_track :: "u32 \<Rightarrow> track_node list \<Rightarrow> track_node list" where
  "del_track t [] = []"
| "del_track t (p # ps) = (if pts_PacketType p = t then ps else p # del_track t ps)"

definition cmdUntrackType :: "nepEth \<Rightarrow> sana2req \<Rightarrow> int \<times> nepEth \<times> sana2req" where
  "cmdUntrackType ncp r =
     (let t = ios2_PacketType r
      in if find_track t (ncp_TrackList ncp) = None
         then (deverror S2ERR_BAD_STATE S2WERR_NOT_TRACKED, ncp, r)
         else let ncp = ncp\<lparr>ncp_TrackList := del_track t (ncp_TrackList ncp)\<rparr>
              in (RC_OK,
                  (if t = 2048 then ncp\<lparr>ncp_TypeStats2048 := None\<rparr>
                   else if t = 2054 then ncp\<lparr>ncp_TypeStats2054 := None\<rparr> else ncp), r))"

definition stat_out :: "sana2req \<Rightarrow> statdata \<Rightarrow> sana_out \<Rightarrow> sana2req" where
  "stat_out r d x = r\<lparr>ios2_StatData := Some (d\<lparr>sd_Out := x\<rparr>)\<rparr>"

definition cmdGetTypeStats :: "nepEth \<Rightarrow> sana2req \<Rightarrow> int \<times> nepEth \<times> sana2req" where
  "cmdGetTypeStats ncp r =
     (case ios2_StatData r of
        None \<Rightarrow> (deverror S2ERR_BAD_ARGUMENT S2WERR_NULL_POINTER, ncp, r)
      | Some d \<Rightarrow>
          (case Option.bind (FindPacketTypeStats ncp (ios2_PacketType r))
                  (\<lambda>a. track_at a (ncp_TrackList ncp)) of
             Some st \<Rightarrow> (RC_OK, ncp, stat_out r d (Out_TypeStats st))
           | None \<Rightarrow> (deverror S2ERR_BAD_STATE S2WERR_NOT_TRACKED, ncp, r)))"

definition cmdGetSpecialStats :: "nepEth \<Rightarrow> sana2req \<Rightarrow> int \<times> nepEth \<times> sana2req" where
  "cmdGetSpecialStats ncp r =
     (case ios2_StatData r of
        None \<Rightarrow> (deverror S2ERR_BAD_ARGUMENT S2WERR_NULL_POINTER, ncp, r)
      | Some d \<Rightarrow> (RC_OK, ncp, stat_out r d (Out_Special (take (sd_First d)
                    [(0x10000, ncp_BadMulticasts ncp), (0x10001, ncp_Retries ncp)]))))"

definition cmdGetGlobalStats :: "nepEth \<Rightarrow> sana2req \<Rightarrow> int \<times> nepEth \<times> sana2req" where
  "cmdGetGlobalStats ncp r =
     (case ios2_StatData r of
        None \<Rightarrow> (deverror S2ERR_BAD_ARGUMENT S2WERR_NULL_POINTER, ncp, r)
      | Some d \<Rightarrow> (RC_OK, ncp, stat_out r d (Out_Global (ncp_DeviceStats ncp))))"

text \<open>
  \<open>qsize\<close> is the size of \<open>struct Sana2DeviceQuery\<close> in the SANA-II header the class is built with.
\<close>

definition cmdDeviceQuery :: "nat \<Rightarrow> nepEth \<Rightarrow> sana2req \<Rightarrow> int \<times> nepEth \<times> sana2req" where
  "cmdDeviceQuery qsize ncp r =
     (case ios2_StatData r of
        None \<Rightarrow> (deverror S2ERR_BAD_ARGUMENT S2WERR_NULL_POINTER, ncp, r)
      | Some d \<Rightarrow>
          if sd_First d < qsize
          then (deverror S2ERR_BAD_ARGUMENT S2WERR_BAD_STATDATA, ncp, stat_out r d Out_NoRoom)
          else (RC_OK, ncp, stat_out r d
                 (Out_Query qsize (ETHER_ADDR_SIZE * 8) ETHERPKT_SIZE 10000000)))"

definition NSDSupported :: "sana_cmd list" where
  "NSDSupported = [CMD_FLUSH, CMD_READ, CMD_WRITE, S2_DEVICEQUERY, S2_GETSTATIONADDRESS,
     S2_CONFIGINTERFACE, S2_ADDMULTICASTADDRESS, S2_DELMULTICASTADDRESS, S2_MULTICAST, S2_BROADCAST,
     S2_TRACKTYPE, S2_UNTRACKTYPE, S2_GETTYPESTATS, S2_GETSPECIALSTATS, S2_GETGLOBALSTATS,
     S2_ONEVENT, S2_READORPHAN, S2_ONLINE, S2_OFFLINE, NSCMD_DEVICEQUERY,
     S2_ADDMULTICASTADDRESSES, S2_DELMULTICASTADDRESSES]"

definition NSQ_SIZE :: nat where "NSQ_SIZE = 16"

definition cmdNSDeviceQuery :: "nepEth \<Rightarrow> sana2req \<Rightarrow> int \<times> nepEth \<times> sana2req" where
  "cmdNSDeviceQuery ncp r =
     (case io_NSQuery r of
        Some q \<Rightarrow>
          if io_Length r < NSQ_SIZE \<or> nq_Format q \<noteq> 0 \<or> nq_SizeAvailable q \<noteq> 0
          then let r = r\<lparr>io_Error := IOERR_NOCMD\<rparr> in (RC_DONTREPLY, TermIO ncp r, r)
          else (RC_OK, ncp, r\<lparr>io_NSQuery :=
                  Some (q\<lparr>nq_SizeAvailable := NSQ_SIZE, nq_Commands := NSDSupported\<rparr>)\<rparr>)
      | None \<Rightarrow> let r = r\<lparr>io_Error := IOERR_NOCMD\<rparr> in (RC_DONTREPLY, TermIO ncp r, r))"

section \<open>The device's entry points\<close>

definition dispatch ::
  "nat \<Rightarrow> nat option \<Rightarrow> nepEth \<Rightarrow> sana2req \<Rightarrow> (int \<times> nepEth \<times> sana2req) option" where
  "dispatch qsize mem ncp r =
     (case io_Command r of
        CMD_READ \<Rightarrow> Some (cmdRead ncp r)
      | CMD_FLUSH \<Rightarrow> Some (cmdFlush ncp r)
      | CMD_WRITE \<Rightarrow> Some (cmdWrite ncp r)
      | S2_GETSTATIONADDRESS \<Rightarrow> Some (cmdGetStationAddress ncp r)
      | S2_DEVICEQUERY \<Rightarrow> Some (cmdDeviceQuery qsize ncp r)
      | S2_CONFIGINTERFACE \<Rightarrow> Some (cmdConfigInterface ncp r)
      | S2_ADDMULTICASTADDRESS \<Rightarrow> cmdAddMulticastAddress mem ncp r
      | S2_DELMULTICASTADDRESS \<Rightarrow> cmdDelMulticastAddress ncp r
      | S2_MULTICAST \<Rightarrow> Some (cmdMulticast ncp r)
      | S2_BROADCAST \<Rightarrow> Some (cmdBroadcast ncp r)
      | S2_TRACKTYPE \<Rightarrow> Some (cmdTrackType mem ncp r)
      | S2_UNTRACKTYPE \<Rightarrow> Some (cmdUntrackType ncp r)
      | S2_GETTYPESTATS \<Rightarrow> Some (cmdGetTypeStats ncp r)
      | S2_GETSPECIALSTATS \<Rightarrow> Some (cmdGetSpecialStats ncp r)
      | S2_GETGLOBALSTATS \<Rightarrow> Some (cmdGetGlobalStats ncp r)
      | S2_ONEVENT \<Rightarrow> Some (cmdOnEvent ncp r)
      | S2_READORPHAN \<Rightarrow> Some (cmdReadOrphan ncp r)
      | S2_ONLINE \<Rightarrow> Some (cmdOnline ncp r)
      | S2_OFFLINE \<Rightarrow> Some (cmdOffline ncp r)
      | NSCMD_DEVICEQUERY \<Rightarrow> Some (cmdNSDeviceQuery ncp r)
      | S2_ADDMULTICASTADDRESSES \<Rightarrow> cmdAddMulticastAddresses mem ncp r
      | S2_DELMULTICASTADDRESSES \<Rightarrow> cmdDelMulticastAddresses ncp r
      | CMD_OTHER \<Rightarrow> Some (IOERR_NOCMD, ncp, r))"

definition devBeginIO :: "nat \<Rightarrow> nat option \<Rightarrow> nepEth \<Rightarrow> sana2req \<Rightarrow> nepEth option" where
  "devBeginIO qsize mem ncp r =
     (case dispatch qsize mem ncp (r\<lparr>ios_Type := NT_MESSAGE, io_Error := 0\<rparr>) of
        None \<Rightarrow> None
      | Some (ret, ncp', r') \<Rightarrow>
          Some (if ret = RC_DONTREPLY then ncp'
                else TermIO ncp' (if ret \<noteq> RC_OK then set_error ret r' else r')))"

fun abort_read :: "nepEth \<Rightarrow> bufman list \<Rightarrow> nat \<Rightarrow> nepEth \<times> bufman list" where
  "abort_read ncp [] i = (ncp, [])"
| "abort_read ncp (b # bs) i =
     (let (ncp', rx, hit) = AbortReq ncp (bm_RXQueue b) i
      in if hit then (ncp', b\<lparr>bm_RXQueue := rx\<rparr> # bs)
         else let (ncp'', bs') = abort_read ncp' bs i in (ncp'', b\<lparr>bm_RXQueue := rx\<rparr> # bs'))"

definition devAbortIO :: "nepEth \<Rightarrow> sana2req \<Rightarrow> nepEth" where
  "devAbortIO ncp r =
     (if ios_Type r = NT_MESSAGE
      then if io_Command r = CMD_READ
           then let (n, bs) = abort_read ncp (ncp_BufManList ncp) (ios_Id r)
                in n\<lparr>ncp_BufManList := bs\<rparr>
           else if io_Command r = S2_READORPHAN
           then let (n, l, _) = AbortReq ncp (ncp_OrphanQueue ncp) (ios_Id r)
                in n\<lparr>ncp_OrphanQueue := l\<rparr>
           else if io_Command r \<in> {CMD_WRITE, S2_MULTICAST, S2_BROADCAST}
           then let (n, l, _) = AbortReq ncp (ncp_WriteQueue ncp) (ios_Id r)
                in n\<lparr>ncp_WriteQueue := l\<rparr>
           else if io_Command r \<in> {S2_ONLINE, S2_OFFLINE, S2_CONFIGINTERFACE,
                S2_ADDMULTICASTADDRESS, S2_DELMULTICASTADDRESS, S2_ADDMULTICASTADDRESSES,
                S2_DELMULTICASTADDRESSES}
           then let (n, l, _) = AbortReq ncp (ncp_UnitPort ncp) (ios_Id r)
                in n\<lparr>ncp_UnitPort := l\<rparr>
           else if io_Command r = S2_ONEVENT
           then let (n, l, _) = AbortReq ncp (ncp_EventList ncp) (ios_Id r)
                in n\<lparr>ncp_EventList := l\<rparr>
           else ncp
      else ncp)"

section \<open>Laws: replies\<close>

lemma reply_all_eq:
  "reply_all f ncp rs =
     ncp\<lparr>ncp_Replied := ncp_Replied ncp @ map (\<lambda>r. (f r)\<lparr>ios_Type := NT_REPLYMSG\<rparr>) rs\<rparr>"
  by (induction rs arbitrary: ncp) (simp_all add: ReplyMsg_def)

lemma nDoEvent_eq:
  "nDoEvent ncp ev =
     ncp\<lparr>ncp_EventList := filter (\<lambda>r. ios2_WireError r AND ev = 0) (ncp_EventList ncp),
         ncp_Replied := ncp_Replied ncp @ map (\<lambda>r. r\<lparr>ios_Type := NT_REPLYMSG\<rparr>)
            (filter (\<lambda>r. ios2_WireError r AND ev \<noteq> 0) (ncp_EventList ncp))\<rparr>"
  by (simp add: nDoEvent_def reply_all_eq Let_def)

section \<open>Laws: where a request is\<close>

text \<open>
  The numbers of all requests the unit knows, wherever they are: in a queue, being sent, handed
  to the task, or finished.
\<close>

definition idm :: "sana2req list \<Rightarrow> nat multiset" where
  "idm l = image_mset ios_Id (mset l)"

definition rx_reqs :: "nepEth \<Rightarrow> sana2req list" where
  "rx_reqs ncp = concat (map bm_RXQueue (ncp_BufManList ncp))"

definition ids :: "nepEth \<Rightarrow> nat multiset" where
  "ids ncp = idm (rx_reqs ncp) + idm (ncp_EventList ncp) + idm (ncp_OrphanQueue ncp) +
     idm (ncp_WriteQueue ncp) + idm (ncp_UnitPort ncp) +
     idm (case ncp_WritePending ncp of None \<Rightarrow> [] | Some r \<Rightarrow> [r]) +
     idm (ncp_Replied ncp) + idm (ncp_Quick ncp)"

lemma idm_simps [simp]:
  "idm [] = {#}" "idm (r # rs) = add_mset (ios_Id r) (idm rs)" "idm (xs @ ys) = idm xs + idm ys"
  by (simp_all add: idm_def)

lemma idm_map [simp]: "(\<And>r. ios_Id (f r) = ios_Id r) \<Longrightarrow> idm (map f l) = idm l"
  by (induction l) simp_all

lemma idm_filter: "idm (filter (\<lambda>r. \<not> P r) l) + idm (filter P l) = idm l"
  by (induction l) simp_all

lemma set_error_id [simp]: "ios_Id (set_error e r) = ios_Id r"
  by (simp add: set_error_def)

lemma ids_ReplyMsg [simp]: "ids (ReplyMsg ncp r) = add_mset (ios_Id r) (ids ncp)"
  by (simp add: ids_def ReplyMsg_def rx_reqs_def)

lemma ids_TermIO [simp]: "ids (TermIO ncp r) = add_mset (ios_Id r) (ids ncp)"
  by (simp add: TermIO_def Let_def) (simp add: ids_def rx_reqs_def)

lemma ids_nDoEvent [simp]: "ids (nDoEvent ncp ev) = ids ncp"
  using idm_filter [of "\<lambda>r. ios2_WireError r AND ev \<noteq> 0" "ncp_EventList ncp"]
  by (simp add: ids_def nDoEvent_eq rx_reqs_def ac_simps)

lemma ids_put_unit: "put_unit ncp r = (ret, ncp', r') \<Longrightarrow>
    ret = RC_DONTREPLY \<and> ids ncp' = add_mset (ios_Id r) (ids ncp)"
  by (auto simp: put_unit_def Let_def ids_def rx_reqs_def)

section \<open>Laws: the buffer management nodes\<close>

text \<open>What of a node never changes: all but its queue.\<close>

definition core :: "bufman \<Rightarrow> bufman" where "core b = b\<lparr>bm_RXQueue := []\<rparr>"

lemma core_simps [simp]:
  "core (b\<lparr>bm_RXQueue := q\<rparr>) = core b" "bm_Id (core b) = bm_Id b"
  "bm_CopyToBuf (core b) = bm_CopyToBuf b" "bm_CopyFromBuf (core b) = bm_CopyFromBuf b"
  "bm_PacketFilter (core b) = bm_PacketFilter b"
  by (simp_all add: core_def)

lemma core_upd: "(\<And>b. core (f b) = core b) \<Longrightarrow> map core (upd_bufman i f bs) = map core bs"
  by (induction bs) auto

lemma find_core: "map_option core (find_bufman i bs) = find_bufman i (map core bs)"
  by (induction bs) auto

lemma find_bufman_mem: "find_bufman i bs = Some b \<Longrightarrow> b \<in> set bs \<and> bm_Id b = i"
  by (induction bs) (auto split: if_splits)

lemma find_upd: "(\<And>b. bm_Id (f b) = bm_Id b) \<Longrightarrow>
    find_bufman j (upd_bufman i f bs) =
    map_option (\<lambda>b. if i = j then f b else b) (find_bufman j bs)"
  by (induction bs) (auto simp: option.map_ident)

lemma upd_bufman_id: "find_bufman i bs = None \<Longrightarrow> upd_bufman i f bs = bs"
  by (induction bs) (auto split: if_splits)

lemma idm_upd:
  "find_bufman i bs = Some b \<Longrightarrow>
   idm (concat (map bm_RXQueue (upd_bufman i f bs))) + idm (bm_RXQueue b) =
   idm (concat (map bm_RXQueue bs)) + idm (bm_RXQueue (f b))"
  by (induction bs) (auto split: if_splits)

lemma core_ids: "map core bs = map core bs' \<Longrightarrow> map bm_Id bs = map bm_Id bs'"
proof -
  assume "map core bs = map core bs'"
  then have "map bm_Id (map core bs) = map bm_Id (map core bs')" by simp
  then show ?thesis by (simp add: comp_def)
qed

lemma req_core:
  "map core (ncp_BufManList n) = map core (ncp_BufManList n') \<Longrightarrow>
   map_option core (req_bufman n r) = map_option core (req_bufman n' r)"
  by (cases "ios2_BufferManagement r") (simp_all add: req_bufman_def find_core)

section \<open>Laws: address ranges\<close>

fun le_nat :: "bytes \<Rightarrow> nat" where
  "le_nat [] = 0"
| "le_nat (b # bs) = unat b + 256 * le_nat bs"

text \<open>A station address as a number, first byte most significant.\<close>

definition addr_nat :: "bytes \<Rightarrow> nat" where
  "addr_nat a = le_nat (rev a)"

lemma le_nat_less: "le_nat bs < 256 ^ length bs"
proof (induction bs)
  case (Cons b bs)
  have "unat b + 256 * le_nat bs < 256 * (le_nat bs + 1)" using unat_u8_less [of b] by simp
  also have "\<dots> \<le> 256 * 256 ^ length bs" using Cons by (simp only: mult_le_mono2 Suc_eq_plus1 [symmetric] Suc_leI)
  finally show ?case by simp
qed simp

lemma u8_max: "(b :: u8) + 1 = 0 \<longleftrightarrow> unat b = 255"
  using unat_u8_less [of b] by (simp add: word_unat_eq_iff unat_word_ariths) presburger

lemma u8_succ: "(b :: u8) + 1 \<noteq> 0 \<Longrightarrow> unat (b + 1) = unat b + 1"
  using unat_u8_less [of b] u8_max [of b] by (simp add: unat_word_ariths)

lemma length_inc_rev [simp]: "length (inc_rev bs) = length bs"
  by (induction bs) simp_all

lemma le_nat_inc: "le_nat (inc_rev bs) = (le_nat bs + 1) mod 256 ^ length bs"
proof (induction bs)
  case (Cons b bs)
  show ?case
  proof (cases "b + 1 = 0")
    case True
    then have "unat b = 255" by (simp add: u8_max)
    then show ?thesis using Cons True
      by (simp add: mult_mod_right)
  next
    case False
    then have "le_nat (inc_rev (b # bs)) = le_nat (b # bs) + 1" using u8_succ [of b] by simp
    moreover have "le_nat (inc_rev (b # bs)) < 256 ^ length (b # bs)"
      using le_nat_less [of "inc_rev (b # bs)"] length_inc_rev [of "b # bs"] by metis
    ultimately show ?thesis by (metis mod_less)
  qed
qed simp

lemma le_nat_inj: "length xs = length ys \<Longrightarrow> le_nat xs = le_nat ys \<Longrightarrow> xs = ys"
proof (induction xs ys rule: list_induct2)
  case (Cons x xs y ys)
  have "unat x = (unat x + 256 * le_nat xs) mod 256" using unat_u8_less [of x] by simp
  also have "\<dots> = (unat y + 256 * le_nat ys) mod 256" using Cons.prems by simp
  also have "\<dots> = unat y" using unat_u8_less [of y] by simp
  finally have "x = y" by (simp add: word_unat_eq_iff)
  then show ?case using Cons by simp
qed simp

lemma addr_succ_props [simp]: "length (addr_succ a) = length a"
  by (simp add: addr_succ_def)

lemma addr_nat_succ: "addr_nat (addr_succ a) = (addr_nat a + 1) mod 256 ^ length a"
  by (simp add: addr_nat_def addr_succ_def le_nat_inc)

lemma addr_nat_less: "addr_nat a < 256 ^ length a"
  using le_nat_less [of "rev a"] by (simp add: addr_nat_def)

lemma addr_nat_inj: "length a = length b \<Longrightarrow> addr_nat a = addr_nat b \<Longrightarrow> a = b"
  using le_nat_inj [of "rev a" "rev b"] by (simp add: addr_nat_def)

lemma addr_iter: "length ((addr_succ ^^ n) a) = length a \<and>
    addr_nat ((addr_succ ^^ n) a) = (addr_nat a + n) mod 256 ^ length a"
  by (induction n) (simp_all add: addr_nat_less addr_nat_succ mod_simps)

text \<open>How many steps \<open>addr_succ\<close> takes from one address to another.\<close>

definition addr_dist :: "bytes \<Rightarrow> bytes \<Rightarrow> nat" where
  "addr_dist a b = (addr_nat b + 256 ^ length a - addr_nat a) mod 256 ^ length a"

lemma dist_nat:
  "(a :: nat) < m \<Longrightarrow> b < m \<Longrightarrow> (b + m - a) mod m = (if a \<le> b then b - a else b + m - a)"
proof (cases "a \<le> b")
  case True
  assume "a < m" "b < m"
  have "b + m - a = (b - a) + m" using True by simp
  then have "(b + m - a) mod m = (b - a) mod m" by (metis mod_add_self2)
  then show ?thesis using True \<open>b < m\<close> by simp
qed simp

lemma addr_dist_eq: "length a = length b \<Longrightarrow>
    addr_dist a b = (if addr_nat a \<le> addr_nat b then addr_nat b - addr_nat a
                     else addr_nat b + 256 ^ length a - addr_nat a)"
  unfolding addr_dist_def using addr_nat_less [of a] addr_nat_less [of b] by (intro dist_nat) simp_all

lemma addr_dist_less: "addr_dist a b < 256 ^ length a"
  by (simp add: addr_dist_def)

lemma addr_dist_0: "length a = length b \<Longrightarrow> addr_dist a b = 0 \<longleftrightarrow> a = b"
proof -
  assume l: "length a = length b"
  have "addr_dist a b = 0 \<longleftrightarrow> addr_nat a = addr_nat b"
    unfolding addr_dist_eq [OF l] using addr_nat_less [of a] by simp linarith
  then show ?thesis using addr_nat_inj [OF l] by auto
qed

lemma addr_dist_succ:
  assumes "length a = length b" and "a \<noteq> b"
  shows "addr_dist a b = Suc (addr_dist (addr_succ a) b)"
proof -
  let ?m = "256 ^ length a :: nat"
  have lt: "addr_nat a < ?m" "addr_nat b < ?m" using addr_nat_less [of a] addr_nat_less [of b] assms by simp_all
  have ne: "addr_nat a \<noteq> addr_nat b" using addr_nat_inj [OF assms(1)] assms(2) by auto
  have s: "addr_nat (addr_succ a) = (if addr_nat a + 1 = ?m then 0 else addr_nat a + 1)"
    using lt by (simp add: addr_nat_succ)
  show ?thesis
  proof (cases "addr_nat a + 1 = ?m")
    case True
    then have "addr_nat (addr_succ a) = 0" using s by simp
    then show ?thesis using True lt ne assms(1)
      unfolding addr_dist_eq [OF assms(1)] by (subst addr_dist_eq) auto
  next
    case False
    then have "addr_nat (addr_succ a) = addr_nat a + 1" using s by simp
    then show ?thesis using lt ne assms(1)
      unfolding addr_dist_eq [OF assms(1)] by (subst addr_dist_eq) auto
  qed
qed

section \<open>Laws: the multicast hash\<close>

lemma range_loop_ends:
  "length addr = length upper \<Longrightarrow>
   range_loop upper addr arr =
     Some (foldl set_hash arr (map (\<lambda>i. mcast_hash ((addr_succ ^^ i) addr)) [0..<Suc (addr_dist addr upper)]))"
proof (induction "addr_dist addr upper" arbitrary: addr arr)
  case 0
  then have "addr = upper" using addr_dist_0 [of addr upper] by simp
  then show ?case using 0 by (simp add: range_loop.simps)
next
  case (Suc d)
  then have ne: "addr \<noteq> upper" by (auto simp: addr_dist_def)
  with Suc have d: "d = addr_dist (addr_succ addr) upper" using addr_dist_succ [of addr upper] by simp
  have "range_loop upper addr arr =
      range_loop upper (addr_succ addr) (set_hash arr (mcast_hash addr))"
    using ne by (subst range_loop.simps) simp
  also have "\<dots> = Some (foldl set_hash (set_hash arr (mcast_hash addr))
      (map (\<lambda>i. mcast_hash ((addr_succ ^^ i) (addr_succ addr))) [0..<Suc d]))"
    using Suc.hyps(1) [OF d] Suc.prems d by simp
  also have "\<dots> = Some (foldl set_hash arr
      (map (\<lambda>i. mcast_hash ((addr_succ ^^ i) addr)) [0..<Suc (Suc d)]))"
  proof -
    have "[0..<Suc (Suc d)] = 0 # map Suc [0..<Suc d]" by (metis map_Suc_upt upt_conv_Cons zero_less_Suc)
    then show ?thesis by (simp only: list.map foldl_Cons funpow_0 map_map comp_def funpow_Suc_right)
  qed
  finally show ?case using Suc.hyps(2) by simp
qed

text \<open>The filter bit of a hash, and the addresses of a range (it may wrap around).\<close>

definition hash_bit :: "bytes \<Rightarrow> nat \<Rightarrow> bool" where
  "hash_bit arr h = bit (arr ! (h div 8)) (h mod 8)"

definition in_range :: "mcast_range \<Rightarrow> bytes \<Rightarrow> bool" where
  "in_range m a \<longleftrightarrow> length a = length (mar_LowerAddr m) \<and>
     addr_dist (mar_LowerAddr m) a \<le> addr_dist (mar_LowerAddr m) (mar_UpperAddr m)"

lemma mcast_hash_less: "mcast_hash a < 64"
proof -
  have "unat (ether_crc a) < 2 ^ 32" using unsigned_less [of "ether_crc a"] by simp
  then show ?thesis
    by (simp add: mcast_hash_def drop_bit_eq_div unat_div less_mult_imp_div_less)
qed

lemma length_set_hash [simp]: "length (set_hash arr h) = length arr"
  by (simp add: set_hash_def)

lemma set_hash_bit:
  assumes "length arr = 8" and "h < 64" and "k < 64"
  shows "hash_bit (set_hash arr h) k \<longleftrightarrow> hash_bit arr k \<or> h = k"
proof -
  have lt: "h div 8 < 8" "k div 8 < 8" "k mod 8 < 8" using assms by simp_all
  have eq: "h = k \<longleftrightarrow> h div 8 = k div 8 \<and> h mod 8 = k mod 8" by (metis div_mult_mod_eq)
  show ?thesis
    using lt assms(1) eq by (auto simp: hash_bit_def set_hash_def nth_list_update bit_simps)
qed

lemma foldl_set_hash:
  "length arr = 8 \<Longrightarrow> \<forall>h \<in> set hs. h < 64 \<Longrightarrow> k < 64 \<Longrightarrow>
   length (foldl set_hash arr hs) = 8 \<and>
   (hash_bit (foldl set_hash arr hs) k \<longleftrightarrow> hash_bit arr k \<or> k \<in> set hs)"
  by (induction hs arbitrary: arr) (auto simp: set_hash_bit)

text \<open>The addresses the loop visits are those of the range.\<close>

lemma addr_dist_iter:
  assumes "length a = length b" and "i < 256 ^ length a"
  shows "(addr_succ ^^ i) a = b \<longleftrightarrow> addr_dist a b = i"
proof -
  let ?m = "256 ^ length a :: nat"
  have la: "addr_nat a < ?m" "addr_nat b < ?m" using addr_nat_less [of a] addr_nat_less [of b] assms by simp_all
  have it: "length ((addr_succ ^^ i) a) = length a" "addr_nat ((addr_succ ^^ i) a) = (addr_nat a + i) mod ?m"
    using addr_iter [of i a] by simp_all
  have "(addr_succ ^^ i) a = b \<longleftrightarrow> (addr_nat a + i) mod ?m = addr_nat b"
    using it addr_nat_inj [of "(addr_succ ^^ i) a" b] assms(1) by auto
  also have "\<dots> \<longleftrightarrow> addr_dist a b = i"
  proof (cases "addr_nat a + i < ?m")
    case True
    then show ?thesis unfolding addr_dist_eq [OF assms(1)] using la by auto
  next
    case False
    then have "(addr_nat a + i) mod ?m = addr_nat a + i - ?m"
      using la assms(2) by (simp add: mod_if)
    then show ?thesis unfolding addr_dist_eq [OF assms(1)] using la False assms(2) by auto
  qed
  finally show ?thesis .
qed

lemma range_visits:
  assumes "length (mar_LowerAddr m) = length (mar_UpperAddr m)"
  shows "set (map (\<lambda>i. mcast_hash ((addr_succ ^^ i) (mar_LowerAddr m)))
      [0..<Suc (addr_dist (mar_LowerAddr m) (mar_UpperAddr m))]) = mcast_hash ` {a. in_range m a}"
proof -
  let ?l = "mar_LowerAddr m" and ?d = "addr_dist (mar_LowerAddr m) (mar_UpperAddr m)"
  have d: "?d < 256 ^ length ?l" by (rule addr_dist_less)
  have "{(addr_succ ^^ i) ?l | i. i \<le> ?d} = {a. in_range m a}"
  proof safe
    fix i assume "i \<le> ?d"
    then have "i < 256 ^ length ?l" using d by simp
    then have "addr_dist ?l ((addr_succ ^^ i) ?l) = i"
      using addr_dist_iter [of ?l "(addr_succ ^^ i) ?l" i] addr_iter [of i ?l] by simp
    then show "in_range m ((addr_succ ^^ i) ?l)"
      using \<open>i \<le> ?d\<close> addr_iter [of i ?l] by (simp add: in_range_def)
  next
    fix a assume "in_range m a"
    then have r: "length a = length ?l" "addr_dist ?l a \<le> ?d" by (simp_all add: in_range_def)
    then have "(addr_succ ^^ addr_dist ?l a) ?l = a"
      using addr_dist_iter [of ?l a "addr_dist ?l a"] d by simp
    then show "\<exists>i. a = (addr_succ ^^ i) ?l \<and> i \<le> ?d" using r by metis
  qed
  moreover have "set (map (\<lambda>i. mcast_hash ((addr_succ ^^ i) ?l)) [0..<Suc ?d]) =
      mcast_hash ` {(addr_succ ^^ i) ?l | i. i \<le> ?d}"
    by (simp add: setcompr_eq_image image_image atMost_def [symmetric] atLeast0LessThan
        lessThan_Suc_atMost del: upt_Suc)
  ultimately show ?thesis by simp
qed

lemma ranges_loop_bits:
  "length arr = 8 \<Longrightarrow> \<forall>m \<in> set ms. length (mar_LowerAddr m) = length (mar_UpperAddr m) \<Longrightarrow>
   \<exists>arr'. ranges_loop ms arr = Some arr' \<and> length arr' = 8 \<and>
     (\<forall>k < 64. hash_bit arr' k \<longleftrightarrow> hash_bit arr k \<or> (\<exists>m \<in> set ms. \<exists>a. in_range m a \<and> mcast_hash a = k))"
proof (induction ms arbitrary: arr)
  case (Cons m ms)
  let ?hs = "map (\<lambda>i. mcast_hash ((addr_succ ^^ i) (mar_LowerAddr m)))
      [0..<Suc (addr_dist (mar_LowerAddr m) (mar_UpperAddr m))]"
  have "\<forall>h \<in> set ?hs. h < 64" by (auto simp: mcast_hash_less)
  note f = foldl_set_hash [OF Cons.prems(1) this]
  have r: "range_loop (mar_UpperAddr m) (mar_LowerAddr m) arr = Some (foldl set_hash arr ?hs)"
    using range_loop_ends [of "mar_LowerAddr m" "mar_UpperAddr m" arr] Cons.prems(2) by simp
  have v: "set ?hs = mcast_hash ` {a. in_range m a}"
    using range_visits [of m] Cons.prems(2) by simp
  have l: "length (foldl set_hash arr ?hs) = 8" using f [of 0] by simp
  from Cons.IH [OF this] Cons.prems(2) obtain arr' where
    a: "ranges_loop ms (foldl set_hash arr ?hs) = Some arr'" "length arr' = 8"
    "\<forall>k < 64. hash_bit arr' k \<longleftrightarrow> hash_bit (foldl set_hash arr ?hs) k \<or>
       (\<exists>m \<in> set ms. \<exists>a. in_range m a \<and> mcast_hash a = k)" by auto
  have "\<forall>k < 64. hash_bit arr' k \<longleftrightarrow> hash_bit arr k \<or>
      (\<exists>m' \<in> set (m # ms). \<exists>a. in_range m' a \<and> mcast_hash a = k)"
    using a(3) f v by (simp only: list.set) blast
  then show ?case using a(1,2) r by (simp only: ranges_loop.simps option.case) blast
qed simp

end
