(* ===== verification/Cdc_Account.thy ===== *)
theory Cdc_Account
  imports Cdc_Sana
begin

text \<open>
  What the SANA-II commands of the CDC Ethernet device keep: the unit's invariant \<open>eth_ok\<close>, and
  the account of requests \<open>ids\<close>: no command loses or doubles a request.
\<close>

section \<open>The invariant\<close>

definition can_read :: "nepEth \<Rightarrow> sana2req \<Rightarrow> bool" where
  "can_read ncp r = (case req_bufman ncp r of None \<Rightarrow> False | Some b \<Rightarrow> bm_CopyToBuf b \<noteq> None)"

definition can_write :: "nepEth \<Rightarrow> sana2req \<Rightarrow> bool" where
  "can_write ncp r \<longleftrightarrow> (case req_bufman ncp r of None \<Rightarrow> False | Some b \<Rightarrow> bm_CopyFromBuf b \<noteq> None) \<and>
     ios2_DataLength r \<le> (if io_Raw r then RAWPKT_SIZE else ETHERPKT_SIZE) \<and>
     length (ios2_DstAddr r) = SANA2_MAX_ADDR_BYTES"

definition range_ok :: "mcast_range \<Rightarrow> bool" where
  "range_ok m \<longleftrightarrow> length (mar_LowerAddr m) = ETHER_ADDR_SIZE \<and> length (mar_UpperAddr m) = ETHER_ADDR_SIZE"

definition req_ok :: "sana2req \<Rightarrow> bool" where
  "req_ok r \<longleftrightarrow> length (ios2_SrcAddr r) = SANA2_MAX_ADDR_BYTES \<and>
     length (ios2_DstAddr r) = SANA2_MAX_ADDR_BYTES"

definition eth_ok :: "nepEth \<Rightarrow> bool" where
  "eth_ok ncp \<longleftrightarrow> distinct (map bm_Id (ncp_BufManList ncp)) \<and>
     (\<forall>r \<in> set (rx_reqs ncp). can_read ncp r) \<and> (\<forall>r \<in> set (ncp_OrphanQueue ncp). can_read ncp r) \<and>
     (\<forall>r \<in> set (ncp_WriteQueue ncp). can_write ncp r) \<and>
     (\<forall>m \<in> set (ncp_Multicasts ncp). range_ok m)"

text \<open>Two units with the same nodes, queues apart, and the same means to send.\<close>

definition same_core :: "nepEth \<Rightarrow> nepEth \<Rightarrow> bool" where
  "same_core n n' \<longleftrightarrow> map core (ncp_BufManList n) = map core (ncp_BufManList n') \<and>
     ncp_EncapType n = ncp_EncapType n' \<and> ncp_WriteBufSize n = ncp_WriteBufSize n' \<and>
     ncp_WriteBuffer n = ncp_WriteBuffer n' \<and> ncp_WriteBufNum n = ncp_WriteBufNum n'"

lemma same_core_refl [simp]: "same_core n n"
  by (simp add: same_core_def)

lemma same_core_trans: "same_core a b \<Longrightarrow> same_core b c \<Longrightarrow> same_core a c"
  by (simp add: same_core_def)

lemma can_read_alt:
  "can_read n r = (case map_option core (req_bufman n r) of None \<Rightarrow> False | Some b \<Rightarrow> bm_CopyToBuf b \<noteq> None)"
  by (simp add: can_read_def split: option.splits)

lemma can_write_alt:
  "can_write n r \<longleftrightarrow>
     (case map_option core (req_bufman n r) of None \<Rightarrow> False | Some b \<Rightarrow> bm_CopyFromBuf b \<noteq> None) \<and>
     ios2_DataLength r \<le> (if io_Raw r then RAWPKT_SIZE else ETHERPKT_SIZE) \<and>
     length (ios2_DstAddr r) = SANA2_MAX_ADDR_BYTES"
  by (simp add: can_write_def split: option.splits)

lemma can_core:
  assumes "same_core n n'"
  shows "can_read n r = can_read n' r" "can_write n r = can_write n' r"
  using req_core [of n n' r] assms unfolding same_core_def can_read_alt can_write_alt by simp_all

lemma req_bufman_simps [simp]:
  "req_bufman n (r\<lparr>io_Quick := q\<rparr>) = req_bufman n r"
  "req_bufman n (r\<lparr>ios_Type := t\<rparr>) = req_bufman n r"
  "req_bufman n (r\<lparr>ios2_DataLength := l\<rparr>) = req_bufman n r"
  "req_bufman n (r\<lparr>ios2_PacketType := p\<rparr>) = req_bufman n r"
  "req_bufman n (r\<lparr>ios2_SrcAddr := a\<rparr>) = req_bufman n r"
  "req_bufman n (r\<lparr>ios2_DstAddr := a\<rparr>) = req_bufman n r"
  by (simp_all add: req_bufman_def)

lemma req_ok_other [simp]:
  "can_read n (r\<lparr>io_Quick := q\<rparr>) = can_read n r" "can_write n (r\<lparr>io_Quick := q\<rparr>) = can_write n r"
  by (simp_all add: can_read_def can_write_def req_bufman_def)

text \<open>
  The one way the invariant is kept: the nodes stay, the queues only lose requests or gain ones
  that are in order, and the multicast ranges are in order.
\<close>

lemma eth_okI:
  assumes "eth_ok n" and "same_core n n'"
    and "\<And>r. r \<in> set (rx_reqs n') \<Longrightarrow> r \<in> set (rx_reqs n) \<or> can_read n r"
    and "\<And>r. r \<in> set (ncp_OrphanQueue n') \<Longrightarrow> r \<in> set (ncp_OrphanQueue n) \<or> can_read n r"
    and "\<And>r. r \<in> set (ncp_WriteQueue n') \<Longrightarrow> r \<in> set (ncp_WriteQueue n) \<or> can_write n r"
    and "\<And>m. m \<in> set (ncp_Multicasts n') \<Longrightarrow> m \<in> set (ncp_Multicasts n) \<or> range_ok m"
  shows "eth_ok n'"
proof -
  have "map bm_Id (ncp_BufManList n') = map bm_Id (ncp_BufManList n)"
    using assms(2) core_ids unfolding same_core_def by metis
  moreover have "can_read n' r = can_read n r" "can_write n' r = can_write n r" for r
    using can_core [OF assms(2)] by auto
  ultimately show ?thesis using assms unfolding eth_ok_def by metis
qed

section \<open>Commands\<close>

text \<open>
  What every command does to the request it gets: if it answers \<open>RC_DONTREPLY\<close>, the request is
  in the unit's hands, else it is still the caller's, and no other request was lost or doubled.
\<close>

definition cmd_ok :: "nepEth \<Rightarrow> sana2req \<Rightarrow> int \<times> nepEth \<times> sana2req \<Rightarrow> bool" where
  "cmd_ok ncp r res \<longleftrightarrow> (case res of (ret, ncp', r') \<Rightarrow>
     ios_Id r' = ios_Id r \<and> same_core ncp ncp' \<and>
     ids ncp' = (if ret = RC_DONTREPLY then add_mset (ios_Id r) (ids ncp) else ids ncp) \<and>
     (eth_ok ncp \<longrightarrow> req_ok r \<longrightarrow> eth_ok ncp'))"

lemma cmd_okI:
  assumes "ios_Id r' = ios_Id r" and "same_core ncp ncp'"
    and "ids ncp' = (if ret = RC_DONTREPLY then add_mset (ios_Id r) (ids ncp) else ids ncp)"
    and "eth_ok ncp \<Longrightarrow> req_ok r \<Longrightarrow> eth_ok ncp'"
  shows "cmd_ok ncp r (ret, ncp', r')"
  using assms by (simp add: cmd_ok_def)

lemma deverror_reply [simp]:
  "deverror 4 1 \<noteq> - 1" "deverror 10 3 \<noteq> - 1" "deverror 3 16 \<noteq> - 1" "deverror 6 0 \<noteq> - 1"
  "deverror 5 10 \<noteq> - 1" "deverror 8 12 \<noteq> - 1" "deverror 4 15 \<noteq> - 1" "deverror 5 7 \<noteq> - 1"
  "deverror 4 4 \<noteq> - 1" "deverror 1 5 \<noteq> - 1" "deverror 4 5 \<noteq> - 1" "deverror 3 13 \<noteq> - 1"
  "deverror 1 0 \<noteq> - 1" "deverror 4 10 \<noteq> - 1"
  by (simp_all add: deverror_def)

lemmas cmd_simps = RC_DONTREPLY_def RC_OK_def Let_def

lemma rx_reqs_simps [simp]:
  "rx_reqs (n\<lparr>ncp_Offline := b\<rparr>) = rx_reqs n"
  "rx_reqs (n\<lparr>ncp_Online := b\<rparr>) = rx_reqs n"
  "rx_reqs (n\<lparr>ncp_Configured := b\<rparr>) = rx_reqs n"
  "rx_reqs (n\<lparr>ncp_UnitPort := l\<rparr>) = rx_reqs n"
  "rx_reqs (n\<lparr>ncp_EventList := l\<rparr>) = rx_reqs n"
  "rx_reqs (n\<lparr>ncp_OrphanQueue := l\<rparr>) = rx_reqs n"
  "rx_reqs (n\<lparr>ncp_WriteQueue := l\<rparr>) = rx_reqs n"
  "rx_reqs (n\<lparr>ncp_Replied := l\<rparr>) = rx_reqs n"
  "rx_reqs (n\<lparr>ncp_Quick := l\<rparr>) = rx_reqs n"
  "rx_reqs (n\<lparr>ncp_Multicasts := x\<rparr>) = rx_reqs n"
  "rx_reqs (n\<lparr>ncp_MulticastArray := y\<rparr>) = rx_reqs n"
  "rx_reqs (n\<lparr>ncp_MacAddress := y\<rparr>) = rx_reqs n"
  "rx_reqs (n\<lparr>ncp_ROMAddress := y\<rparr>) = rx_reqs n"
  "rx_reqs (n\<lparr>ncp_TrackList := t\<rparr>) = rx_reqs n"
  "rx_reqs (n\<lparr>ncp_TypeStats2048 := p\<rparr>) = rx_reqs n"
  "rx_reqs (n\<lparr>ncp_TypeStats2054 := p\<rparr>) = rx_reqs n"
  "rx_reqs (n\<lparr>ncp_ForbidCnt := c\<rparr>) = rx_reqs n"
  "rx_reqs (n\<lparr>ncp_WritePending := w\<rparr>) = rx_reqs n"
  "rx_reqs (n\<lparr>ncp_Copied := k\<rparr>) = rx_reqs n"
  "rx_reqs (n\<lparr>ncp_Sent := sn\<rparr>) = rx_reqs n"
  "rx_reqs (n\<lparr>ncp_DeviceStats := d\<rparr>) = rx_reqs n"
  "rx_reqs (n\<lparr>ncp_ReadPending := p\<rparr>) = rx_reqs n"
  "rx_reqs (n\<lparr>ncp_ReadBufNum := c\<rparr>) = rx_reqs n"
  "rx_reqs (n\<lparr>ncp_WriteBuffer := bb\<rparr>) = rx_reqs n"
  "rx_reqs (n\<lparr>ncp_WriteBufNum := c\<rparr>) = rx_reqs n"
  "rx_reqs (n\<lparr>ncp_NcmSeq := sq\<rparr>) = rx_reqs n"
  by (simp_all add: rx_reqs_def)

lemma same_core_fields [simp]:
  "same_core n (n'\<lparr>ncp_Offline := b\<rparr>) = same_core n n'"
  "same_core n (n'\<lparr>ncp_Online := b\<rparr>) = same_core n n'"
  "same_core n (n'\<lparr>ncp_Configured := b\<rparr>) = same_core n n'"
  "same_core n (n'\<lparr>ncp_UnitPort := l\<rparr>) = same_core n n'"
  "same_core n (n'\<lparr>ncp_EventList := l\<rparr>) = same_core n n'"
  "same_core n (n'\<lparr>ncp_OrphanQueue := l\<rparr>) = same_core n n'"
  "same_core n (n'\<lparr>ncp_WriteQueue := l\<rparr>) = same_core n n'"
  "same_core n (n'\<lparr>ncp_Replied := l\<rparr>) = same_core n n'"
  "same_core n (n'\<lparr>ncp_Quick := l\<rparr>) = same_core n n'"
  "same_core n (n'\<lparr>ncp_Multicasts := x\<rparr>) = same_core n n'"
  "same_core n (n'\<lparr>ncp_MulticastArray := y\<rparr>) = same_core n n'"
  "same_core n (n'\<lparr>ncp_MacAddress := y\<rparr>) = same_core n n'"
  "same_core n (n'\<lparr>ncp_ROMAddress := y\<rparr>) = same_core n n'"
  "same_core n (n'\<lparr>ncp_TrackList := t\<rparr>) = same_core n n'"
  "same_core n (n'\<lparr>ncp_TypeStats2048 := p\<rparr>) = same_core n n'"
  "same_core n (n'\<lparr>ncp_TypeStats2054 := p\<rparr>) = same_core n n'"
  "same_core n (n'\<lparr>ncp_ForbidCnt := c\<rparr>) = same_core n n'"
  "same_core n (n'\<lparr>ncp_WritePending := w\<rparr>) = same_core n n'"
  "same_core n (n'\<lparr>ncp_Copied := k\<rparr>) = same_core n n'"
  "same_core n (n'\<lparr>ncp_Sent := sn\<rparr>) = same_core n n'"
  "same_core n (n'\<lparr>ncp_DeviceStats := d\<rparr>) = same_core n n'"
  "same_core n (n'\<lparr>ncp_ReadPending := p\<rparr>) = same_core n n'"
  "same_core n (n'\<lparr>ncp_ReadBufNum := c\<rparr>) = same_core n n'"
  "same_core n (n'\<lparr>ncp_NcmSeq := sq\<rparr>) = same_core n n'"
  by (simp_all add: same_core_def)

lemma rx_reqs_nDoEvent [simp]: "rx_reqs (nDoEvent n ev) = rx_reqs n"
  by (simp add: nDoEvent_eq)

lemma same_core_simps [simp]: "same_core n (nDoEvent n' ev) = same_core n n'"
  "same_core n (ReplyMsg n' r) = same_core n n'"
  by (simp_all add: nDoEvent_eq ReplyMsg_def)

lemma eth_ok_nDoEvent [simp]: "eth_ok n \<Longrightarrow> eth_ok (nDoEvent n ev)"
  by (erule eth_okI) (auto simp: nDoEvent_eq)

lemma eth_ok_ReplyMsg [simp]: "eth_ok n \<Longrightarrow> eth_ok (ReplyMsg n r)"
  by (erule eth_okI) (auto simp: ReplyMsg_def)

lemma eth_ok_TermIO [simp]: "eth_ok n \<Longrightarrow> eth_ok (TermIO n r)"
  by (simp add: TermIO_def Let_def) (auto elim!: eth_okI)

lemma queue_rx_ids:
  "req_bufman n r = Some b \<Longrightarrow> ids (queue_rx n (bm_Id b) r') = add_mset (ios_Id r') (ids n)"
proof -
  assume "req_bufman n r = Some b"
  then have f: "find_bufman (bm_Id b) (ncp_BufManList n) = Some b"
    using find_bufman_mem by (fastforce simp: req_bufman_def split: option.splits)
  show ?thesis
    using idm_upd [OF f, of "\<lambda>b. b\<lparr>bm_RXQueue := bm_RXQueue b @ [r']\<rparr>"]
    by (simp add: ids_def rx_reqs_def queue_rx_def)
qed

lemma upd_rx_reqs: "r \<in> set (concat (map bm_RXQueue (upd_bufman i f bs))) \<Longrightarrow>
    r \<in> set (concat (map bm_RXQueue bs)) \<or> (\<exists>b \<in> set bs. r \<in> set (bm_RXQueue (f b)))"
  by (induction bs) (auto split: if_splits)

lemma queue_rx_reqs: "x \<in> set (rx_reqs (queue_rx n i r)) \<Longrightarrow> x \<in> set (rx_reqs n) \<or> x = r"
  using upd_rx_reqs [of x i "\<lambda>b. b\<lparr>bm_RXQueue := bm_RXQueue b @ [r]\<rparr>" "ncp_BufManList n"]
  by (auto simp: rx_reqs_def queue_rx_def)

lemma same_core_queue_rx [simp]: "same_core n (queue_rx n i r)"
  by (simp add: same_core_def queue_rx_def core_upd)

lemma queue_rx_fields [simp]:
  "ncp_OrphanQueue (queue_rx n i r) = ncp_OrphanQueue n"
  "ncp_WriteQueue (queue_rx n i r) = ncp_WriteQueue n"
  "ncp_Multicasts (queue_rx n i r) = ncp_Multicasts n"
  by (simp_all add: queue_rx_def)

lemma cmdRead_ok: "cmd_ok ncp r (cmdRead ncp r)"
proof (cases "ncp_Configured ncp \<and> ncp_Online ncp \<and> can_read ncp r")
  case True
  then obtain b where b: "req_bufman ncp r = Some b" "bm_CopyToBuf b \<noteq> None"
    by (auto simp: can_read_def split: option.splits)
  let ?r = "r\<lparr>io_Quick := False\<rparr>"
  have "eth_ok (queue_rx ncp (bm_Id b) ?r)" if "eth_ok ncp"
    using that by (rule eth_okI) (use True in \<open>auto dest!: queue_rx_reqs\<close>)
  moreover have "cmdRead ncp r = (RC_DONTREPLY, queue_rx ncp (bm_Id b) ?r, ?r)"
    using True b by (auto simp: cmdRead_def Let_def)
  ultimately show ?thesis by (simp add: cmd_ok_def queue_rx_ids [OF b(1)])
next
  case False
  then show ?thesis
    by (auto simp: cmdRead_def can_read_def cmd_ok_def cmd_simps split: option.splits)
qed

lemma ids_queues:
  "ids (n\<lparr>ncp_WriteQueue := ncp_WriteQueue n @ [r]\<rparr>) = add_mset (ios_Id r) (ids n)"
  "ids (n\<lparr>ncp_OrphanQueue := ncp_OrphanQueue n @ [r]\<rparr>) = add_mset (ios_Id r) (ids n)"
  "ids (n\<lparr>ncp_EventList := ncp_EventList n @ [r]\<rparr>) = add_mset (ios_Id r) (ids n)"
  by (simp_all add: ids_def)

lemma cmdWrite_ok: "cmd_ok ncp r (cmdWrite ncp r)"
proof (cases "ncp_Configured ncp \<and> ncp_Online ncp \<and>
    (case req_bufman ncp r of None \<Rightarrow> False | Some b \<Rightarrow> bm_CopyFromBuf b \<noteq> None) \<and>
    ios2_DataLength r \<le> (if io_Raw r then RAWPKT_SIZE else ETHERPKT_SIZE)")
  case True
  let ?r = "r\<lparr>io_Quick := False\<rparr>"
  have e: "cmdWrite ncp r = (RC_DONTREPLY, ncp\<lparr>ncp_WriteQueue := ncp_WriteQueue ncp @ [?r]\<rparr>, ?r)"
    using True by (auto simp: cmdWrite_def Let_def split: option.splits if_splits)
  have "eth_ok (ncp\<lparr>ncp_WriteQueue := ncp_WriteQueue ncp @ [?r]\<rparr>)" if "eth_ok ncp" "req_ok r"
    using that(1) by (rule eth_okI)
      (use True that(2) in \<open>auto simp: can_write_def req_ok_def\<close>)
  then show ?thesis by (simp add: e cmd_ok_def ids_queues)
next
  case False
  then show ?thesis
    by (auto simp: cmdWrite_def cmd_ok_def cmd_simps split: option.splits if_splits)
qed

lemma cmdReadOrphan_ok: "cmd_ok ncp r (cmdReadOrphan ncp r)"
proof (cases "ncp_Configured ncp \<and> ncp_Online ncp \<and> can_read ncp r")
  case True
  let ?r = "r\<lparr>io_Quick := False\<rparr>"
  have e: "cmdReadOrphan ncp r = (RC_DONTREPLY, ncp\<lparr>ncp_OrphanQueue := ncp_OrphanQueue ncp @ [?r]\<rparr>, ?r)"
    using True by (auto simp: cmdReadOrphan_def can_read_def Let_def split: option.splits)
  have "eth_ok (ncp\<lparr>ncp_OrphanQueue := ncp_OrphanQueue ncp @ [?r]\<rparr>)" if "eth_ok ncp"
    using that by (rule eth_okI) (use True in \<open>auto\<close>)
  then show ?thesis by (simp add: e cmd_ok_def ids_queues)
next
  case False
  then show ?thesis
    by (auto simp: cmdReadOrphan_def can_read_def cmd_ok_def cmd_simps split: option.splits)
qed

lemma cmdOnEvent_ok: "cmd_ok ncp r (cmdOnEvent ncp r)"
proof -
  have "eth_ok (ncp\<lparr>ncp_EventList := l\<rparr>)" if "eth_ok ncp" for l
    using that by (rule eth_okI) auto
  then show ?thesis
    by (simp add: cmdOnEvent_def cmd_ok_def cmd_simps ids_queues)
qed

lemma cmdMulticast_ok: "cmd_ok ncp r (cmdMulticast ncp r)"
  by (simp add: cmdMulticast_def cmdWrite_ok) (simp add: cmd_ok_def cmd_simps)

lemma cmdBroadcast_ok: "cmd_ok ncp r (cmdBroadcast ncp r)"
proof -
  let ?r = "r\<lparr>ios2_DstAddr := replicate ETHER_ADDR_SIZE 0xff @ drop ETHER_ADDR_SIZE (ios2_DstAddr r)\<rparr>"
  have "req_ok r \<Longrightarrow> req_ok ?r" by (simp add: req_ok_def ETHER_ADDR_SIZE_def SANA2_MAX_ADDR_BYTES_def)
  then show ?thesis using cmdWrite_ok [of ncp ?r]
    by (auto simp: cmdBroadcast_def cmd_ok_def split: prod.splits)
qed

section \<open>Aborting\<close>

lemma AbortList_ids:
  "AbortList n l bm e = (n', l') \<Longrightarrow> ids n' + idm l' = ids n + idm l"
  using idm_filter [of "abort_of bm" l]
  by (auto simp: AbortList_def reply_all_eq ids_def ac_simps)

lemma AbortList_fields:
  assumes "AbortList n l bm e = (n', l')"
  shows "\<exists>rp. n' = n\<lparr>ncp_Replied := rp\<rparr>" and "set l' \<subseteq> set l"
  using assms by (auto simp: AbortList_def reply_all_eq)

text \<open>Taking a list away and putting one back, in the account.\<close>

lemma ids_put:
  "ids (n\<lparr>ncp_OrphanQueue := l\<rparr>) + idm (ncp_OrphanQueue n) = ids n + idm l"
  "ids (n\<lparr>ncp_WriteQueue := l\<rparr>) + idm (ncp_WriteQueue n) = ids n + idm l"
  "ids (n\<lparr>ncp_EventList := l\<rparr>) + idm (ncp_EventList n) = ids n + idm l"
  "ids (n\<lparr>ncp_UnitPort := l\<rparr>) + idm (ncp_UnitPort n) = ids n + idm l"
  by (simp_all add: ids_def ac_simps)

lemma ids_put_rx:
  "find_bufman i (ncp_BufManList n) = Some b \<Longrightarrow>
   ids (n\<lparr>ncp_BufManList := upd_bufman i (\<lambda>b. b\<lparr>bm_RXQueue := l\<rparr>) (ncp_BufManList n)\<rparr>) +
     idm (bm_RXQueue b) = ids n + idm l"
  using idm_upd [of i "ncp_BufManList n" b "\<lambda>b. b\<lparr>bm_RXQueue := l\<rparr>"]
  by (simp add: ids_def rx_reqs_def ac_simps)

lemma put_rx_reqs:
  "x \<in> set (rx_reqs (n\<lparr>ncp_BufManList := upd_bufman i (\<lambda>b. b\<lparr>bm_RXQueue := l\<rparr>) (ncp_BufManList n)\<rparr>)) \<Longrightarrow>
   x \<in> set (rx_reqs n) \<or> x \<in> set l"
  using upd_rx_reqs [of x i "\<lambda>b. b\<lparr>bm_RXQueue := l\<rparr>" "ncp_BufManList n"]
  by (auto simp: rx_reqs_def)

lemma AbortRW_ok:
  shows "ids (AbortRW n bm e) = ids n" and "same_core n (AbortRW n bm e)"
    and "eth_ok n \<Longrightarrow> eth_ok (AbortRW n bm e)"
    and "ncp_EventList (AbortRW n bm e) = ncp_EventList n"
proof -
  let ?rx = "case find_bufman bm (ncp_BufManList n) of None \<Rightarrow> [] | Some b \<Rightarrow> bm_RXQueue b"
  obtain n1 rx' where a1: "AbortList n ?rx None e = (n1, rx')" by fastforce
  let ?n2 = "n1\<lparr>ncp_BufManList := upd_bufman bm (\<lambda>b. b\<lparr>bm_RXQueue := rx'\<rparr>) (ncp_BufManList n1)\<rparr>"
  obtain n3 oq where a2: "AbortList ?n2 (ncp_OrphanQueue ?n2) (Some bm) e = (n3, oq)" by fastforce
  let ?n4 = "n3\<lparr>ncp_OrphanQueue := oq\<rparr>"
  obtain n5 wq where a3: "AbortList ?n4 (ncp_WriteQueue ?n4) (Some bm) e = (n5, wq)" by fastforce
  have res: "AbortRW n bm e = n5\<lparr>ncp_WriteQueue := wq\<rparr>"
    using a1 a2 a3 by (simp add: AbortRW_def Let_def)
  obtain r1 where f1: "n1 = n\<lparr>ncp_Replied := r1\<rparr>" and s1: "set rx' \<subseteq> set ?rx"
    using AbortList_fields [OF a1] by blast
  obtain r3 where f3: "n3 = ?n2\<lparr>ncp_Replied := r3\<rparr>" and s3: "set oq \<subseteq> set (ncp_OrphanQueue n)"
    using AbortList_fields [OF a2] f1 by auto
  obtain r5 where f5: "n5 = ?n4\<lparr>ncp_Replied := r5\<rparr>" and s5: "set wq \<subseteq> set (ncp_WriteQueue n)"
    using AbortList_fields [OF a3] f1 f3 by auto
  have i2: "ids ?n2 + idm ?rx = ids n1 + idm rx'"
  proof (cases "find_bufman bm (ncp_BufManList n)")
    case None
    then have "rx' = []" "?n2 = n1" using s1 f1 by (simp_all add: upd_bufman_id)
    then show ?thesis using None by simp
  next
    case (Some b)
    then show ?thesis using ids_put_rx [where i = bm and n = n1 and b = b and l = rx'] f1 by simp
  qed
  have "ids ?n2 = ids n" using i2 AbortList_ids [OF a1] by simp
  moreover have "ids ?n4 = ids ?n2"
    using ids_put(1) [where n = n3 and l = oq] AbortList_ids [OF a2] f3 by simp
  moreover have "ids (n5\<lparr>ncp_WriteQueue := wq\<rparr>) = ids ?n4"
    using ids_put(2) [where n = n5 and l = wq] AbortList_ids [OF a3] f5 by simp
  ultimately show "ids (AbortRW n bm e) = ids n" using res by simp
  show sc: "same_core n (AbortRW n bm e)"
    by (simp add: res f5 f3) (simp add: f1 same_core_def core_upd)
  show "ncp_EventList (AbortRW n bm e) = ncp_EventList n" by (simp add: res f5 f3 f1)
  have rx: "set ?rx \<subseteq> set (rx_reqs n)"
    by (cases "find_bufman bm (ncp_BufManList n)") (auto simp: rx_reqs_def dest!: find_bufman_mem)
  show "eth_ok (AbortRW n bm e)" if "eth_ok n"
    using that sc
  proof (rule eth_okI)
    fix r assume "r \<in> set (rx_reqs (AbortRW n bm e))"
    then have "r \<in> set (rx_reqs ?n2)" by (simp add: res f5 f3)
    from put_rx_reqs [OF this] show "r \<in> set (rx_reqs n) \<or> can_read n r" using f1 s1 rx by auto
  next
    fix r assume "r \<in> set (ncp_OrphanQueue (AbortRW n bm e))"
    then show "r \<in> set (ncp_OrphanQueue n) \<or> can_read n r" using s3 by (auto simp: res f5)
  next
    fix r assume "r \<in> set (ncp_WriteQueue (AbortRW n bm e))"
    then show "r \<in> set (ncp_WriteQueue n) \<or> can_write n r" using s5 by (auto simp: res)
  next
    fix m assume "m \<in> set (ncp_Multicasts (AbortRW n bm e))"
    then show "m \<in> set (ncp_Multicasts n) \<or> range_ok m" by (simp add: res f5 f3 f1)
  qed
qed

lemma cmdFlush_ok: "cmd_ok ncp r (cmdFlush ncp r)"
proof (cases "ios2_BufferManagement r")
  case None
  then show ?thesis by (simp add: cmdFlush_def cmd_ok_def cmd_simps)
next
  case (Some bm)
  let ?e = "deverror IOERR_ABORTED S2WERR_GENERIC_ERROR"
  let ?n = "AbortRW ncp bm ?e"
  obtain n1 el where a: "AbortList ?n (ncp_EventList ?n) (Some bm) ?e = (n1, el)" by fastforce
  obtain rp where f: "n1 = ?n\<lparr>ncp_Replied := rp\<rparr>" using AbortList_fields [OF a] by blast
  have "ids (n1\<lparr>ncp_EventList := el\<rparr>) = ids ncp"
    using ids_put(3) [where n = n1 and l = el] AbortList_ids [OF a] f AbortRW_ok(1) [of ncp bm ?e] by simp
  moreover have "eth_ok (n1\<lparr>ncp_EventList := el\<rparr>)" if "eth_ok ncp"
    using AbortRW_ok(3) [OF that, of bm ?e] by (rule eth_okI) (auto simp: f)
  ultimately show ?thesis
    using Some a f AbortRW_ok(2) [of ncp bm ?e] by (simp add: cmdFlush_def cmd_ok_def cmd_simps)
qed

section \<open>State and address commands\<close>

lemma put_unit_ok:
  assumes "ids n = ids ncp" and "same_core ncp n" and "eth_ok ncp \<Longrightarrow> req_ok r \<Longrightarrow> eth_ok n"
  shows "cmd_ok ncp r (put_unit n r)"
proof -
  have "eth_ok (n\<lparr>ncp_UnitPort := l\<rparr>)" if "eth_ok n" for l using that by (rule eth_okI) auto
  then show ?thesis using assms by (auto simp: put_unit_def cmd_ok_def Let_def ids_def)
qed

lemma ids_fields [simp]:
  "ids (n\<lparr>ncp_Offline := b\<rparr>) = ids n" "ids (n\<lparr>ncp_Online := b\<rparr>) = ids n"
  "ids (n\<lparr>ncp_Configured := b\<rparr>) = ids n" "ids (n\<lparr>ncp_Multicasts := x\<rparr>) = ids n"
  "ids (n\<lparr>ncp_MulticastArray := y\<rparr>) = ids n" "ids (n\<lparr>ncp_MacAddress := y\<rparr>) = ids n"
  "ids (n\<lparr>ncp_TrackList := t\<rparr>) = ids n" "ids (n\<lparr>ncp_TypeStats2048 := p\<rparr>) = ids n"
  "ids (n\<lparr>ncp_TypeStats2054 := p\<rparr>) = ids n" "ids (n\<lparr>ncp_ForbidCnt := c\<rparr>) = ids n"
  "ids (n\<lparr>ncp_Copied := k\<rparr>) = ids n" "ids (n\<lparr>ncp_Sent := sn\<rparr>) = ids n"
  "ids (n\<lparr>ncp_DeviceStats := d\<rparr>) = ids n" "ids (n\<lparr>ncp_ReadPending := p\<rparr>) = ids n"
  "ids (n\<lparr>ncp_ReadBufNum := c\<rparr>) = ids n" "ids (n\<lparr>ncp_WriteBuffer := bb\<rparr>) = ids n"
  "ids (n\<lparr>ncp_WriteBufNum := c\<rparr>) = ids n" "ids (n\<lparr>ncp_NcmSeq := sq\<rparr>) = ids n"
  by (simp_all add: ids_def)

lemma eth_ok_cong:
  assumes "ncp_BufManList n = ncp_BufManList n'" and "ncp_OrphanQueue n = ncp_OrphanQueue n'"
    and "ncp_WriteQueue n = ncp_WriteQueue n'" and "ncp_Multicasts n = ncp_Multicasts n'"
  shows "eth_ok n = eth_ok n'"
proof -
  have "req_bufman n r = req_bufman n' r" for r
    using assms(1) by (cases "ios2_BufferManagement r") (simp_all add: req_bufman_def)
  then have "can_read n = can_read n'" "can_write n = can_write n'"
    by (auto simp: can_read_def can_write_def fun_eq_iff)
  then show ?thesis using assms by (simp add: eth_ok_def rx_reqs_def)
qed

lemma eth_ok_fields [simp]:
  "eth_ok (n\<lparr>ncp_Offline := b\<rparr>) = eth_ok n" "eth_ok (n\<lparr>ncp_Online := b\<rparr>) = eth_ok n"
  "eth_ok (n\<lparr>ncp_Configured := b\<rparr>) = eth_ok n" "eth_ok (n\<lparr>ncp_UnitPort := l\<rparr>) = eth_ok n"
  "eth_ok (n\<lparr>ncp_MulticastArray := y\<rparr>) = eth_ok n" "eth_ok (n\<lparr>ncp_MacAddress := y\<rparr>) = eth_ok n"
  "eth_ok (n\<lparr>ncp_TrackList := t\<rparr>) = eth_ok n" "eth_ok (n\<lparr>ncp_TypeStats2048 := p\<rparr>) = eth_ok n"
  "eth_ok (n\<lparr>ncp_TypeStats2054 := p\<rparr>) = eth_ok n" "eth_ok (n\<lparr>ncp_ForbidCnt := c\<rparr>) = eth_ok n"
  "eth_ok (n\<lparr>ncp_Copied := k\<rparr>) = eth_ok n" "eth_ok (n\<lparr>ncp_Sent := sn\<rparr>) = eth_ok n"
  "eth_ok (n\<lparr>ncp_DeviceStats := d\<rparr>) = eth_ok n" "eth_ok (n\<lparr>ncp_ReadPending := p\<rparr>) = eth_ok n"
  "eth_ok (n\<lparr>ncp_ReadBufNum := c\<rparr>) = eth_ok n" "eth_ok (n\<lparr>ncp_WriteBuffer := bb\<rparr>) = eth_ok n"
  "eth_ok (n\<lparr>ncp_WriteBufNum := c\<rparr>) = eth_ok n" "eth_ok (n\<lparr>ncp_NcmSeq := sq\<rparr>) = eth_ok n"
  "eth_ok (n\<lparr>ncp_WritePending := w\<rparr>) = eth_ok n" "eth_ok (n\<lparr>ncp_EventList := l\<rparr>) = eth_ok n"
  "eth_ok (n\<lparr>ncp_Replied := l\<rparr>) = eth_ok n"
  by (rule eth_ok_cong; simp)+

lemma cmdOnline_ok: "cmd_ok ncp r (cmdOnline ncp r)"
  using put_unit_ok [of "ncp\<lparr>ncp_Offline := False\<rparr>" ncp r]
  by (simp add: cmdOnline_def) (simp add: cmd_ok_def cmd_simps)

lemma cmdOffline_ok: "cmd_ok ncp r (cmdOffline ncp r)"
proof (cases "ncp_Online ncp")
  case True
  let ?n = "ncp\<lparr>ncp_Offline := True, ncp_Online := False\<rparr>"
  let ?a = "case ios2_BufferManagement r of None \<Rightarrow> ?n
    | Some bm \<Rightarrow> AbortRW ?n bm (deverror S2ERR_OUTOFSERVICE S2WERR_UNIT_OFFLINE)"
  have "ids ?a = ids ncp" "same_core ncp ?a" "eth_ok ncp \<Longrightarrow> eth_ok ?a"
    using AbortRW_ok [of ?n] by (auto split: option.splits simp: same_core_def)
  then have "cmd_ok ncp r (put_unit (nDoEvent ?a S2EVENT_OFFLINE) r)"
    by (intro put_unit_ok) simp_all
  then show ?thesis using True by (simp add: cmdOffline_def Let_def)
next
  case False
  then show ?thesis by (simp add: cmdOffline_def cmd_ok_def cmd_simps)
qed

lemma cmdConfigInterface_ok: "cmd_ok ncp r (cmdConfigInterface ncp r)"
proof -
  have "cmd_ok ncp r (put_unit (ncp\<lparr>ncp_MacAddress := m\<rparr>) r)" for m
    by (rule put_unit_ok) simp_all
  then show ?thesis by (simp add: cmdConfigInterface_def) (simp add: cmd_ok_def cmd_simps)
qed

lemma cmdGetStationAddress_ok: "cmd_ok ncp r (cmdGetStationAddress ncp r)"
  by (simp add: cmdGetStationAddress_def cmd_ok_def cmd_simps)

section \<open>Multicast and statistics commands\<close>

lemma UpdateMulticastHash_ok:
  assumes "\<forall>m \<in> set (ncp_Multicasts n). range_ok m"
  shows "\<exists>arr. UpdateMulticastHash n = Some (n\<lparr>ncp_MulticastArray := arr\<rparr>) \<and> length arr = 8"
  using ranges_loop_bits [of "replicate 8 0" "ncp_Multicasts n"] assms
  by (auto simp: UpdateMulticastHash_def range_ok_def)

lemma inc_range_ok:
  "inc_range lo up ms = Some ms' \<Longrightarrow> \<forall>m \<in> set ms. range_ok m \<Longrightarrow> \<forall>m \<in> set ms'. range_ok m"
  by (induction ms arbitrary: ms') (auto simp: range_ok_def split: if_splits)

lemma dec_range_ok:
  "dec_range lo up ms = Some (ms', g) \<Longrightarrow> \<forall>m \<in> set ms. range_ok m \<Longrightarrow> \<forall>m \<in> set ms'. range_ok m"
  by (induction ms arbitrary: ms') (auto simp: range_ok_def split: if_splits)

lemma eth_ok_mcasts: "eth_ok n \<Longrightarrow> \<forall>m \<in> set ms. range_ok m \<Longrightarrow> eth_ok (n\<lparr>ncp_Multicasts := ms\<rparr>)"
  by (erule eth_okI) auto

lemma AddMCastRange_ok:
  assumes "eth_ok n" and "length lo = ETHER_ADDR_SIZE" and "length up = ETHER_ADDR_SIZE"
  shows "\<exists>res. AddMCastRange mem n r lo up = Some res \<and> cmd_ok n r res"
proof -
  have m: "\<forall>m \<in> set (ncp_Multicasts n). range_ok m" using assms(1) by (simp add: eth_ok_def)
  let ?ms = "ncp_Multicasts n @ [\<lparr>mar_UseCount = 1, mar_LowerAddr = lo, mar_UpperAddr = up\<rparr>]"
  have ms: "\<forall>m \<in> set ?ms. range_ok m" using m assms by (auto simp: range_ok_def)
  then obtain arr where u: "UpdateMulticastHash (n\<lparr>ncp_Multicasts := ?ms\<rparr>) =
      Some (n\<lparr>ncp_Multicasts := ?ms, ncp_MulticastArray := arr\<rparr>)"
    using UpdateMulticastHash_ok [of "n\<lparr>ncp_Multicasts := ?ms\<rparr>"] by auto
  have p: "cmd_ok n r (put_unit (n\<lparr>ncp_Multicasts := ?ms, ncp_MulticastArray := arr\<rparr>) r)"
    using eth_ok_mcasts [OF assms(1) ms] by (intro put_unit_ok) simp_all
  show ?thesis
  proof (cases "inc_range lo up (ncp_Multicasts n)")
    case None
    show ?thesis
    proof (cases "mem = None \<or> lo ! 0 AND 1 = 0 \<or> up ! 0 AND 1 = 0")
      case True
      then show ?thesis using None by (auto simp: AddMCastRange_def cmd_ok_def cmd_simps)
    next
      case False
      then have "AddMCastRange mem n r lo up =
          Some (put_unit (n\<lparr>ncp_Multicasts := ?ms, ncp_MulticastArray := arr\<rparr>) r)"
        using None u by (auto simp: AddMCastRange_def)
      then show ?thesis using p by blast
    qed
  next
    case (Some ms')
    have "eth_ok (n\<lparr>ncp_Multicasts := ms'\<rparr>)"
      by (rule eth_ok_mcasts [OF assms(1) inc_range_ok [OF Some m]])
    then show ?thesis using Some by (simp add: AddMCastRange_def) (simp add: cmd_ok_def cmd_simps)
  qed
qed

lemma DelMCastRange_ok:
  assumes "eth_ok n"
  shows "\<exists>res. DelMCastRange n r lo up = Some res \<and> cmd_ok n r res"
proof (cases "dec_range lo up (ncp_Multicasts n)")
  case None
  then show ?thesis by (simp add: DelMCastRange_def cmd_ok_def cmd_simps)
next
  case (Some mg)
  obtain ms g where mg: "mg = (ms, g)" by fastforce
  have ms: "\<forall>m \<in> set ms. range_ok m"
    using dec_range_ok [of lo up _ ms g] Some mg assms by (auto simp: eth_ok_def)
  note e = eth_ok_mcasts [OF assms ms]
  obtain arr where u: "UpdateMulticastHash (n\<lparr>ncp_Multicasts := ms\<rparr>) =
      Some (n\<lparr>ncp_Multicasts := ms, ncp_MulticastArray := arr\<rparr>)"
    using UpdateMulticastHash_ok [of "n\<lparr>ncp_Multicasts := ms\<rparr>"] ms by auto
  have "cmd_ok n r (put_unit (n\<lparr>ncp_Multicasts := ms, ncp_MulticastArray := arr\<rparr>) r)"
    using e by (intro put_unit_ok) simp_all
  moreover have "cmd_ok n r (RC_OK, n\<lparr>ncp_Multicasts := ms\<rparr>, r)"
    using e by (simp add: cmd_ok_def cmd_simps)
  ultimately show ?thesis using Some mg u by (cases g) (simp_all add: DelMCastRange_def)
qed

lemma same_core_TermIO [simp]: "same_core n (TermIO n' x) = same_core n n'"
  by (simp add: TermIO_def Let_def)

lemma stats_cmds_ok:
  "cmd_ok ncp r (cmdTrackType mem ncp r)" "cmd_ok ncp r (cmdUntrackType ncp r)"
  "cmd_ok ncp r (cmdGetTypeStats ncp r)" "cmd_ok ncp r (cmdGetSpecialStats ncp r)"
  "cmd_ok ncp r (cmdGetGlobalStats ncp r)" "cmd_ok ncp r (cmdDeviceQuery qsize ncp r)"
  "cmd_ok ncp r (cmdNSDeviceQuery ncp r)"
  by (simp_all add: cmdTrackType_def cmdUntrackType_def cmdGetTypeStats_def cmdGetSpecialStats_def
      cmdGetGlobalStats_def cmdDeviceQuery_def cmdNSDeviceQuery_def cmd_ok_def cmd_simps stat_out_def
      split: option.split)

section \<open>The entry points\<close>

lemma req_ok_addr: "req_ok r \<Longrightarrow> length (eth_addr (ios2_SrcAddr r)) = ETHER_ADDR_SIZE"
  "req_ok r \<Longrightarrow> length (eth_addr (ios2_DstAddr r)) = ETHER_ADDR_SIZE"
  by (simp_all add: req_ok_def eth_addr_def ETHER_ADDR_SIZE_def SANA2_MAX_ADDR_BYTES_def)

lemma dispatch_ok:
  assumes "eth_ok n" and "req_ok r"
  shows "\<exists>res. dispatch qsize mem n r = Some res \<and> cmd_ok n r res"
proof -
  note a = req_ok_addr [OF assms(2)]
  have other: "cmd_ok n r (IOERR_NOCMD, n, r)" by (simp add: cmd_ok_def cmd_simps)
  show ?thesis
    using AddMCastRange_ok [OF assms(1) a(1) a(1), of mem r] AddMCastRange_ok [OF assms(1) a(1) a(2), of mem r]
      DelMCastRange_ok [OF assms(1), of r] other
    by (cases "io_Command r")
      (simp_all add: dispatch_def cmdRead_ok cmdFlush_ok cmdWrite_ok cmdGetStationAddress_ok stats_cmds_ok
        cmdConfigInterface_ok cmdMulticast_ok cmdBroadcast_ok cmdOnEvent_ok cmdReadOrphan_ok
        cmdOnline_ok cmdOffline_ok cmdAddMulticastAddress_def cmdDelMulticastAddress_def
        cmdAddMulticastAddresses_def cmdDelMulticastAddresses_def)
qed

lemma devBeginIO_ok:
  assumes "eth_ok n" and "req_ok r"
  shows "\<exists>n'. devBeginIO qsize mem n r = Some n' \<and> ids n' = add_mset (ios_Id r) (ids n) \<and>
    eth_ok n' \<and> same_core n n'"
proof -
  let ?r = "r\<lparr>ios_Type := NT_MESSAGE, io_Error := 0\<rparr>"
  have "req_ok ?r" using assms(2) by (simp add: req_ok_def)
  then obtain res where d: "dispatch qsize mem n ?r = Some res" "cmd_ok n ?r res"
    using dispatch_ok [OF assms(1)] by blast
  obtain ret n' r' where res: "res = (ret, n', r')" by (metis surj_pair)
  then show ?thesis
    using d res \<open>req_ok ?r\<close> assms(1) by (auto simp: devBeginIO_def cmd_ok_def)
qed

lemma AbortReq_ok:
  "AbortReq n l i = (n', l', hit) \<Longrightarrow>
   ids n' + idm l' = ids n + idm l \<and> set l' \<subseteq> set l \<and> (\<exists>rp. n' = n\<lparr>ncp_Replied := rp\<rparr>)"
proof (induction l arbitrary: n' l' hit)
  case (Cons r rs)
  show ?case
  proof (cases "ios_Id r = i")
    case True
    then show ?thesis using Cons.prems by (auto simp: ReplyMsg_def ids_def)
  next
    case False
    obtain n1 l1 h where a: "AbortReq n rs i = (n1, l1, h)" by (metis surj_pair)
    show ?thesis using Cons.IH [OF a] Cons.prems False a by auto
  qed
qed (auto intro: exI [where x = "ncp_Replied n"])

lemma abort_read_ok:
  "abort_read n bs i = (n', bs') \<Longrightarrow>
   ids n' + idm (concat (map bm_RXQueue bs')) = ids n + idm (concat (map bm_RXQueue bs)) \<and>
   map core bs' = map core bs \<and>
   set (concat (map bm_RXQueue bs')) \<subseteq> set (concat (map bm_RXQueue bs)) \<and>
   (\<exists>rp. n' = n\<lparr>ncp_Replied := rp\<rparr>)"
proof (induction bs arbitrary: n n' bs')
  case Nil
  then show ?case by (auto intro: exI [where x = "ncp_Replied n"])
next
  case (Cons b bs)
  obtain n1 rx h where a: "AbortReq n (bm_RXQueue b) i = (n1, rx, h)" by (metis surj_pair)
  note A = AbortReq_ok [OF a]
  show ?case
  proof (cases h)
    case True
    then have "n' = n1" "bs' = b\<lparr>bm_RXQueue := rx\<rparr> # bs" using Cons.prems a by auto
    then show ?thesis using A by (auto simp: ac_simps)
  next
    case False
    obtain n2 bs2 where r: "abort_read n1 bs i = (n2, bs2)" by fastforce
    note R = Cons.IH [OF r]
    have e: "n' = n2" "bs' = b\<lparr>bm_RXQueue := rx\<rparr> # bs2" using Cons.prems a r False by auto
    have "ids n2 + idm (concat (map bm_RXQueue bs2)) + idm rx =
        ids n + idm (concat (map bm_RXQueue bs)) + idm (bm_RXQueue b)"
      using R A by (metis (no_types, lifting) add.assoc add.commute)
    then show ?thesis using R A e by (auto simp: ac_simps)
  qed
qed

lemma devAbortIO_ok:
  "ids (devAbortIO n r) = ids n \<and> same_core n (devAbortIO n r) \<and> (eth_ok n \<longrightarrow> eth_ok (devAbortIO n r))"
proof -
  obtain n1 bs where a1: "abort_read n (ncp_BufManList n) (ios_Id r) = (n1, bs)" by fastforce
  obtain n2 l2 h2 where a2: "AbortReq n (ncp_OrphanQueue n) (ios_Id r) = (n2, l2, h2)" by (metis surj_pair)
  obtain n3 l3 h3 where a3: "AbortReq n (ncp_WriteQueue n) (ios_Id r) = (n3, l3, h3)" by (metis surj_pair)
  obtain n4 l4 h4 where a4: "AbortReq n (ncp_UnitPort n) (ios_Id r) = (n4, l4, h4)" by (metis surj_pair)
  obtain n5 l5 h5 where a5: "AbortReq n (ncp_EventList n) (ios_Id r) = (n5, l5, h5)" by (metis surj_pair)
  note A = abort_read_ok [OF a1] AbortReq_ok [OF a2] AbortReq_ok [OF a3] AbortReq_ok [OF a4] AbortReq_ok [OF a5]
  obtain r1 r2 r3 r4 r5 where f: "n1 = n\<lparr>ncp_Replied := r1\<rparr>" "n2 = n\<lparr>ncp_Replied := r2\<rparr>"
    "n3 = n\<lparr>ncp_Replied := r3\<rparr>" "n4 = n\<lparr>ncp_Replied := r4\<rparr>" "n5 = n\<lparr>ncp_Replied := r5\<rparr>"
    using A by blast
  have i1: "ids (n1\<lparr>ncp_BufManList := bs\<rparr>) + idm (rx_reqs n) = ids n1 + idm (concat (map bm_RXQueue bs))"
    by (simp add: f ids_def rx_reqs_def ac_simps)
  have "ids (n1\<lparr>ncp_BufManList := bs\<rparr>) = ids n"
    using i1 A(1) by (simp add: rx_reqs_def)
  moreover have "ids (n2\<lparr>ncp_OrphanQueue := l2\<rparr>) = ids n" "ids (n3\<lparr>ncp_WriteQueue := l3\<rparr>) = ids n"
    "ids (n4\<lparr>ncp_UnitPort := l4\<rparr>) = ids n" "ids (n5\<lparr>ncp_EventList := l5\<rparr>) = ids n"
    using A(2-5) ids_put(1) [where n = n2 and l = l2] ids_put(2) [where n = n3 and l = l3]
      ids_put(4) [where n = n4 and l = l4] ids_put(3) [where n = n5 and l = l5]
    by (simp_all add: f)
  moreover have "same_core n (n1\<lparr>ncp_BufManList := bs\<rparr>)" using A(1) by (simp add: same_core_def f)
  moreover have "eth_ok (n1\<lparr>ncp_BufManList := bs\<rparr>)" if "eth_ok n"
    using that \<open>same_core n (n1\<lparr>ncp_BufManList := bs\<rparr>)\<close>
    by (rule eth_okI) (use A(1) in \<open>auto simp: f rx_reqs_def\<close>)
  moreover have "eth_ok (n2\<lparr>ncp_OrphanQueue := l2\<rparr>)" if "eth_ok n"
    using that by (rule eth_okI) (use A(2) in \<open>auto simp: f\<close>)
  moreover have "eth_ok (n3\<lparr>ncp_WriteQueue := l3\<rparr>)" if "eth_ok n"
    using that by (rule eth_okI) (use A(3) in \<open>auto simp: f\<close>)
  ultimately show ?thesis
    using a1 a2 a3 a4 a5 by (simp add: devAbortIO_def f)
qed

section \<open>The cache of packet type statistics\<close>

definition track_ok :: "nepEth \<Rightarrow> bool" where
  "track_ok n \<longleftrightarrow> distinct (map pts_PacketType (ncp_TrackList n)) \<and>
     ncp_TypeStats2048 n = map_option pts_Node (find_track 2048 (ncp_TrackList n)) \<and>
     ncp_TypeStats2054 n = map_option pts_Node (find_track 2054 (ncp_TrackList n))"

lemma find_track_None: "find_track t l = None \<longleftrightarrow> t \<notin> set (map pts_PacketType l)"
  by (induction l) auto

lemma find_track_append: "find_track t (l @ l') =
    (case find_track t l of None \<Rightarrow> find_track t l' | Some p \<Rightarrow> Some p)"
  by (induction l) auto

lemma find_del_track: "distinct (map pts_PacketType l) \<Longrightarrow>
    find_track t (del_track t' l) = (if t = t' then None else find_track t l)"
  by (induction l) (auto simp: find_track_None)

lemma set_del_track: "set (del_track t l) \<subseteq> set l"
  by (induction l) auto

lemma distinct_del_track: "distinct (map pts_PacketType l) \<Longrightarrow> distinct (map pts_PacketType (del_track t l))"
proof (induction l)
  case (Cons p l)
  have "pts_PacketType p \<notin> pts_PacketType ` set (del_track t l)"
    using Cons.prems set_del_track [of t l] by auto
  then show ?case using Cons by simp
qed simp

lemma track_add_ok:
  assumes "track_ok n" and "find_track t (ncp_TrackList n) = None"
  shows "find_track u (ncp_TrackList n @ [\<lparr>pts_Node = a, pts_PacketType = t, pts_Stats = s\<rparr>]) =
      (if u = t then Some \<lparr>pts_Node = a, pts_PacketType = t, pts_Stats = s\<rparr>
       else find_track u (ncp_TrackList n))"
  using assms by (auto simp: find_track_append split: option.splits)

lemma track_cmds_ok:
  assumes "track_ok n"
  shows "track_ok (fst (snd (cmdTrackType mem n r)))" and "track_ok (fst (snd (cmdUntrackType n r)))"
proof -
  let ?t = "ios2_PacketType r" and ?l = "ncp_TrackList n"
  show "track_ok (fst (snd (cmdTrackType mem n r)))"
  proof (cases "find_track ?t ?l = None \<and> mem \<noteq> None")
    case True
    then obtain a where a: "mem = Some a" by auto
    have d: "distinct (map pts_PacketType (?l @ [\<lparr>pts_Node = a, pts_PacketType = ?t, pts_Stats = no_stats\<rparr>]))"
      using assms True find_track_None [of ?t ?l] by (simp add: track_ok_def)
    obtain t where t: "t = ?t" by simp
    have "track_ok (let n = n\<lparr>ncp_TrackList := ?l @ [\<lparr>pts_Node = a, pts_PacketType = t, pts_Stats = no_stats\<rparr>]\<rparr>
        in if t = 2048 then n\<lparr>ncp_TypeStats2048 := Some a\<rparr>
           else if t = 2054 then n\<lparr>ncp_TypeStats2054 := Some a\<rparr> else n)"
      using d assms True track_add_ok [OF assms, of t] unfolding t track_ok_def Let_def by auto
    then show ?thesis using a True unfolding t
      by (cases "?t = 2048"; cases "?t = 2054") (simp_all add: cmdTrackType_def Let_def)
  next
    case False
    then have "cmdTrackType mem n r \<in> {(deverror S2ERR_BAD_STATE S2WERR_ALREADY_TRACKED, n, r),
        (deverror S2ERR_NO_RESOURCES S2WERR_NOT_TRACKED, n\<lparr>ncp_ForbidCnt := ncp_ForbidCnt n + 1\<rparr>, r)}"
      by (cases mem) (auto simp: cmdTrackType_def Let_def)
    then show ?thesis using assms by (auto simp: track_ok_def)
  qed
  show "track_ok (fst (snd (cmdUntrackType n r)))"
    using assms by (simp add: track_ok_def cmdUntrackType_def Let_def find_del_track distinct_del_track)
qed

lemma FindPacketTypeStats_eq:
  "track_ok n \<Longrightarrow> FindPacketTypeStats n t = map_option pts_Node (find_track t (ncp_TrackList n))"
  by (simp add: track_ok_def FindPacketTypeStats_def)

end
