(* ===== verification/Cdc_Rx.thy ===== *)
theory Cdc_Rx
  imports Cdc_Account
begin

text \<open>
  Received frames of the CDC Ethernet class on their way to the network stacks
  (\<open>nReadPacket\<close>, \<open>nReadIOReq\<close> in \<open>classes/cdceth/cdceth.class.c\<close>).

  \<open>mem\<close> is the memory behind the start of a received transfer: the rest of the buffers' one
  allocation, of which the transfer is a prefix. A frame is an offset into it. \<open>None\<close> is an
  access outside \<open>mem\<close> or a call through a NULL pointer.
\<close>

definition EPH_SIZE :: nat where "EPH_SIZE = 14"
definition ETHER_MIN_LEN :: nat where "ETHER_MIN_LEN = 60"
definition ETHER_MAX_LEN :: nat where "ETHER_MAX_LEN = 2048"

record ether_header =
  eph_Dest :: bytes
  eph_Src :: bytes
  eph_Type :: nat

definition rd_header :: "bytes \<Rightarrow> nat \<Rightarrow> ether_header option" where
  "rd_header mem off =
     (case (rd_slice mem off 6, rd_slice mem (off + 6) 6, rd_be16 mem (off + 12)) of
        (Some d, Some s, Some t) \<Rightarrow> Some \<lparr>eph_Dest = d, eph_Src = s, eph_Type = t\<rparr>
      | _ \<Rightarrow> None)"

definition upd_stats :: "(devstats \<Rightarrow> devstats) \<Rightarrow> nepEth \<Rightarrow> nepEth" where
  "upd_stats f ncp = ncp\<lparr>ncp_DeviceStats := f (ncp_DeviceStats ncp)\<rparr>"

definition bad_data :: "nepEth \<Rightarrow> nepEth" where
  "bad_data = upd_stats (\<lambda>d. d\<lparr>ds_BadData := ds_BadData d + 1\<rparr>)"

definition upd_type :: "nat option \<Rightarrow> (typestats \<Rightarrow> typestats) \<Rightarrow> nepEth \<Rightarrow> nepEth" where
  "upd_type p f ncp = (case p of None \<Rightarrow> ncp
     | Some a \<Rightarrow> ncp\<lparr>ncp_TrackList := upd_track a f (ncp_TrackList ncp)\<rparr>)"

section \<open>One request\<close>

text \<open>
  The request with the header of the frame filled in; what is copied for it starts at \<open>frm\<close>.
\<close>

definition read_setup ::
  "ether_header \<Rightarrow> nat \<Rightarrow> nat \<Rightarrow> sana2req \<Rightarrow> sana2req \<times> nat" where
  "read_setup eph off datasize r =
     (let (frm, size) = (if io_Raw r then (off, (datasize + EPH_SIZE + 4) mod 65536)
                          else (off + EPH_SIZE, datasize))
      in (r\<lparr>ios2_PacketType := word_of_nat (eph_Type eph),
            ios2_SrcAddr := set_addr (ios2_SrcAddr r) (eph_Src eph),
            ios2_DstAddr := set_addr (ios2_DstAddr r) (eph_Dest eph),
            ios2_DataLength := size\<rparr>, frm))"

definition cast_flags :: "sana2req \<Rightarrow> sana2req" where
  "cast_flags r =
     (if ios2_DstAddr r ! 0 AND 1 \<noteq> 0
      then if take ETHER_ADDR_SIZE (ios2_DstAddr r) = replicate ETHER_ADDR_SIZE 0xff
           then r\<lparr>io_Bcast := True\<rparr> else r\<lparr>io_Mcast := True\<rparr>
      else r)"

text \<open>
  The unit, the request if it stays in its list (a filter refused the frame), and whether the
  frame still counts as dropped.
\<close>

definition nReadIOReq ::
  "bytes \<Rightarrow> nat \<Rightarrow> nat \<Rightarrow> nepEth \<Rightarrow> sana2req \<Rightarrow> bool \<Rightarrow> bool \<Rightarrow>
   (nepEth \<times> sana2req option \<times> bool) option" where
  "nReadIOReq mem off datasize ncp r dropped filt =
     (case (rd_header mem off, req_bufman ncp r) of
        (Some eph, Some b) \<Rightarrow>
          let (r, frm) = read_setup eph off datasize r
          in (case rd_slice mem frm (ios2_DataLength r) of
                None \<Rightarrow> None
              | Some d \<Rightarrow>
                  if filt \<and> (case bm_PacketFilter b of None \<Rightarrow> False | Some f \<Rightarrow> \<not> f r d)
                  then Some (ncp, Some r, dropped)
                  else (case bm_CopyToBuf b of
                          None \<Rightarrow> None
                        | Some copy \<Rightarrow>
                            let r = cast_flags r
                            in if copy (ios2_Data r) d
                               then Some (ReplyMsg (ncp\<lparr>ncp_Copied := ncp_Copied ncp @ [(ios2_Data r, d)]\<rparr>) r,
                                          None, False)
                               else Some (ReplyMsg (nDoEvent ncp
                                            (S2EVENT_ERROR OR S2EVENT_RX OR S2EVENT_BUFF))
                                            (r\<lparr>ios2_DataLength := 0, io_Error := S2ERR_NO_RESOURCES,
                                               ios2_WireError := word_of_int S2WERR_BUFF_ERROR\<rparr>),
                                          None, dropped)))
      | _ \<Rightarrow> None)"

section \<open>All clients\<close>

definition type_match :: "nat \<Rightarrow> sana2req \<Rightarrow> bool" where
  "type_match t r \<longleftrightarrow> ios2_PacketType r = word_of_nat t \<or>
     t < ETHERPKT_SIZE \<and> ios2_PacketType r < word_of_nat ETHERPKT_SIZE"

text \<open>
  The first request of a queue that asks for the frame's type gets it. A queue is taken frm the
  unit, worked on and put back.
\<close>

fun serve_queue ::
  "bytes \<Rightarrow> nat \<Rightarrow> nat \<Rightarrow> nat \<Rightarrow> nepEth \<Rightarrow> sana2req list \<Rightarrow> bool \<Rightarrow>
   (nepEth \<times> sana2req list \<times> bool) option" where
  "serve_queue mem off t datasize ncp [] dropped = Some (ncp, [], dropped)"
| "serve_queue mem off t datasize ncp (r # rs) dropped =
     (if type_match t r
      then (case nReadIOReq mem off datasize ncp r dropped True of
              None \<Rightarrow> None
            | Some (ncp', keep, dropped') \<Rightarrow>
                Some (ncp', (case keep of None \<Rightarrow> rs | Some r' \<Rightarrow> r' # rs), dropped'))
      else (case serve_queue mem off t datasize ncp rs dropped of
              None \<Rightarrow> None
            | Some (ncp', rs', dropped') \<Rightarrow> Some (ncp', r # rs', dropped')))"

definition set_rx :: "nat \<Rightarrow> sana2req list \<Rightarrow> nepEth \<Rightarrow> nepEth" where
  "set_rx bm q ncp =
     ncp\<lparr>ncp_BufManList := upd_bufman bm (\<lambda>b. b\<lparr>bm_RXQueue := q\<rparr>) (ncp_BufManList ncp)\<rparr>"

fun serve_all ::
  "bytes \<Rightarrow> nat \<Rightarrow> nat \<Rightarrow> nat \<Rightarrow> nepEth \<Rightarrow> bufman list \<Rightarrow> bool \<Rightarrow> (nepEth \<times> bool) option" where
  "serve_all mem off t datasize ncp [] dropped = Some (ncp, dropped)"
| "serve_all mem off t datasize ncp (b # bs) dropped =
     (case serve_queue mem off t datasize ncp (bm_RXQueue b) dropped of
        None \<Rightarrow> None
      | Some (ncp', q, dropped') \<Rightarrow>
          serve_all mem off t datasize (set_rx (bm_Id b) q ncp') bs dropped')"

text \<open>Every queued orphan request gets a frame nobody else took.\<close>

fun serve_orphans ::
  "bytes \<Rightarrow> nat \<Rightarrow> nat \<Rightarrow> nepEth \<Rightarrow> sana2req list \<Rightarrow> (nepEth \<times> sana2req list) option" where
  "serve_orphans mem off datasize ncp [] = Some (ncp, [])"
| "serve_orphans mem off datasize ncp (r # rs) =
     (case nReadIOReq mem off datasize ncp r False False of
        None \<Rightarrow> None
      | Some (ncp', keep, _) \<Rightarrow>
          (case serve_orphans mem off datasize ncp' rs of
             None \<Rightarrow> None
           | Some (ncp'', rs') \<Rightarrow> Some (ncp'', (case keep of None \<Rightarrow> rs' | Some r' \<Rightarrow> r' # rs'))))"

definition frame_taken :: "nat option \<Rightarrow> nat \<Rightarrow> nepEth \<Rightarrow> nepEth" where
  "frame_taken stats datasize =
     upd_type stats (\<lambda>s. s\<lparr>ts_PacketsReceived := ts_PacketsReceived s + 1,
                           ts_BytesReceived := ts_BytesReceived s + word_of_nat datasize\<rparr>)"

definition frame_lost :: "nat option \<Rightarrow> nepEth \<Rightarrow> nepEth" where
  "frame_lost stats ncp =
     nDoEvent
       (upd_type stats (\<lambda>s. s\<lparr>ts_PacketsDropped := ts_PacketsDropped s + 1\<rparr>)
         (upd_stats (\<lambda>d. d\<lparr>ds_UnknownTypesReceived := ds_UnknownTypesReceived d + 1\<rparr>) ncp))
       (S2EVENT_ERROR OR S2EVENT_RX)"

text \<open>The queue of orphans goes back to the unit with what was not served.\<close>

definition offer_frame ::
  "bytes \<Rightarrow> nat \<Rightarrow> nat \<Rightarrow> nat \<Rightarrow> nepEth \<Rightarrow> (nepEth \<times> bool) option" where
  "offer_frame mem off t datasize ncp =
     (case serve_all mem off t datasize ncp (ncp_BufManList ncp) True of
        None \<Rightarrow> None
      | Some (ncp', dropped) \<Rightarrow>
          if dropped
          then (case serve_orphans mem off datasize ncp' (ncp_OrphanQueue ncp') of
                  None \<Rightarrow> None
                | Some (ncp'', q) \<Rightarrow> Some (ncp''\<lparr>ncp_OrphanQueue := q\<rparr>, False))
          else Some (ncp', True))"

definition nReadPacket :: "bytes \<Rightarrow> nat \<Rightarrow> nat \<Rightarrow> nepEth \<Rightarrow> (nepEth \<times> bool) option" where
  "nReadPacket mem off pktlen ncp =
     (if pktlen < EPH_SIZE then Some (bad_data ncp, False)
      else case rd_header mem off of
             None \<Rightarrow> None
           | Some eph \<Rightarrow>
               let ncp = upd_stats (\<lambda>d. d\<lparr>ds_PacketsReceived := ds_PacketsReceived d + 1\<rparr>) ncp;
                   stats = FindPacketTypeStats ncp (word_of_nat (eph_Type eph));
                   datasize = (pktlen - EPH_SIZE) mod 65536
               in if pktlen \<le> ETHER_MAX_LEN
                  then (case offer_frame mem off (eph_Type eph) datasize
                               (frame_taken stats datasize ncp) of
                          None \<Rightarrow> None
                        | Some (ncp', ok) \<Rightarrow> Some (if ok then ncp' else frame_lost stats ncp', ok))
                  else Some (frame_lost stats (bad_data ncp), False))"

section \<open>Laws: one request\<close>

definition opt_list :: "'a option \<Rightarrow> 'a list" where
  "opt_list x = (case x of None \<Rightarrow> [] | Some y \<Rightarrow> [y])"

lemma opt_list_simps [simp]: "opt_list None = []" "opt_list (Some x) = [x]"
  by (simp_all add: opt_list_def)

text \<open>Two units that differ at most in what serving a request changes.\<close>

definition served :: "nepEth \<Rightarrow> nepEth \<Rightarrow> bool" where
  "served n n' \<longleftrightarrow> n' = n\<lparr>ncp_Copied := ncp_Copied n', ncp_EventList := ncp_EventList n',
     ncp_Replied := ncp_Replied n'\<rparr>"

lemma served_refl [simp]: "served n n"
  by (simp add: served_def)

lemma served_trans: "served a b \<Longrightarrow> served b c \<Longrightarrow> served a c"
  unfolding served_def by (cases a; cases b; cases c) simp

lemma served_simps:
  assumes "served n n'"
  shows "ncp_BufManList n' = ncp_BufManList n" "ncp_OrphanQueue n' = ncp_OrphanQueue n"
    "same_core n n'" "eth_ok n' = eth_ok n" "rx_reqs n' = rx_reqs n" "req_bufman n' r = req_bufman n r"
    "ncp_EncapType n' = ncp_EncapType n"
proof -
  have e: "n' = n\<lparr>ncp_Copied := ncp_Copied n', ncp_EventList := ncp_EventList n', ncp_Replied := ncp_Replied n'\<rparr>"
    using assms by (simp add: served_def)
  show l: "ncp_BufManList n' = ncp_BufManList n" by (subst e) simp
  show "ncp_OrphanQueue n' = ncp_OrphanQueue n" by (subst e) simp
  show "same_core n n'" by (subst e) simp
  show "eth_ok n' = eth_ok n" by (subst e) simp
  show "rx_reqs n' = rx_reqs n" by (simp add: rx_reqs_def l)
  show "req_bufman n' r = req_bufman n r"
    by (cases "ios2_BufferManagement r") (simp_all add: req_bufman_def l)
  show "ncp_EncapType n' = ncp_EncapType n" by (subst e) simp
qed

text \<open>
  What is copied to the client for a request: the frame behind its header, or for a raw request
  the frame with its header and four bytes more; nothing if a filter or the client refuses.
\<close>

definition copied_by ::
  "bytes \<Rightarrow> nat \<Rightarrow> nat \<Rightarrow> bool \<Rightarrow> sana2req \<Rightarrow> ether_header \<Rightarrow> bufman \<Rightarrow> (nat \<times> bytes) option" where
  "copied_by mem off datasize filt r eph b =
     (let (r', frm) = read_setup eph off datasize r;
          d = take (ios2_DataLength r') (drop frm mem)
      in if filt \<and> (case bm_PacketFilter b of None \<Rightarrow> False | Some f \<Rightarrow> \<not> f r' d) then None
         else if (case bm_CopyToBuf b of None \<Rightarrow> False | Some copy \<Rightarrow> copy (ios2_Data r) d)
         then Some (ios2_Data r, d) else None)"

definition copied_for ::
  "bytes \<Rightarrow> nat \<Rightarrow> nat \<Rightarrow> bool \<Rightarrow> nepEth \<Rightarrow> sana2req \<Rightarrow> (nat \<times> bytes) option" where
  "copied_for mem off datasize filt n r =
     (case (rd_header mem off, req_bufman n r) of
        (Some eph, Some b) \<Rightarrow> copied_by mem off datasize filt r eph b
      | _ \<Rightarrow> None)"

lemma rd_header_Some: "off + EPH_SIZE \<le> length mem \<Longrightarrow>
    rd_header mem off = Some \<lparr>eph_Dest = take 6 (drop off mem), eph_Src = take 6 (drop (off + 6) mem),
      eph_Type = le16 (mem ! (off + 12 + 1)) (mem ! (off + 12))\<rparr>"
  by (simp add: rd_header_def rd_simps EPH_SIZE_def)

lemma read_setup_props:
  assumes "read_setup eph off datasize r = (r', frm)"
    and "off + EPH_SIZE + datasize + 4 \<le> m"
  shows "ios_Id r' = ios_Id r" "ios2_Data r' = ios2_Data r"
    "ios2_BufferManagement r' = ios2_BufferManagement r" "frm + ios2_DataLength r' \<le> m"
proof -
  have "(datasize + EPH_SIZE + 4) mod 65536 \<le> datasize + EPH_SIZE + 4" by (rule mod_less_eq_dividend)
  then show "ios_Id r' = ios_Id r" "ios2_Data r' = ios2_Data r"
    "ios2_BufferManagement r' = ios2_BufferManagement r" "frm + ios2_DataLength r' \<le> m"
    using assms by (auto simp: read_setup_def Let_def split: if_splits)
qed

lemma cast_flags_props [simp]: "ios_Id (cast_flags r) = ios_Id r" "ios2_Data (cast_flags r) = ios2_Data r"
  by (simp_all add: cast_flags_def)

lemma nReadIOReq_ok:
  assumes "can_read n r" and "off + EPH_SIZE + datasize + 4 \<le> length mem"
  shows "\<exists>n' keep dr. nReadIOReq mem off datasize n r dropped filt = Some (n', keep, dr) \<and>
    served n n' \<and> ids n' + idm (opt_list keep) = add_mset (ios_Id r) (ids n) \<and>
    (\<forall>r'. keep = Some r' \<longrightarrow> ios2_BufferManagement r' = ios2_BufferManagement r) \<and>
    (\<not> filt \<longrightarrow> keep = None) \<and>
    ncp_Copied n' = ncp_Copied n @ opt_list (copied_for mem off datasize filt n r) \<and>
    dr = (dropped \<and> copied_for mem off datasize filt n r = None)"
proof -
  obtain eph where h: "rd_header mem off = Some eph" using rd_header_Some [of off mem] assms(2) by simp
  obtain b copy where b: "req_bufman n r = Some b" "bm_CopyToBuf b = Some copy"
    using assms(1) by (auto simp: can_read_def split: option.splits)
  obtain r' frm where s: "read_setup eph off datasize r = (r', frm)" by fastforce
  note S = read_setup_props [OF s assms(2)]
  let ?d = "take (ios2_DataLength r') (drop frm mem)"
  have d: "rd_slice mem frm (ios2_DataLength r') = Some ?d" using S(4) by (simp add: rd_slice_def)
  let ?ref = "filt \<and> (case bm_PacketFilter b of None \<Rightarrow> False | Some f \<Rightarrow> \<not> f r' ?d)"
  let ?ok = "ReplyMsg (n\<lparr>ncp_Copied := ncp_Copied n @ [(ios2_Data r, ?d)]\<rparr>) (cast_flags r')"
  let ?bad = "ReplyMsg (nDoEvent n (S2EVENT_ERROR OR S2EVENT_RX OR S2EVENT_BUFF))
    ((cast_flags r')\<lparr>ios2_DataLength := 0, io_Error := S2ERR_NO_RESOURCES,
       ios2_WireError := word_of_int S2WERR_BUFF_ERROR\<rparr>)"
  have e: "nReadIOReq mem off datasize n r dropped filt =
      Some (if ?ref then (n, Some r', dropped)
            else if copy (ios2_Data r) ?d then (?ok, None, False) else (?bad, None, dropped))"
    unfolding nReadIOReq_def by (simp only: h b s d option.case prod.case Let_def S(2) cast_flags_props) simp
  have c: "copied_for mem off datasize filt n r =
      (if ?ref then None else if copy (ios2_Data r) ?d then Some (ios2_Data r, ?d) else None)"
    unfolding copied_for_def copied_by_def by (simp only: h b s option.case prod.case Let_def)
  have v: "served n ?ok" "served n ?bad" by (simp_all add: served_def ReplyMsg_def nDoEvent_eq)
  have i: "ids ?ok = add_mset (ios_Id r) (ids n)" "ids ?bad = add_mset (ios_Id r) (ids n)"
    using S(1) by simp_all
  have k: "ncp_Copied ?ok = ncp_Copied n @ [(ios2_Data r, ?d)]" "ncp_Copied ?bad = ncp_Copied n"
    by (simp_all add: ReplyMsg_def nDoEvent_eq)
  show ?thesis unfolding e c using v i k S by (cases ?ref; cases "copy (ios2_Data r) ?d") simp_all
qed

section \<open>Laws: a queue, all queues, the orphans\<close>

text \<open>What a client gets of a frame: its first request of the frame's type.\<close>

definition client_gets :: "bytes \<Rightarrow> nat \<Rightarrow> nat \<Rightarrow> nat \<Rightarrow> nepEth \<Rightarrow> sana2req list \<Rightarrow> (nat \<times> bytes) list" where
  "client_gets mem off t datasize n q =
     (case find (type_match t) q of None \<Rightarrow> [] | Some r \<Rightarrow> opt_list (copied_for mem off datasize True n r))"

lemma can_read_same: "ios2_BufferManagement r' = ios2_BufferManagement r \<Longrightarrow> can_read n r' = can_read n r"
  by (simp add: can_read_def req_bufman_def)

lemma serve_queue_ok:
  assumes "\<forall>r \<in> set q. can_read n r" and "off + EPH_SIZE + datasize + 4 \<le> length mem"
  shows "\<exists>n' q' dr. serve_queue mem off t datasize n q dropped = Some (n', q', dr) \<and>
    served n n' \<and> ids n' + idm q' = ids n + idm q \<and> (\<forall>r \<in> set q'. can_read n r) \<and>
    ncp_Copied n' = ncp_Copied n @ client_gets mem off t datasize n q \<and>
    dr = (dropped \<and> client_gets mem off t datasize n q = [])"
  using assms(1)
proof (induction q)
  case (Cons r rs)
  show ?case
  proof (cases "type_match t r")
    case True
    have "can_read n r" using Cons.prems by simp
    from nReadIOReq_ok [OF this assms(2), of dropped True] obtain n' keep dr where
      e: "nReadIOReq mem off datasize n r dropped True = Some (n', keep, dr)" "served n n'"
      "ids n' + idm (opt_list keep) = add_mset (ios_Id r) (ids n)"
      "\<forall>r'. keep = Some r' \<longrightarrow> ios2_BufferManagement r' = ios2_BufferManagement r"
      "ncp_Copied n' = ncp_Copied n @ opt_list (copied_for mem off datasize True n r)"
      "dr = (dropped \<and> copied_for mem off datasize True n r = None)" by blast
    have g: "client_gets mem off t datasize n (r # rs) = opt_list (copied_for mem off datasize True n r)"
      using True by (simp add: client_gets_def)
    let ?q = "case keep of None \<Rightarrow> rs | Some r' \<Rightarrow> r' # rs"
    have "serve_queue mem off t datasize n (r # rs) dropped = Some (n', ?q, dr)"
      using True e(1) by simp
    moreover have "ids n' + idm ?q = ids n + idm (r # rs)"
      using e(3) by (cases keep) (simp_all add: ac_simps)
    moreover have "\<forall>r \<in> set ?q. can_read n r"
    proof (cases keep)
      case (Some r')
      then show ?thesis using Cons.prems e(4) can_read_same [of r' r n] by auto
    qed (use Cons.prems in auto)
    moreover have "dr = (dropped \<and> client_gets mem off t datasize n (r # rs) = [])"
      using e(6) g by (cases "copied_for mem off datasize True n r") simp_all
    moreover have "ncp_Copied n' = ncp_Copied n @ client_gets mem off t datasize n (r # rs)"
      using e(5) g by simp
    ultimately show ?thesis using e(2) by blast
  next
    case False
    have "client_gets mem off t datasize n (r # rs) = client_gets mem off t datasize n rs"
      using False by (simp add: client_gets_def)
    then show ?thesis using Cons False by auto
  qed
qed (simp add: client_gets_def)

lemma copied_by_core: "copied_by mem off datasize filt r eph (core b) = copied_by mem off datasize filt r eph b"
  unfolding copied_by_def core_simps ..

lemma copied_for_core:
  assumes "same_core n n'"
  shows "copied_for mem off datasize filt n r = copied_for mem off datasize filt n' r"
proof -
  have e: "copied_for mem off datasize filt m r =
     (case (rd_header mem off, map_option core (req_bufman m r)) of
        (Some eph, Some b) \<Rightarrow> copied_by mem off datasize filt r eph b
      | _ \<Rightarrow> None)" for m
    by (cases "rd_header mem off"; cases "req_bufman m r") (simp_all add: copied_for_def copied_by_core)
  show ?thesis using assms req_core [of n n' r] unfolding e same_core_def by simp
qed

lemma client_gets_core:
  "same_core n n' \<Longrightarrow> client_gets mem off t datasize n q = client_gets mem off t datasize n' q"
  using copied_for_core [of n n'] by (simp add: client_gets_def split: option.split)

lemma ids_set_rx:
  "find_bufman i (ncp_BufManList n) = Some b \<Longrightarrow> ids (set_rx i q n) + idm (bm_RXQueue b) = ids n + idm q"
  using ids_put_rx [where n = n and l = q] by (simp add: set_rx_def)

lemma set_rx_simps [simp]: "same_core n (set_rx i q n)" "ncp_Copied (set_rx i q n) = ncp_Copied n"
  "ncp_OrphanQueue (set_rx i q n) = ncp_OrphanQueue n" "ncp_WriteQueue (set_rx i q n) = ncp_WriteQueue n"
  "ncp_Multicasts (set_rx i q n) = ncp_Multicasts n" "ncp_EncapType (set_rx i q n) = ncp_EncapType n"
  by (simp_all add: set_rx_def same_core_def core_upd)

lemma find_bufman_distinct:
  "distinct (map bm_Id bs) \<Longrightarrow> b \<in> set bs \<Longrightarrow> find_bufman (bm_Id b) bs = Some b"
  by (induction bs) (auto simp: image_iff)

text \<open>Two units that differ at most in what serving their queues changes.\<close>

definition served_all :: "nepEth \<Rightarrow> nepEth \<Rightarrow> bool" where
  "served_all n n' \<longleftrightarrow> n' = n\<lparr>ncp_Copied := ncp_Copied n', ncp_EventList := ncp_EventList n',
     ncp_Replied := ncp_Replied n', ncp_BufManList := ncp_BufManList n',
     ncp_OrphanQueue := ncp_OrphanQueue n', ncp_DeviceStats := ncp_DeviceStats n',
     ncp_TrackList := ncp_TrackList n'\<rparr>"

lemma served_all_refl [simp]: "served_all n n"
  by (simp add: served_all_def)

lemma served_all_trans: "served_all a b \<Longrightarrow> served_all b c \<Longrightarrow> served_all a c"
  unfolding served_all_def by (cases a; cases b; cases c) simp

lemma served_served_all: "served n n' \<Longrightarrow> served_all n n'"
  unfolding served_all_def served_def by (cases n; cases n') simp

lemma served_all_steps [simp]: "served_all n (set_rx i q n')  = served_all n n'"
  "served_all n (n'\<lparr>ncp_OrphanQueue := l\<rparr>) = served_all n n'"
  unfolding served_all_def set_rx_def by (cases n; cases n'; simp)+

lemma serve_all_ok:
  assumes "off + EPH_SIZE + datasize + 4 \<le> length mem"
  shows "eth_ok n \<Longrightarrow> distinct (map bm_Id bs) \<Longrightarrow>
    (\<And>b. b \<in> set bs \<Longrightarrow> find_bufman (bm_Id b) (ncp_BufManList n) = Some b) \<Longrightarrow>
    \<exists>n' dr. serve_all mem off t datasize n bs dropped = Some (n', dr) \<and> served_all n n' \<and>
      same_core n n' \<and> eth_ok n' \<and> ids n' = ids n \<and> ncp_OrphanQueue n' = ncp_OrphanQueue n \<and>
      ncp_Copied n' = ncp_Copied n @ concat (map (\<lambda>b. client_gets mem off t datasize n (bm_RXQueue b)) bs) \<and>
      dr = (dropped \<and> concat (map (\<lambda>b. client_gets mem off t datasize n (bm_RXQueue b)) bs) = [])"
proof (induction bs arbitrary: n dropped)
  case (Cons b bs)
  have fb: "find_bufman (bm_Id b) (ncp_BufManList n) = Some b" using Cons.prems(3) [of b] by simp
  then have "set (bm_RXQueue b) \<subseteq> set (rx_reqs n)"
    using find_bufman_mem [OF fb] by (auto simp: rx_reqs_def)
  then have cr: "\<forall>r \<in> set (bm_RXQueue b). can_read n r" using Cons.prems(1) by (auto simp: eth_ok_def)
  from serve_queue_ok [OF this assms, of t dropped] obtain n1 q dr where
    q: "serve_queue mem off t datasize n (bm_RXQueue b) dropped = Some (n1, q, dr)" "served n n1"
    "ids n1 + idm q = ids n + idm (bm_RXQueue b)" "\<forall>r \<in> set q. can_read n r"
    "ncp_Copied n1 = ncp_Copied n @ client_gets mem off t datasize n (bm_RXQueue b)"
    "dr = (dropped \<and> client_gets mem off t datasize n (bm_RXQueue b) = [])" by blast
  note S = served_simps [OF q(2)]
  let ?n = "set_rx (bm_Id b) q n1"
  have sc: "same_core n ?n" using S(3) same_core_trans [OF S(3), of ?n] by simp
  have "ids ?n + idm (bm_RXQueue b) = ids n1 + idm q" using ids_set_rx [of "bm_Id b" n1 b q] fb S(1) by simp
  then have i: "ids ?n = ids n" using q(3) by simp
  have ok: "eth_ok ?n"
  proof (rule eth_okI [OF Cons.prems(1) sc])
    fix r assume "r \<in> set (rx_reqs ?n)"
    from put_rx_reqs [OF this [unfolded set_rx_def]] show "r \<in> set (rx_reqs n) \<or> can_read n r"
      using q(4) S(5) by auto
  next
    fix r assume "r \<in> set (ncp_OrphanQueue ?n)"
    then show "r \<in> set (ncp_OrphanQueue n) \<or> can_read n r" using S(2) by simp
  next
    fix r assume "r \<in> set (ncp_WriteQueue ?n)"
    then show "r \<in> set (ncp_WriteQueue n) \<or> can_write n r"
      using q(2) by (cases n; cases n1) (simp add: served_def)
  next
    fix m assume "m \<in> set (ncp_Multicasts ?n)"
    then show "m \<in> set (ncp_Multicasts n) \<or> range_ok m"
      using q(2) by (cases n; cases n1) (simp add: served_def)
  qed
  have "find_bufman (bm_Id b') (ncp_BufManList ?n) = Some b'" if "b' \<in> set bs" for b'
  proof -
    have "bm_Id b' \<noteq> bm_Id b" using Cons.prems(2) that by (metis distinct.simps(2) image_eqI list.simps(9) set_map)
    then show ?thesis using Cons.prems(3) [of b'] that S(1) by (simp add: set_rx_def find_upd)
  qed
  from Cons.IH [OF ok _ this, of dr] Cons.prems(2) obtain n2 dr2 where
    r: "serve_all mem off t datasize ?n bs dr = Some (n2, dr2)" "served_all ?n n2" "same_core ?n n2"
    "eth_ok n2" "ids n2 = ids ?n" "ncp_OrphanQueue n2 = ncp_OrphanQueue ?n"
    "ncp_Copied n2 = ncp_Copied ?n @ concat (map (\<lambda>b. client_gets mem off t datasize ?n (bm_RXQueue b)) bs)"
    "dr2 = (dr \<and> concat (map (\<lambda>b. client_gets mem off t datasize ?n (bm_RXQueue b)) bs) = [])" by auto
  have g: "client_gets mem off t datasize ?n x = client_gets mem off t datasize n x" for x
    using client_gets_core [OF sc] by simp
  have "served_all n n2"
    using served_all_trans [OF _ r(2)] served_served_all [OF q(2)] by simp
  then show ?case
    using q(1,5,6) r i g S(2) same_core_trans [OF sc r(3)] by simp
qed simp

text \<open>Orphan requests: all of them are served and go.\<close>

definition orphans_get :: "bytes \<Rightarrow> nat \<Rightarrow> nat \<Rightarrow> nepEth \<Rightarrow> sana2req list \<Rightarrow> (nat \<times> bytes) list" where
  "orphans_get mem off datasize n q = concat (map (\<lambda>r. opt_list (copied_for mem off datasize False n r)) q)"

lemma serve_orphans_ok:
  assumes "off + EPH_SIZE + datasize + 4 \<le> length mem"
  shows "\<forall>r \<in> set q. can_read n r \<Longrightarrow>
    \<exists>n'. serve_orphans mem off datasize n q = Some (n', []) \<and> served n n' \<and>
      ids n' = ids n + idm q \<and> ncp_Copied n' = ncp_Copied n @ orphans_get mem off datasize n q"
proof (induction q arbitrary: n)
  case (Cons r rs)
  have "can_read n r" using Cons.prems by simp
  from nReadIOReq_ok [OF this assms, of False False] obtain n1 dr where
    e: "nReadIOReq mem off datasize n r False False = Some (n1, None, dr)" "served n n1"
    "ids n1 = add_mset (ios_Id r) (ids n)"
    "ncp_Copied n1 = ncp_Copied n @ opt_list (copied_for mem off datasize False n r)" by auto
  note S = served_simps [OF e(2)]
  have "\<forall>r \<in> set rs. can_read n1 r" using Cons.prems can_core(1) [OF S(3)] by auto
  from Cons.IH [OF this] obtain n2 where
    i: "serve_orphans mem off datasize n1 rs = Some (n2, [])" "served n1 n2" "ids n2 = ids n1 + idm rs"
    "ncp_Copied n2 = ncp_Copied n1 @ orphans_get mem off datasize n1 rs" by blast
  have "orphans_get mem off datasize n1 rs = orphans_get mem off datasize n rs"
    using copied_for_core [OF S(3)] by (simp add: orphans_get_def)
  then show ?case using e i served_trans [OF e(2) i(2)] by (simp add: orphans_get_def)
qed (simp add: orphans_get_def)

section \<open>Laws: a frame\<close>

text \<open>All copies made of a frame: one per client at most, else one per orphan request.\<close>

definition frame_copies :: "bytes \<Rightarrow> nat \<Rightarrow> nat \<Rightarrow> nat \<Rightarrow> nepEth \<Rightarrow> (nat \<times> bytes) list" where
  "frame_copies mem off t datasize n =
     (let cs = concat (map (\<lambda>b. client_gets mem off t datasize n (bm_RXQueue b)) (ncp_BufManList n))
      in if cs \<noteq> [] then cs else orphans_get mem off datasize n (ncp_OrphanQueue n))"

lemma offer_frame_ok:
  assumes "eth_ok n" and "off + EPH_SIZE + datasize + 4 \<le> length mem"
  shows "\<exists>n' ok. offer_frame mem off t datasize n = Some (n', ok) \<and> served_all n n' \<and> same_core n n' \<and>
    eth_ok n' \<and> ids n' = ids n \<and> ncp_Copied n' = ncp_Copied n @ frame_copies mem off t datasize n"
proof -
  let ?cs = "concat (map (\<lambda>b. client_gets mem off t datasize n (bm_RXQueue b)) (ncp_BufManList n))"
  have "distinct (map bm_Id (ncp_BufManList n))" using assms(1) by (simp add: eth_ok_def)
  from serve_all_ok [OF assms(2,1) this, of t True] find_bufman_distinct [OF this] obtain n1 where
    a: "serve_all mem off t datasize n (ncp_BufManList n) True = Some (n1, ?cs = [])" "served_all n n1"
    "same_core n n1" "eth_ok n1" "ids n1 = ids n" "ncp_OrphanQueue n1 = ncp_OrphanQueue n"
    "ncp_Copied n1 = ncp_Copied n @ ?cs" by auto
  show ?thesis
  proof (cases "?cs = []")
    case True
    have cr: "\<forall>r \<in> set (ncp_OrphanQueue n1). can_read n1 r" using a(4) by (simp add: eth_ok_def)
    from serve_orphans_ok [OF assms(2) this] obtain n2 where
      o: "serve_orphans mem off datasize n1 (ncp_OrphanQueue n1) = Some (n2, [])" "served n1 n2"
      "ids n2 = ids n1 + idm (ncp_OrphanQueue n1)"
      "ncp_Copied n2 = ncp_Copied n1 @ orphans_get mem off datasize n1 (ncp_OrphanQueue n1)" by blast
    let ?n = "n2\<lparr>ncp_OrphanQueue := []\<rparr>"
    note S = served_simps [OF o(2)]
    have g: "orphans_get mem off datasize n1 q = orphans_get mem off datasize n q" for q
      using copied_for_core [OF a(3)] by (simp add: orphans_get_def)
    have "ids ?n = ids n1"
      using ids_put(1) [where n = n2 and l = "[]"] o(3) S(2) by simp
    moreover have "eth_ok n2" using a(4) S(4) by simp
    then have "eth_ok ?n" by (rule eth_okI) auto
    moreover have "served_all n ?n" using served_all_trans [OF a(2) served_served_all [OF o(2)]] by simp
    moreover have "same_core n ?n" using same_core_trans [OF a(3) S(3)] by simp
    moreover have "offer_frame mem off t datasize n = Some (?n, False)"
      using a(1) o(1) True by (simp add: offer_frame_def)
    moreover have "frame_copies mem off t datasize n = orphans_get mem off datasize n (ncp_OrphanQueue n)"
      using True by (simp add: frame_copies_def Let_def)
    moreover have "ncp_Copied ?n = ncp_Copied n @ frame_copies mem off t datasize n"
      using calculation(6) a(6,7) o(4) g True by simp
    ultimately show ?thesis using a(5) by metis
  next
    case False
    then have "offer_frame mem off t datasize n = Some (n1, True)"
      "frame_copies mem off t datasize n = ?cs"
      using a(1) by (simp_all only: offer_frame_def frame_copies_def Let_def option.case prod.case if_True
          if_False not_False_eq_True simp_thms)
    moreover have "ncp_Copied n1 = ncp_Copied n @ frame_copies mem off t datasize n"
      using calculation(2) a(7) by simp
    ultimately show ?thesis using a(2-5) by blast
  qed
qed

lemma stats_steps [simp]:
  "ids (upd_stats f n) = ids n" "eth_ok (upd_stats f n) = eth_ok n" "same_core m (upd_stats f n) = same_core m n"
  "ids (upd_type p g n) = ids n" "eth_ok (upd_type p g n) = eth_ok n" "same_core m (upd_type p g n) = same_core m n"
  "ncp_Copied (upd_stats f n) = ncp_Copied n" "ncp_Copied (upd_type p g n) = ncp_Copied n"
  "ids (bad_data n) = ids n" "eth_ok (bad_data n) = eth_ok n" "same_core m (bad_data n) = same_core m n"
  "ncp_Copied (bad_data n) = ncp_Copied n"
  by (simp_all add: upd_stats_def upd_type_def bad_data_def split: option.split)

lemma frame_lost_simps [simp]: "ids (frame_lost p n) = ids n" "eth_ok n \<Longrightarrow> eth_ok (frame_lost p n)"
  "same_core m (frame_lost p n) = same_core m n" "ncp_Copied (frame_lost p n) = ncp_Copied n"
  by (simp_all add: frame_lost_def) (simp add: nDoEvent_eq)

lemma served_all_lost [simp]: "served_all n (frame_lost p n') = served_all n n'"
  unfolding served_all_def frame_lost_def nDoEvent_eq upd_type_def upd_stats_def
  by (cases n; cases n'; cases p) simp_all

lemma served_all_stats [simp]: "served_all n (upd_stats f n') = served_all n n'"
  "served_all n (upd_type p g n') = served_all n n'" "served_all n (bad_data n') = served_all n n'"
  unfolding served_all_def upd_type_def upd_stats_def bad_data_def
  by (cases n; cases n'; cases p; simp)+

lemma frame_copies_stats:
  "frame_copies mem off t datasize (frame_taken p m (upd_stats f n)) = frame_copies mem off t datasize n"
proof -
  have "same_core (frame_taken p m (upd_stats f n)) n" "same_core n n" by (simp_all add: frame_taken_def same_core_def upd_type_def upd_stats_def split: option.split)
  moreover have "ncp_BufManList (frame_taken p m (upd_stats f n)) = ncp_BufManList n"
    "ncp_OrphanQueue (frame_taken p m (upd_stats f n)) = ncp_OrphanQueue n"
    by (simp_all add: frame_taken_def upd_type_def upd_stats_def split: option.split)
  ultimately show ?thesis
    using client_gets_core copied_for_core by (simp add: frame_copies_def orphans_get_def)
qed

text \<open>
  What holds of every frame: the frame's four bytes behind it are inside the memory, no request
  is lost, and the copies are those of \<open>frame_copies\<close>.
\<close>

lemma nReadPacket_ok:
  assumes "eth_ok n" and "off + pktlen + 4 \<le> length mem"
  shows "\<exists>n' ok. nReadPacket mem off pktlen n = Some (n', ok) \<and> eth_ok n' \<and> same_core n n' \<and>
    served_all n n' \<and> ids n' = ids n \<and>
    ncp_Copied n' = ncp_Copied n @
      (if EPH_SIZE \<le> pktlen \<and> pktlen \<le> ETHER_MAX_LEN
       then frame_copies mem off (le16 (mem ! (off + 13)) (mem ! (off + 12))) (pktlen - EPH_SIZE) n else [])"
proof (cases "EPH_SIZE \<le> pktlen \<and> pktlen \<le> ETHER_MAX_LEN")
  case True
  let ?t = "le16 (mem ! (off + 13)) (mem ! (off + 12))"
  have s: "off + 12 + 1 = off + 13" by simp
  obtain eph where h: "rd_header mem off = Some eph" and t: "eph_Type eph = ?t"
    using rd_header_Some [of off mem] assms(2) True unfolding s by simp
  let ?n = "upd_stats (\<lambda>d. d\<lparr>ds_PacketsReceived := ds_PacketsReceived d + 1\<rparr>) n"
  let ?p = "FindPacketTypeStats ?n (word_of_nat ?t)"
  let ?m = "frame_taken ?p (pktlen - EPH_SIZE) ?n"
  have small: "(pktlen - EPH_SIZE) mod 65536 = pktlen - EPH_SIZE"
    using True by (intro mod_less) (auto simp: ETHER_MAX_LEN_def)
  have ok: "eth_ok ?m" using assms(1) by (simp add: frame_taken_def)
  have len: "off + EPH_SIZE + (pktlen - EPH_SIZE) + 4 \<le> length mem" using assms(2) True by simp
  from offer_frame_ok [OF ok len, of ?t] obtain n1 ok1 where
    a: "offer_frame mem off ?t (pktlen - EPH_SIZE) ?m = Some (n1, ok1)" "served_all ?m n1" "same_core ?m n1"
    "eth_ok n1" "ids n1 = ids ?m" "ncp_Copied n1 = ncp_Copied ?m @ frame_copies mem off ?t (pktlen - EPH_SIZE) ?m"
    by blast
  have e: "nReadPacket mem off pktlen n = Some (if ok1 then n1 else frame_lost ?p n1, ok1)"
    using True h t a(1) small by (simp add: nReadPacket_def Let_def)
  have m: "served_all n ?m" "same_core n ?m" "ids ?m = ids n" "ncp_Copied ?m = ncp_Copied n"
    by (simp_all add: frame_taken_def)
  let ?r = "if ok1 then n1 else frame_lost ?p n1"
  have "eth_ok ?r" using a(4) by simp
  moreover have "same_core n ?r" using same_core_trans [OF m(2) a(3)] by simp
  moreover have "served_all n ?r" using served_all_trans [OF m(1) a(2)] by simp
  moreover have "ids ?r = ids n" using a(5) m(3) by simp
  moreover have "ncp_Copied ?r = ncp_Copied n @ frame_copies mem off ?t (pktlen - EPH_SIZE) n"
    using a(6) m(4) by (simp add: frame_copies_stats)
  ultimately show ?thesis
    by (intro exI [where x = ?r] exI [where x = ok1]) (simp only: e True if_True simp_thms)
next
  case False
  show ?thesis
  proof (cases "pktlen < EPH_SIZE")
    case True
    then show ?thesis using assms(1)
      by (intro exI [where x = "bad_data n"] exI [where x = False]) (simp add: nReadPacket_def)
  next
    case big: False
    then obtain eph where "rd_header mem off = Some eph" using rd_header_Some [of off mem] assms(2) by auto
    then obtain n' where "nReadPacket mem off pktlen n = Some (n', False)" "eth_ok n'" "same_core n n'"
      "served_all n n'" "ids n' = ids n" "ncp_Copied n' = ncp_Copied n"
      using big False assms(1) by (simp add: nReadPacket_def Let_def)
    then show ?thesis using False by auto
  qed
qed

end
