(* ===== verification/Cdc_Encap.thy ===== *)
theory Cdc_Encap
  imports Cdc_Rx
begin

text \<open>
  How the CDC Ethernet class packs frames into USB transfers and takes them out again
  (\<open>classes/cdceth/cdceth_encap.c\<close>): plain ECM, the Ethernet Emulation Model (EEM) and the
  Network Control Model (NCM, 16 bit transfer blocks).

  The receive loops have fuel; \<open>None\<close> is an access outside the buffer or an exhausted fuel, and
  the theorems show neither happens.
\<close>

definition CDC_EEM_HDR_TYPE_COMMAND :: nat where "CDC_EEM_HDR_TYPE_COMMAND = 0x8000"
definition CDC_EEM_HDR_CRC :: nat where "CDC_EEM_HDR_CRC = 0x4000"
definition CDC_EEM_HDR_LEN_MASK :: nat where "CDC_EEM_HDR_LEN_MASK = 0x3fff"
definition CDCETH_EEM_DEFAULT_BUFSIZE :: nat where "CDCETH_EEM_DEFAULT_BUFSIZE = 4096"
definition CDCETH_EEM_HEADER_LEN :: nat where "CDCETH_EEM_HEADER_LEN = 2"
definition CDCETH_EEM_ALIGN :: nat where "CDCETH_EEM_ALIGN = 4"
definition CDCETH_NCM_ALIGN :: nat where "CDCETH_NCM_ALIGN = 4"
definition CDCETH_NCM_DEFAULT_NTB :: nat where "CDCETH_NCM_DEFAULT_NTB = 16384"
definition CDC_NCM_NTH16_SIGNATURE :: nat where "CDC_NCM_NTH16_SIGNATURE = 0x484d434e"
definition CDC_NCM_NDP16_SIGNATURE_NCM0 :: nat where "CDC_NCM_NDP16_SIGNATURE_NCM0 = 0x304d434e"
definition CDC_NCM_NDP16_SIGNATURE_NCM1 :: nat where "CDC_NCM_NDP16_SIGNATURE_NCM1 = 0x314d434e"

text \<open>Sizes of \<open>UsbCDCNcmNtb16Header\<close>, \<open>UsbCDCNcmNdp16\<close> and \<open>UsbCDCNcmDatagramPointer16\<close>.\<close>

definition NTH16_SIZE :: nat where "NTH16_SIZE = 12"
definition NDP16_SIZE :: nat where "NDP16_SIZE = 8"
definition DPE16_SIZE :: nat where "DPE16_SIZE = 4"

section \<open>Setting up\<close>

definition cdceth_align_word :: "u32 \<Rightarrow> u32 \<Rightarrow> u32" where
  "cdceth_align_word val algn = (val + (algn - 1)) AND NOT (algn - 1)"

definition cdceth_align :: "nat \<Rightarrow> nat \<Rightarrow> nat" where
  "cdceth_align val algn = unat (cdceth_align_word (word_of_nat val) (word_of_nat algn))"

datatype cdc_subclass = CDC_SUBCLASS_ETHERNET | CDC_SUBCLASS_EEM | CDC_SUBCLASS_NCM | CDC_SUBCLASS_OTHER

text \<open>
  \<open>ctrl\<close>: the control interface's subclass, if there is such an interface; \<open>seg\<close>: the
  \<open>wMaxSegmentSize\<close> of its NCM functional descriptor, if it has one.
\<close>

definition cdceth_encap_configure :: "cdc_subclass option \<Rightarrow> u16 option \<Rightarrow> nepEth \<Rightarrow> nepEth" where
  "cdceth_encap_configure ctrl seg ncp =
     (let ncp = ncp\<lparr>ncp_EncapType := ENCAP_ECM, ncp_ReadBufSize := ETHER_MAX_LEN,
                    ncp_WriteBufSize := ETHER_MAX_LEN,
                    ncp_NcmMaxSegment := word_of_nat ETHER_MAX_LEN, ncp_NcmSeq := 0,
                    ncp_NtbMaxSize := ETHER_MAX_LEN\<rparr>
      in case (case ctrl of None \<Rightarrow> CDC_SUBCLASS_ETHERNET | Some s \<Rightarrow> s) of
           CDC_SUBCLASS_EEM \<Rightarrow>
             ncp\<lparr>ncp_EncapType := ENCAP_EEM, ncp_ReadBufSize := CDCETH_EEM_DEFAULT_BUFSIZE,
                 ncp_WriteBufSize := CDCETH_EEM_DEFAULT_BUFSIZE\<rparr>
         | CDC_SUBCLASS_NCM \<Rightarrow>
             (let ncp = ncp\<lparr>ncp_EncapType := ENCAP_NCM, ncp_NtbMaxSize := CDCETH_NCM_DEFAULT_NTB,
                            ncp_ReadBufSize := CDCETH_NCM_DEFAULT_NTB,
                            ncp_WriteBufSize := CDCETH_NCM_DEFAULT_NTB\<rparr>
              in case seg of
                   Some s \<Rightarrow> if s \<noteq> 0 then ncp\<lparr>ncp_NcmMaxSegment := s\<rparr> else ncp
                 | None \<Rightarrow> ncp)
         | _ \<Rightarrow> ncp)"

section \<open>Transmitting\<close>

text \<open>The payload's offset and the length of the transfer; \<open>None\<close> is \<open>FALSE\<close>.\<close>

definition cdceth_prepare_tx :: "nepEth \<Rightarrow> nat \<Rightarrow> nat \<Rightarrow> (nat \<times> nat) option" where
  "cdceth_prepare_tx ncp payload_len buf_size =
     (let res = (case ncp_EncapType ncp of
            ENCAP_EEM \<Rightarrow>
              if CDC_EEM_HDR_LEN_MASK < payload_len then None
              else let offset = CDCETH_EEM_HEADER_LEN
                   in Some (offset, cdceth_align (offset + payload_len) CDCETH_EEM_ALIGN)
          | ENCAP_NCM \<Rightarrow>
              let ndp_len = NDP16_SIZE + DPE16_SIZE * 2;
                  ndp_offset = cdceth_align NTH16_SIZE CDCETH_NCM_ALIGN;
                  offset = cdceth_align (ndp_offset + ndp_len) CDCETH_NCM_ALIGN
              in Some (offset, cdceth_align (offset + payload_len) CDCETH_NCM_ALIGN)
          | ENCAP_ECM \<Rightarrow> Some (0, payload_len))
      in case res of
           None \<Rightarrow> None
         | Some (offset, tot) \<Rightarrow>
             if 0 < payload_len \<and> buf_size < tot then None else Some (offset, tot))"

definition wr :: "nat \<Rightarrow> bytes \<Rightarrow> bytes option \<Rightarrow> bytes option" where
  "wr off d b = Option.bind b (\<lambda>b. wr_bytes b off d)"

definition cdceth_finalize_tx ::
  "nepEth \<Rightarrow> bytes \<Rightarrow> nat \<Rightarrow> nat \<Rightarrow> nat \<Rightarrow> (nepEth \<times> bytes) option" where
  "cdceth_finalize_tx ncp buf payload_offset payload_len total_len =
     (case ncp_EncapType ncp of
        ENCAP_EEM \<Rightarrow>
          map_option (Pair ncp)
            (let b = wr 0 (enc_le16 (payload_len AND CDC_EEM_HDR_LEN_MASK)) (Some buf)
             in if payload_offset + payload_len < total_len
                then wr (payload_offset + payload_len)
                       (replicate (total_len - (payload_offset + payload_len)) 0) b
                else b)
      | ENCAP_NCM \<Rightarrow>
          (let ndp_len = NDP16_SIZE + DPE16_SIZE * 2;
               ndp_offset = cdceth_align NTH16_SIZE CDCETH_NCM_ALIGN;
               dpe = ndp_offset + NDP16_SIZE;
               b = wr 0 (replicate payload_offset 0) (Some buf);
               b = wr 0 (enc_le32 CDC_NCM_NTH16_SIGNATURE) b;
               b = wr 4 (enc_le16 NTH16_SIZE) b;
               b = wr 6 (enc_le16 (unat (ncp_NcmSeq ncp))) b;
               b = wr 8 (enc_le16 total_len) b;
               b = wr 10 (enc_le16 ndp_offset) b;
               b = wr ndp_offset (enc_le32 CDC_NCM_NDP16_SIGNATURE_NCM0) b;
               b = wr (ndp_offset + 4) (enc_le16 ndp_len) b;
               b = wr (ndp_offset + 6) (enc_le16 0) b;
               b = wr dpe (enc_le16 payload_offset) b;
               b = wr (dpe + 2) (enc_le16 payload_len) b;
               b = wr (dpe + 4) (enc_le16 0) b;
               b = wr (dpe + 6) (enc_le16 0) b
           in map_option (Pair (ncp\<lparr>ncp_NcmSeq := ncp_NcmSeq ncp + 1\<rparr>)) b)
      | ENCAP_ECM \<Rightarrow> Some (ncp, buf))"

section \<open>Receiving\<close>

text \<open>The unit so far and whether a frame was taken, across one more frame.\<close>

definition deliver ::
  "bytes \<Rightarrow> nat \<Rightarrow> nat \<Rightarrow> nepEth \<Rightarrow> bool \<Rightarrow> (nepEth \<times> bool) option" where
  "deliver mem off len ncp delivered =
     (if EPH_SIZE \<le> len
      then map_option (\<lambda>(n, ok). (n, delivered \<or> ok)) (nReadPacket mem off len ncp)
      else Some (bad_data ncp, delivered))"

fun eem_loop :: "nat \<Rightarrow> bytes \<Rightarrow> nat \<Rightarrow> nat \<Rightarrow> nepEth \<Rightarrow> bool \<Rightarrow> (nepEth \<times> bool) option" where
  "eem_loop 0 mem pktlen offset ncp delivered = None"
| "eem_loop (Suc k) mem pktlen offset ncp delivered =
     (if offset + 2 \<le> pktlen
      then (case rd_le16 mem offset of
              None \<Rightarrow> None
            | Some header \<Rightarrow>
                let flen = header AND CDC_EEM_HDR_LEN_MASK;
                    is_command = (header AND CDC_EEM_HDR_TYPE_COMMAND \<noteq> 0);
                    has_crc = (header AND CDC_EEM_HDR_CRC \<noteq> 0);
                    offset = offset + 2
                in if flen = 0
                   then eem_loop k mem pktlen (cdceth_align offset CDCETH_EEM_ALIGN) ncp delivered
                   else if pktlen < offset + flen then Some (bad_data ncp, delivered)
                   else let frame_len = (if has_crc \<and> 4 \<le> flen then flen - 4 else flen)
                        in (case (if is_command then Some (ncp, delivered)
                                  else deliver mem offset frame_len ncp delivered) of
                              None \<Rightarrow> None
                            | Some (ncp', delivered') \<Rightarrow>
                                eem_loop k mem pktlen
                                  (cdceth_align (offset + flen) CDCETH_EEM_ALIGN) ncp' delivered'))
      else Some (ncp, delivered))"

definition cdceth_handle_eem_rx :: "bytes \<Rightarrow> nat \<Rightarrow> nepEth \<Rightarrow> (nepEth \<times> bool) option" where
  "cdceth_handle_eem_rx mem pktlen ncp = eem_loop (pktlen + 1) mem pktlen 0 ncp False"

fun ncm_entries ::
  "nat \<Rightarrow> bytes \<Rightarrow> nat \<Rightarrow> nat \<Rightarrow> nat \<Rightarrow> nepEth \<Rightarrow> bool \<Rightarrow> (nepEth \<times> bool) option" where
  "ncm_entries 0 mem block_len ndp_end entry ncp delivered = None"
| "ncm_entries (Suc k) mem block_len ndp_end entry ncp delivered =
     (if entry + DPE16_SIZE \<le> ndp_end
      then (case (rd_le16 mem entry, rd_le16 mem (entry + 2)) of
              (Some d_index, Some d_len) \<Rightarrow>
                if d_index = 0 \<or> d_len = 0 then Some (ncp, delivered)
                else if block_len < d_index + d_len then Some (bad_data ncp, delivered)
                else (case deliver mem d_index d_len ncp delivered of
                        None \<Rightarrow> None
                      | Some (ncp', delivered') \<Rightarrow>
                          ncm_entries k mem block_len ndp_end (entry + DPE16_SIZE) ncp' delivered')
            | _ \<Rightarrow> None)
      else Some (ncp, delivered))"

text \<open>\<open>left\<close> is what is left of the guard: four pointer tables at most.\<close>

fun ncm_tables ::
  "nat \<Rightarrow> bytes \<Rightarrow> nat \<Rightarrow> nat \<Rightarrow> nepEth \<Rightarrow> bool \<Rightarrow> (nepEth \<times> bool) option" where
  "ncm_tables 0 mem block_len ndp_index ncp delivered = Some (ncp, delivered)"
| "ncm_tables (Suc left) mem block_len ndp_index ncp delivered =
     (if ndp_index = 0 then Some (ncp, delivered)
      else if block_len < ndp_index + NDP16_SIZE then Some (bad_data ncp, delivered)
      else case (rd_le32 mem ndp_index, rd_le16 mem (ndp_index + 4), rd_le16 mem (ndp_index + 6)) of
             (Some signature, Some ndp_length, Some nxt) \<Rightarrow>
               if signature \<noteq> CDC_NCM_NDP16_SIGNATURE_NCM0 \<and> signature \<noteq> CDC_NCM_NDP16_SIGNATURE_NCM1
               then Some (bad_data ncp, delivered)
               else if ndp_length < NDP16_SIZE then Some (bad_data ncp, delivered)
               else let ndp_end = ndp_index + ndp_length
                    in if block_len < ndp_end then Some (bad_data ncp, delivered)
                       else (case ncm_entries (ndp_length + 1) mem block_len ndp_end
                                    (ndp_index + NDP16_SIZE) ncp delivered of
                               None \<Rightarrow> None
                             | Some (ncp', delivered') \<Rightarrow>
                                 ncm_tables left mem block_len nxt ncp' delivered')
           | _ \<Rightarrow> None)"

definition cdceth_handle_ncm_rx :: "bytes \<Rightarrow> nat \<Rightarrow> nepEth \<Rightarrow> (nepEth \<times> bool) option" where
  "cdceth_handle_ncm_rx mem pktlen ncp =
     (if pktlen < NTH16_SIZE then Some (bad_data ncp, False)
      else case (rd_le32 mem 0, rd_le16 mem 8, rd_le16 mem 10) of
             (Some signature, Some block_len, Some ndp_index) \<Rightarrow>
               if signature \<noteq> CDC_NCM_NTH16_SIGNATURE then Some (bad_data ncp, False)
               else ncm_tables 4 mem
                      (if block_len = 0 \<or> pktlen < block_len then pktlen else block_len)
                      ndp_index ncp False
           | _ \<Rightarrow> None)"

definition cdceth_handle_rx :: "bytes \<Rightarrow> nat \<Rightarrow> nepEth \<Rightarrow> (nepEth \<times> bool) option" where
  "cdceth_handle_rx mem pktlen ncp =
     (case ncp_EncapType ncp of
        ENCAP_EEM \<Rightarrow> cdceth_handle_eem_rx mem pktlen ncp
      | ENCAP_NCM \<Rightarrow> cdceth_handle_ncm_rx mem pktlen ncp
      | ENCAP_ECM \<Rightarrow> nReadPacket mem 0 pktlen ncp)"

section \<open>Laws: alignment\<close>

lemma and_not_3: "(y :: u32) AND NOT 3 = push_bit 2 (drop_bit 2 y)"
proof -
  have m: "(3 :: u32) = mask 2" by (simp add: mask_eq_exp_minus_1)
  show ?thesis
  proof (rule bit_word_eqI)
    fix n assume n: "n < LENGTH(32)"
    show "bit (y AND NOT 3) n = bit (push_bit 2 (drop_bit 2 y)) n"
    proof (cases "n < 2")
      case True
      then show ?thesis by (simp add: m bit_simps)
    next
      case False
      then obtain m where "n = 2 + m" by (metis le_Suc_ex not_less)
      then have "bit (push_bit 2 (drop_bit 2 y)) n = bit y n"
        using n by (simp add: bit_push_bit_iff bit_drop_bit_eq)
      moreover have "bit (y AND NOT (mask 2)) n = bit y n"
        using n False by (simp add: bit_and_iff bit_not_iff bit_mask_iff)
      ultimately show ?thesis by (simp add: m)
    qed
  qed
qed

lemma unat_and_not_3: "unat ((y :: u32) AND NOT 3) = unat y div 4 * 4"
proof -
  have "unat y < 2 ^ 32" using unsigned_less [of y] by simp
  then have "unat y div 4 * 4 < 2 ^ 32" by simp
  then show ?thesis
    by (simp only: and_not_3 push_bit_eq_mult drop_bit_eq_div unat_word_ariths unat_div mult.commute)
      (simp add: unat_div mult.commute)
qed

lemma cdceth_align_4: "v + 4 \<le> 2 ^ 32 \<Longrightarrow> cdceth_align v 4 = (v + 3) div 4 * 4"
proof -
  assume v: "v + 4 \<le> 2 ^ 32"
  have "word_of_nat v + (4 - 1 :: u32) = word_of_nat (v + 3)" by simp
  then have "cdceth_align v 4 = unat ((word_of_nat (v + 3) :: u32) AND NOT 3)"
    by (simp add: cdceth_align_def cdceth_align_word_def)
  also have "\<dots> = unat (word_of_nat (v + 3) :: u32) div 4 * 4" by (rule unat_and_not_3)
  also have "unat (word_of_nat (v + 3) :: u32) = v + 3"
    using v by (simp only: unat_of_nat) simp
  finally show ?thesis .
qed

lemma align_bounds: "v \<le> (v + 3) div 4 * 4" "(v + 3) div 4 * 4 \<le> v + (3 :: nat)"
  by presburger+

lemma align_dvd: "4 dvd (v + 3) div 4 * (4 :: nat)"
  by simp

lemma align_id: "4 dvd v \<Longrightarrow> (v + 3) div 4 * 4 = (v :: nat)"
  by presburger

lemma mask14: "n AND CDC_EEM_HDR_LEN_MASK = n mod 16384"
proof -
  have "(0x3fff :: nat) = mask 14" by (simp add: mask_eq_exp_minus_1)
  then have "n AND CDC_EEM_HDR_LEN_MASK = take_bit 14 n"
    by (simp add: CDC_EEM_HDR_LEN_MASK_def take_bit_eq_mask)
  then show ?thesis by (simp add: take_bit_eq_mod)
qed

section \<open>The receive loops over a relation of units\<close>

text \<open>
  What every received frame keeps, a received transfer keeps: \<open>R\<close> is any reflexive and
  transitive relation that counting bad data and taking a frame respect.
\<close>

locale rx_relation =
  fixes R :: "nepEth \<Rightarrow> nepEth \<Rightarrow> bool"
  assumes R_refl: "R n n"
    and R_trans: "R a b \<Longrightarrow> R b c \<Longrightarrow> R a c"
    and R_bad: "R n (bad_data n)"
    and R_frame: "eth_ok n \<Longrightarrow> off + len + 4 \<le> length mem \<Longrightarrow>
      nReadPacket mem off len n = Some (n', ok) \<Longrightarrow> R n n'"
begin

lemma deliver_R:
  assumes "eth_ok n" and "off + len + 4 \<le> length mem"
  shows "\<exists>n' d'. deliver mem off len n d = Some (n', d') \<and> eth_ok n' \<and> R n n'"
proof (cases "EPH_SIZE \<le> len")
  case True
  obtain n' ok where "nReadPacket mem off len n = Some (n', ok)" "eth_ok n'"
    using nReadPacket_ok [OF assms] by blast
  then show ?thesis using True R_frame [OF assms] by (simp add: deliver_def)
next
  case False
  then show ?thesis using assms(1) R_bad [of n] by (auto simp: deliver_def)
qed

lemma eem_R:
  assumes "pktlen + 4 \<le> length mem" and "pktlen + 8 \<le> 2 ^ 32"
  shows "eth_ok n \<Longrightarrow> 0 < k \<Longrightarrow> pktlen < k + offset \<Longrightarrow>
    \<exists>n' d'. eem_loop k mem pktlen offset n d = Some (n', d') \<and> eth_ok n' \<and> R n n'"
proof (induction k arbitrary: offset n d)
  case (Suc k)
  show ?case
  proof (cases "offset + 2 \<le> pktlen")
    case False
    then show ?thesis using Suc.prems(1) R_refl by simp
  next
    case True
    let ?h = "le16 (mem ! offset) (mem ! (offset + 1))"
    let ?l = "?h AND CDC_EEM_HDR_LEN_MASK"
    have h: "rd_le16 mem offset = Some ?h" using True assms(1) by (simp add: rd_simps)
    have step: "\<exists>n' d'. eem_loop k mem pktlen (cdceth_align v CDCETH_EEM_ALIGN) n1 d1 = Some (n', d') \<and>
        eth_ok n' \<and> R n1 n'"
      if "eth_ok n1" "offset + 2 \<le> v" "v \<le> pktlen" for n1 d1 v
    proof -
      have "v \<le> cdceth_align v CDCETH_EEM_ALIGN"
        using that(3) assms(2) align_bounds(1) [of v] by (simp add: cdceth_align_4 CDCETH_EEM_ALIGN_def)
      then show ?thesis using Suc.IH [OF that(1)] that(2) Suc.prems(3) True by simp
    qed
    show ?thesis
    proof (cases "?l = 0 \<or> pktlen < offset + 2 + ?l")
      case True
      then show ?thesis using step [OF Suc.prems(1), of "offset + 2" d] \<open>offset + 2 \<le> pktlen\<close> Suc.prems(1) R_bad [of n]
        by (auto simp: h Let_def)
    next
      case False
      let ?f = "if ?h AND CDC_EEM_HDR_CRC \<noteq> 0 \<and> 4 \<le> ?l then ?l - 4 else ?l"
      have f: "offset + 2 + ?f + 4 \<le> length mem" using False assms(1) by auto
      obtain n1 d1 where d: "(if ?h AND CDC_EEM_HDR_TYPE_COMMAND \<noteq> 0 then Some (n, d)
          else deliver mem (offset + 2) ?f n d) = Some (n1, d1)" "eth_ok n1" "R n n1"
        using deliver_R [OF Suc.prems(1) f, of d] Suc.prems(1) R_refl [of n] by (metis (full_types))
      have e: "eem_loop (Suc k) mem pktlen offset n d =
          eem_loop k mem pktlen (cdceth_align (offset + 2 + ?l) CDCETH_EEM_ALIGN) n1 d1"
      proof -
        have c: "(offset + 2 \<le> pktlen) = True" "(?l = 0) = False" "(pktlen < offset + 2 + ?l) = False"
          using \<open>offset + 2 \<le> pktlen\<close> False by simp_all
        show ?thesis by (simp only: eem_loop.simps h option.case Let_def c if_True if_False d(1) prod.case)
      qed
      show ?thesis unfolding e using step [OF d(2), of "offset + 2 + ?l" d1] False R_trans [OF d(3)] by force
    qed
  qed
qed simp

lemma ncm_entries_R:
  assumes "pktlen + 4 \<le> length mem" and "block_len \<le> pktlen" and "ndp_end \<le> block_len"
  shows "eth_ok n \<Longrightarrow> 0 < k \<Longrightarrow> ndp_end < k + entry \<Longrightarrow>
    \<exists>n' d'. ncm_entries k mem block_len ndp_end entry n d = Some (n', d') \<and> eth_ok n' \<and> R n n'"
proof (induction k arbitrary: entry n d)
  case (Suc k)
  show ?case
  proof (cases "entry + DPE16_SIZE \<le> ndp_end")
    case False
    then show ?thesis using Suc.prems(1) R_refl by simp
  next
    case True
    then have r: "entry + 4 \<le> length mem" using assms by (simp add: DPE16_SIZE_def)
    obtain i l where il: "rd_le16 mem entry = Some i" "rd_le16 mem (entry + 2) = Some l"
      using r by (simp add: rd_simps)
    show ?thesis
    proof (cases "i = 0 \<or> l = 0 \<or> block_len < i + l")
      case bad: True
      then show ?thesis using True il Suc.prems(1) R_refl [of n] R_bad [of n] by auto
    next
      case False
      then have "i + l + 4 \<le> length mem" using assms by simp
      from deliver_R [OF Suc.prems(1) this, of d] obtain n1 d1 where
        d: "deliver mem i l n d = Some (n1, d1)" "eth_ok n1" "R n n1" by blast
      have e: "ncm_entries (Suc k) mem block_len ndp_end entry n d =
          ncm_entries k mem block_len ndp_end (entry + DPE16_SIZE) n1 d1"
        using True il False d(1) by simp
      show ?thesis unfolding e
        using Suc.IH [OF d(2), of "entry + DPE16_SIZE" d1] R_trans [OF d(3)] Suc.prems(3) True
        by (force simp: DPE16_SIZE_def)
    qed
  qed
qed simp

lemma ncm_tables_R:
  assumes "pktlen + 4 \<le> length mem" and "block_len \<le> pktlen"
  shows "eth_ok n \<Longrightarrow>
    \<exists>n' d'. ncm_tables lft mem block_len ndp n d = Some (n', d') \<and> eth_ok n' \<and> R n n'"
proof (induction lft arbitrary: ndp n d)
  case 0
  then show ?case using R_refl by simp
next
  case (Suc lft)
  show ?case
  proof (cases "ndp = 0 \<or> block_len < ndp + NDP16_SIZE")
    case True
    then show ?thesis using Suc.prems R_refl [of n] R_bad [of n] by auto
  next
    case False
    then have r: "ndp + 8 \<le> length mem" using assms by (simp add: NDP16_SIZE_def)
    then obtain sg l nx where h: "rd_le32 mem ndp = Some sg" "rd_le16 mem (ndp + 4) = Some l"
      "rd_le16 mem (ndp + 6) = Some nx" by (simp add: rd_simps)
    show ?thesis
    proof (cases "sg \<noteq> CDC_NCM_NDP16_SIGNATURE_NCM0 \<and> sg \<noteq> CDC_NCM_NDP16_SIGNATURE_NCM1 \<or>
        l < NDP16_SIZE \<or> block_len < ndp + l")
      case True
      then show ?thesis using False h Suc.prems R_bad [of n] by (auto simp: Let_def)
    next
      case ok: False
      then have l: "ndp + l \<le> block_len" by simp
      from ncm_entries_R [OF assms l Suc.prems, of "l + 1" "ndp + NDP16_SIZE" d] obtain n1 d1 where
        d: "ncm_entries (l + 1) mem block_len (ndp + l) (ndp + NDP16_SIZE) n d = Some (n1, d1)"
        "eth_ok n1" "R n n1" by auto
      have e: "ncm_tables (Suc lft) mem block_len ndp n d = ncm_tables lft mem block_len nx n1 d1"
        using False ok h d(1) by (auto simp: Let_def)
      show ?thesis unfolding e using Suc.IH [OF d(2)] R_trans [OF d(3)] by blast
    qed
  qed
qed

lemma handle_rx_R:
  assumes "eth_ok n" and "pktlen + 4 \<le> length mem" and "pktlen + 8 \<le> 2 ^ 32"
  shows "\<exists>n' d'. cdceth_handle_rx mem pktlen n = Some (n', d') \<and> eth_ok n' \<and> R n n'"
proof (cases "ncp_EncapType n")
  case ENCAP_ECM
  have "0 + pktlen + 4 \<le> length mem" using assms(2) by simp
  from nReadPacket_ok [OF assms(1) this] R_frame [OF assms(1) this] show ?thesis
    using ENCAP_ECM by (fastforce simp: cdceth_handle_rx_def)
next
  case ENCAP_EEM
  then show ?thesis using eem_R [OF assms(2,3,1), of "pktlen + 1" 0 False]
    by (simp add: cdceth_handle_rx_def cdceth_handle_eem_rx_def)
next
  case ENCAP_NCM
  show ?thesis
  proof (cases "pktlen < NTH16_SIZE")
    case True
    then show ?thesis using ENCAP_NCM assms(1) R_bad [of n]
      by (auto simp: cdceth_handle_rx_def cdceth_handle_ncm_rx_def)
  next
    case False
    then obtain sg bl i where h: "rd_le32 mem 0 = Some sg" "rd_le16 mem 8 = Some bl" "rd_le16 mem 10 = Some i"
      using assms(2) by (simp add: rd_simps NTH16_SIZE_def)
    let ?b = "if bl = 0 \<or> pktlen < bl then pktlen else bl"
    have "?b \<le> pktlen" by simp
    from ncm_tables_R [OF assms(2) this assms(1), of 4 i False] show ?thesis
      using False h ENCAP_NCM assms(1) R_bad [of n]
      by (auto simp: cdceth_handle_rx_def cdceth_handle_ncm_rx_def)
  qed
qed

end

text \<open>What a received transfer leaves as it is, and that it only adds to what was copied.\<close>

definition rx_keeps :: "nepEth \<Rightarrow> nepEth \<Rightarrow> bool" where
  "rx_keeps n n' \<longleftrightarrow> ids n' = ids n \<and> same_core n n' \<and> served_all n n' \<and> (\<exists>c. ncp_Copied n' = ncp_Copied n @ c)"

interpretation rxk: rx_relation rx_keeps
proof
  fix a b c :: nepEth assume "rx_keeps a b" and "rx_keeps b c"
  then show "rx_keeps a c"
    unfolding rx_keeps_def using same_core_trans served_all_trans by (metis append.assoc)
next
  fix n off len mem n' ok
  assume "eth_ok n" "off + len + 4 \<le> length mem" "nReadPacket mem off len n = Some (n', ok)"
  then show "rx_keeps n n'" using nReadPacket_ok [of n off len mem] by (auto simp: rx_keeps_def)
qed (simp_all add: rx_keeps_def)

section \<open>Laws: a transmitted frame is received\<close>

definition put_at :: "nat \<Rightarrow> bytes \<Rightarrow> bytes \<Rightarrow> bytes" where
  "put_at off d b = take off b @ d @ drop (off + length d) b"

lemma wr_put: "off + length d \<le> length b \<Longrightarrow> wr off d (Some b) = Some (put_at off d b)"
  by (simp add: wr_def wr_bytes_def put_at_def)

lemma length_put [simp]: "off + length d \<le> length b \<Longrightarrow> length (put_at off d b) = length b"
  by (simp add: put_at_def)

lemma nth_put: "off + length d \<le> length b \<Longrightarrow> i < length b \<Longrightarrow>
    put_at off d b ! i = (if off \<le> i \<and> i < off + length d then d ! (i - off) else b ! i)"
  by (auto simp: put_at_def nth_append min_def)

lemma nth_enc:
  "enc_le16 n ! 0 = word_of_nat n" "enc_le16 n ! Suc 0 = word_of_nat (n div 256)"
  "enc_le32 n ! 0 = word_of_nat n" "enc_le32 n ! Suc 0 = word_of_nat (n div 256)"
  "enc_le32 n ! 2 = word_of_nat (n div 65536)" "enc_le32 n ! 3 = word_of_nat (n div 16777216)"
  by (simp_all add: enc_le16_def enc_le32_def)

lemma prepare_sizes:
  assumes "cdceth_prepare_tx n len bsz = Some (off, tot)" and "0 < len" and "len \<le> 65536"
  shows "tot \<le> bsz" and "off + len \<le> tot"
    and "ncp_EncapType n = ENCAP_EEM \<Longrightarrow> off = 2 \<and> tot = (2 + len + 3) div 4 * 4 \<and> len < 16384"
    and "ncp_EncapType n = ENCAP_NCM \<Longrightarrow> off = 28 \<and> tot = (28 + len + 3) div 4 * 4"
    and "ncp_EncapType n = ENCAP_ECM \<Longrightarrow> off = 0 \<and> tot = len"
proof -
  have a: "cdceth_align 12 4 = 12" "cdceth_align 28 4 = 28" by (simp_all add: cdceth_align_4)
  have b: "cdceth_align (28 + len) 4 = (28 + len + 3) div 4 * 4" "cdceth_align (2 + len) 4 = (2 + len + 3) div 4 * 4"
    using assms(3) by (simp_all add: cdceth_align_4)
  note ev = cdceth_prepare_tx_def NTH16_SIZE_def NDP16_SIZE_def DPE16_SIZE_def CDCETH_NCM_ALIGN_def
    CDCETH_EEM_ALIGN_def CDCETH_EEM_HEADER_LEN_def CDC_EEM_HDR_LEN_MASK_def Let_def
  show eem: "ncp_EncapType n = ENCAP_EEM \<Longrightarrow> off = 2 \<and> tot = (2 + len + 3) div 4 * 4 \<and> len < 16384"
    using assms b by (auto simp: ev split: if_splits)
  show ncm: "ncp_EncapType n = ENCAP_NCM \<Longrightarrow> off = 28 \<and> tot = (28 + len + 3) div 4 * 4"
    using assms b by (auto simp: ev a split: if_splits)
  show ecm: "ncp_EncapType n = ENCAP_ECM \<Longrightarrow> off = 0 \<and> tot = len"
    using assms by (auto simp: ev split: if_splits)
  show "tot \<le> bsz"
    using assms by (auto simp: cdceth_prepare_tx_def Let_def split: encap_type.splits option.splits if_splits)
  show "off + len \<le> tot"
    using eem ncm ecm align_bounds(1) [of "2 + len"] align_bounds(1) [of "28 + len"]
    by (cases "ncp_EncapType n") auto
qed

lemma slice_eqI:
  assumes "length b' = length b" and "off + len \<le> length b"
    and "\<And>i. off \<le> i \<Longrightarrow> i < off + len \<Longrightarrow> b' ! i = b ! i"
  shows "take len (drop off b') = take len (drop off b)"
  using assms by (intro nth_equalityI) auto

lemma finalize_eem:
  assumes "ncp_EncapType n = ENCAP_EEM" and "len < 16384" and "tot = (2 + len + 3) div 4 * 4"
    and "tot \<le> length buf"
  shows "\<exists>b. cdceth_finalize_tx n buf 2 len tot = Some (n, b) \<and> length b = length buf \<and>
    rd_le16 b 0 = Some len \<and> take len (drop 2 b) = take len (drop 2 buf)"
proof -
  have t: "2 + len \<le> tot" using assms(3) align_bounds(1) [of "2 + len"] by simp
  have m: "len AND CDC_EEM_HDR_LEN_MASK = len" using assms(2) by (simp add: mask14)
  let ?b1 = "put_at 0 (enc_le16 len) buf"
  let ?z = "replicate (tot - (2 + len)) (0 :: u8)"
  let ?b = "if 2 + len < tot then put_at (2 + len) ?z ?b1 else ?b1"
  have l1: "length ?b1 = length buf" using t assms(4) by simp
  have lz: "2 + len + length ?z \<le> length ?b1" using t assms(4) l1 by simp
  have l: "length ?b = length buf" using l1 lz by simp
  have "wr 0 (enc_le16 len) (Some buf) = Some ?b1" using t assms(4) by (intro wr_put) simp
  moreover have "wr (2 + len) ?z (Some ?b1) = Some (put_at (2 + len) ?z ?b1)" by (rule wr_put [OF lz])
  ultimately have e: "cdceth_finalize_tx n buf 2 len tot = Some (n, ?b)"
    by (simp add: cdceth_finalize_tx_def assms(1) m Let_def)
  have nth: "?b ! i = (if i < 2 then enc_le16 len ! i else buf ! i)" if "i < 2 + len" for i
    using that t assms(4) l1 lz by (simp add: nth_put)
  have "rd_le16 ?b 0 = Some (le16 (?b ! 0) (?b ! 1))" using l t assms(4) by (simp add: rd_le16_def)
  also have "le16 (?b ! 0) (?b ! 1) = len"
    using nth [of 0] nth [of 1] assms(2) by (simp add: nth_enc le16_enc)
  finally have h: "rd_le16 ?b 0 = Some len" .
  have "take len (drop 2 ?b) = take len (drop 2 buf)"
    using l t assms(4) nth by (intro slice_eqI) auto
  then show ?thesis using e l h by blast
qed

lemma finalize_ncm:
  assumes "ncp_EncapType n = ENCAP_NCM" and "28 + len \<le> tot" and "tot < 65536" and "tot \<le> length buf"
  shows "\<exists>b. cdceth_finalize_tx n buf 28 len tot = Some (n\<lparr>ncp_NcmSeq := ncp_NcmSeq n + 1\<rparr>, b) \<and>
    length b = length buf \<and> rd_le32 b 0 = Some CDC_NCM_NTH16_SIGNATURE \<and>
    rd_le16 b 8 = Some tot \<and> rd_le16 b 10 = Some 12 \<and>
    rd_le32 b 12 = Some CDC_NCM_NDP16_SIGNATURE_NCM0 \<and> rd_le16 b 16 = Some 16 \<and> rd_le16 b 18 = Some 0 \<and>
    rd_le16 b 20 = Some 28 \<and> rd_le16 b 22 = Some len \<and> rd_le16 b 24 = Some 0 \<and>
    rd_le16 b 26 = Some 0 \<and> take len (drop 28 b) = take len (drop 28 buf)"
proof -
  have L: "28 \<le> length buf" using assms by simp
  have al: "cdceth_align 12 4 = 12" by (simp add: cdceth_align_4)
  define hd where "hd = enc_le32 CDC_NCM_NTH16_SIGNATURE @ enc_le16 12 @ enc_le16 (unat (ncp_NcmSeq n)) @
    enc_le16 tot @ enc_le16 12 @ enc_le32 CDC_NCM_NDP16_SIGNATURE_NCM0 @ enc_le16 16 @ enc_le16 0 @
    enc_le16 28 @ enc_le16 len @ enc_le16 0 @ enc_le16 0"
  have lh: "length hd = 28" by (simp add: hd_def)
  have split: "put_at k e (put_at 0 d b) = put_at 0 (take k d @ e @ drop (k + length e) d) b"
    if "k + length e \<le> length d" "length d \<le> length b" for k d e and b :: bytes
    using that by (simp add: put_at_def)
  have w: "wr k e (Some (put_at 0 d b)) = Some (put_at 0 (take k d @ e @ drop (k + length e) d) b)"
    if "k + length e \<le> length d" "length d \<le> length b" for k d e and b :: bytes
    using wr_put [of k e "put_at 0 d b"] that split [OF that] by simp
  have w0: "wr 0 (replicate 28 0) (Some buf) = Some (put_at 0 (replicate 28 0) buf)"
    using L by (intro wr_put) simp
  have fin: "cdceth_finalize_tx n buf 28 len tot =
      Some (n\<lparr>ncp_NcmSeq := ncp_NcmSeq n + 1\<rparr>, put_at 0 hd buf)"
    using L by (simp add: cdceth_finalize_tx_def assms(1) NTH16_SIZE_def NDP16_SIZE_def DPE16_SIZE_def
        CDCETH_NCM_ALIGN_def al w0 w Let_def hd_def del: replicate_Suc)
  let ?b = "put_at 0 hd buf"
  have b: "?b = hd @ drop 28 buf" by (simp add: put_at_def lh)
  have lb: "length ?b = length buf" using L lh by simp
  have r16: "rd_le16 ?b k = Some (le16 (hd ! k) (hd ! (k + 1)))" if "k + 2 \<le> 28" for k
    using that L lh by (simp add: rd_le16_def b nth_append)
  have r32: "rd_le32 ?b k = Some (le32 (hd ! k) (hd ! (k + 1)) (hd ! (k + 2)) (hd ! (k + 3)))"
    if "k + 4 \<le> 28" for k
    using that L lh by (simp add: rd_le32_def b nth_append)
  have "len < 65536" using assms by simp
  have v: "rd_le32 ?b 0 = Some CDC_NCM_NTH16_SIGNATURE" "rd_le16 ?b 8 = Some tot" "rd_le16 ?b 10 = Some 12"
    "rd_le32 ?b 12 = Some CDC_NCM_NDP16_SIGNATURE_NCM0" "rd_le16 ?b 16 = Some 16" "rd_le16 ?b 18 = Some 0"
    "rd_le16 ?b 20 = Some 28" "rd_le16 ?b 22 = Some len" "rd_le16 ?b 24 = Some 0" "rd_le16 ?b 26 = Some 0"
    using \<open>len < 65536\<close> \<open>tot < 65536\<close> le16_enc [of len] le16_enc [of tot] le16_enc [of 12] le16_enc [of 16]
      le16_enc [of 28] le16_enc [of 0] le32_enc [of CDC_NCM_NTH16_SIGNATURE] le32_enc [of CDC_NCM_NDP16_SIGNATURE_NCM0]
    by (simp_all add: r16 r32) (simp_all add: hd_def enc_le16_def enc_le32_def CDC_NCM_NTH16_SIGNATURE_def
        CDC_NCM_NDP16_SIGNATURE_NCM0_def)
  have "take len (drop 28 ?b) = take len (drop 28 buf)" by (simp add: b lh)
  then show ?thesis using fin lb v by blast
qed

section \<open>Receiving one frame\<close>

lemma rx_eem_one:
  assumes "rd_le16 b 0 = Some len" and "EPH_SIZE \<le> len" and "len < 16384" and "tot = (2 + len + 3) div 4 * 4"
  shows "cdceth_handle_eem_rx b tot n = nReadPacket b 2 len n"
proof -
  have t: "2 + len \<le> tot" "tot + 4 \<le> 2 ^ 32" using assms(3,4) align_bounds [of "2 + len"] by simp_all
  have m: "len AND CDC_EEM_HDR_LEN_MASK = len" using assms(3) by (simp add: mask14)
  have bits: "len AND 2 ^ k = 0" if "14 \<le> k" for k
  proof -
    have "len < 2 ^ k" using assms(3) that power_increasing [of 14 k "2 :: nat"] by simp
    then have "\<not> bit len k" by (simp add: bit_iff_odd)
    then show ?thesis by (simp add: and_exp_eq_0_iff_not_bit)
  qed
  have c: "len AND CDC_EEM_HDR_TYPE_COMMAND = 0" "len AND CDC_EEM_HDR_CRC = 0"
    using bits [of 15] bits [of 14] by (simp_all add: CDC_EEM_HDR_TYPE_COMMAND_def CDC_EEM_HDR_CRC_def)
  have e: "cdceth_align (Suc (Suc len)) CDCETH_EEM_ALIGN = tot"
    using t assms(3,4) by (simp add: cdceth_align_4 CDCETH_EEM_ALIGN_def)
  obtain k where k: "tot = Suc k" using t assms(2) by (cases tot) (auto simp: EPH_SIZE_def)
  have pos: "0 < len" using assms(2) by (simp add: EPH_SIZE_def)
  show ?thesis
    using t pos m c e assms(1,2) k
    by (cases "nReadPacket b 2 len n")
      (auto simp: cdceth_handle_eem_rx_def Let_def deliver_def numeral_2_eq_2)
qed

lemma rx_ncm_one:
  assumes "rd_le32 b 0 = Some CDC_NCM_NTH16_SIGNATURE" "rd_le16 b 8 = Some tot" "rd_le16 b 10 = Some 12"
    "rd_le32 b 12 = Some CDC_NCM_NDP16_SIGNATURE_NCM0" "rd_le16 b 16 = Some 16" "rd_le16 b 18 = Some 0"
    "rd_le16 b 20 = Some 28" "rd_le16 b 22 = Some len" "rd_le16 b 24 = Some 0" "rd_le16 b 26 = Some 0"
    and "EPH_SIZE \<le> len" and "28 + len \<le> tot"
  shows "cdceth_handle_ncm_rx b tot n = nReadPacket b 28 len n"
proof -
  have pos: "0 < len" using assms(11) by (simp add: EPH_SIZE_def)
  have en: "ncm_entries (Suc (Suc k)) b tot 28 20 n False = nReadPacket b 28 len n" for k
    using assms pos by (cases "nReadPacket b 28 len n") (auto simp: DPE16_SIZE_def deliver_def)
  have en17: "ncm_entries 17 b tot 28 20 n False = nReadPacket b 28 len n" using en [of 15] by simp
  have "ncm_tables (Suc (Suc k)) b tot 12 n False = nReadPacket b 28 len n" for k
    using assms pos en17 by (cases "nReadPacket b 28 len n") (auto simp: NDP16_SIZE_def Let_def)
  from this [of 2] have "ncm_tables 4 b tot 12 n False = nReadPacket b 28 len n" by simp
  then show ?thesis using assms pos by (auto simp: cdceth_handle_ncm_rx_def NTH16_SIZE_def)
qed

section \<open>Laws: the round trip\<close>

lemma rd_prefix:
  assumes "take t m = take t b" and "t \<le> length m" and "t \<le> length b"
  shows "k + 2 \<le> t \<Longrightarrow> rd_le16 m k = rd_le16 b k" and "k + 4 \<le> t \<Longrightarrow> rd_le32 m k = rd_le32 b k"
proof -
  have n: "m ! i = b ! i" if "i < t" for i using assms that by (metis nth_take)
  show "k + 2 \<le> t \<Longrightarrow> rd_le16 m k = rd_le16 b k" using n assms by (simp add: rd_le16_def)
  show "k + 4 \<le> t \<Longrightarrow> rd_le32 m k = rd_le32 b k" using n assms by (simp add: rd_le32_def)
qed

lemma slice_prefix:
  fixes m b :: bytes
  assumes "take t m = take t b" and "off + len \<le> t"
  shows "take len (drop off m) = take len (drop off b)"
proof -
  have "take len (drop off (take t x)) = take len (drop off x)" for x :: bytes
    using assms(2) by (simp add: drop_take min_def)
  then show ?thesis using assms(1) by metis
qed

lemma encap_roundtrip_aux:
  assumes "cdceth_prepare_tx tx len (length buf) = Some (off, tot)" and "EPH_SIZE \<le> len"
    and "len \<le> 65536" and "length buf < 65536" and "ncp_EncapType rx = ncp_EncapType tx"
  shows "\<exists>tx' b. cdceth_finalize_tx tx buf off len tot = Some (tx', b) \<and> length b = length buf \<and>
    (\<exists>sq. tx' = tx\<lparr>ncp_NcmSeq := sq\<rparr>) \<and>
    (\<forall>mem. tot \<le> length mem \<longrightarrow> take tot mem = take tot b \<longrightarrow>
       cdceth_handle_rx mem tot rx = nReadPacket mem off len rx \<and>
       take len (drop off mem) = take len (drop off buf))"
proof -
  have pos: "0 < len" using assms(2) by (simp add: EPH_SIZE_def)
  note P = prepare_sizes [OF assms(1) pos assms(3)]
  show ?thesis
  proof (cases "ncp_EncapType tx")
    case ENCAP_ECM
    then have "cdceth_finalize_tx tx buf off len tot = Some (tx, buf)" by (simp add: cdceth_finalize_tx_def)
    moreover have "cdceth_handle_rx mem tot rx = nReadPacket mem off len rx" for mem
      using P(5) ENCAP_ECM assms(5) by (simp add: cdceth_handle_rx_def)
    moreover have "\<exists>sq. tx = tx\<lparr>ncp_NcmSeq := sq\<rparr>" by (rule exI [where x = "ncp_NcmSeq tx"]) simp
    ultimately show ?thesis using slice_prefix P(2) by blast
  next
    case ENCAP_EEM
    then have o: "off = 2" "tot = (2 + len + 3) div 4 * 4" "len < 16384" using P(3) by simp_all
    from finalize_eem [OF ENCAP_EEM o(3,2) P(1)] obtain b where
      b: "cdceth_finalize_tx tx buf 2 len tot = Some (tx, b)" "length b = length buf" "rd_le16 b 0 = Some len"
      "take len (drop 2 b) = take len (drop 2 buf)" by blast
    have "cdceth_handle_rx mem tot rx = nReadPacket mem 2 len rx \<and> take len (drop 2 mem) = take len (drop 2 buf)"
      if "tot \<le> length mem" "take tot mem = take tot b" for mem
    proof -
      have "rd_le16 mem 0 = Some len"
        using rd_prefix(1) [OF that(2,1), of 0] P(1,2) o(1) b(2,3) by simp
      from rx_eem_one [OF this assms(2) o(3,2)] show ?thesis
        using slice_prefix [OF that(2)] P(2) o(1) b(4) assms(5) ENCAP_EEM by (simp add: cdceth_handle_rx_def)
    qed
    moreover have "\<exists>sq. tx = tx\<lparr>ncp_NcmSeq := sq\<rparr>" by (rule exI [where x = "ncp_NcmSeq tx"]) simp
    ultimately show ?thesis using b(1,2) o(1) by blast
  next
    case ENCAP_NCM
    then have o: "off = 28" using P(4) by simp
    have t: "28 + len \<le> tot" "tot < 65536" using P(1,2) o assms(4) by simp_all
    from finalize_ncm [OF ENCAP_NCM t P(1)] obtain b where
      b: "cdceth_finalize_tx tx buf 28 len tot = Some (tx\<lparr>ncp_NcmSeq := ncp_NcmSeq tx + 1\<rparr>, b)"
        "length b = length buf"
      and r: "rd_le32 b 0 = Some CDC_NCM_NTH16_SIGNATURE" "rd_le16 b 8 = Some tot" "rd_le16 b 10 = Some 12"
        "rd_le32 b 12 = Some CDC_NCM_NDP16_SIGNATURE_NCM0" "rd_le16 b 16 = Some 16" "rd_le16 b 18 = Some 0"
        "rd_le16 b 20 = Some 28" "rd_le16 b 22 = Some len" "rd_le16 b 24 = Some 0" "rd_le16 b 26 = Some 0"
      and sl: "take len (drop 28 b) = take len (drop 28 buf)" by blast
    have "cdceth_handle_rx mem tot rx = nReadPacket mem 28 len rx \<and> take len (drop 28 mem) = take len (drop 28 buf)"
      if m: "tot \<le> length mem" "take tot mem = take tot b" for mem
    proof -
      have tb: "tot \<le> length b" using P(1) b(2) by simp
      note p = rd_prefix [OF m(2,1) tb]
      have "rd_le32 mem 0 = Some CDC_NCM_NTH16_SIGNATURE" "rd_le16 mem 8 = Some tot" "rd_le16 mem 10 = Some 12"
        "rd_le32 mem 12 = Some CDC_NCM_NDP16_SIGNATURE_NCM0" "rd_le16 mem 16 = Some 16" "rd_le16 mem 18 = Some 0"
        "rd_le16 mem 20 = Some 28" "rd_le16 mem 22 = Some len" "rd_le16 mem 24 = Some 0" "rd_le16 mem 26 = Some 0"
        using p t(1) r by simp_all
      from rx_ncm_one [OF this assms(2) t(1)] show ?thesis
        using slice_prefix [OF m(2) t(1)] sl assms(5) ENCAP_NCM by (simp add: cdceth_handle_rx_def)
    qed
    then show ?thesis using b o by blast
  qed
qed

end
