(* ===== verification/Cdc_Task.thy ===== *)
theory Cdc_Task
  imports Cdc_Encap
begin

text \<open>
  The class task of the CDC Ethernet class (\<open>nEthTask\<close> in \<open>classes/cdceth/cdceth.class.c\<close>): sending
  queued writes, handling finished transfers and the requests the device hands over, and going
  down; and the station address (\<open>cdceth_parse_mac_string\<close> and its callers).

  A write goes out through the buffer \<open>ncp_WriteBuffer ! ncp_WriteBufNum\<close>; \<open>ncp_Sent\<close> lists what
  was handed to the bulk OUT pipe.
\<close>

section \<open>Writing\<close>

definition S2EVENT_TXBUFF :: u32 where
  "S2EVENT_TXBUFF = S2EVENT_ERROR OR S2EVENT_TX OR S2EVENT_BUFF"

text \<open>The six bytes of a station address.\<close>

definition addr6 :: "bytes \<Rightarrow> bytes" where
  "addr6 a = map (\<lambda>i. a ! i) [0..<ETHER_ADDR_SIZE]"

definition put_header :: "nepEth \<Rightarrow> sana2req \<Rightarrow> nat \<Rightarrow> bytes \<Rightarrow> bytes option" where
  "put_header ncp r off buf =
     wr_bytes buf off (addr6 (ios2_DstAddr r) @ addr6 (ncp_MacAddress ncp) @
       rev (enc_le16 (unat (ios2_PacketType r))))"

text \<open>The unit, the request, and what \<open>nWritePacket\<close> returns.\<close>

definition nWritePacket :: "nepEth \<Rightarrow> sana2req \<Rightarrow> (nepEth \<times> sana2req \<times> bool) option" where
  "nWritePacket ncp r =
     (let buf = ncp_WriteBuffer ncp ! ncp_WriteBufNum ncp;
          writelen = ios2_DataLength r mod 65536;
          frame_len = (if io_Raw r then writelen else writelen + EPH_SIZE);
          payload_len = (if frame_len < ETHER_MIN_LEN then ETHER_MIN_LEN else frame_len)
      in case cdceth_prepare_tx ncp payload_len (ncp_WriteBufSize ncp) of
           None \<Rightarrow> Some (nDoEvent ncp S2EVENT_TXBUFF,
                      r\<lparr>ios2_DataLength := 0, io_Error := S2ERR_MTU_EXCEEDED,
                        ios2_WireError := word_of_int S2WERR_GENERIC_ERROR\<rparr>, False)
         | Some (off, tot) \<Rightarrow>
             (case (if io_Raw r then Some buf else put_header ncp r off buf) of
                None \<Rightarrow> None
              | Some buf1 \<Rightarrow>
                  (case Option.bind (req_bufman ncp r) bm_CopyFromBuf of
                     None \<Rightarrow> None
                   | Some copy \<Rightarrow>
                       (case copy (ios2_Data r) (ios2_DataLength r) of
                          None \<Rightarrow>
                            Some (nDoEvent (ncp\<lparr>ncp_WriteBuffer :=
                                    (ncp_WriteBuffer ncp)[ncp_WriteBufNum ncp := buf1]\<rparr>) S2EVENT_TXBUFF,
                                  r\<lparr>ios2_DataLength := 0, io_Error := S2ERR_NO_RESOURCES,
                                    ios2_WireError := word_of_int S2WERR_BUFF_ERROR\<rparr>, False)
                        | Some d \<Rightarrow>
                            (case wr (off + frame_len) (replicate (payload_len - frame_len) 0)
                                    (wr_bytes buf1 (if io_Raw r then off else off + EPH_SIZE) d) of
                               None \<Rightarrow> None
                             | Some buf2 \<Rightarrow>
                                 (case cdceth_finalize_tx ncp buf2 off payload_len tot of
                                    None \<Rightarrow> None
                                  | Some (ncp', buf3) \<Rightarrow>
                                      let r' = r\<lparr>ios2_DataLength := payload_len\<rparr>
                                      in Some (ncp'\<lparr>ncp_WriteBuffer :=
                                                 (ncp_WriteBuffer ncp')[ncp_WriteBufNum ncp' := buf3],
                                                 ncp_WritePending := Some r',
                                                 ncp_Sent := ncp_Sent ncp' @ [take tot buf3],
                                                 ncp_WriteBufNum := 1 - ncp_WriteBufNum ncp'\<rparr>,
                                               r', True)))))))"

definition cdceth_complete_write :: "int \<Rightarrow> nepEth \<Rightarrow> nepEth" where
  "cdceth_complete_write ioerr ncp =
     (case ncp_WritePending ncp of
        None \<Rightarrow> ncp
      | Some r \<Rightarrow>
          let (ncp, r) =
            (if ioerr \<noteq> 0
             then (nDoEvent ncp (S2EVENT_ERROR OR S2EVENT_TX),
                   r\<lparr>ios2_DataLength := 0, io_Error := S2ERR_TX_FAILURE,
                     ios2_WireError := word_of_int S2WERR_GENERIC_ERROR\<rparr>)
             else (upd_stats (\<lambda>d. d\<lparr>ds_PacketsSent := ds_PacketsSent d + 1\<rparr>)
                     (upd_type (FindPacketTypeStats ncp (ios2_PacketType r))
                       (\<lambda>s. s\<lparr>ts_PacketsSent := ts_PacketsSent s + 1,
                             ts_BytesSent := ts_BytesSent s + word_of_nat (ios2_DataLength r)\<rparr>) ncp),
                   r\<lparr>io_Error := 0\<rparr>))
          in (ReplyMsg ncp r)\<lparr>ncp_WritePending := None\<rparr>)"

text \<open>
  The write pump: as long as no write is pending, the next queued one is taken and sent. A write
  that could not be sent is not looked at again.
\<close>

fun pump :: "nat \<Rightarrow> nepEth \<Rightarrow> nepEth option" where
  "pump 0 ncp = None"
| "pump (Suc k) ncp =
     (if ncp_WritePending ncp \<noteq> None then Some ncp
      else case ncp_WriteQueue ncp of
             [] \<Rightarrow> Some ncp
           | r # rs \<Rightarrow>
               (case nWritePacket (ncp\<lparr>ncp_WriteQueue := rs\<rparr>) r of
                  None \<Rightarrow> None
                | Some (ncp', r', ok) \<Rightarrow> pump k ncp'))"

definition write_pump :: "nepEth \<Rightarrow> nepEth option" where
  "write_pump ncp = pump (length (ncp_WriteQueue ncp) + 1) ncp"

section \<open>The task's messages\<close>

record eth_task =
  et_Unit :: nepEth
  et_LastIOErr :: int
  et_ErrCount :: u32
  et_Break :: bool

datatype pipe_msg = PipeOut int | PipeIn int bytes nat

definition start_read :: "nepEth \<Rightarrow> nepEth" where
  "start_read ncp = ncp\<lparr>ncp_ReadPending := Some (ncp_ReadBufNum ncp),
     ncp_ReadBufNum := 1 - ncp_ReadBufNum ncp\<rparr>"

text \<open>
  A finished read: its error, the memory from the start of its buffer, its length. The next read
  is started first. The result says whether the loop over the messages is left.
\<close>

definition pipe_in :: "eth_task \<Rightarrow> int \<Rightarrow> bytes \<Rightarrow> nat \<Rightarrow> (eth_task \<times> bool) option" where
  "pipe_in t ioerr mem pktlen =
     (case ncp_ReadPending (et_Unit t) of
        None \<Rightarrow> Some (t, False)
      | Some b \<Rightarrow>
          let ncp = (if ncp_Online (et_Unit t) then start_read (et_Unit t)
                     else (et_Unit t)\<lparr>ncp_ReadPending := None\<rparr>);
              t = t\<lparr>et_Unit := ncp\<rparr>
          in if ioerr \<noteq> 0
             then Some ((if et_LastIOErr t \<noteq> ioerr then t\<lparr>et_ErrCount := 0\<rparr>
                         else t\<lparr>et_ErrCount := et_ErrCount t + 1,
                                et_Break := et_Break t \<or> 20 < et_ErrCount t + 1\<rparr>)
                        \<lparr>et_LastIOErr := ioerr\<rparr>, True)
             else (case cdceth_handle_rx mem pktlen ncp of
                     None \<Rightarrow> None
                   | Some (ncp', _) \<Rightarrow> Some (t\<lparr>et_Unit := ncp'\<rparr>, False)))"

text \<open>The messages left in the port are the last component.\<close>

fun pipe_msgs :: "eth_task \<Rightarrow> pipe_msg list \<Rightarrow> (eth_task \<times> pipe_msg list) option" where
  "pipe_msgs t [] = Some (t, [])"
| "pipe_msgs t (PipeOut ioerr # ms) =
     pipe_msgs (t\<lparr>et_Unit := cdceth_complete_write ioerr (et_Unit t)\<rparr>) ms"
| "pipe_msgs t (PipeIn ioerr mem pktlen # ms) =
     (case pipe_in t ioerr mem pktlen of
        None \<Rightarrow> None
      | Some (t', stop) \<Rightarrow> if stop then Some (t', ms) else pipe_msgs t' ms)"

definition unit_cmd :: "nepEth \<Rightarrow> sana2req \<Rightarrow> nepEth" where
  "unit_cmd ncp r =
     (case io_Command r of
        S2_CONFIGINTERFACE \<Rightarrow>
          let ncp = ncp\<lparr>ncp_Configured := True\<rparr>
          in ReplyMsg (if \<not> ncp_Online ncp then nSetOnline ncp else ncp) r
      | S2_ADDMULTICASTADDRESS \<Rightarrow> ReplyMsg ncp r
      | S2_DELMULTICASTADDRESS \<Rightarrow> ReplyMsg ncp r
      | S2_ADDMULTICASTADDRESSES \<Rightarrow> ReplyMsg ncp r
      | S2_DELMULTICASTADDRESSES \<Rightarrow> ReplyMsg ncp r
      | S2_ONLINE \<Rightarrow> ReplyMsg (nSetOnline ncp) r
      | S2_OFFLINE \<Rightarrow> ReplyMsg (ncp\<lparr>ncp_Online := False, ncp_Offline := True\<rparr>) r
      | _ \<Rightarrow> ReplyMsg ncp (r\<lparr>io_Error := IOERR_NOCMD\<rparr>))"

fun unit_cmds :: "nepEth \<Rightarrow> sana2req list \<Rightarrow> nepEth" where
  "unit_cmds ncp [] = ncp"
| "unit_cmds ncp (r # rs) = unit_cmds (unit_cmd ncp r) rs"

definition unit_port :: "nepEth \<Rightarrow> nepEth" where
  "unit_port ncp = unit_cmds (ncp\<lparr>ncp_UnitPort := []\<rparr>) (ncp_UnitPort ncp)"

text \<open>One round of the task's loop, with the pipe messages that have arrived.\<close>

definition task_round :: "eth_task \<Rightarrow> pipe_msg list \<Rightarrow> (eth_task \<times> pipe_msg list) option" where
  "task_round t ms =
     (let ncp = et_Unit t;
          t = (if ncp_Online ncp \<and> ncp_ReadPending ncp = None then t\<lparr>et_Unit := start_read ncp\<rparr> else t)
      in case pipe_msgs t ms of
           None \<Rightarrow> None
         | Some (t, rest) \<Rightarrow>
             (case write_pump (unit_port (et_Unit t)) of
                None \<Rightarrow> None
              | Some ncp \<Rightarrow> Some (t\<lparr>et_Unit := ncp\<rparr>, rest)))"

definition task_down :: "nepEth \<Rightarrow> nepEth" where
  "task_down ncp =
     (let ncp = (case ncp_WritePending ncp of
                   None \<Rightarrow> ncp
                 | Some r \<Rightarrow> (ReplyMsg ncp (r\<lparr>io_Error := IOERR_ABORTED\<rparr>))\<lparr>ncp_WritePending := None\<rparr>);
          ncp = nDoEvent (ncp\<lparr>ncp_ReadPending := None\<rparr>) S2EVENT_OFFLINE
      in reply_all (\<lambda>r. r\<lparr>io_Error := IOERR_ABORTED\<rparr>) (ncp\<lparr>ncp_UnitPort := []\<rparr>) (ncp_UnitPort ncp))"

section \<open>The station address\<close>

definition cdceth_mac_is_valid :: "bytes \<Rightarrow> bool" where
  "cdceth_mac_is_valid mac \<longleftrightarrow>
     (\<exists>i \<in> set [0..<ETHER_ADDR_SIZE]. mac ! i \<noteq> 0) \<and> mac ! 0 AND 1 = 0"

definition hex_val :: "char \<Rightarrow> nat option" where
  "hex_val ch =
     (let c = of_char ch :: nat
      in if 48 \<le> c \<and> c \<le> 57 then Some (c - 48)
         else if 97 \<le> c \<and> c \<le> 102 then Some (10 + (c - 97))
         else if 65 \<le> c \<and> c \<le> 70 then Some (10 + (c - 65))
         else None)"

text \<open>The bytes stored before the loop ends.\<close>

fun mac_loop :: "string \<Rightarrow> nat option \<Rightarrow> bytes \<Rightarrow> bytes" where
  "mac_loop [] hi mac = mac"
| "mac_loop (ch # cs) hi mac =
     (case hex_val ch of
        None \<Rightarrow> mac_loop cs hi mac
      | Some v \<Rightarrow>
          (case hi of
             None \<Rightarrow> mac_loop cs (Some v) mac
           | Some h \<Rightarrow> if ETHER_ADDR_SIZE \<le> length mac then mac
                       else mac_loop cs None (mac @ [word_of_nat (h * 16 + v)])))"

definition cdceth_parse_mac_string :: "string \<Rightarrow> bytes option" where
  "cdceth_parse_mac_string s =
     (let mac = mac_loop s None []
      in if length mac = ETHER_ADDR_SIZE \<and> cdceth_mac_is_valid mac then Some mac else None)"

text \<open>The device's MAC string, if it has one, and the station's addresses.\<close>

definition cdceth_load_mac :: "string option \<Rightarrow> nepEth \<Rightarrow> nepEth \<times> bool" where
  "cdceth_load_mac str ncp =
     (case Option.bind str cdceth_parse_mac_string of
        None \<Rightarrow> (ncp, False)
      | Some mac \<Rightarrow> (ncp\<lparr>ncp_ROMAddress := mac, ncp_MacAddress := mac\<rparr>, True))"

definition cdceth_seed_mac :: "u16 \<Rightarrow> u16 \<Rightarrow> nepEth \<Rightarrow> nepEth" where
  "cdceth_seed_mac vendor prodid ncp =
     (let fallback = [0x02, 0xcd, 0xce, ucast vendor, ucast prodid, word_of_nat (ncp_UnitNo ncp)]
      in if cdceth_mac_is_valid (ncp_ROMAddress ncp)
         then if \<not> cdceth_mac_is_valid (ncp_MacAddress ncp)
              then ncp\<lparr>ncp_MacAddress := ncp_ROMAddress ncp\<rparr> else ncp
         else ncp\<lparr>ncp_ROMAddress := fallback, ncp_MacAddress := fallback\<rparr>)"

definition nInitCDC :: "string option \<Rightarrow> u16 \<Rightarrow> u16 \<Rightarrow> nepEth \<Rightarrow> nepEth" where
  "nInitCDC str vendor prodid ncp =
     (let (n, ok) = cdceth_load_mac str ncp in if ok then n else cdceth_seed_mac vendor prodid n)"

definition cdceth_build_packet_filter :: "nepEth \<Rightarrow> u16" where
  "cdceth_build_packet_filter ncp =
     (let base = 0x0004 OR 0x0008
      in if ncp_Prom ncp then base OR (0x0001 OR 0x0002) OR 0x0010
         else if ncp_Multicasts ncp \<noteq> [] then base OR 0x0010 else base)"

section \<open>Laws: sending\<close>

text \<open>The frame a write puts on the wire: header, data, and zeros up to the least length.\<close>

definition frame_of :: "nepEth \<Rightarrow> sana2req \<Rightarrow> bytes \<Rightarrow> bytes" where
  "frame_of n r d =
     (let f = (if io_Raw r then d
               else addr6 (ios2_DstAddr r) @ addr6 (ncp_MacAddress n) @
                    rev (enc_le16 (unat (ios2_PacketType r))) @ d)
      in f @ replicate (ETHER_MIN_LEN - length f) 0)"

text \<open>A buffer can hold every frame; a client's copy function stores as much as it is asked for.\<close>

definition tx_ok :: "nepEth \<Rightarrow> bool" where
  "tx_ok n \<longleftrightarrow> ncp_WriteBufNum n < 2 \<and> length (ncp_WriteBuffer n) = 2 \<and>
     (\<forall>b \<in> set (ncp_WriteBuffer n). length b = ncp_WriteBufSize n) \<and>
     ETHER_MAX_LEN \<le> ncp_WriteBufSize n \<and> ncp_WriteBufSize n < 65536 \<and>
     (\<forall>b \<in> set (ncp_BufManList n). \<forall>f h l d. bm_CopyFromBuf b = Some f \<longrightarrow> f h l = Some d \<longrightarrow> length d = l)"

lemma prepare_fits:
  assumes "len \<le> RAWPKT_SIZE" and "ETHER_MAX_LEN \<le> bsz"
  shows "\<exists>off tot. cdceth_prepare_tx n len bsz = Some (off, tot)"
proof -
  have "cdceth_align 12 4 = 12" "cdceth_align 28 4 = 28" by (simp_all add: cdceth_align_4)
  moreover have "cdceth_align (28 + len) 4 \<le> 28 + len + 3" "cdceth_align (2 + len) 4 \<le> 2 + len + 3"
    using assms(1) align_bounds(2) [of "28 + len"] align_bounds(2) [of "2 + len"]
    by (simp_all add: cdceth_align_4 RAWPKT_SIZE_def)
  ultimately show ?thesis using assms
    by (cases "ncp_EncapType n") (auto simp: cdceth_prepare_tx_def NTH16_SIZE_def NDP16_SIZE_def
        DPE16_SIZE_def CDCETH_NCM_ALIGN_def CDCETH_EEM_ALIGN_def CDCETH_EEM_HEADER_LEN_def
        CDC_EEM_HDR_LEN_MASK_def Let_def RAWPKT_SIZE_def ETHER_MAX_LEN_def)
qed

lemma length_addr6 [simp]: "length (addr6 a) = 6"
  by (simp add: addr6_def ETHER_ADDR_SIZE_def)

lemma put_put:
  "off + length a + length c \<le> length x \<Longrightarrow>
   put_at (off + length a) c (put_at off a x) = put_at off (a @ c) x"
  by (simp add: put_at_def ac_simps)

lemma wr_bytes_put: "off + length d \<le> length b \<Longrightarrow> wr_bytes b off d = Some (put_at off d b)"
  by (simp add: wr_bytes_def put_at_def)

lemma put_nil: "off \<le> length x \<Longrightarrow> put_at off [] x = x"
  by (simp add: put_at_def)

lemma put_slice: "off + length a \<le> length x \<Longrightarrow> take (length a) (drop off (put_at off a x)) = a"
  by (simp add: put_at_def)

definition hdr_of :: "nepEth \<Rightarrow> sana2req \<Rightarrow> bytes" where
  "hdr_of n r = (if io_Raw r then []
     else addr6 (ios2_DstAddr r) @ addr6 (ncp_MacAddress n) @ rev (enc_le16 (unat (ios2_PacketType r))))"

lemma frame_of_eq: "frame_of n r d =
    hdr_of n r @ d @ replicate (ETHER_MIN_LEN - (length (hdr_of n r) + length d)) 0"
  by (simp add: frame_of_def hdr_of_def Let_def)

lemma length_hdr: "length (hdr_of n r) = (if io_Raw r then 0 else EPH_SIZE)"
  by (simp add: hdr_of_def EPH_SIZE_def)

lemma tx_ok_put:
  assumes "tx_ok n" and "length b = ncp_WriteBufSize n"
  shows "tx_ok (n\<lparr>ncp_WriteBuffer := (ncp_WriteBuffer n)[i := b]\<rparr>)"
  using assms by (auto simp: tx_ok_def dest!: set_update_subset_insert [THEN subsetD])

text \<open>
  Sending a queued write: it is inside the buffer on every path, and if the client's data could
  be copied, what goes out is received as the frame.
\<close>

lemma nWritePacket_ok:
  assumes "tx_ok n" and "can_write n r"
    and c: "Option.bind (req_bufman n r) bm_CopyFromBuf = Some copy"
  shows "case copy (ios2_Data r) (ios2_DataLength r) of
      None \<Rightarrow> \<exists>bb r'. nWritePacket n r = Some (nDoEvent (n\<lparr>ncp_WriteBuffer := bb\<rparr>) S2EVENT_TXBUFF, r', False) \<and>
        tx_ok (n\<lparr>ncp_WriteBuffer := bb\<rparr>) \<and> ios_Id r' = ios_Id r
    | Some d \<Rightarrow> \<exists>sq bb r' x off. nWritePacket n r = Some (n\<lparr>ncp_NcmSeq := sq, ncp_WriteBuffer := bb,
            ncp_WritePending := Some r', ncp_Sent := ncp_Sent n @ [x],
            ncp_WriteBufNum := 1 - ncp_WriteBufNum n\<rparr>, r', True) \<and> ios_Id r' = ios_Id r \<and>
        tx_ok (n\<lparr>ncp_WriteBuffer := bb\<rparr>) \<and>
        (\<forall>mem rx. length x \<le> length mem \<longrightarrow> take (length x) mem = x \<longrightarrow>
           ncp_EncapType rx = ncp_EncapType n \<longrightarrow>
           cdceth_handle_rx mem (length x) rx = nReadPacket mem off (length (frame_of n r d)) rx \<and>
           take (length (frame_of n r d)) (drop off mem) = frame_of n r d)"
proof -
  let ?buf = "ncp_WriteBuffer n ! ncp_WriteBufNum n"
  let ?h = "hdr_of n r"
  obtain fl where fl: "fl = (if io_Raw r then ios2_DataLength r else ios2_DataLength r + EPH_SIZE)" by simp
  obtain pl where pl: "pl = (if fl < ETHER_MIN_LEN then ETHER_MIN_LEN else fl)" by simp
  have bl: "length ?buf = ncp_WriteBufSize n" "length ?buf < 65536" using assms(1) by (auto simp: tx_ok_def)
  have dl: "ios2_DataLength r \<le> 1514" "fl \<le> 1514" "length ?h + ios2_DataLength r = fl"
    using assms(2) unfolding fl length_hdr
    by (auto simp: can_write_def RAWPKT_SIZE_def ETHERPKT_SIZE_def EPH_SIZE_def split: if_splits)
  then have md: "ios2_DataLength r mod 65536 = ios2_DataLength r" by simp
  have pl': "pl \<le> RAWPKT_SIZE" "EPH_SIZE \<le> pl" "pl \<le> 65536" "0 < pl" "fl \<le> pl"
    "pl = fl + (ETHER_MIN_LEN - fl)"
    using dl unfolding pl by (auto simp: RAWPKT_SIZE_def ETHER_MIN_LEN_def EPH_SIZE_def)
  have big: "ETHER_MAX_LEN \<le> ncp_WriteBufSize n" using assms(1) by (simp add: tx_ok_def)
  obtain off tot where p: "cdceth_prepare_tx n pl (ncp_WriteBufSize n) = Some (off, tot)"
    using prepare_fits [OF pl'(1) big] by blast
  note P = prepare_sizes [OF p pl'(4,3)]
  have room: "off + pl \<le> length ?buf" using P(1,2) bl by simp
  have h: "(if io_Raw r then Some ?buf else put_header n r off ?buf) = Some (put_at off ?h ?buf)"
  proof (cases "io_Raw r")
    case True
    then show ?thesis using room by (simp add: hdr_of_def put_nil)
  next
    case False
    then have "off + 14 \<le> length ?buf" using room dl(3) pl'(5) by (simp add: length_hdr EPH_SIZE_def)
    then show ?thesis using False by (simp add: put_header_def wr_bytes_def put_at_def hdr_of_def)
  qed
  have lh: "(if io_Raw r then off else off + EPH_SIZE) = off + length ?h" by (simp add: length_hdr)
  show ?thesis
  proof (cases "copy (ios2_Data r) (ios2_DataLength r)")
    case None
    let ?bb = "(ncp_WriteBuffer n)[ncp_WriteBufNum n := put_at off ?h ?buf]"
    have "length (put_at off ?h ?buf) = ncp_WriteBufSize n" using room dl(3) pl'(5) bl by simp
    from tx_ok_put [OF assms(1) this] have "tx_ok (n\<lparr>ncp_WriteBuffer := ?bb\<rparr>)" .
    moreover have "nWritePacket n r = Some (nDoEvent (n\<lparr>ncp_WriteBuffer := ?bb\<rparr>) S2EVENT_TXBUFF,
        r\<lparr>ios2_DataLength := 0, io_Error := S2ERR_NO_RESOURCES, ios2_WireError := word_of_int S2WERR_BUFF_ERROR\<rparr>, False)"
      unfolding nWritePacket_def md Let_def fl [symmetric] pl [symmetric] p option.case prod.case h c None ..
    ultimately show ?thesis using None by auto
  next
    case (Some d)
    obtain bm where bm: "req_bufman n r = Some bm" "bm_CopyFromBuf bm = Some copy"
      using c by (cases "req_bufman n r") auto
    then have "bm \<in> set (ncp_BufManList n)"
      using find_bufman_mem by (fastforce simp: req_bufman_def split: option.splits)
    then have ld: "length d = ios2_DataLength r"
      using assms(1) bm(2) Some unfolding tx_ok_def by blast
    let ?z = "replicate (pl - fl) (0 :: u8)"
    have fr: "frame_of n r d = ?h @ d @ ?z"
      using dl(3) ld pl'(6) by (simp add: frame_of_eq)
    have lf: "length (frame_of n r d) = pl" using fr dl(3) ld pl'(5) by simp
    let ?b1 = "put_at off ?h ?buf" and ?b2 = "put_at off (?h @ d) ?buf" and ?b3 = "put_at off (frame_of n r d) ?buf"
    have w1: "wr_bytes ?b1 (if io_Raw r then off else off + EPH_SIZE) d = Some ?b2"
      using room dl(3) ld pl'(5) put_put [of off ?h d ?buf] wr_bytes_put [of "off + length ?h" d ?b1]
      unfolding lh by simp
    have "off + fl = off + length (?h @ d)" using dl(3) ld by simp
    then have w2: "wr (off + fl) ?z (Some ?b2) = Some ?b3"
      using room pl'(5) dl(3) ld put_put [of off "?h @ d" ?z ?buf] wr_put [of "off + fl" ?z ?b2] by (simp add: fr)
    have l3: "length ?b3 = length ?buf" using room lf by simp
    have p3: "cdceth_prepare_tx n pl (length ?b3) = Some (off, tot)" using p l3 bl by simp
    obtain sq b4 where f: "cdceth_finalize_tx n ?b3 off pl tot = Some (n\<lparr>ncp_NcmSeq := sq\<rparr>, b4)"
      and l4: "length b4 = length ?buf"
      and rt: "\<forall>mem rx. ncp_EncapType rx = ncp_EncapType n \<longrightarrow> tot \<le> length mem \<longrightarrow> take tot mem = take tot b4 \<longrightarrow>
         cdceth_handle_rx mem tot rx = nReadPacket mem off pl rx \<and> take pl (drop off mem) = take pl (drop off ?b3)"
    proof -
      have l3': "length ?b3 < 65536" using l3 bl by simp
      obtain tx' b where b: "cdceth_finalize_tx n ?b3 off pl tot = Some (tx', b)" "length b = length ?b3"
        "\<exists>sq. tx' = n\<lparr>ncp_NcmSeq := sq\<rparr>"
        using encap_roundtrip_aux [OF p3 pl'(2,3) l3' refl] by blast
      have "cdceth_handle_rx mem tot rx = nReadPacket mem off pl rx \<and> take pl (drop off mem) = take pl (drop off ?b3)"
        if tr: "ncp_EncapType rx = ncp_EncapType n" "tot \<le> length mem" "take tot mem = take tot b" for mem rx
      proof -
        obtain tx'' b'' where "cdceth_finalize_tx n ?b3 off pl tot = Some (tx'', b'')"
          "tot \<le> length mem \<longrightarrow> take tot mem = take tot b'' \<longrightarrow>
            cdceth_handle_rx mem tot rx = nReadPacket mem off pl rx \<and> take pl (drop off mem) = take pl (drop off ?b3)"
          using encap_roundtrip_aux [OF p3 pl'(2,3) l3' tr(1)] by blast
        then show ?thesis using b(1) tr(2,3) by simp
      qed
      then show ?thesis using that b l3 by auto
    qed
    let ?r = "r\<lparr>ios2_DataLength := pl\<rparr>" and ?x = "take tot b4"
    let ?bb = "(ncp_WriteBuffer n)[ncp_WriteBufNum n := b4]"
    have lx: "length ?x = tot" using P(1) l4 bl by simp
    have sl: "take pl (drop off ?b3) = frame_of n r d" using put_slice [of off "frame_of n r d" ?buf] lf room by simp
    have e: "nWritePacket n r = Some (n\<lparr>ncp_NcmSeq := sq, ncp_WriteBuffer := ?bb, ncp_WritePending := Some ?r,
        ncp_Sent := ncp_Sent n @ [?x], ncp_WriteBufNum := 1 - ncp_WriteBufNum n\<rparr>, ?r, True)"
      unfolding nWritePacket_def md Let_def fl [symmetric] pl [symmetric] p option.case prod.case h c Some w1 w2 f
      by simp
    have "tx_ok (n\<lparr>ncp_WriteBuffer := ?bb\<rparr>)" using tx_ok_put [OF assms(1)] l4 bl by simp
    moreover have "\<forall>mem rx. length ?x \<le> length mem \<longrightarrow> take (length ?x) mem = ?x \<longrightarrow>
        ncp_EncapType rx = ncp_EncapType n \<longrightarrow>
        cdceth_handle_rx mem (length ?x) rx = nReadPacket mem off (length (frame_of n r d)) rx \<and>
        take (length (frame_of n r d)) (drop off mem) = frame_of n r d"
      using rt sl unfolding lx lf by auto
    ultimately show ?thesis unfolding Some option.case using e
      by (intro exI [where x = sq] exI [where x = ?bb] exI [where x = ?r] exI [where x = ?x] exI [where x = off]) simp
  qed
qed

section \<open>Laws: the steps of the task\<close>

definition unit_ok :: "nepEth \<Rightarrow> bool" where
  "unit_ok n \<longleftrightarrow> eth_ok n \<and> tx_ok n"

lemma tx_ok_core:
  assumes "same_core n n'" shows "tx_ok n = tx_ok n'"
proof -
  have "(\<forall>b \<in> set (ncp_BufManList m). P (bm_CopyFromBuf b)) =
      (\<forall>b \<in> set (map core (ncp_BufManList m)). P (bm_CopyFromBuf b))" for m P by auto
  note e = this [of _ "\<lambda>c. \<forall>f h l d. c = Some f \<longrightarrow> f h l = Some d \<longrightarrow> length d = l"]
  show ?thesis using assms unfolding tx_ok_def e same_core_def by simp
qed

lemma unit_ok_core: "unit_ok n \<Longrightarrow> same_core n n' \<Longrightarrow> eth_ok n' \<Longrightarrow> unit_ok n'"
  using tx_ok_core by (simp add: unit_ok_def)

lemma pending_fields [simp]:
  "ncp_WritePending (nDoEvent n ev) = ncp_WritePending n" "ncp_WritePending (upd_stats f n) = ncp_WritePending n"
  "ncp_WritePending (upd_type p g n) = ncp_WritePending n"
  by (simp_all add: nDoEvent_eq upd_stats_def upd_type_def split: option.split)

lemma ids_reply_pending: "ncp_WritePending m = Some r' \<Longrightarrow> ios_Id r = ios_Id r' \<Longrightarrow>
    ids ((ReplyMsg m r)\<lparr>ncp_WritePending := None\<rparr>) = ids m"
  by (simp add: ids_def ReplyMsg_def rx_reqs_def ac_simps)

lemma complete_write_ok:
  "ids (cdceth_complete_write e n) = ids n" "same_core m (cdceth_complete_write e n) = same_core m n"
  "eth_ok n \<Longrightarrow> eth_ok (cdceth_complete_write e n)"
proof -
  show "ids (cdceth_complete_write e n) = ids n"
  proof (cases "ncp_WritePending n")
    case (Some r)
    then show ?thesis by (simp add: cdceth_complete_write_def Let_def ids_reply_pending [where r' = r])
  qed (simp add: cdceth_complete_write_def)
  show "same_core m (cdceth_complete_write e n) = same_core m n"
    by (simp add: cdceth_complete_write_def Let_def split: option.split)
  show "eth_ok n \<Longrightarrow> eth_ok (cdceth_complete_write e n)"
    by (simp add: cdceth_complete_write_def Let_def split: option.split)
qed

lemma unit_cmd_ok:
  "ids (unit_cmd n r) = add_mset (ios_Id r) (ids n)" "same_core m (unit_cmd n r) = same_core m n"
  "eth_ok n \<Longrightarrow> eth_ok (unit_cmd n r)"
  by (simp_all add: unit_cmd_def nSetOnline_def Let_def split: sana_cmd.split)

lemma unit_cmds_ok:
  "ids (unit_cmds n rs) = ids n + idm rs" "same_core m (unit_cmds n rs) = same_core m n"
  "eth_ok n \<Longrightarrow> eth_ok (unit_cmds n rs)"
  by (induction rs arbitrary: n) (simp_all add: unit_cmd_ok)

lemma unit_port_ok:
  "ids (unit_port n) = ids n" "same_core m (unit_port n) = same_core m n"
  "eth_ok n \<Longrightarrow> eth_ok (unit_port n)"
  using ids_put(4) [where n = n and l = "[]"] by (simp_all add: unit_port_def unit_cmds_ok)

definition copy_works :: "nepEth \<Rightarrow> sana2req \<Rightarrow> bool" where
  "copy_works n r \<longleftrightarrow> (\<forall>f. Option.bind (req_bufman n r) bm_CopyFromBuf = Some f \<longrightarrow>
     f (ios2_Data r) (ios2_DataLength r) \<noteq> None)"

lemma can_write_copy: "can_write n r \<Longrightarrow> \<exists>f. Option.bind (req_bufman n r) bm_CopyFromBuf = Some f"
  by (auto simp: can_write_def split: option.splits)

lemma req_bufman_put [simp]: "req_bufman (n\<lparr>ncp_WriteQueue := q\<rparr>) r = req_bufman n r"
  "can_write (n\<lparr>ncp_WriteQueue := q\<rparr>) r = can_write n r"
  "tx_ok (n\<lparr>ncp_WriteQueue := q\<rparr>) = tx_ok n"
  by (simp_all add: req_bufman_def can_write_def tx_ok_def split: option.split)

text \<open>The next write of the queue: sent, and then it is the one pending, or dropped.\<close>

lemma pump_step:
  assumes "unit_ok n" and "ncp_WriteQueue n = r # rs" and "ncp_WritePending n = None"
  shows "\<exists>n' r' ok. nWritePacket (n\<lparr>ncp_WriteQueue := rs\<rparr>) r = Some (n', r', ok) \<and> unit_ok n' \<and>
    same_core n (n'\<lparr>ncp_WriteBuffer := ncp_WriteBuffer n, ncp_WriteBufNum := ncp_WriteBufNum n\<rparr>) \<and>
    ncp_WriteQueue n' = rs \<and> (ok \<longleftrightarrow> copy_works n r) \<and>
    (if ok then ids n' = ids n \<and> ncp_WritePending n' \<noteq> None
     else add_mset (ios_Id r) (ids n') = ids n \<and> ncp_WritePending n' = None)"
proof -
  let ?n = "n\<lparr>ncp_WriteQueue := rs\<rparr>"
  have cw: "can_write n r" and tx: "tx_ok ?n" and e: "eth_ok n"
    using assms by (simp_all add: unit_ok_def eth_ok_def)
  have e': "eth_ok ?n" using e by (rule eth_okI) (use assms(2) in auto)
  have i: "add_mset (ios_Id r) (ids ?n) = ids n"
    using ids_put(2) [where n = n and l = rs] assms(2) by simp
  obtain f where f: "Option.bind (req_bufman ?n r) bm_CopyFromBuf = Some f"
    using can_write_copy [OF cw] by auto
  have cwn: "can_write ?n r" using cw by simp
  note W = nWritePacket_ok [OF tx cwn f]
  show ?thesis
  proof (cases "f (ios2_Data r) (ios2_DataLength r)")
    case None
    then obtain bb r' where w: "nWritePacket ?n r = Some (nDoEvent (?n\<lparr>ncp_WriteBuffer := bb\<rparr>) S2EVENT_TXBUFF, r', False)"
      "tx_ok (?n\<lparr>ncp_WriteBuffer := bb\<rparr>)" using W by auto
    let ?m = "nDoEvent (?n\<lparr>ncp_WriteBuffer := bb\<rparr>) S2EVENT_TXBUFF"
    have "same_core (?n\<lparr>ncp_WriteBuffer := bb\<rparr>) ?m" by simp
    from tx_ok_core [OF this] have "unit_ok ?m" using w(2) e' by (simp add: unit_ok_def)
    moreover have "\<not> copy_works n r" using None f by (simp add: copy_works_def)
    moreover have "same_core n (?m\<lparr>ncp_WriteBuffer := ncp_WriteBuffer n, ncp_WriteBufNum := ncp_WriteBufNum n\<rparr>)"
      by (simp add: same_core_def nDoEvent_eq)
    moreover have "ncp_WriteQueue ?m = rs" "ncp_WritePending ?m = None" using assms(3) by (simp_all add: nDoEvent_eq)
    moreover have "add_mset (ios_Id r) (ids ?m) = ids n" using i by simp
    ultimately show ?thesis using w(1) by (intro exI [where x = ?m] exI [where x = r'] exI [where x = False]) simp
  next
    case (Some d)
    then obtain sq bb r' x where w: "nWritePacket ?n r = Some (?n\<lparr>ncp_NcmSeq := sq, ncp_WriteBuffer := bb,
            ncp_WritePending := Some r', ncp_Sent := ncp_Sent ?n @ [x],
            ncp_WriteBufNum := 1 - ncp_WriteBufNum ?n\<rparr>, r', True)" "ios_Id r' = ios_Id r"
      "tx_ok (?n\<lparr>ncp_WriteBuffer := bb\<rparr>)" using W by auto
    let ?m = "?n\<lparr>ncp_NcmSeq := sq, ncp_WriteBuffer := bb, ncp_WritePending := Some r',
            ncp_Sent := ncp_Sent ?n @ [x], ncp_WriteBufNum := 1 - ncp_WriteBufNum ?n\<rparr>"
    have "tx_ok ?m" using w(3) by (simp add: tx_ok_def)
    moreover have "eth_ok ?m" using e' by simp
    moreover have "copy_works n r" using Some f by (simp add: copy_works_def)
    moreover have "ids ?m = ids n"
    proof -
      have "ids ?m = add_mset (ios_Id r') (ids ?n)" using assms(3) by (simp add: ids_def rx_reqs_def)
      then show ?thesis using i w(2) by simp
    qed
    moreover have "same_core n (?m\<lparr>ncp_WriteBuffer := ncp_WriteBuffer n, ncp_WriteBufNum := ncp_WriteBufNum n\<rparr>)"
      by (simp add: same_core_def)
    ultimately show ?thesis using w(1)
      by (intro exI [where x = ?m] exI [where x = r'] exI [where x = True]) (simp add: unit_ok_def)
  qed
qed

text \<open>What the pump drops: the writes whose data the client could not give.\<close>

lemma copy_works_core:
  assumes "map core (ncp_BufManList n) = map core (ncp_BufManList n')"
  shows "copy_works n r = copy_works n' r"
proof -
  have e: "Option.bind (req_bufman m r) bm_CopyFromBuf =
      Option.bind (map_option core (req_bufman m r)) bm_CopyFromBuf" for m
    by (cases "req_bufman m r") simp_all
  show ?thesis using req_core [OF assms, of r] unfolding copy_works_def e by simp
qed

lemma pump_ok:
  "unit_ok n \<Longrightarrow> length (ncp_WriteQueue n) < k \<Longrightarrow>
   \<exists>n'. pump k n = Some n' \<and> unit_ok n' \<and> ids n' \<subseteq># ids n \<and>
     map core (ncp_BufManList n') = map core (ncp_BufManList n) \<and>
     ((\<forall>r \<in> set (ncp_WriteQueue n). copy_works n r) \<longrightarrow> ids n' = ids n) \<and>
     (ncp_WritePending n' = None \<longrightarrow> ncp_WriteQueue n' = [])"
proof (induction k arbitrary: n)
  case (Suc k)
  show ?case
  proof (cases "ncp_WritePending n \<noteq> None \<or> ncp_WriteQueue n = []")
    case True
    then have "pump (Suc k) n = Some n" by (auto split: list.split)
    then show ?thesis using Suc.prems True by auto
  next
    case False
    then obtain r rs where q: "ncp_WriteQueue n = r # rs" and p: "ncp_WritePending n = None"
      by (cases "ncp_WriteQueue n") auto
    from pump_step [OF Suc.prems(1) q p] obtain n1 r1 ok where
      w: "nWritePacket (n\<lparr>ncp_WriteQueue := rs\<rparr>) r = Some (n1, r1, ok)" and u: "unit_ok n1"
      and sc: "same_core n (n1\<lparr>ncp_WriteBuffer := ncp_WriteBuffer n, ncp_WriteBufNum := ncp_WriteBufNum n\<rparr>)"
      and q1: "ncp_WriteQueue n1 = rs" and ok: "ok \<longleftrightarrow> copy_works n r"
      and i: "if ok then ids n1 = ids n \<and> ncp_WritePending n1 \<noteq> None
        else add_mset (ios_Id r) (ids n1) = ids n \<and> ncp_WritePending n1 = None" by blast
    have c: "map core (ncp_BufManList n1) = map core (ncp_BufManList n)" using sc by (simp add: same_core_def)
    have k1: "length (ncp_WriteQueue n1) < k" using Suc.prems(2) q q1 by simp
    obtain n2 where
      r: "pump k n1 = Some n2" "unit_ok n2" "ids n2 \<subseteq># ids n1"
        "map core (ncp_BufManList n2) = map core (ncp_BufManList n1)"
        "(\<forall>r \<in> set (ncp_WriteQueue n1). copy_works n1 r) \<longrightarrow> ids n2 = ids n1"
        "ncp_WritePending n2 = None \<longrightarrow> ncp_WriteQueue n2 = []"
      using Suc.IH [OF u k1] by (elim exE conjE) (rule that)
    have e: "pump (Suc k) n = Some n2"
      unfolding pump.simps p q list.case w option.case prod.case r(1) by simp
    have s1: "ids n1 \<subseteq># ids n"
    proof (cases ok)
      case False
      then have "ids n = add_mset (ios_Id r) (ids n1)" using i by simp
      then show ?thesis by simp
    qed (use i in simp)
    have all: "ids n2 = ids n" if "\<forall>r \<in> set (ncp_WriteQueue n). copy_works n r"
    proof -
      have "ok" using that q ok by simp
      moreover have "\<forall>r \<in> set (ncp_WriteQueue n1). copy_works n1 r"
        using that q q1 copy_works_core [OF c] by simp
      ultimately show ?thesis using i r(5) by simp
    qed
    have c2: "map core (ncp_BufManList n2) = map core (ncp_BufManList n)" using r(4) c by (rule trans)
    show ?thesis
      by (intro exI [where x = n2] conjI e r(2,6) c2 subset_mset.order_trans [OF r(3) s1] impI)
        (rule all, assumption)
  qed
qed simp

text \<open>Exactly what the pump drops: from the front of the queue the writes whose data the client refuses,
  up to one that can be sent.\<close>

lemma pump_lost:
  "unit_ok n \<Longrightarrow> length (ncp_WriteQueue n) < k \<Longrightarrow> pump k n = Some n' \<Longrightarrow>
   ids n = ids n' + idm (if ncp_WritePending n \<noteq> None then [] else takeWhile (\<lambda>r. \<not> copy_works n r) (ncp_WriteQueue n))"
proof (induction k arbitrary: n)
  case (Suc k)
  show ?case
  proof (cases "ncp_WritePending n \<noteq> None \<or> ncp_WriteQueue n = []")
    case True
    then have "pump (Suc k) n = Some n" by (auto split: list.split)
    then show ?thesis using Suc.prems(3) True by auto
  next
    case False
    then obtain r rs where q: "ncp_WriteQueue n = r # rs" and p: "ncp_WritePending n = None"
      by (cases "ncp_WriteQueue n") auto
    from pump_step [OF Suc.prems(1) q p] obtain n1 r1 ok where
      w: "nWritePacket (n\<lparr>ncp_WriteQueue := rs\<rparr>) r = Some (n1, r1, ok)" and u: "unit_ok n1"
      and sc: "same_core n (n1\<lparr>ncp_WriteBuffer := ncp_WriteBuffer n, ncp_WriteBufNum := ncp_WriteBufNum n\<rparr>)"
      and q1: "ncp_WriteQueue n1 = rs" and ok: "ok \<longleftrightarrow> copy_works n r"
      and i: "if ok then ids n1 = ids n \<and> ncp_WritePending n1 \<noteq> None
        else add_mset (ios_Id r) (ids n1) = ids n \<and> ncp_WritePending n1 = None" by blast
    have "map core (ncp_BufManList n1) = map core (ncp_BufManList n)" using sc by (simp add: same_core_def)
    then have c: "copy_works n1 = copy_works n" using copy_works_core by blast
    have k: "pump k n1 = Some n'" "length (ncp_WriteQueue n1) < k" using Suc.prems(2,3) q q1 p w by simp_all
    note IH = Suc.IH [OF u k(2,1)]
    show ?thesis
    proof (cases ok)
      case True
      then show ?thesis using IH i ok q p by simp
    next
      case False
      then have j: "add_mset (ios_Id r) (ids n1) = ids n" "ncp_WritePending n1 = None" "\<not> copy_works n r" using i ok by auto
      have "ids n1 = ids n' + idm (takeWhile (\<lambda>r. \<not> copy_works n r) rs)" using IH j(2) q1 c by simp
      then show ?thesis using j q p by (simp flip: j(1))
    qed
  qed
qed simp

text \<open>Nothing else a round does touches the queue of writes.\<close>

lemma queue_kept [simp]:
  "ncp_WriteQueue (nDoEvent n ev) = ncp_WriteQueue n" "ncp_WriteQueue (upd_stats f n) = ncp_WriteQueue n"
  "ncp_WriteQueue (upd_type p g n) = ncp_WriteQueue n" "ncp_WriteQueue (ReplyMsg n r) = ncp_WriteQueue n"
  "ncp_WriteQueue (start_read n) = ncp_WriteQueue n" "ncp_WriteQueue (nSetOnline n) = ncp_WriteQueue n"
  by (simp_all add: nDoEvent_eq upd_stats_def upd_type_def ReplyMsg_def start_read_def nSetOnline_def split: option.split)

lemma queue_complete [simp]: "ncp_WriteQueue (cdceth_complete_write e n) = ncp_WriteQueue n"
  by (simp add: cdceth_complete_write_def Let_def split: option.split)

lemma queue_cmds [simp]: "ncp_WriteQueue (unit_cmds n rs) = ncp_WriteQueue n"
  by (induction rs arbitrary: n) (simp_all add: unit_cmd_def Let_def split: sana_cmd.split)

lemma queue_port [simp]: "ncp_WriteQueue (unit_port n) = ncp_WriteQueue n"
  by (simp add: unit_port_def)

lemma unit_queue_frame: "ncp_WriteQueue (n\<lparr>ncp_Copied := a, ncp_EventList := b, ncp_Replied := c, ncp_BufManList := d,
    ncp_OrphanQueue := e, ncp_DeviceStats := f, ncp_TrackList := g\<rparr>) = ncp_WriteQueue n"
  by simp

lemma pipe_in_ok:
  assumes "unit_ok (et_Unit t)" and "pktlen + 4 \<le> length mem" and "pktlen + 8 \<le> 2 ^ 32"
  shows "\<exists>t' s. pipe_in t ioerr mem pktlen = Some (t', s) \<and> unit_ok (et_Unit t') \<and>
    same_core (et_Unit t) (et_Unit t') \<and> ids (et_Unit t') = ids (et_Unit t) \<and>
    ncp_WriteQueue (et_Unit t') = ncp_WriteQueue (et_Unit t)"
proof (cases "ncp_ReadPending (et_Unit t)")
  case None
  then show ?thesis using assms(1)
    by (intro exI [where x = t] exI [where x = False]) (simp add: pipe_in_def)
next
  case (Some b)
  let ?n = "if ncp_Online (et_Unit t) then start_read (et_Unit t) else (et_Unit t)\<lparr>ncp_ReadPending := None\<rparr>"
  have n: "eth_ok ?n" "same_core (et_Unit t) ?n" "ids ?n = ids (et_Unit t)" "ncp_WriteQueue ?n = ncp_WriteQueue (et_Unit t)"
    using assms(1) by (simp_all add: start_read_def unit_ok_def)
  from rxk.handle_rx_R [OF n(1) assms(2,3)] obtain n' d where
    r: "cdceth_handle_rx mem pktlen ?n = Some (n', d)" "eth_ok n'" "rx_keeps ?n n'" by blast
  have "n' = ?n\<lparr>ncp_Copied := ncp_Copied n', ncp_EventList := ncp_EventList n', ncp_Replied := ncp_Replied n',
      ncp_BufManList := ncp_BufManList n', ncp_OrphanQueue := ncp_OrphanQueue n', ncp_DeviceStats := ncp_DeviceStats n',
      ncp_TrackList := ncp_TrackList n'\<rparr>" using r(3) by (simp add: rx_keeps_def served_all_def)
  then have "ncp_WriteQueue n' = ncp_WriteQueue ?n" by (metis unit_queue_frame)
  then have k: "same_core (et_Unit t) n'" "ids n' = ids (et_Unit t)" "ncp_WriteQueue n' = ncp_WriteQueue (et_Unit t)"
    using r(3) n same_core_trans [OF n(2)] by (auto simp: rx_keeps_def)
  show ?thesis
  proof (cases "ioerr = 0")
    case True
    then have "pipe_in t ioerr mem pktlen = Some (t\<lparr>et_Unit := n'\<rparr>, False)"
      using Some r(1) by (simp add: pipe_in_def Let_def)
    then show ?thesis using r(2) k unit_ok_core [OF assms(1) k(1)]
      by (intro exI [where x = "t\<lparr>et_Unit := n'\<rparr>"] exI [where x = False]) simp
  next
    case False
    then obtain t' where "pipe_in t ioerr mem pktlen = Some (t', True)" "et_Unit t' = ?n"
      using Some by (simp add: pipe_in_def Let_def)
    then show ?thesis using n unit_ok_core [OF assms(1) n(2,1)] by auto
  qed
qed

definition msg_ok :: "pipe_msg \<Rightarrow> bool" where
  "msg_ok m = (case m of PipeOut e \<Rightarrow> True
     | PipeIn e mem len \<Rightarrow> len + 4 \<le> length mem \<and> len + 8 \<le> 2 ^ 32)"

lemma pipe_msgs_ok:
  "unit_ok (et_Unit t) \<Longrightarrow> \<forall>m \<in> set ms. msg_ok m \<Longrightarrow>
   \<exists>t' rest. pipe_msgs t ms = Some (t', rest) \<and> unit_ok (et_Unit t') \<and>
     same_core (et_Unit t) (et_Unit t') \<and> ids (et_Unit t') = ids (et_Unit t) \<and>
     ncp_WriteQueue (et_Unit t') = ncp_WriteQueue (et_Unit t)"
proof (induction t ms rule: pipe_msgs.induct)
  case (2 t e ms)
  let ?n = "cdceth_complete_write e (et_Unit t)"
  have "same_core (et_Unit t) ?n" "eth_ok ?n" using 2(2) by (simp_all add: complete_write_ok unit_ok_def)
  from unit_ok_core [OF 2(2) this] have "unit_ok (et_Unit (t\<lparr>et_Unit := ?n\<rparr>))" by simp
  from 2(1) [OF this] 2(3) obtain t' rest where
    "pipe_msgs (t\<lparr>et_Unit := ?n\<rparr>) ms = Some (t', rest)" "unit_ok (et_Unit t')" "same_core ?n (et_Unit t')"
    "ids (et_Unit t') = ids ?n" "ncp_WriteQueue (et_Unit t') = ncp_WriteQueue ?n" by auto
  then show ?case using same_core_trans [OF \<open>same_core (et_Unit t) ?n\<close>] by (simp add: complete_write_ok)
next
  case (3 t e mem len ms)
  have "len + 4 \<le> length mem" "len + 8 \<le> 2 ^ 32" using 3(3) by (simp_all add: msg_ok_def)
  from pipe_in_ok [OF 3(2) this, of e] obtain t1 s where
    p: "pipe_in t e mem len = Some (t1, s)" "unit_ok (et_Unit t1)" "same_core (et_Unit t) (et_Unit t1)"
    "ids (et_Unit t1) = ids (et_Unit t)" "ncp_WriteQueue (et_Unit t1) = ncp_WriteQueue (et_Unit t)" by blast
  show ?case
  proof (cases s)
    case True
    then show ?thesis using p by simp
  next
    case False
    from 3(1) [OF p(1) refl False p(2)] 3(3) obtain t2 rest where
      "pipe_msgs t1 ms = Some (t2, rest)" "unit_ok (et_Unit t2)" "same_core (et_Unit t1) (et_Unit t2)"
      "ids (et_Unit t2) = ids (et_Unit t1)" "ncp_WriteQueue (et_Unit t2) = ncp_WriteQueue (et_Unit t1)" by auto
    then show ?thesis using p False same_core_trans [OF p(3)] by auto
  qed
qed simp

end
