(* ===== verification/Cdc_Props.thy ===== *)
theory Cdc_Props
  imports Cdc_Task
begin

text \<open>
  What the CDC Ethernet class promises the network stacks: that the device loses and doubles no
  request, that its multicast filter and statistics are what the commands asked for, that a frame
  reaches every client, that what is written is what a peer reads; and the steps of the device and
  its task as one system with its invariant.
\<close>

section \<open>A round of the task\<close>

definition all_copies_work :: "nepEth \<Rightarrow> bool" where
  "all_copies_work n \<longleftrightarrow> (\<forall>b \<in> set (ncp_BufManList n). \<forall>f h l. bm_CopyFromBuf b = Some f \<longrightarrow> f h l \<noteq> None)"

lemma all_copies_work_core: "same_core n n' \<Longrightarrow> all_copies_work n = all_copies_work n'"
proof -
  assume s: "same_core n n'"
  have "(\<forall>b \<in> set (ncp_BufManList m). P (bm_CopyFromBuf b)) =
      (\<forall>b \<in> set (map core (ncp_BufManList m)). P (bm_CopyFromBuf b))" for m P by auto
  note e = this [of _ "\<lambda>c. \<forall>f h l. c = Some f \<longrightarrow> f h l \<noteq> None"]
  show ?thesis using s unfolding all_copies_work_def e same_core_def by simp
qed

lemma all_copies_workD: "all_copies_work n \<Longrightarrow> copy_works n r"
  using find_bufman_mem
  by (fastforce simp: all_copies_work_def copy_works_def req_bufman_def bind_eq_Some_conv split: option.splits)

text \<open>The writes a round can drop: none, or those at the front of the queue that the clients refuse the
  data of.\<close>

definition droppable :: "nepEth \<Rightarrow> sana2req list set" where
  "droppable n = {[], takeWhile (\<lambda>r. \<not> copy_works n r) (ncp_WriteQueue n)}"

lemma task_round_ok:
  assumes "unit_ok (et_Unit t)" and "\<forall>m \<in> set ms. msg_ok m"
  shows "\<exists>t' rest. task_round t ms = Some (t', rest) \<and> unit_ok (et_Unit t') \<and>
    (all_copies_work (et_Unit t) \<longrightarrow> ids (et_Unit t') = ids (et_Unit t)) \<and>
    (ncp_WritePending (et_Unit t') = None \<longrightarrow> ncp_WriteQueue (et_Unit t') = []) \<and>
    (\<exists>lost \<in> droppable (et_Unit t). ids (et_Unit t) = ids (et_Unit t') + idm lost)"
proof -
  let ?n = "et_Unit t"
  obtain t0 where t0: "t0 = (if ncp_Online ?n \<and> ncp_ReadPending ?n = None then t\<lparr>et_Unit := start_read ?n\<rparr> else t)"
    by simp
  have "unit_ok (start_read ?n)"
    using unit_ok_core [OF assms(1), of "start_read ?n"] assms(1)
    by (simp add: start_read_def unit_ok_def same_core_def)
  then have u0: "unit_ok (et_Unit t0)" "same_core ?n (et_Unit t0)" "ids (et_Unit t0) = ids ?n"
    using assms(1) unfolding t0 by (simp_all add: start_read_def)
  obtain t1 rest where p: "pipe_msgs t0 ms = Some (t1, rest)" and u1: "unit_ok (et_Unit t1)"
    and c1: "same_core (et_Unit t0) (et_Unit t1)" and i1: "ids (et_Unit t1) = ids (et_Unit t0)"
    and q1: "ncp_WriteQueue (et_Unit t1) = ncp_WriteQueue (et_Unit t0)"
    using pipe_msgs_ok [OF u0(1) assms(2)] by (elim exE conjE) (rule that)
  let ?p = "unit_port (et_Unit t1)"
  have c: "same_core (et_Unit t1) ?p" and e: "eth_ok ?p" using u1 by (simp_all add: unit_port_ok unit_ok_def)
  note u = unit_ok_core [OF u1 c e]
  have ip: "ids ?p = ids ?n" using i1 u0(3) by (simp add: unit_port_ok)
  have acw: "all_copies_work ?n = all_copies_work ?p"
    using all_copies_work_core [OF same_core_trans [OF same_core_trans [OF u0(2) c1] c]] .
  obtain n2 where w: "pump (length (ncp_WriteQueue ?p) + 1) ?p = Some n2" "unit_ok n2" "ids n2 \<subseteq># ids ?p"
      "(\<forall>r \<in> set (ncp_WriteQueue ?p). copy_works ?p r) \<longrightarrow> ids n2 = ids ?p"
      "ncp_WritePending n2 = None \<longrightarrow> ncp_WriteQueue n2 = []"
    using pump_ok [OF u less_add_one] by (elim exE conjE) (rule that)
  have "task_round t ms = Some (t1\<lparr>et_Unit := n2\<rparr>, rest)"
    using p w(1) unfolding task_round_def Let_def t0 [symmetric] by (simp add: write_pump_def)
  moreover have "all_copies_work ?n \<longrightarrow> ids n2 = ids ?n"
    using w(4) ip all_copies_workD acw by auto
  moreover have "ids ?n = ids n2 + idm (if ncp_WritePending ?p \<noteq> None then [] else takeWhile (\<lambda>r. \<not> copy_works ?n r) (ncp_WriteQueue ?n))"
  proof -
    have "map core (ncp_BufManList ?p) = map core (ncp_BufManList ?n)"
      using same_core_trans [OF same_core_trans [OF u0(2) c1] c] by (simp add: same_core_def)
    then have "copy_works ?p = copy_works ?n" using copy_works_core by blast
    moreover have "ncp_WriteQueue ?p = ncp_WriteQueue ?n" using q1 by (simp add: t0)
    ultimately show ?thesis using pump_lost [OF u less_add_one w(1)] ip by simp
  qed
  then have "\<exists>lost \<in> droppable ?n. ids ?n = ids n2 + idm lost" by (auto simp: droppable_def split: if_splits)
  ultimately show ?thesis using w(2,5)
    by (intro exI [where x = "t1\<lparr>et_Unit := n2\<rparr>"] exI [where x = rest]) simp
qed

section \<open>The device and its task as one system\<close>

text \<open>
  A step is a command, an abort or a round of the task; \<open>qsize\<close> is the parameter of
  \<open>cmdDeviceQuery\<close>.
\<close>

inductive eth_step :: "nat \<Rightarrow> eth_task \<Rightarrow> eth_task \<Rightarrow> bool" for qsize where
  step_begin: "req_ok r \<Longrightarrow> devBeginIO qsize mem (et_Unit t) r = Some n \<Longrightarrow>
     eth_step qsize t (t\<lparr>et_Unit := n\<rparr>)"
| step_abort: "eth_step qsize t (t\<lparr>et_Unit := devAbortIO (et_Unit t) r\<rparr>)"
| step_round: "\<forall>m \<in> set ms. msg_ok m \<Longrightarrow> task_round t ms = Some (t', rest) \<Longrightarrow> eth_step qsize t t'"

inductive_cases eth_stepE: "eth_step qsize t t'"

lemma eth_step_ok:
  assumes "eth_step qsize t t'" and u: "unit_ok (et_Unit t)"
  shows "unit_ok (et_Unit t')"
  using assms(1)
proof (cases rule: eth_step.cases)
  case (step_begin r mem n)
  then show ?thesis using devBeginIO_ok [of "et_Unit t" r qsize mem] u unit_ok_core [OF u]
    by (auto simp: unit_ok_def)
next
  case (step_abort r)
  then show ?thesis using devAbortIO_ok [of "et_Unit t" r] u unit_ok_core [OF u]
    by (auto simp: unit_ok_def)
next
  case (step_round ms rest)
  then show ?thesis using task_round_ok [OF u step_round(1)] by auto
qed

interpretation eth_inv: step_invariant "eth_step qsize" "\<lambda>t. unit_ok (et_Unit t)"
  by unfold_locales (rule eth_step_ok)

section \<open>A small unit for the examples\<close>

definition ex_bufman :: bufman where
  "ex_bufman = \<lparr>bm_Id = 1, bm_CopyFromBuf = Some (\<lambda>h l. Some (replicate l 7)),
     bm_CopyToBuf = Some (\<lambda>h d. True), bm_PacketFilter = None, bm_RXQueue = []\<rparr>"

definition ex_eth :: nepEth where
  "ex_eth = \<lparr>ncp_Configured = True, ncp_Online = True, ncp_Offline = False, ncp_UnitNo = 0,
     unit_OpenCnt = 1, ncp_Prom = False, ncp_Mine = False, ncp_BufManList = [ex_bufman],
     ncp_EventList = [], ncp_TrackList = [], ncp_Multicasts = [], ncp_MacAddress = [2, 0, 0, 0, 0, 1],
     ncp_ROMAddress = [2, 0, 0, 0, 0, 1], ncp_MulticastArray = replicate 8 0, ncp_Retries = 0,
     ncp_BadMulticasts = 0, ncp_EncapType = ENCAP_NCM, ncp_ReadBufSize = 2048,
     ncp_WriteBufSize = 2048, ncp_NtbMaxSize = 2048, ncp_NcmMaxSegment = 1514, ncp_NcmSeq = 0,
     ncp_DeviceStats = \<lparr>ds_PacketsReceived = 0, ds_PacketsSent = 0, ds_BadData = 0,
       ds_UnknownTypesReceived = 0\<rparr>,
     ncp_TypeStats2048 = None, ncp_TypeStats2054 = None,
     ncp_WriteBuffer = [replicate 2048 0, replicate 2048 0], ncp_WriteBufNum = 0,
     ncp_ReadPending = Some 0, ncp_ReadBufNum = 1, ncp_WritePending = None, ncp_OrphanQueue = [],
     ncp_WriteQueue = [], ncp_UnitPort = [], ncp_Replied = [], ncp_Quick = [], ncp_Copied = [],
     ncp_Sent = [], ncp_ForbidCnt = 0\<rparr>"

definition ex_req :: "nat \<Rightarrow> sana_cmd \<Rightarrow> sana2req" where
  "ex_req i c = \<lparr>ios_Id = i, ios_Type = NT_MESSAGE, io_Command = c, io_Quick = False, io_Raw = False,
     io_Bcast = False, io_Mcast = False, io_Error = 0, ios2_WireError = 0, ios2_PacketType = 2048,
     ios2_SrcAddr = replicate 16 1, ios2_DstAddr = replicate 16 1, ios2_DataLength = 100,
     ios2_Data = 4096, ios2_BufferManagement = Some 1, ios2_StatData = None, io_Length = 0,
     io_NSQuery = None\<rparr>"

lemma ex_req_ok [simp]: "req_ok (ex_req i c)"
  by (simp add: ex_req_def req_ok_def SANA2_MAX_ADDR_BYTES_def)

lemma ex_unit_ok: "unit_ok ex_eth"
  by (simp add: ex_eth_def ex_bufman_def unit_ok_def eth_ok_def tx_ok_def rx_reqs_def ETHER_MAX_LEN_def)

lemma ex_eth_ok: "eth_ok ex_eth"
  using ex_unit_ok by (simp add: unit_ok_def)


section \<open>Properties: the device loses no request\<close>

text \<open>C9: A command handed to the device always comes back to the dispatcher, and afterwards the
  request is in exactly one place of the unit, every other request where it was or answered: none
  is lost or answered twice, and the unit's invariant holds.\<close>

theorem begin_io_accounts:
  assumes "eth_ok n" and "req_ok r"
  shows "\<exists>n'. devBeginIO qsize mem n r = Some n' \<and>
    ids n' = add_mset (ios_Id r) (ids n) \<and> eth_ok n'"
  using devBeginIO_ok [OF assms] by blast

theorem begin_io_accounts_witness:
  "\<exists>n'. devBeginIO 30 None ex_eth (ex_req 3 CMD_WRITE) = Some n' \<and>
    ids n' = add_mset (ios_Id (ex_req 3 CMD_WRITE)) (ids ex_eth) \<and> eth_ok n'"
  by (rule begin_io_accounts [OF ex_eth_ok ex_req_ok])

text \<open>The lists a request can wait on, and the one an abort looks at.\<close>

definition queues :: "nepEth \<Rightarrow> sana2req list list" where
  "queues n = [rx_reqs n, ncp_OrphanQueue n, ncp_WriteQueue n, ncp_UnitPort n, ncp_EventList n]"

definition queue_of :: "sana_cmd \<Rightarrow> nat option" where
  "queue_of c = (if c = CMD_READ then Some 0 else if c = S2_READORPHAN then Some 1
     else if c \<in> {CMD_WRITE, S2_MULTICAST, S2_BROADCAST} then Some 2
     else if c \<in> {S2_ONLINE, S2_OFFLINE, S2_CONFIGINTERFACE, S2_ADDMULTICASTADDRESS, S2_DELMULTICASTADDRESS,
       S2_ADDMULTICASTADDRESSES, S2_DELMULTICASTADDRESSES} then Some 3
     else if c = S2_ONEVENT then Some 4 else None)"

definition waits :: "nepEth \<Rightarrow> sana2req \<Rightarrow> bool" where
  "waits n r \<longleftrightarrow> ios_Type r = NT_MESSAGE \<and> (\<exists>k. queue_of (io_Command r) = Some k \<and> r \<in> set (queues n ! k))"

text \<open>A request is told by its address: no other one has its identity.\<close>

definition sole :: "sana2req \<Rightarrow> sana2req list \<Rightarrow> bool" where
  "sole r l \<longleftrightarrow> (\<forall>q \<in> set l. ios_Id q = ios_Id r \<longrightarrow> q = r)"

abbreviation aborted :: "sana2req \<Rightarrow> sana2req" where
  "aborted r \<equiv> r\<lparr>ios_Type := NT_REPLYMSG, io_Error := IOERR_ABORTED\<rparr>"

lemma AbortReq_sole:
  "sole r l \<Longrightarrow> AbortReq n l (ios_Id r) =
    (if r \<in> set l then (n\<lparr>ncp_Replied := ncp_Replied n @ [aborted r]\<rparr>, remove1 r l, True) else (n, l, False))"
  by (induction l) (auto simp: sole_def ReplyMsg_def)

lemma remove1_concat:
  "remove1 r (xs @ ys) = (if r \<in> set xs then remove1 r xs @ ys else xs @ remove1 r ys)"
  by (simp add: remove1_append)

lemma abort_read_sole:
  "sole r (concat (map bm_RXQueue bs)) \<Longrightarrow> abort_read n bs (ios_Id r) = (n', bs') \<Longrightarrow>
   concat (map bm_RXQueue bs') = remove1 r (concat (map bm_RXQueue bs)) \<and>
   n' = (if r \<in> set (concat (map bm_RXQueue bs)) then n\<lparr>ncp_Replied := ncp_Replied n @ [aborted r]\<rparr> else n) \<and>
   (r \<notin> set (concat (map bm_RXQueue bs)) \<longrightarrow> bs' = bs)"
proof (induction bs arbitrary: n n' bs')
  case (Cons b bs)
  have s: "sole r (bm_RXQueue b)" "sole r (concat (map bm_RXQueue bs))" using Cons.prems(1) by (auto simp: sole_def)
  show ?case
  proof (cases "r \<in> set (bm_RXQueue b)")
    case True
    then show ?thesis using Cons.prems(2) by (auto simp: AbortReq_sole [OF s(1)] remove1_concat)
  next
    case False
    obtain m ms where m: "abort_read n bs (ios_Id r) = (m, ms)" by fastforce
    then have "n' = m" "bs' = b # ms" using Cons.prems(2) False by (auto simp: AbortReq_sole [OF s(1)])
    then show ?thesis using Cons.IH [OF s(2) m] False by (auto simp: remove1_concat)
  qed
qed simp

lemma abort_queue:
  assumes "sole r (concat (queues n))"
  shows "devAbortIO n r = (if waits n r then (devAbortIO n r)\<lparr>ncp_Replied := ncp_Replied n @ [aborted r]\<rparr> else n) \<and>
    (waits n r \<longrightarrow> queues (devAbortIO n r) = (queues n)[the (queue_of (io_Command r)) := remove1 r (queues n ! the (queue_of (io_Command r)))])"
proof -
  have s: "sole r (rx_reqs n)" "sole r (ncp_OrphanQueue n)" "sole r (ncp_WriteQueue n)" "sole r (ncp_UnitPort n)" "sole r (ncp_EventList n)"
    using assms by (auto simp: sole_def queues_def)
  obtain n1 bs where a: "abort_read n (ncp_BufManList n) (ios_Id r) = (n1, bs)" by fastforce
  note rd = abort_read_sole [OF s(1) [unfolded rx_reqs_def] a]
  show ?thesis
  proof (cases "ios_Type r = NT_MESSAGE")
    case False
    then show ?thesis by (simp add: devAbortIO_def waits_def)
  next
    case t: True
    show ?thesis
    proof (cases "io_Command r = CMD_READ")
      case True
      then show ?thesis using t a rd by (auto simp: devAbortIO_def waits_def queue_of_def queues_def rx_reqs_def)
    next
      case False
      then show ?thesis using t
        by (auto simp: devAbortIO_def waits_def queue_of_def queues_def rx_reqs_def AbortReq_sole [OF s(2)] AbortReq_sole [OF s(3)]
          AbortReq_sole [OF s(4)] AbortReq_sole [OF s(5)])
    qed
  qed
qed

text \<open>C18: Aborting keeps the account of all requests, whatever list the request is on. A read, orphan read,
  write, unit command or event request that waits on its list is taken off that list and answered with the
  abort error, and nothing else: every other request stays where it is and nothing else is answered. A
  request that does not wait is left alone, and so is the unit.\<close>

theorem abort_io_answers:
  assumes "sole r (concat (queues n))"
  shows "ids (devAbortIO n r) = ids n \<and>
    (if waits n r then
       ncp_Replied (devAbortIO n r) = ncp_Replied n @ [r\<lparr>ios_Type := NT_REPLYMSG, io_Error := IOERR_ABORTED\<rparr>] \<and>
       queues (devAbortIO n r) = (queues n)[the (queue_of (io_Command r)) := remove1 r (queues n ! the (queue_of (io_Command r)))]
     else devAbortIO n r = n)"
proof -
  note q = abort_queue [OF assms]
  show ?thesis
  proof (cases "waits n r")
    case True
    then have "devAbortIO n r = (devAbortIO n r)\<lparr>ncp_Replied := ncp_Replied n @ [aborted r]\<rparr>" using q by simp
    from arg_cong [OF this, of ncp_Replied] show ?thesis using q True devAbortIO_ok [of n r] by simp
  next
    case False
    then have "devAbortIO n r = n" using q by simp
    then show ?thesis using False by simp
  qed
qed

definition ex_waiting :: nepEth where
  "ex_waiting = ex_eth\<lparr>ncp_BufManList := [ex_bufman\<lparr>bm_RXQueue := [ex_req 2 CMD_READ, ex_req 3 CMD_READ]\<rparr>]\<rparr>"

theorem abort_io_answers_witness:
  "ids (devAbortIO ex_waiting (ex_req 3 CMD_READ)) = ids ex_waiting \<and>
   ncp_Replied (devAbortIO ex_waiting (ex_req 3 CMD_READ)) =
     [(ex_req 3 CMD_READ)\<lparr>ios_Type := NT_REPLYMSG, io_Error := IOERR_ABORTED\<rparr>] \<and>
   rx_reqs (devAbortIO ex_waiting (ex_req 3 CMD_READ)) = [ex_req 2 CMD_READ]"
proof -
  have q: "queues ex_waiting = [[ex_req 2 CMD_READ, ex_req 3 CMD_READ], [], [], [], []]"
    by (simp add: queues_def rx_reqs_def ex_waiting_def ex_eth_def)
  have s: "sole (ex_req 3 CMD_READ) (concat (queues ex_waiting))" by (simp add: q sole_def ex_req_def)
  have w: "waits ex_waiting (ex_req 3 CMD_READ)" "queue_of (io_Command (ex_req 3 CMD_READ)) = Some 0"
    by (simp_all add: waits_def q queue_of_def ex_req_def)
  have "ncp_Replied ex_waiting = []" by (simp add: ex_waiting_def ex_eth_def)
  moreover have "ex_req 2 CMD_READ \<noteq> ex_req 3 CMD_READ" by (simp add: ex_req_def)
  moreover have "queues n = [a, b, c, d, e] \<Longrightarrow> rx_reqs n = a" for n a b c d e by (simp add: queues_def)
  ultimately show ?thesis using abort_io_answers [OF s] w q by simp
qed

section \<open>Properties: the class task\<close>

text \<open>C10: Whatever sequence of commands, aborts and rounds of the task the unit goes through, with
  any transfers arriving, its invariant holds, every further command is taken and accounted for, every
  abort keeps the account of requests, and every further round ends and loses no request but writes: none,
  or those at the front of the write queue whose data the client's copy function refuses. No read, event or
  other request is ever lost.\<close>

theorem eth_runs_safe:
  assumes "(eth_step qsize)\<^sup>*\<^sup>* t t'" and "unit_ok (et_Unit t)"
  shows "unit_ok (et_Unit t') \<and>
    (\<forall>mem r. req_ok r \<longrightarrow> (\<exists>n. devBeginIO qsize mem (et_Unit t') r = Some n \<and> ids n = add_mset (ios_Id r) (ids (et_Unit t')))) \<and>
    (\<forall>r. ids (devAbortIO (et_Unit t') r) = ids (et_Unit t')) \<and>
    (\<forall>ms. (\<forall>m \<in> set ms. msg_ok m) \<longrightarrow>
       (\<exists>t'' rest. task_round t' ms = Some (t'', rest) \<and>
          (\<exists>lost \<in> {[], takeWhile (\<lambda>r. \<not> copy_works (et_Unit t') r) (ncp_WriteQueue (et_Unit t'))}.
             ids (et_Unit t') = ids (et_Unit t'') + idm lost)))"
proof -
  have u: "unit_ok (et_Unit t')" using eth_inv.reach [OF assms] .
  have "\<exists>n. devBeginIO qsize mem (et_Unit t') r = Some n \<and> ids n = add_mset (ios_Id r) (ids (et_Unit t'))" if "req_ok r" for mem r
    using devBeginIO_ok [OF _ that, of "et_Unit t'" qsize mem] u by (auto simp: unit_ok_def)
  moreover have "\<exists>t'' rest. task_round t' ms = Some (t'', rest) \<and> (\<exists>lost \<in> droppable (et_Unit t'). ids (et_Unit t') = ids (et_Unit t'') + idm lost)"
    if "\<forall>m \<in> set ms. msg_ok m" for ms
    using task_round_ok [OF u that] by blast
  ultimately show ?thesis using u devAbortIO_ok unfolding droppable_def by blast
qed

definition ex_task :: eth_task where
  "ex_task = \<lparr>et_Unit = ex_eth, et_LastIOErr = 0, et_ErrCount = 0, et_Break = False\<rparr>"

theorem eth_runs_safe_witness:
  "\<exists>t'' rest. task_round (ex_task\<lparr>et_Unit := devAbortIO ex_eth (ex_req 3 CMD_READ)\<rparr>) [PipeOut 0] = Some (t'', rest) \<and>
     ids ex_eth = ids (et_Unit t'')"
proof -
  have "(eth_step 30)\<^sup>*\<^sup>* ex_task (ex_task\<lparr>et_Unit := devAbortIO (et_Unit ex_task) (ex_req 3 CMD_READ)\<rparr>)"
    by (rule r_into_rtranclp) (rule step_abort)
  moreover have "devAbortIO ex_eth (ex_req 3 CMD_READ) = ex_eth" by (simp add: devAbortIO_def ex_eth_def ex_bufman_def ex_req_def)
  moreover have "ncp_WriteQueue ex_eth = []" by (simp add: ex_eth_def)
  moreover have "\<forall>m \<in> set [PipeOut 0]. msg_ok m" by (simp add: msg_ok_def)
  ultimately show ?thesis using eth_runs_safe [of 30 ex_task] ex_unit_ok by (fastforce simp: ex_task_def)
qed

text \<open>C16: If the clients' copy functions never fail, a round of the task loses no request: what was
  queued is sent, answered or still queued, and a write is left waiting only behind one that is
  being sent.\<close>

theorem round_keeps_requests:
  assumes "unit_ok (et_Unit t)" and "\<forall>m \<in> set ms. msg_ok m" and "all_copies_work (et_Unit t)"
  shows "\<exists>t' rest. task_round t ms = Some (t', rest) \<and> ids (et_Unit t') = ids (et_Unit t) \<and>
    (ncp_WritePending (et_Unit t') = None \<longrightarrow> ncp_WriteQueue (et_Unit t') = [])"
  using task_round_ok [OF assms(1,2)] assms(3) by (elim exE conjE) (intro exI conjI, assumption, simp_all)

theorem round_keeps_requests_witness:
  "\<exists>t' rest. task_round ex_task [PipeOut 0] = Some (t', rest) \<and>
    ids (et_Unit t') = ids (et_Unit ex_task) \<and>
    (ncp_WritePending (et_Unit t') = None \<longrightarrow> ncp_WriteQueue (et_Unit t') = [])"
  by (rule round_keeps_requests)
    (use ex_unit_ok in \<open>simp_all add: ex_task_def msg_ok_def all_copies_work_def ex_eth_def ex_bufman_def\<close>)

text \<open>C17: A write whose data the client's copy function refuses disappears: the task takes it off
  the queue and never answers it.\<close>

theorem refused_write_vanishes:
  assumes "unit_ok n" and "ncp_WriteQueue n = [r]" and "ncp_WritePending n = None"
    and "\<not> copy_works n r"
  shows "\<exists>n'. write_pump n = Some n' \<and> ids n = add_mset (ios_Id r) (ids n') \<and>
    ncp_WriteQueue n' = [] \<and> ncp_WritePending n' = None"
proof -
  from pump_step [OF assms(1-3)] assms(4) obtain n' r' where
    w: "nWritePacket (n\<lparr>ncp_WriteQueue := []\<rparr>) r = Some (n', r', False)" and q: "ncp_WriteQueue n' = []"
    and p: "ncp_WritePending n' = None" and i: "add_mset (ios_Id r) (ids n') = ids n" by auto
  have "pump (Suc (Suc k)) n = Some n'" for k
    using assms(2,3) w q p by simp
  from this [of 0] have "write_pump n = Some n'" using assms(2) by (simp add: write_pump_def)
  then show ?thesis using i q p by simp
qed

definition ex_refuse :: nepEth where
  "ex_refuse = ex_eth\<lparr>ncp_BufManList := [ex_bufman\<lparr>bm_CopyFromBuf := Some (\<lambda>h l. None)\<rparr>],
     ncp_WriteQueue := [ex_req 3 CMD_WRITE]\<rparr>"

theorem refused_write_vanishes_witness:
  "\<exists>n'. write_pump ex_refuse = Some n' \<and> ids ex_refuse = add_mset (ios_Id (ex_req 3 CMD_WRITE)) (ids n') \<and>
    ncp_WriteQueue n' = [] \<and> ncp_WritePending n' = None"
  by (rule refused_write_vanishes)
    (simp_all add: ex_refuse_def ex_eth_def ex_bufman_def ex_req_def unit_ok_def eth_ok_def tx_ok_def
      rx_reqs_def ETHER_MAX_LEN_def can_write_def copy_works_def req_bufman_def ETHERPKT_SIZE_def
      SANA2_MAX_ADDR_BYTES_def)


section \<open>Properties: filter and statistics\<close>

lemma bit_all_ones: "j < 8 \<Longrightarrow> bit (0xff :: u8) j"
  by (simp add: bit_simps numeral_eq_Suc less_Suc_eq) auto

text \<open>C14: The multicast filter handed to the hardware passes exactly the hashes of the addresses in
  the ranges that are enabled (a range may wrap around), and everything when the unit is
  promiscuous; computing it ends for every range.\<close>

theorem multicast_filter_exact:
  assumes "eth_ok n"
  shows "\<exists>n'. UpdateMulticastHash n = Some n' \<and> length (ncp_MulticastArray n') = 8 \<and>
    (\<forall>k < 64. hash_bit (ncp_MulticastArray n') k \<longleftrightarrow>
       ncp_Prom n \<or> (\<exists>m \<in> set (ncp_Multicasts n). \<exists>a. in_range m a \<and> mcast_hash a = k))"
proof (cases "ncp_Prom n")
  case True
  have "hash_bit (replicate 8 0xff) k" if "k < 64" for k
  proof -
    have "k div 8 < 8" "k mod 8 < 8" using that by auto
    then show ?thesis unfolding hash_bit_def by (simp only: nth_replicate bit_all_ones)
  qed
  then show ?thesis using True by (simp add: UpdateMulticastHash_def)
next
  case False
  have "\<forall>m \<in> set (ncp_Multicasts n). length (mar_LowerAddr m) = length (mar_UpperAddr m)"
    using assms by (auto simp: eth_ok_def range_ok_def)
  from ranges_loop_bits [OF _ this, of "replicate 8 0"] obtain arr where
    a: "ranges_loop (ncp_Multicasts n) (replicate 8 0) = Some arr" "length arr = 8"
    "\<forall>k < 64. hash_bit arr k \<longleftrightarrow> hash_bit (replicate 8 0) k \<or>
       (\<exists>m \<in> set (ncp_Multicasts n). \<exists>a. in_range m a \<and> mcast_hash a = k)" by auto
  have "\<not> hash_bit (replicate 8 0) k" if "k < 64" for k
  proof -
    have "k div 8 < 8" using that by auto
    then show ?thesis unfolding hash_bit_def by simp
  qed
  then show ?thesis using False a by (simp add: UpdateMulticastHash_def)
qed

theorem multicast_filter_exact_witness:
  "\<exists>n'. UpdateMulticastHash ex_eth = Some n' \<and> length (ncp_MulticastArray n') = 8 \<and>
    (\<forall>k < 64. hash_bit (ncp_MulticastArray n') k \<longleftrightarrow>
       ncp_Prom ex_eth \<or> (\<exists>m \<in> set (ncp_Multicasts ex_eth). \<exists>a. in_range m a \<and> mcast_hash a = k))"
  by (rule multicast_filter_exact) (rule ex_eth_ok)

text \<open>C19: The statistics kept at hand for the IP and ARP packet types are the nodes a search of the
  list finds, and tracking and untracking a type keep it so: looking up a type's statistics always
  gives the node on the list, and none for a type that is not tracked.\<close>

theorem stats_cache_exact:
  assumes "track_ok n"
  shows "track_ok (fst (snd (cmdTrackType mem n r))) \<and> track_ok (fst (snd (cmdUntrackType n r))) \<and>
    FindPacketTypeStats n t = map_option pts_Node (find_track t (ncp_TrackList n))"
  using track_cmds_ok [OF assms] FindPacketTypeStats_eq [OF assms] by blast

theorem stats_cache_exact_witness:
  "track_ok (fst (snd (cmdTrackType (Some 64) ex_eth (ex_req 3 S2_TRACKTYPE)))) \<and>
   track_ok (fst (snd (cmdUntrackType ex_eth (ex_req 3 S2_TRACKTYPE)))) \<and>
   FindPacketTypeStats ex_eth 2048 = map_option pts_Node (find_track 2048 (ncp_TrackList ex_eth))"
  by (rule stats_cache_exact) (simp add: track_ok_def ex_eth_def)

lemma forbid_fields [simp]:
  "ncp_ForbidCnt (ReplyMsg n r) = ncp_ForbidCnt n" "ncp_ForbidCnt (TermIO n r) = ncp_ForbidCnt n"
  "ncp_ForbidCnt (reply_all f n l) = ncp_ForbidCnt n" "ncp_ForbidCnt (nDoEvent n e) = ncp_ForbidCnt n"
  "ncp_ForbidCnt (queue_rx n b r) = ncp_ForbidCnt n" "ncp_ForbidCnt (fst (snd (put_unit n r))) = ncp_ForbidCnt n"
  "ncp_ForbidCnt (fst (AbortList n l b' e')) = ncp_ForbidCnt n"
  by (simp_all add: ReplyMsg_def TermIO_def reply_all_eq nDoEvent_eq queue_rx_def put_unit_def Let_def AbortList_def)

lemma forbid_AbortRW [simp]: "ncp_ForbidCnt (AbortRW n b e) = ncp_ForbidCnt n"
  by (simp add: AbortRW_def AbortList_def Let_def)

lemma forbid_cmds:
  "ncp_ForbidCnt (fst (snd (cmdRead n r))) = ncp_ForbidCnt n"
  "ncp_ForbidCnt (fst (snd (cmdWrite n r))) = ncp_ForbidCnt n"
  "ncp_ForbidCnt (fst (snd (cmdReadOrphan n r))) = ncp_ForbidCnt n"
  "ncp_ForbidCnt (fst (snd (cmdOnEvent n r))) = ncp_ForbidCnt n"
  "ncp_ForbidCnt (fst (snd (cmdFlush n r))) = ncp_ForbidCnt n"
  "ncp_ForbidCnt (fst (snd (cmdOnline n r))) = ncp_ForbidCnt n"
  "ncp_ForbidCnt (fst (snd (cmdConfigInterface n r))) = ncp_ForbidCnt n"
  "ncp_ForbidCnt (fst (snd (cmdGetStationAddress n r))) = ncp_ForbidCnt n"
  "ncp_ForbidCnt (fst (snd (cmdUntrackType n r))) = ncp_ForbidCnt n"
  "ncp_ForbidCnt (fst (snd (cmdGetTypeStats n r))) = ncp_ForbidCnt n"
  "ncp_ForbidCnt (fst (snd (cmdGetSpecialStats n r))) = ncp_ForbidCnt n"
  "ncp_ForbidCnt (fst (snd (cmdGetGlobalStats n r))) = ncp_ForbidCnt n"
  "ncp_ForbidCnt (fst (snd (cmdDeviceQuery q n r))) = ncp_ForbidCnt n"
  "ncp_ForbidCnt (fst (snd (cmdNSDeviceQuery n r))) = ncp_ForbidCnt n"
  by (simp_all add: cmdRead_def cmdWrite_def cmdReadOrphan_def cmdOnEvent_def cmdFlush_def cmdOnline_def
      cmdConfigInterface_def cmdGetStationAddress_def cmdUntrackType_def cmdGetTypeStats_def
      cmdGetSpecialStats_def cmdGetGlobalStats_def cmdDeviceQuery_def cmdNSDeviceQuery_def AbortList_def Let_def
      split: option.split)

lemma forbid_cmdOffline: "ncp_ForbidCnt (fst (snd (cmdOffline n r))) = ncp_ForbidCnt n"
  by (cases "ios2_BufferManagement r") (simp_all add: cmdOffline_def Let_def)

lemma forbid_cast:
  "ncp_ForbidCnt (fst (snd (cmdMulticast n r))) = ncp_ForbidCnt n"
  "ncp_ForbidCnt (fst (snd (cmdBroadcast n r))) = ncp_ForbidCnt n"
  by (simp_all add: cmdMulticast_def cmdBroadcast_def forbid_cmds)

lemma forbid_hash: "UpdateMulticastHash n = Some n' \<Longrightarrow> ncp_ForbidCnt n' = ncp_ForbidCnt n"
  by (auto simp: UpdateMulticastHash_def split: if_splits)

lemma forbid_ranges:
  "AddMCastRange mem n r l u = Some res \<Longrightarrow> ncp_ForbidCnt (fst (snd res)) = ncp_ForbidCnt n"
  "DelMCastRange n r l u = Some res \<Longrightarrow> ncp_ForbidCnt (fst (snd res)) = ncp_ForbidCnt n"
  by (auto simp: AddMCastRange_def DelMCastRange_def dest!: forbid_hash split: if_splits option.splits)

text \<open>Every command of the device leaves the task switching as it found it, with one exception:
  tracking a new packet type when there is no memory returns with switching still forbidden.\<close>

theorem forbid_balanced:
  assumes "devBeginIO qsize mem n r = Some n'"
  shows "ncp_ForbidCnt n' = ncp_ForbidCnt n +
    (if io_Command r = S2_TRACKTYPE \<and> mem = None \<and> find_track (ios2_PacketType r) (ncp_TrackList n) = None
     then 1 else 0)"
proof -
  let ?r = "r\<lparr>ios_Type := NT_MESSAGE, io_Error := 0\<rparr>"
  obtain ret m r' where d: "dispatch qsize mem n ?r = Some (ret, m, r')"
    using assms by (auto simp: devBeginIO_def split: option.splits)
  have n': "ncp_ForbidCnt n' = ncp_ForbidCnt m"
    using assms d by (auto simp: devBeginIO_def split: if_splits)
  have m: "m = fst (snd (ret, m, r'))" by simp
  have t: "ncp_ForbidCnt (fst (snd (cmdTrackType mem n ?r))) = ncp_ForbidCnt n +
      (if mem = None \<and> find_track (ios2_PacketType r) (ncp_TrackList n) = None then 1 else 0)"
    by (simp add: cmdTrackType_def Let_def split: option.split)
  show ?thesis
  proof (cases "io_Command r")
    case S2_TRACKTYPE
    then have "fst (snd (cmdTrackType mem n ?r)) = m" using d by (simp add: dispatch_def)
    then show ?thesis using t S2_TRACKTYPE unfolding n' by simp
  qed (use d in \<open>simp_all add: n' dispatch_def cmdAddMulticastAddress_def cmdDelMulticastAddress_def
      cmdAddMulticastAddresses_def cmdDelMulticastAddresses_def, (metis fst_conv snd_conv forbid_cmds
      forbid_cmdOffline forbid_cast forbid_ranges)+\<close>)
qed

theorem forbid_balanced_witness:
  "ncp_ForbidCnt (ex_eth\<lparr>ncp_ForbidCnt := 1,
      ncp_Replied := [(ex_req 3 S2_TRACKTYPE)\<lparr>io_Error := S2ERR_NO_RESOURCES, ios2_WireError := 5, ios_Type := NT_REPLYMSG\<rparr>]\<rparr>) = ncp_ForbidCnt ex_eth + 1"
proof -
  have "devBeginIO 30 None ex_eth (ex_req 3 S2_TRACKTYPE) = Some (ex_eth\<lparr>ncp_ForbidCnt := 1,
      ncp_Replied := [(ex_req 3 S2_TRACKTYPE)\<lparr>io_Error := S2ERR_NO_RESOURCES, ios2_WireError := 5, ios_Type := NT_REPLYMSG\<rparr>]\<rparr>)"
    by (simp add: devBeginIO_def dispatch_def cmdTrackType_def ex_req_def ex_eth_def RC_DONTREPLY_def RC_OK_def
        deverror_def TermIO_def ReplyMsg_def set_error_def err_byte_def Let_def)
  from forbid_balanced [OF this] show ?thesis by (simp add: ex_eth_def ex_req_def)
qed


section \<open>Properties: frames\<close>

text \<open>C13: A received frame of a legal length is copied to the first read request of every client
  that asks for its type (unless the client's filter or copy function refuses it), and to every
  orphan request if no client got it; nothing else is copied and no request is lost.\<close>

theorem frame_delivered:
  assumes "eth_ok n" and "off + pktlen + 4 \<le> length mem" and "EPH_SIZE \<le> pktlen" and "pktlen \<le> ETHER_MAX_LEN"
  shows "\<exists>n' taken. nReadPacket mem off pktlen n = Some (n', taken) \<and> ids n' = ids n \<and>
    ncp_Copied n' = ncp_Copied n @
      frame_copies mem off (le16 (mem ! (off + 13)) (mem ! (off + 12))) (pktlen - EPH_SIZE) n"
  using nReadPacket_ok [OF assms(1,2)] assms(3,4) by auto

theorem frame_delivered_witness:
  "\<exists>n' taken. nReadPacket (replicate 200 0) 0 60 ex_eth = Some (n', taken) \<and> ids n' = ids ex_eth \<and>
    ncp_Copied n' = ncp_Copied ex_eth @
      frame_copies (replicate 200 0) 0 (le16 (replicate 200 0 ! (0 + 13)) (replicate 200 0 ! (0 + 12)))
        (60 - EPH_SIZE) ex_eth"
  by (rule frame_delivered [OF ex_eth_ok]) (simp_all add: EPH_SIZE_def ETHER_MAX_LEN_def)

text \<open>C11: A write the device accepted goes out, in any encapsulation, as a transfer that a unit with
  the same encapsulation receives as exactly one frame: destination, this station's address, packet
  type and the client's data, padded with zeros to the least length of a frame.\<close>

theorem written_frame_received:
  assumes "tx_ok n" and "can_write n r" and "Option.bind (req_bufman n r) bm_CopyFromBuf = Some copy"
    and "copy (ios2_Data r) (ios2_DataLength r) = Some d"
  shows "\<exists>n' r' x off. nWritePacket n r = Some (n', r', True) \<and> ncp_Sent n' = ncp_Sent n @ [x] \<and>
    (\<forall>mem rx. length x \<le> length mem \<longrightarrow> take (length x) mem = x \<longrightarrow>
       ncp_EncapType rx = ncp_EncapType n \<longrightarrow>
       cdceth_handle_rx mem (length x) rx = nReadPacket mem off (length (frame_of n r d)) rx \<and>
       take (length (frame_of n r d)) (drop off mem) = frame_of n r d)"
proof -
  obtain sq bb r' x off where
    w: "nWritePacket n r = Some (n\<lparr>ncp_NcmSeq := sq, ncp_WriteBuffer := bb, ncp_WritePending := Some r',
          ncp_Sent := ncp_Sent n @ [x], ncp_WriteBufNum := 1 - ncp_WriteBufNum n\<rparr>, r', True)"
    and rt: "\<forall>mem rx. length x \<le> length mem \<longrightarrow> take (length x) mem = x \<longrightarrow> ncp_EncapType rx = ncp_EncapType n \<longrightarrow>
       cdceth_handle_rx mem (length x) rx = nReadPacket mem off (length (frame_of n r d)) rx \<and>
       take (length (frame_of n r d)) (drop off mem) = frame_of n r d"
    using nWritePacket_ok [OF assms(1-3)] unfolding assms(4) option.case
    by (elim exE conjE) (rule that)
  show ?thesis
    by (rule exI, rule exI [where x = r'], rule exI [where x = x], rule exI [where x = off],
        intro conjI, rule w, simp, rule rt)
qed

theorem written_frame_received_witness:
  "\<exists>n' r' x off. nWritePacket ex_eth (ex_req 3 CMD_WRITE) = Some (n', r', True) \<and>
    ncp_Sent n' = ncp_Sent ex_eth @ [x] \<and>
    (\<forall>mem rx. length x \<le> length mem \<longrightarrow> take (length x) mem = x \<longrightarrow>
       ncp_EncapType rx = ncp_EncapType ex_eth \<longrightarrow>
       cdceth_handle_rx mem (length x) rx =
         nReadPacket mem off (length (frame_of ex_eth (ex_req 3 CMD_WRITE) (replicate 100 7))) rx \<and>
       take (length (frame_of ex_eth (ex_req 3 CMD_WRITE) (replicate 100 7))) (drop off mem) =
         frame_of ex_eth (ex_req 3 CMD_WRITE) (replicate 100 7))"
proof (rule written_frame_received)
  show "tx_ok ex_eth" using ex_unit_ok by (simp add: unit_ok_def)
  show "can_write ex_eth (ex_req 3 CMD_WRITE)"
    by (simp add: ex_eth_def ex_bufman_def ex_req_def can_write_def req_bufman_def ETHERPKT_SIZE_def
        SANA2_MAX_ADDR_BYTES_def)
  show "Option.bind (req_bufman ex_eth (ex_req 3 CMD_WRITE)) bm_CopyFromBuf = Some (\<lambda>h l. Some (replicate l 7))"
    by (simp add: ex_eth_def ex_bufman_def ex_req_def req_bufman_def)
  show "Some (replicate (ios2_DataLength (ex_req 3 CMD_WRITE)) 7) = Some (replicate 100 7)"
    by (simp add: ex_req_def)
qed

text \<open>C15: A frame packed for transmission by any of the three encapsulations is received, by a unit
  with the same encapsulation, as exactly that one frame, wherever the transfer lands in memory.\<close>

theorem encap_roundtrip:
  assumes "cdceth_prepare_tx tx len (length buf) = Some (off, tot)" and "EPH_SIZE \<le> len"
    and "len \<le> 65536" and "length buf < 65536" and "ncp_EncapType rx = ncp_EncapType tx"
  shows "\<exists>tx' b. cdceth_finalize_tx tx buf off len tot = Some (tx', b) \<and>
    (\<forall>mem. tot \<le> length mem \<longrightarrow> take tot mem = take tot b \<longrightarrow>
       cdceth_handle_rx mem tot rx = nReadPacket mem off len rx \<and>
       take len (drop off mem) = take len (drop off buf))"
  using encap_roundtrip_aux [OF assms] by blast

theorem encap_roundtrip_witness:
  "\<exists>tx' b. cdceth_finalize_tx ex_eth (replicate 2048 1) 28 60 88 = Some (tx', b) \<and>
    (\<forall>mem. 88 \<le> length mem \<longrightarrow> take 88 mem = take 88 b \<longrightarrow>
       cdceth_handle_rx mem 88 ex_eth = nReadPacket mem 28 60 ex_eth \<and>
       take 60 (drop 28 mem) = take 60 (drop 28 (replicate 2048 1)))"
proof (rule encap_roundtrip)
  have "cdceth_align 12 4 = 12" "cdceth_align 28 4 = 28" "cdceth_align 88 4 = 88" by (simp_all add: cdceth_align_4)
  then show "cdceth_prepare_tx ex_eth 60 (length (replicate 2048 (1 :: u8))) = Some (28, 88)"
    by (simp add: cdceth_prepare_tx_def ex_eth_def NTH16_SIZE_def NDP16_SIZE_def
        DPE16_SIZE_def CDCETH_NCM_ALIGN_def Let_def)
qed (simp_all add: EPH_SIZE_def)

text \<open>C12: Any received transfer, however malformed, is taken apart without an access outside the
  memory of the transfer and the four bytes behind it, in a bounded number of steps; the unit's
  invariant holds after it, and no queued request is lost or answered twice.\<close>

theorem handle_rx_safe:
  assumes "eth_ok n" and "pktlen + 4 \<le> length mem" and "pktlen + 8 \<le> 2 ^ 32"
  shows "\<exists>n' taken. cdceth_handle_rx mem pktlen n = Some (n', taken) \<and> eth_ok n' \<and> ids n' = ids n"
  using rxk.handle_rx_R [OF assms] by (auto simp: rx_keeps_def)

theorem handle_rx_safe_witness:
  "\<exists>n' taken. cdceth_handle_rx (replicate 200 255) 100 ex_eth = Some (n', taken) \<and> eth_ok n' \<and> ids n' = ids ex_eth"
  by (rule handle_rx_safe [OF ex_eth_ok]) simp_all

section \<open>Properties: the station address\<close>

definition hex_digit :: "nat \<Rightarrow> char" where
  "hex_digit v = (if v < 10 then char_of (48 + v) else char_of (87 + v))"

definition hex2 :: "u8 \<Rightarrow> string" where
  "hex2 b = [hex_digit (unat b div 16), hex_digit (unat b mod 16)]"

lemma hex_val_digit: "v < 16 \<Longrightarrow> hex_val (hex_digit v) = Some v"
  by (auto simp: hex_val_def hex_digit_def Let_def)

lemma mac_loop_sep: "\<forall>c \<in> set sep. hex_val c = None \<Longrightarrow> mac_loop (sep @ cs) hi mac = mac_loop cs hi mac"
  by (induction sep) simp_all

lemma mac_loop_byte:
  "length mac < 6 \<Longrightarrow> mac_loop (hex2 b @ cs) None mac = mac_loop cs None (mac @ [b])"
proof -
  have "unat b div 16 < 16" using unat_u8_less [of b] by simp
  moreover have "word_of_nat (unat b div 16 * 16 + unat b mod 16) = b" by simp
  ultimately show ?thesis if "length mac < 6"
    using that by (simp add: hex2_def hex_val_digit ETHER_ADDR_SIZE_def)
qed

lemma mac_loop_bytes:
  "\<forall>c \<in> set sep. hex_val c = None \<Longrightarrow> length mac + length bs \<le> 6 \<Longrightarrow>
   mac_loop (concat (map (\<lambda>b. hex2 b @ sep) bs)) None mac = mac @ bs"
  by (induction bs arbitrary: mac) (simp_all add: mac_loop_byte mac_loop_sep)

text \<open>An address written as six pairs of hexadecimal digits, with any separator after each
  pair, is read back as the address, if it is a valid station address, and refused otherwise.\<close>

theorem mac_string_roundtrip:
  assumes "length mac = 6" and "\<forall>c \<in> set sep. hex_val c = None"
  shows "cdceth_parse_mac_string (concat (map (\<lambda>b. hex2 b @ sep) mac)) =
    (if cdceth_mac_is_valid mac then Some mac else None)"
  using mac_loop_bytes [OF assms(2), of "[]" mac] assms(1)
  by (simp add: cdceth_parse_mac_string_def ETHER_ADDR_SIZE_def Let_def)

theorem mac_string_roundtrip_witness:
  "cdceth_parse_mac_string (concat (map (\<lambda>b. hex2 b @ '':'') [2, 0xab, 0, 0, 0, 1])) =
     (if cdceth_mac_is_valid [2, 0xab, 0, 0, 0, 1] then Some [2, 0xab, 0, 0, 0, 1] else None)"
  by (rule mac_string_roundtrip) (simp_all add: hex_val_def Let_def)

end
