(* ===== verification/Uvc_Desc.thy ===== *)
theory Uvc_Desc
  imports Neptune_Prelude
begin

text \<open>
  The descriptor parser of the USB video class (\<open>classes/video/uvc_desc.c\<close>): descriptor bytes to
  the model of a video function, and the lookups of formats, frames and intervals in it.

  A descriptor is the list of its bytes. A pointer into a descriptor that the model keeps is the
  list of the bytes from there to the descriptor's end, NULL the empty list. The arrays of the one
  allocation are lists of their capacity; a pointer into an array is an index. The counts keep
  their width and wrap. \<open>None\<close> is an access outside a descriptor or an array.
\<close>

unbundle bit_operations_syntax

section \<open>Arrays\<close>

definition arr_get :: "'a list \<Rightarrow> nat \<Rightarrow> 'a option" where
  "arr_get xs i = (if i < length xs then Some (xs ! i) else None)"

definition arr_put :: "'a list \<Rightarrow> nat \<Rightarrow> 'a \<Rightarrow> 'a list option" where
  "arr_put xs i x = (if i < length xs then Some (xs[i := x]) else None)"

definition arr_slice :: "'a list \<Rightarrow> nat \<Rightarrow> nat \<Rightarrow> 'a list option" where
  "arr_slice xs off n = (if off + n \<le> length xs then Some (take n (drop off xs)) else None)"

section \<open>The model of a video function\<close>

text \<open>One row of the payload-format table; \<open>up_Flags\<close> as its three flags.\<close>

datatype framing = UPFR_FRAME | UPFR_STREAM | UPFR_TEMPORAL

record uvcPayload =
  up_FormatType :: nat
  up_FrameType :: nat
  up_Framing :: framing
  up_FixedSize :: bool
  up_JpegStart :: bool
  up_Embedded :: bool
  up_FormatSize :: nat
  up_DefFrame :: nat
  up_FrameSize :: nat
  up_Width :: nat
  up_Height :: nat
  up_DefInterval :: nat
  up_IntervalType :: nat
  up_Intervals :: nat
  up_GUID :: nat
  up_Usage :: u8
  up_InfoBytes :: nat
  up_FourCC :: u32

record uvcFrame =
  ufr_Index :: u8
  ufr_NumIntervals :: u8
  ufr_Width :: u16
  ufr_Height :: u16
  ufr_DefInterval :: u32
  ufr_Intervals :: bytes

text \<open>The payload row of a format is its index in the table.\<close>

record uvcFormat =
  ufo_Index :: u8
  ufo_Type :: u8
  ufo_NumFrames :: u8
  ufo_DefFrame :: u8
  ufo_Payload :: "nat option"
  ufo_Frames :: nat
  ufo_Desc :: bytes

record uvcStreamDesc =
  us_IfNum :: u8
  us_HeaderType :: u8
  us_EPAddr :: u8
  us_Info :: u8
  us_TerminalLink :: u8
  us_StillMethod :: u8
  us_NumFormats :: u8
  us_Formats :: nat

record uvcEntity =
  ue_ID :: u8
  ue_Type :: u8
  ue_TermType :: u16
  ue_NumSources :: u8
  ue_ControlSize :: u8
  ue_Sources :: bytes
  ue_Controls :: bytes
  ue_Desc :: bytes

record uvcFunction =
  uf_Version :: u16
  uf_ClockFrequency :: u32
  uf_NumEntities :: u16
  uf_NumStreams :: u16
  uf_NumFormats :: u16
  uf_NumFrames :: u16
  uf_Skipped :: u16
  uf_Entities :: "uvcEntity list"
  uf_Streams :: "uvcStreamDesc list"
  uf_Formats :: "uvcFormat list"
  uf_Frames :: "uvcFrame list"

definition zero_frame :: uvcFrame where
  "zero_frame = \<lparr>ufr_Index = 0, ufr_NumIntervals = 0, ufr_Width = 0, ufr_Height = 0,
     ufr_DefInterval = 0, ufr_Intervals = []\<rparr>"

definition zero_format :: uvcFormat where
  "zero_format = \<lparr>ufo_Index = 0, ufo_Type = 0, ufo_NumFrames = 0, ufo_DefFrame = 0,
     ufo_Payload = None, ufo_Frames = 0, ufo_Desc = []\<rparr>"

definition zero_stream :: uvcStreamDesc where
  "zero_stream = \<lparr>us_IfNum = 0, us_HeaderType = 0, us_EPAddr = 0, us_Info = 0, us_TerminalLink = 0,
     us_StillMethod = 0, us_NumFormats = 0, us_Formats = 0\<rparr>"

definition zero_entity :: uvcEntity where
  "zero_entity = \<lparr>ue_ID = 0, ue_Type = 0, ue_TermType = 0, ue_NumSources = 0, ue_ControlSize = 0,
     ue_Sources = [], ue_Controls = [], ue_Desc = []\<rparr>"

section \<open>The payload-format table\<close>

text \<open>Sizes and offsets are those of the packed structures in \<open>devices/usb_video.h\<close>.\<close>

abbreviation (input) UDST_VIDEO_CTRL_HEADER :: nat where "UDST_VIDEO_CTRL_HEADER \<equiv> 1"
abbreviation (input) UDST_VIDEO_CTRL_INPUT_TERMINAL :: nat where "UDST_VIDEO_CTRL_INPUT_TERMINAL \<equiv> 2"
abbreviation (input) UDST_VIDEO_CTRL_OUTPUT_TERMINAL :: nat where "UDST_VIDEO_CTRL_OUTPUT_TERMINAL \<equiv> 3"
abbreviation (input) UDST_VIDEO_CTRL_SELECTOR_UNIT :: nat where "UDST_VIDEO_CTRL_SELECTOR_UNIT \<equiv> 4"
abbreviation (input) UDST_VIDEO_CTRL_PROCESSING_UNIT :: nat where "UDST_VIDEO_CTRL_PROCESSING_UNIT \<equiv> 5"
abbreviation (input) UDST_VIDEO_CTRL_EXTENSION_UNIT :: nat where "UDST_VIDEO_CTRL_EXTENSION_UNIT \<equiv> 6"
abbreviation (input) UDST_VIDEO_CTRL_ENCODING_UNIT :: nat where "UDST_VIDEO_CTRL_ENCODING_UNIT \<equiv> 7"
abbreviation (input) UDST_VIDEO_STREAM_INPUT_HEADER :: nat where "UDST_VIDEO_STREAM_INPUT_HEADER \<equiv> 1"
abbreviation (input) UDST_VIDEO_STREAM_OUTPUT_HEADER :: nat where "UDST_VIDEO_STREAM_OUTPUT_HEADER \<equiv> 2"
abbreviation (input) UVITT_CAMERA :: nat where "UVITT_CAMERA \<equiv> 0x0201"
abbreviation (input) UVC_VERSION_10 :: u16 where "UVC_VERSION_10 \<equiv> 0x0100"
abbreviation (input) UVC_VERSION_11 :: u16 where "UVC_VERSION_11 \<equiv> 0x0110"
abbreviation (input) UVC_VERSION_15 :: u16 where "UVC_VERSION_15 \<equiv> 0x0150"
abbreviation (input) UVFCC_MJPG :: u32 where "UVFCC_MJPG \<equiv> 0x4d4a5047"
abbreviation (input) UVFCC_H264 :: u32 where "UVFCC_H264 \<equiv> 0x48323634"
abbreviation (input) UVFCC_VP80 :: u32 where "UVFCC_VP80 \<equiv> 0x56503830"

definition UvcPayloads :: "uvcPayload list" where
  "UvcPayloads =
    [\<lparr>up_FormatType = 0x06, up_FrameType = 0x07, up_Framing = UPFR_FRAME, up_FixedSize = False,
       up_JpegStart = True, up_Embedded = False, up_FormatSize = 11, up_DefFrame = 6,
       up_FrameSize = 26, up_Width = 5, up_Height = 7, up_DefInterval = 21, up_IntervalType = 25,
       up_Intervals = 26, up_GUID = 0, up_Usage = 0, up_InfoBytes = 1, up_FourCC = UVFCC_MJPG\<rparr>,
     \<lparr>up_FormatType = 0x04, up_FrameType = 0x05, up_Framing = UPFR_FRAME, up_FixedSize = True,
       up_JpegStart = False, up_Embedded = False, up_FormatSize = 27, up_DefFrame = 22,
       up_FrameSize = 26, up_Width = 5, up_Height = 7, up_DefInterval = 21, up_IntervalType = 25,
       up_Intervals = 26, up_GUID = 5, up_Usage = 0, up_InfoBytes = 1, up_FourCC = 0\<rparr>,
     \<lparr>up_FormatType = 0x10, up_FrameType = 0x11, up_Framing = UPFR_FRAME, up_FixedSize = False,
       up_JpegStart = False, up_Embedded = False, up_FormatSize = 28, up_DefFrame = 22,
       up_FrameSize = 26, up_Width = 5, up_Height = 7, up_DefInterval = 17, up_IntervalType = 21,
       up_Intervals = 26, up_GUID = 5, up_Usage = 0, up_InfoBytes = 1, up_FourCC = 0\<rparr>,
     \<lparr>up_FormatType = 0x13, up_FrameType = 0x14, up_Framing = UPFR_TEMPORAL, up_FixedSize = False,
       up_JpegStart = False, up_Embedded = False, up_FormatSize = 52, up_DefFrame = 5,
       up_FrameSize = 44, up_Width = 4, up_Height = 6, up_DefInterval = 39, up_IntervalType = 43,
       up_Intervals = 44, up_GUID = 0, up_Usage = 17, up_InfoBytes = 1, up_FourCC = UVFCC_H264\<rparr>,
     \<lparr>up_FormatType = 0x16, up_FrameType = 0x17, up_Framing = UPFR_TEMPORAL, up_FixedSize = False,
       up_JpegStart = False, up_Embedded = False, up_FormatSize = 13, up_DefFrame = 5,
       up_FrameSize = 31, up_Width = 4, up_Height = 6, up_DefInterval = 26, up_IntervalType = 30,
       up_Intervals = 31, up_GUID = 0, up_Usage = 17, up_InfoBytes = 3, up_FourCC = UVFCC_VP80\<rparr>,
     \<lparr>up_FormatType = 0, up_FrameType = 0, up_Framing = UPFR_FRAME, up_FixedSize = False,
       up_JpegStart = True, up_Embedded = True, up_FormatSize = 0, up_DefFrame = 0,
       up_FrameSize = 0, up_Width = 0, up_Height = 0, up_DefInterval = 0, up_IntervalType = 0,
       up_Intervals = 0, up_GUID = 0, up_Usage = 0, up_InfoBytes = 1, up_FourCC = UVFCC_H264\<rparr>]"

definition UVC_ROW_MJPEG :: nat where "UVC_ROW_MJPEG = 0"
definition UVC_ROW_EMBEDDED :: nat where "UVC_ROW_EMBEDDED = length UvcPayloads - 1"

definition UvcFourCCGUID :: bytes where
  "UvcFourCCGUID = [0x00, 0x00, 0x10, 0x00, 0x80, 0x00, 0x00, 0xaa, 0x00, 0x38, 0x9b, 0x71]"

definition UVC_FORMAT_TYPES :: "nat list" where
  "UVC_FORMAT_TYPES = [0x04, 0x06, 0x0a, 0x0c, 0x10, 0x12, 0x13, 0x15, 0x16, 0x18]"

text \<open>The GUID's last twelve bytes, compared one after the other until one differs.\<close>

fun guid_loop :: "bytes \<Rightarrow> nat \<Rightarrow> bytes \<Rightarrow> bool option" where
  "guid_loop desc i [] = Some True"
| "guid_loop desc i (g # gs) =
     do { b \<leftarrow> rd8 desc i; if b \<noteq> g then Some False else guid_loop desc (i + 1) gs }"

definition uvcIsFourCCGUID :: "bytes \<Rightarrow> nat \<Rightarrow> bool option" where
  "uvcIsFourCCGUID desc off = guid_loop desc (off + 4) UvcFourCCGUID"

fun find_row :: "nat \<Rightarrow> bytes \<Rightarrow> nat \<Rightarrow> uvcPayload list \<Rightarrow> nat option option" where
  "find_row formattype desc i [] = Some None"
| "find_row formattype desc i (up # ups) =
     (if up_FormatType up = formattype \<and> up_FormatSize up \<le> length desc
      then do { ok \<leftarrow> (if up_GUID up = 0 then Some True else uvcIsFourCCGUID desc (up_GUID up));
                if ok then Some (Some i) else find_row formattype desc (i + 1) ups }
      else find_row formattype desc (i + 1) ups)"

definition uvcFindPayload :: "nat \<Rightarrow> bytes \<Rightarrow> nat option option" where
  "uvcFindPayload formattype desc = find_row formattype desc 0 UvcPayloads"

section \<open>Building the model\<close>

definition uvcInitFunction :: "nat \<Rightarrow> nat \<Rightarrow> nat \<Rightarrow> uvcFunction" where
  "uvcInitFunction ctrldescs streams streamdescs =
     \<lparr>uf_Version = UVC_VERSION_10, uf_ClockFrequency = 0, uf_NumEntities = 0, uf_NumStreams = 0,
      uf_NumFormats = 0, uf_NumFrames = 0, uf_Skipped = 0,
      uf_Entities = replicate ctrldescs zero_entity, uf_Streams = replicate streams zero_stream,
      uf_Formats = replicate streamdescs zero_format, uf_Frames = replicate streamdescs zero_frame\<rparr>"

definition skip_desc :: "uvcFunction \<Rightarrow> uvcFunction" where
  "skip_desc uf = uf\<lparr>uf_Skipped := uf_Skipped uf + 1\<rparr>"

text \<open>
  A terminal or unit of the VideoControl interface: the entity, or nothing for one that is shorter
  than what it says it holds.
\<close>

definition input_term :: "bytes \<Rightarrow> uvcEntity \<Rightarrow> uvcEntity option option" where
  "input_term desc ue =
     (if 8 \<le> length desc
      then do {
        i \<leftarrow> rd8 desc 3;
        tt \<leftarrow> rd_le16 desc 4;
        let ue = ue\<lparr>ue_ID := i, ue_TermType := word_of_nat tt\<rparr>;
        ue \<leftarrow> (if tt = UVITT_CAMERA \<and> 15 \<le> length desc
               then do { n \<leftarrow> rd8 desc 14;
                         if 15 + unat n \<le> length desc
                         then Some (ue\<lparr>ue_ControlSize := n, ue_Controls := drop 15 desc\<rparr>)
                         else Some ue }
               else Some ue);
        Some (if tt AND 0xff00 \<noteq> 0 then Some ue else None) }
      else Some None)"

definition output_term :: "bytes \<Rightarrow> uvcEntity \<Rightarrow> uvcEntity option option" where
  "output_term desc ue =
     (if 9 \<le> length desc
      then do {
        i \<leftarrow> rd8 desc 3;
        tt \<leftarrow> rd_le16 desc 4;
        Some (if tt AND 0xff00 \<noteq> 0
              then Some (ue\<lparr>ue_ID := i, ue_TermType := word_of_nat tt, ue_NumSources := 1,
                            ue_Sources := drop 7 desc\<rparr>)
              else None) }
      else Some None)"

definition selector_unit :: "bytes \<Rightarrow> uvcEntity \<Rightarrow> uvcEntity option option" where
  "selector_unit desc ue =
     (if 6 \<le> length desc
      then do {
        p \<leftarrow> rd8 desc 4;
        if 6 + unat p \<le> length desc
        then do { i \<leftarrow> rd8 desc 3;
                  Some (Some (ue\<lparr>ue_ID := i, ue_NumSources := p, ue_Sources := drop 5 desc\<rparr>)) }
        else Some None }
      else Some None)"

definition processing_unit :: "u16 \<Rightarrow> bytes \<Rightarrow> uvcEntity \<Rightarrow> uvcEntity option option" where
  "processing_unit version desc ue =
     (if 9 \<le> length desc
      then do {
        n \<leftarrow> rd8 desc 7;
        if 8 + 1 + (if UVC_VERSION_11 \<le> version then 1 else 0) + unat n \<le> length desc
        then do { i \<leftarrow> rd8 desc 3;
                  Some (Some (ue\<lparr>ue_ID := i, ue_NumSources := 1, ue_Sources := drop 4 desc,
                                 ue_ControlSize := n, ue_Controls := drop 8 desc\<rparr>)) }
        else Some None }
      else Some None)"

definition extension_unit :: "bytes \<Rightarrow> uvcEntity \<Rightarrow> uvcEntity option option" where
  "extension_unit desc ue =
     (if 24 \<le> length desc
      then do {
        pins \<leftarrow> rd8 desc 21;
        if 24 + unat pins \<le> length desc
        then do {
          ctrlsize \<leftarrow> rd8 desc (22 + unat pins);
          if 24 + unat pins + unat ctrlsize \<le> length desc
          then do { i \<leftarrow> rd8 desc 3;
                    Some (Some (ue\<lparr>ue_ID := i, ue_NumSources := pins, ue_Sources := drop 22 desc,
                                   ue_ControlSize := ctrlsize,
                                   ue_Controls := drop (23 + unat pins) desc\<rparr>)) }
          else Some None }
        else Some None }
      else Some None)"

definition encoding_unit :: "bytes \<Rightarrow> uvcEntity \<Rightarrow> uvcEntity option option" where
  "encoding_unit desc ue =
     (if 13 \<le> length desc
      then do {
        n \<leftarrow> rd8 desc 6;
        if 7 + 2 * unat n \<le> length desc
        then do { i \<leftarrow> rd8 desc 3;
                  Some (Some (ue\<lparr>ue_ID := i, ue_NumSources := 1, ue_Sources := drop 4 desc,
                                 ue_ControlSize := n, ue_Controls := drop 7 desc\<rparr>)) }
        else Some None }
      else Some None)"

definition add_entity :: "uvcFunction \<Rightarrow> uvcEntity option \<Rightarrow> uvcFunction option" where
  "add_entity uf e =
     (case e of
        None \<Rightarrow> Some (skip_desc uf)
      | Some ue \<Rightarrow>
          do { es \<leftarrow> arr_put (uf_Entities uf) (unat (uf_NumEntities uf)) ue;
               Some (uf\<lparr>uf_Entities := es, uf_NumEntities := uf_NumEntities uf + 1\<rparr>) })"

definition uvcAddControlDesc :: "uvcFunction \<Rightarrow> bytes \<Rightarrow> uvcFunction option" where
  "uvcAddControlDesc uf desc =
     (if length desc < 3 then Some (skip_desc uf)
      else do {
        t \<leftarrow> rd8 desc 2;
        let ue = zero_entity\<lparr>ue_Type := t, ue_Desc := desc\<rparr>;
        let ty = unat t;
        if ty = UDST_VIDEO_CTRL_HEADER
        then (if 12 \<le> length desc
              then do { v \<leftarrow> rd_le16 desc 3; clk \<leftarrow> rd_le32 desc 7;
                        Some (uf\<lparr>uf_Version := word_of_nat v, uf_ClockFrequency := word_of_nat clk\<rparr>) }
              else Some (skip_desc uf))
        else if ty = UDST_VIDEO_CTRL_INPUT_TERMINAL then do { e \<leftarrow> input_term desc ue; add_entity uf e }
        else if ty = UDST_VIDEO_CTRL_OUTPUT_TERMINAL then do { e \<leftarrow> output_term desc ue; add_entity uf e }
        else if ty = UDST_VIDEO_CTRL_SELECTOR_UNIT then do { e \<leftarrow> selector_unit desc ue; add_entity uf e }
        else if ty = UDST_VIDEO_CTRL_PROCESSING_UNIT
        then do { e \<leftarrow> processing_unit (uf_Version uf) desc ue; add_entity uf e }
        else if ty = UDST_VIDEO_CTRL_EXTENSION_UNIT then do { e \<leftarrow> extension_unit desc ue; add_entity uf e }
        else if ty = UDST_VIDEO_CTRL_ENCODING_UNIT then do { e \<leftarrow> encoding_unit desc ue; add_entity uf e }
        else Some uf })"


section \<open>The descriptors of a stream\<close>

text \<open>A stream is its index in \<open>uf_Streams\<close>.\<close>

definition upd_stream :: "uvcFunction \<Rightarrow> nat \<Rightarrow> (uvcStreamDesc \<Rightarrow> uvcStreamDesc) \<Rightarrow> uvcFunction option" where
  "upd_stream uf s f =
     do { us \<leftarrow> arr_get (uf_Streams uf) s;
          ss \<leftarrow> arr_put (uf_Streams uf) s (f us);
          Some (uf\<lparr>uf_Streams := ss\<rparr>) }"

definition uvcAddStream :: "uvcFunction \<Rightarrow> u8 \<Rightarrow> (uvcFunction \<times> nat) option" where
  "uvcAddStream uf ifnum =
     (let s = unat (uf_NumStreams uf)
      in do { uf \<leftarrow> upd_stream (uf\<lparr>uf_NumStreams := uf_NumStreams uf + 1\<rparr>) s
                     (\<lambda>us. us\<lparr>us_IfNum := ifnum, us_Formats := unat (uf_NumFormats uf)\<rparr>);
              Some (uf, s) })"

text \<open>The stream with its header's fields, or nothing for one that is too short.\<close>

definition uvcAddStreamHeader :: "nat \<Rightarrow> bytes \<Rightarrow> uvcStreamDesc \<Rightarrow> uvcStreamDesc option option" where
  "uvcAddStreamHeader subtype desc us =
     (if subtype = UDST_VIDEO_STREAM_INPUT_HEADER
      then (if length desc < 13 then Some None
            else do { ep \<leftarrow> rd8 desc 6; info \<leftarrow> rd8 desc 7; term \<leftarrow> rd8 desc 8; still \<leftarrow> rd8 desc 9;
                      Some (Some (us\<lparr>us_EPAddr := ep, us_Info := info, us_TerminalLink := term,
                                     us_StillMethod := still, us_HeaderType := word_of_nat subtype\<rparr>)) })
      else (if length desc < 8 then Some None
            else do { ep \<leftarrow> rd8 desc 6; term \<leftarrow> rd8 desc 7;
                      Some (Some (us\<lparr>us_EPAddr := ep, us_TerminalLink := term,
                                     us_HeaderType := word_of_nat subtype\<rparr>)) }))"

text \<open>The format of a format descriptor, over the place in the array it is written to.\<close>

definition new_format :: "nat \<Rightarrow> bytes \<Rightarrow> nat \<Rightarrow> uvcFormat \<Rightarrow> uvcFormat option" where
  "new_format subtype desc frames ufo =
     do { idx \<leftarrow> (if 3 < length desc then rd8 desc 3 else Some 0);
          row \<leftarrow> uvcFindPayload subtype desc;
          def \<leftarrow> (case row of None \<Rightarrow> Some 0
                  | Some i \<Rightarrow> do { up \<leftarrow> arr_get UvcPayloads i; rd8 desc (up_DefFrame up) });
          Some (ufo\<lparr>ufo_Type := word_of_nat subtype, ufo_Desc := desc, ufo_Index := idx,
                    ufo_Payload := row, ufo_DefFrame := def, ufo_Frames := frames\<rparr>) }"

definition uvcAddFormat :: "uvcFunction \<Rightarrow> nat \<Rightarrow> nat \<Rightarrow> bytes \<Rightarrow> uvcFunction option" where
  "uvcAddFormat uf s subtype desc =
     (let i = unat (uf_NumFormats uf)
      in do { old \<leftarrow> arr_get (uf_Formats uf) i;
              ufo \<leftarrow> new_format subtype desc (unat (uf_NumFrames uf)) old;
              fs \<leftarrow> arr_put (uf_Formats uf) i ufo;
              upd_stream (uf\<lparr>uf_Formats := fs, uf_NumFormats := uf_NumFormats uf + 1\<rparr>) s
                (\<lambda>us. us\<lparr>us_NumFormats := us_NumFormats us + 1\<rparr>) })"

text \<open>An interval of zero reads as one.\<close>

definition uvcFrameInterval :: "uvcFrame \<Rightarrow> nat \<Rightarrow> u32 option" where
  "uvcFrameInterval ufr idx =
     do { v \<leftarrow> rd_le32 (ufr_Intervals ufr) (4 * idx); Some (if v = 0 then 1 else word_of_nat v) }"

definition uvcFrameMinInterval :: "uvcFrame \<Rightarrow> u32 option" where
  "uvcFrameMinInterval ufr = uvcFrameInterval ufr 0"

definition uvcFrameMaxInterval :: "uvcFrame \<Rightarrow> u32 option" where
  "uvcFrameMaxInterval ufr = uvcFrameInterval ufr
     (if ufr_NumIntervals ufr \<noteq> 0 then unat (ufr_NumIntervals ufr) - 1 else 1)"

definition clamp_default :: "u32 \<Rightarrow> uvcFrame \<Rightarrow> uvcFrame option" where
  "clamp_default interval ufr =
     do { shortest \<leftarrow> uvcFrameMinInterval ufr;
          longest \<leftarrow> uvcFrameMaxInterval ufr;
          let interval = (if interval < shortest then shortest else interval);
          let interval = (if longest < interval then longest else interval);
          Some (ufr\<lparr>ufr_DefInterval := interval\<rparr>) }"

text \<open>The frame of a frame descriptor of a row's kind, or nothing for one that is too short.\<close>

definition new_frame :: "uvcPayload \<Rightarrow> bytes \<Rightarrow> uvcFrame option option" where
  "new_frame up desc =
     (if length desc < up_FrameSize up then Some None
      else do {
        n \<leftarrow> rd8 desc (up_IntervalType up);
        if length desc < up_Intervals up + 4 * (if n \<noteq> 0 then unat n else 3) then Some None
        else do {
          idx \<leftarrow> rd8 desc 3;
          w \<leftarrow> rd_le16 desc (up_Width up);
          h \<leftarrow> rd_le16 desc (up_Height up);
          d \<leftarrow> rd_le32 desc (up_DefInterval up);
          ufr \<leftarrow> clamp_default (word_of_nat d)
            \<lparr>ufr_Index = idx, ufr_NumIntervals = n, ufr_Width = word_of_nat w, ufr_Height = word_of_nat h,
             ufr_DefInterval = 0, ufr_Intervals = drop (up_Intervals up) desc\<rparr>;
          Some (Some ufr) } })"

text \<open>The row whose frames a descriptor's subtype belongs to, if the format opened last has one.\<close>

definition frame_row :: "uvcFormat \<Rightarrow> nat \<Rightarrow> uvcPayload option option" where
  "frame_row ufo subtype =
     (case ufo_Payload ufo of
        None \<Rightarrow> Some None
      | Some i \<Rightarrow> do { up \<leftarrow> arr_get UvcPayloads i;
                       Some (if up_FrameType up = 0 \<or> subtype \<noteq> up_FrameType up then None else Some up) })"

definition uvcAddFrame :: "uvcFunction \<Rightarrow> nat \<Rightarrow> nat \<Rightarrow> bytes \<Rightarrow> (uvcFunction \<times> bool) option" where
  "uvcAddFrame uf s subtype desc =
     do { us \<leftarrow> arr_get (uf_Streams uf) s;
          if us_NumFormats us = 0 then Some (uf, True)
          else do {
            let i = us_Formats us + unat (us_NumFormats us) - 1;
            ufo \<leftarrow> arr_get (uf_Formats uf) i;
            row \<leftarrow> frame_row ufo subtype;
            (case row of
               None \<Rightarrow> Some (uf, True)
             | Some up \<Rightarrow>
                 do { fr \<leftarrow> new_frame up desc;
                      (case fr of
                         None \<Rightarrow> Some (uf, False)
                       | Some ufr \<Rightarrow>
                           do { frs \<leftarrow> arr_put (uf_Frames uf) (unat (uf_NumFrames uf)) ufr;
                                fos \<leftarrow> arr_put (uf_Formats uf) i
                                         (ufo\<lparr>ufo_NumFrames := ufo_NumFrames ufo + 1\<rparr>);
                                Some (uf\<lparr>uf_Frames := frs, uf_NumFrames := uf_NumFrames uf + 1,
                                         uf_Formats := fos\<rparr>, True) }) }) } }"

definition uvcAddStreamDesc :: "uvcFunction \<Rightarrow> nat \<Rightarrow> bytes \<Rightarrow> uvcFunction option" where
  "uvcAddStreamDesc uf s desc =
     (if length desc < 3 then Some (skip_desc uf)
      else do {
        b \<leftarrow> rd8 desc 2;
        let subtype = unat b;
        if subtype = UDST_VIDEO_STREAM_INPUT_HEADER \<or> subtype = UDST_VIDEO_STREAM_OUTPUT_HEADER
        then do { us \<leftarrow> arr_get (uf_Streams uf) s;
                  h \<leftarrow> uvcAddStreamHeader subtype desc us;
                  (case h of None \<Rightarrow> Some (skip_desc uf)
                   | Some us' \<Rightarrow> upd_stream uf s (\<lambda>_. us')) }
        else if subtype \<in> set UVC_FORMAT_TYPES then uvcAddFormat uf s subtype desc
        else do { r \<leftarrow> uvcAddFrame uf s subtype desc;
                  Some (if snd r then fst r else skip_desc (fst r)) } })"

section \<open>The H.264 unit and embedded H.264\<close>

definition UVCX_H264_XU_GUID :: bytes where
  "UVCX_H264_XU_GUID = [0x41, 0x76, 0x9e, 0xa2, 0x04, 0xde, 0xe3, 0x47,
     0x8b, 0x2b, 0xf4, 0x34, 0x1a, 0xff, 0x00, 0x3b]"

definition entities :: "uvcFunction \<Rightarrow> uvcEntity list option" where
  "entities uf = arr_slice (uf_Entities uf) 0 (unat (uf_NumEntities uf))"

fun h264_loop :: "uvcEntity list \<Rightarrow> uvcEntity option option" where
  "h264_loop [] = Some None"
| "h264_loop (ue # ues) =
     (if unat (ue_Type ue) \<noteq> UDST_VIDEO_CTRL_EXTENSION_UNIT then h264_loop ues
      else do { same \<leftarrow> guid_loop (ue_Desc ue) 4 UVCX_H264_XU_GUID;
                if same then Some (Some ue) else h264_loop ues })"

definition uvcFindH264Unit :: "uvcFunction \<Rightarrow> uvcEntity option option" where
  "uvcFindH264Unit uf = do { ues \<leftarrow> entities uf; h264_loop ues }"

definition formats :: "uvcFunction \<Rightarrow> uvcStreamDesc \<Rightarrow> uvcFormat list option" where
  "formats uf us = arr_slice (uf_Formats uf) (us_Formats us) (unat (us_NumFormats us))"

definition frames :: "uvcFunction \<Rightarrow> uvcFormat \<Rightarrow> uvcFrame list option" where
  "frames uf ufo = arr_slice (uf_Frames uf) (ufo_Frames ufo) (unat (ufo_NumFrames ufo))"

definition is_carrier :: "uvcFormat \<Rightarrow> bool" where
  "is_carrier ufo \<longleftrightarrow> ufo_Payload ufo = Some UVC_ROW_MJPEG \<and> ufo_NumFrames ufo \<noteq> 0"

definition uvcAddEmbeddedFormat :: "uvcFunction \<Rightarrow> nat \<Rightarrow> uvcFunction option" where
  "uvcAddEmbeddedFormat uf s =
     do { xu \<leftarrow> uvcFindH264Unit uf;
          if xu = None then Some uf
          else do {
            us \<leftarrow> arr_get (uf_Streams uf) s;
            fs \<leftarrow> formats uf us;
            (case find is_carrier fs of
               None \<Rightarrow> Some uf
             | Some ufo \<Rightarrow>
                 do { fos \<leftarrow> arr_put (uf_Formats uf) (unat (uf_NumFormats uf))
                               (ufo\<lparr>ufo_Payload := Some UVC_ROW_EMBEDDED\<rparr>);
                      upd_stream (uf\<lparr>uf_Formats := fos, uf_NumFormats := uf_NumFormats uf + 1\<rparr>) s
                        (\<lambda>us. us\<lparr>us_NumFormats := us_NumFormats us + 1\<rparr>) }) } }"

section \<open>Descriptors to model\<close>

text \<open>\<open>nWalkDescs\<close> and \<open>nBuildFunction\<close> of \<open>usbvideo.class.c\<close>: the class specific descriptors of
  the VideoControl interface, and of each VideoStreaming interface by its number.\<close>

fun walk_ctrl :: "uvcFunction \<Rightarrow> bytes list \<Rightarrow> uvcFunction option" where
  "walk_ctrl uf [] = Some uf"
| "walk_ctrl uf (d # ds) = do { uf \<leftarrow> uvcAddControlDesc uf d; walk_ctrl uf ds }"

fun walk_stream :: "uvcFunction \<Rightarrow> nat \<Rightarrow> bytes list \<Rightarrow> uvcFunction option" where
  "walk_stream uf s [] = Some uf"
| "walk_stream uf s (d # ds) = do { uf \<leftarrow> uvcAddStreamDesc uf s d; walk_stream uf s ds }"

fun build_streams :: "(u8 \<Rightarrow> bytes list option) \<Rightarrow> uvcFunction \<Rightarrow> u8 list \<Rightarrow> uvcFunction option" where
  "build_streams ifs uf [] = Some uf"
| "build_streams ifs uf (i # is) =
     (case ifs i of
        None \<Rightarrow> build_streams ifs uf is
      | Some ds \<Rightarrow>
          do { r \<leftarrow> uvcAddStream uf i;
               uf \<leftarrow> walk_stream (fst r) (snd r) ds;
               uf \<leftarrow> uvcAddEmbeddedFormat uf (snd r);
               build_streams ifs uf is })"

definition if_descs :: "(u8 \<Rightarrow> bytes list option) \<Rightarrow> u8 \<Rightarrow> bytes list" where
  "if_descs ifs i = (case ifs i of None \<Rightarrow> [] | Some ds \<Rightarrow> ds)"

definition nBuildFunction ::
  "bool \<Rightarrow> bytes list \<Rightarrow> (u8 \<Rightarrow> bytes list option) \<Rightarrow> uvcFunction option option" where
  "nBuildFunction mem ctrl ifs =
     (case find (\<lambda>d. 3 \<le> length d \<and> unat (d ! 2) = UDST_VIDEO_CTRL_HEADER) ctrl of
        None \<Rightarrow> Some None
      | Some header \<Rightarrow>
          if length header < 12 then Some None
          else do {
            n \<leftarrow> rd8 header 11;
            let numifs = min (unat n) (length header - 12);
            ifnums \<leftarrow> rd_slice header 12 numifs;
            if \<not> mem then Some None
            else do {
              uf \<leftarrow> walk_ctrl (uvcInitFunction (length ctrl) numifs
                       (sum_list (map (\<lambda>i. length (if_descs ifs i)) ifnums))) ctrl;
              uf \<leftarrow> build_streams ifs uf ifnums;
              Some (Some uf) } })"

section \<open>Looking modes up\<close>

text \<open>
  The lookups work on the formats of a stream (\<open>formats\<close>) and the frames of a format (\<open>frames\<close>); a
  format or frame that is found is its position there.
\<close>

fun find_entity :: "u8 \<Rightarrow> uvcEntity list \<Rightarrow> uvcEntity option" where
  "find_entity i [] = None"
| "find_entity i (ue # ues) = (if ue_ID ue = i then Some ue else find_entity i ues)"

definition uvcFindEntity :: "uvcFunction \<Rightarrow> u8 \<Rightarrow> uvcEntity option option" where
  "uvcFindEntity uf i = do { ues \<leftarrow> entities uf; Some (find_entity i ues) }"

definition uvcIsStreamable :: "uvcFormat \<Rightarrow> bool" where
  "uvcIsStreamable ufo \<longleftrightarrow> ufo_Payload ufo \<noteq> None \<and> ufo_NumFrames ufo \<noteq> 0"

definition row_of :: "uvcFormat \<Rightarrow> uvcPayload option" where
  "row_of ufo = Option.bind (ufo_Payload ufo) (arr_get UvcPayloads)"

definition uvcFourCC :: "uvcFormat \<Rightarrow> u32 option" where
  "uvcFourCC ufo =
     do { up \<leftarrow> row_of ufo;
          if up_GUID up \<noteq> 0 then do { v \<leftarrow> rd_be32 (ufo_Desc ufo) (up_GUID up); Some (word_of_nat v) }
          else Some (up_FourCC up) }"

definition uvcPictureSize :: "uvcFormat \<Rightarrow> uvcFrame \<Rightarrow> u32 option" where
  "uvcPictureSize ufo ufr =
     do { up \<leftarrow> row_of ufo;
          if \<not> up_FixedSize up then Some 0
          else do { bpp \<leftarrow> rd8 (ufo_Desc ufo) 21;
                    Some (ucast (ufr_Width ufr) * ucast (ufr_Height ufr) * ucast bpp div 8) } }"

text \<open>By FourCC the first; with none the streamable one of the earliest row. \<open>i\<close> is the position of
  the list's head, \<open>best\<close> the best so far and its row.\<close>

fun find_format :: "u32 \<Rightarrow> nat \<Rightarrow> uvcFormat list \<Rightarrow> (nat \<times> nat) option \<Rightarrow> nat option option" where
  "find_format fourcc i [] best = Some (map_option fst best)"
| "find_format fourcc i (ufo # ufos) best =
     (if \<not> uvcIsStreamable ufo then find_format fourcc (i + 1) ufos best
      else if fourcc \<noteq> 0
      then do { c \<leftarrow> uvcFourCC ufo;
                if c = fourcc then Some (Some i) else find_format fourcc (i + 1) ufos best }
      else find_format fourcc (i + 1) ufos
             (case (best, ufo_Payload ufo) of
                (_, None) \<Rightarrow> best
              | (None, Some r) \<Rightarrow> Some (i, r)
              | (Some (j, q), Some r) \<Rightarrow> if r < q then Some (i, r) else best))"

definition uvcFindFormat :: "uvcFormat list \<Rightarrow> u32 \<Rightarrow> nat option option" where
  "uvcFindFormat fos fourcc = find_format fourcc 0 fos None"

fun index_of :: "('a \<Rightarrow> bool) \<Rightarrow> 'a list \<Rightarrow> nat option" where
  "index_of P [] = None"
| "index_of P (x # xs) = (if P x then Some 0 else map_option Suc (index_of P xs))"

definition uvcFindFrame :: "uvcFormat \<Rightarrow> uvcFrame list \<Rightarrow> u32 \<Rightarrow> u32 \<Rightarrow> nat option" where
  "uvcFindFrame ufo frs width height =
     (case index_of (\<lambda>ufr. if width \<noteq> 0 \<or> height \<noteq> 0
                            then ucast (ufr_Width ufr) = width \<and> ucast (ufr_Height ufr) = height
                            else ufr_Index ufr = ufo_DefFrame ufo) frs of
        Some i \<Rightarrow> Some i
      | None \<Rightarrow> if width \<noteq> 0 \<or> height \<noteq> 0 \<or> frs = [] then None else Some 0)"

definition pixels :: "uvcFrame \<Rightarrow> u32" where
  "pixels ufr = ucast (ufr_Width ufr) * ucast (ufr_Height ufr)"

fun smallest_loop :: "nat \<Rightarrow> uvcFrame list \<Rightarrow> nat \<Rightarrow> uvcFrame \<Rightarrow> nat" where
  "smallest_loop i [] j best = j"
| "smallest_loop i (f # fs) j best =
     (if pixels f < pixels best then smallest_loop (i + 1) fs i f else smallest_loop (i + 1) fs j best)"

definition uvcSmallestFrame :: "uvcFrame list \<Rightarrow> nat option" where
  "uvcSmallestFrame frs = (case frs of [] \<Rightarrow> None | f # fs \<Rightarrow> Some (smallest_loop 1 fs 0 f))"

definition uvcDefaultFrame :: "uvcFormat \<Rightarrow> uvcFrame list \<Rightarrow> u32 \<Rightarrow> u32 \<Rightarrow> nat option" where
  "uvcDefaultFrame ufo frs width height =
     (case (if width \<noteq> 0 \<or> height \<noteq> 0 then uvcFindFrame ufo frs width height else None) of
        Some i \<Rightarrow> Some i
      | None \<Rightarrow> uvcFindFrame ufo frs 0 0)"

definition dist32 :: "u32 \<Rightarrow> u32 \<Rightarrow> u32" where
  "dist32 a b = (if b < a then a - b else b - a)"

fun snap_loop :: "uvcFrame \<Rightarrow> u32 \<Rightarrow> nat list \<Rightarrow> u32 \<Rightarrow> u32 option" where
  "snap_loop ufr interval [] best = Some best"
| "snap_loop ufr interval (i # is) best =
     do { cand \<leftarrow> uvcFrameInterval ufr i;
          snap_loop ufr interval is (if dist32 cand interval < dist32 best interval then cand else best) }"

definition uvcSnapInterval :: "uvcFrame \<Rightarrow> u32 \<Rightarrow> u32 option" where
  "uvcSnapInterval ufr interval =
     (if interval = 0 then Some (ufr_DefInterval ufr)
      else if ufr_NumIntervals ufr = 0
      then do { shortest \<leftarrow> uvcFrameMinInterval ufr;
                longest \<leftarrow> uvcFrameMaxInterval ufr;
                step \<leftarrow> uvcFrameInterval ufr 2;
                Some (if interval \<le> shortest then shortest
                      else if longest \<le> interval then longest
                      else shortest + ((interval - shortest + step div 2) div step) * step) }
      else do { best \<leftarrow> uvcFrameInterval ufr 0;
                snap_loop ufr interval [1..<unat (ufr_NumIntervals ufr)] best })"

definition uvcDefaultInterval :: "uvcFrame \<Rightarrow> u32 \<Rightarrow> u32 \<Rightarrow> u32 \<Rightarrow> u32 option" where
  "uvcDefaultInterval ufr width height interval =
     uvcSnapInterval ufr
       (if ucast (ufr_Width ufr) = width \<and> ucast (ufr_Height ufr) = height then interval else 0)"

definition uvcFormatByIndex :: "uvcFormat list \<Rightarrow> u8 \<Rightarrow> nat option" where
  "uvcFormatByIndex fos i = index_of (\<lambda>ufo. ufo_Index ufo = i) fos"

definition uvcFrameByIndex :: "uvcFrame list \<Rightarrow> u8 \<Rightarrow> nat option" where
  "uvcFrameByIndex frs i = index_of (\<lambda>ufr. ufr_Index ufr = i) frs"

end
