(* ===== verification/Uvc_Model.thy ===== *)
theory Uvc_Model
  imports Uvc_Desc
begin

text \<open>
  Laws of the descriptor parser of the USB video class: every model that is built is well formed,
  fits the memory that was allocated for it, and no descriptor is read outside its bytes.
\<close>

section \<open>Arrays and counts\<close>

lemma arr_get_Some [simp]: "i < length xs \<Longrightarrow> arr_get xs i = Some (xs ! i)"
  by (simp add: arr_get_def)

lemma arr_put_Some [simp]: "i < length xs \<Longrightarrow> arr_put xs i x = Some (xs[i := x])"
  by (simp add: arr_put_def)

lemma arr_slice_Some: "off + n \<le> length xs \<Longrightarrow> arr_slice xs off n = Some (take n (drop off xs))"
  by (simp add: arr_slice_def)

lemma inc_u16: "unat (n :: u16) < k \<Longrightarrow> k < 65536 \<Longrightarrow> unat (n + 1) = Suc (unat n)"
  by (simp add: unat_word_ariths)

lemma inc_u8_le: "unat ((n :: u8) + 1) \<le> Suc (unat n)"
  by (simp add: unat_word_ariths)

section \<open>Well-formed models\<close>

definition entity_ok :: "uvcEntity \<Rightarrow> bool" where
  "entity_ok ue \<longleftrightarrow> unat (ue_NumSources ue) \<le> length (ue_Sources ue) \<and>
     unat (ue_ControlSize ue) \<le> length (ue_Controls ue) \<and>
     (unat (ue_Type ue) = UDST_VIDEO_CTRL_EXTENSION_UNIT \<longrightarrow> 24 \<le> length (ue_Desc ue))"

definition frame_ok :: "uvcFrame \<Rightarrow> bool" where
  "frame_ok ufr \<longleftrightarrow>
     4 * (if ufr_NumIntervals ufr \<noteq> 0 then unat (ufr_NumIntervals ufr) else 3) \<le> length (ufr_Intervals ufr)"

definition payload_ok :: "uvcFormat \<Rightarrow> bool" where
  "payload_ok ufo \<longleftrightarrow> (case ufo_Payload ufo of None \<Rightarrow> True
     | Some i \<Rightarrow> i < length UvcPayloads \<and> up_FormatSize (UvcPayloads ! i) \<le> length (ufo_Desc ufo))"

definition format_ok :: "nat \<Rightarrow> uvcFormat \<Rightarrow> bool" where
  "format_ok nframes ufo \<longleftrightarrow> payload_ok ufo \<and> ufo_Frames ufo + unat (ufo_NumFrames ufo) \<le> nframes"

definition stream_ok :: "nat \<Rightarrow> uvcStreamDesc \<Rightarrow> bool" where
  "stream_ok nformats us \<longleftrightarrow> us_Formats us + unat (us_NumFormats us) \<le> nformats"

definition uvc_wf :: "uvcFunction \<Rightarrow> bool" where
  "uvc_wf uf \<longleftrightarrow>
     unat (uf_NumEntities uf) \<le> length (uf_Entities uf) \<and> length (uf_Entities uf) < 65536 \<and>
     unat (uf_NumStreams uf) \<le> length (uf_Streams uf) \<and> length (uf_Streams uf) < 65536 \<and>
     unat (uf_NumFormats uf) \<le> length (uf_Formats uf) \<and> length (uf_Formats uf) < 65536 \<and>
     unat (uf_NumFrames uf) \<le> length (uf_Frames uf) \<and> length (uf_Frames uf) < 65536 \<and>
     (\<forall>i < unat (uf_NumEntities uf). entity_ok (uf_Entities uf ! i)) \<and>
     (\<forall>i < unat (uf_NumFrames uf). frame_ok (uf_Frames uf ! i)) \<and>
     (\<forall>i < unat (uf_NumFormats uf). format_ok (unat (uf_NumFrames uf)) (uf_Formats uf ! i)) \<and>
     (\<forall>i < unat (uf_NumStreams uf). stream_ok (unat (uf_NumFormats uf)) (uf_Streams uf ! i)) \<and>
     (\<forall>i. unat (uf_NumFormats uf) \<le> i \<longrightarrow> i < length (uf_Formats uf) \<longrightarrow> uf_Formats uf ! i = zero_format) \<and>
     (\<forall>i. unat (uf_NumStreams uf) \<le> i \<longrightarrow> i < length (uf_Streams uf) \<longrightarrow> uf_Streams uf ! i = zero_stream)"

lemma wf_init:
  "c < 65536 \<Longrightarrow> s < 65536 \<Longrightarrow> d < 65536 \<Longrightarrow> uvc_wf (uvcInitFunction c s d)"
  by (simp add: uvc_wf_def uvcInitFunction_def)

section \<open>The control descriptors\<close>

text \<open>What adding one control descriptor may change.\<close>

definition same_streams :: "uvcFunction \<Rightarrow> uvcFunction \<Rightarrow> bool" where
  "same_streams a b \<longleftrightarrow> uf_NumStreams a = uf_NumStreams b \<and> uf_NumFormats a = uf_NumFormats b \<and>
     uf_NumFrames a = uf_NumFrames b \<and> uf_Streams a = uf_Streams b \<and> uf_Formats a = uf_Formats b \<and>
     uf_Frames a = uf_Frames b \<and> length (uf_Entities a) = length (uf_Entities b)"

lemmas ent_defs = input_term_def output_term_def selector_unit_def processing_unit_def
  extension_unit_def encoding_unit_def

lemma entity_cases:
  fixes desc :: bytes and ue :: uvcEntity
  assumes "ue_Desc ue = desc" and "ue_NumSources ue = 0" and "ue_ControlSize ue = 0"
  shows "unat (ue_Type ue) \<noteq> 6 \<Longrightarrow> \<exists>e. input_term desc ue = Some e \<and> (\<forall>u. e = Some u \<longrightarrow> entity_ok u)"
    and "unat (ue_Type ue) \<noteq> 6 \<Longrightarrow> \<exists>e. output_term desc ue = Some e \<and> (\<forall>u. e = Some u \<longrightarrow> entity_ok u)"
    and "unat (ue_Type ue) \<noteq> 6 \<Longrightarrow> \<exists>e. selector_unit desc ue = Some e \<and> (\<forall>u. e = Some u \<longrightarrow> entity_ok u)"
    and "unat (ue_Type ue) \<noteq> 6 \<Longrightarrow> \<exists>e. processing_unit v desc ue = Some e \<and> (\<forall>u. e = Some u \<longrightarrow> entity_ok u)"
    and "\<exists>e. extension_unit desc ue = Some e \<and> (\<forall>u. e = Some u \<longrightarrow> entity_ok u)"
    and "unat (ue_Type ue) \<noteq> 6 \<Longrightarrow> \<exists>e. encoding_unit desc ue = Some e \<and> (\<forall>u. e = Some u \<longrightarrow> entity_ok u)"
  using assms by (auto simp: ent_defs entity_ok_def rd_simps Let_def)

lemma add_entity_ok:
  assumes "uvc_wf uf" and "unat (uf_NumEntities uf) < length (uf_Entities uf)"
    and "\<forall>u. e = Some u \<longrightarrow> entity_ok u"
  shows "\<exists>uf'. add_entity uf e = Some uf' \<and> uvc_wf uf' \<and> same_streams uf uf' \<and>
    unat (uf_NumEntities uf') \<le> Suc (unat (uf_NumEntities uf))"
proof (cases e)
  case None
  then show ?thesis using assms(1) by (simp add: add_entity_def skip_desc_def uvc_wf_def same_streams_def)
next
  case (Some u)
  have "unat (uf_NumEntities uf + 1) = Suc (unat (uf_NumEntities uf))"
    using assms(1,2) by (intro inc_u16) (auto simp: uvc_wf_def)
  then show ?thesis using assms Some
    by (auto simp: add_entity_def uvc_wf_def same_streams_def nth_list_update less_Suc_eq)
qed

lemma control_desc_ok:
  assumes "uvc_wf uf" and "unat (uf_NumEntities uf) < length (uf_Entities uf)"
  shows "\<exists>uf'. uvcAddControlDesc uf desc = Some uf' \<and> uvc_wf uf' \<and> same_streams uf uf' \<and>
    unat (uf_NumEntities uf') \<le> Suc (unat (uf_NumEntities uf))"
proof (cases "length desc < 3")
  case True
  then show ?thesis using assms(1)
    by (simp add: uvcAddControlDesc_def skip_desc_def uvc_wf_def same_streams_def)
next
  case False
  then have t: "rd8 desc 2 = Some (desc ! 2)" by (simp add: rd8_def)
  let ?ue = "zero_entity\<lparr>ue_Type := desc ! 2, ue_Desc := desc\<rparr>"
  have z: "ue_Desc ?ue = desc" "ue_NumSources ?ue = 0" "ue_ControlSize ?ue = 0" "ue_Type ?ue = desc ! 2"
    by (simp_all add: zero_entity_def)
  note E = entity_cases [OF z(1-3), unfolded z(4)]
  have keep: "\<exists>uf'. (do { e \<leftarrow> x; add_entity uf e }) = Some uf' \<and> uvc_wf uf' \<and> same_streams uf uf' \<and>
    unat (uf_NumEntities uf') \<le> Suc (unat (uf_NumEntities uf))"
    if "\<exists>e. x = Some e \<and> (\<forall>u. e = Some u \<longrightarrow> entity_ok u)" for x
    using that add_entity_ok [OF assms] by auto
  have skip: "\<exists>uf'. Some (skip_desc uf) = Some uf' \<and> uvc_wf uf' \<and> same_streams uf uf' \<and>
    unat (uf_NumEntities uf') \<le> Suc (unat (uf_NumEntities uf))"
    using assms(1) by (simp add: skip_desc_def uvc_wf_def same_streams_def)
  have hdr: "\<exists>uf'. (do { v \<leftarrow> rd_le16 desc 3; clk \<leftarrow> rd_le32 desc 7;
        Some (uf\<lparr>uf_Version := word_of_nat v, uf_ClockFrequency := word_of_nat clk\<rparr>) }) = Some uf' \<and>
      uvc_wf uf' \<and> same_streams uf uf' \<and> unat (uf_NumEntities uf') \<le> Suc (unat (uf_NumEntities uf))"
    if "12 \<le> length desc"
    using that assms(1) by (simp add: rd_simps uvc_wf_def same_streams_def)
  show ?thesis
    unfolding uvcAddControlDesc_def t bind.bind_lunit Let_def
    using False assms(1) E keep skip hdr
    by (simp add: same_streams_def)
qed


lemma same_streams_trans: "same_streams a b \<Longrightarrow> same_streams b c \<Longrightarrow> same_streams a c"
  by (simp add: same_streams_def)

lemma walk_ctrl_ok:
  "uvc_wf uf \<Longrightarrow> unat (uf_NumEntities uf) + length ds \<le> length (uf_Entities uf) \<Longrightarrow>
   \<exists>uf'. walk_ctrl uf ds = Some uf' \<and> uvc_wf uf' \<and> same_streams uf uf'"
proof (induction ds arbitrary: uf)
  case (Cons d ds)
  then obtain u1 where u: "uvcAddControlDesc uf d = Some u1" "uvc_wf u1" "same_streams uf u1"
    "unat (uf_NumEntities u1) \<le> Suc (unat (uf_NumEntities uf))"
    using control_desc_ok [of uf d] by auto
  then have "unat (uf_NumEntities u1) + length ds \<le> length (uf_Entities u1)"
    using Cons.prems(2) by (simp add: same_streams_def)
  from Cons.IH [OF u(2) this] show ?case using u(1,3) same_streams_trans by fastforce
qed (simp add: same_streams_def)

section \<open>Rows, formats and frames\<close>

lemma guid_loop_ok: "i + length gs \<le> length desc \<Longrightarrow> \<exists>b. guid_loop desc i gs = Some b"
  by (induction gs arbitrary: i) (auto simp: rd8_def)

definition row_fits :: "uvcPayload \<Rightarrow> bool" where
  "row_fits up \<longleftrightarrow> (up_GUID up \<noteq> 0 \<longrightarrow> up_GUID up + 16 \<le> up_FormatSize up) \<and>
     (up_DefFrame up < up_FormatSize up \<or> up_DefFrame up = 0) \<and>
     (up_FixedSize up \<longrightarrow> 22 \<le> up_FormatSize up) \<and>
     (up_FrameType up \<noteq> 0 \<longrightarrow> 4 \<le> up_FrameSize up \<and> up_Width up + 2 \<le> up_FrameSize up \<and>
        up_Height up + 2 \<le> up_FrameSize up \<and> up_DefInterval up + 4 \<le> up_FrameSize up \<and>
        up_IntervalType up < up_FrameSize up)"

lemma rows_fit: "up \<in> set UvcPayloads \<Longrightarrow> row_fits up"
  by (auto simp: UvcPayloads_def row_fits_def)

lemma find_row_ok:
  "\<forall>up \<in> set ups. row_fits up \<Longrightarrow>
   \<exists>r. find_row t desc i ups = Some r \<and>
     (\<forall>j. r = Some j \<longrightarrow> i \<le> j \<and> j - i < length ups \<and> up_FormatSize (ups ! (j - i)) \<le> length desc)"
proof (induction ups arbitrary: i)
  case (Cons up ups)
  obtain r where r: "find_row t desc (i + 1) ups = Some r"
    "\<forall>j. r = Some j \<longrightarrow> i + 1 \<le> j \<and> j - (i + 1) < length ups \<and> up_FormatSize (ups ! (j - (i + 1))) \<le> length desc"
    using Cons.IH [of "i + 1"] Cons.prems by auto
  have nxt: "\<exists>r. find_row t desc (i + 1) ups = Some r \<and>
     (\<forall>j. r = Some j \<longrightarrow> i \<le> j \<and> j - i < length (up # ups) \<and> up_FormatSize ((up # ups) ! (j - i)) \<le> length desc)"
  proof -
    have "i \<le> j \<and> j - i < length (up # ups) \<and> up_FormatSize ((up # ups) ! (j - i)) \<le> length desc" if "r = Some j" for j
    proof -
      from r(2) that have h: "i + 1 \<le> j" "j - (i + 1) < length ups" "up_FormatSize (ups ! (j - (i + 1))) \<le> length desc" by auto
      then have "j - i = Suc (j - (i + 1))" by simp
      then show ?thesis using h by simp
    qed
    then show ?thesis using r(1) by blast
  qed
  show ?case
  proof (cases "up_FormatType up = t \<and> up_FormatSize up \<le> length desc")
    case True
    have "\<exists>b. (if up_GUID up = 0 then Some True else uvcIsFourCCGUID desc (up_GUID up)) = Some b"
      using Cons.prems True guid_loop_ok [of "up_GUID up + 4" UvcFourCCGUID desc]
      by (auto simp: row_fits_def uvcIsFourCCGUID_def UvcFourCCGUID_def)
    then obtain b where b: "(if up_GUID up = 0 then Some True else uvcIsFourCCGUID desc (up_GUID up)) = Some b" by blast
    show ?thesis
    proof (cases b)
      case True
      then have "find_row t desc i (up # ups) = Some (Some i)"
        using b \<open>up_FormatType up = t \<and> up_FormatSize up \<le> length desc\<close> by simp
      then show ?thesis using \<open>up_FormatType up = t \<and> up_FormatSize up \<le> length desc\<close> by simp
    next
      case False
      then have "find_row t desc i (up # ups) = find_row t desc (i + 1) ups"
        using b \<open>up_FormatType up = t \<and> up_FormatSize up \<le> length desc\<close> by simp
      then show ?thesis using nxt by simp
    qed
  next
    case False
    then have "find_row t desc i (up # ups) = find_row t desc (i + 1) ups"
      by (simp only: find_row.simps if_False)
    then show ?thesis using nxt by simp
  qed
qed simp

lemma uvcFindPayload_ok:
  "\<exists>r. uvcFindPayload t desc = Some r \<and>
     (\<forall>j. r = Some j \<longrightarrow> j < length UvcPayloads \<and> up_FormatSize (UvcPayloads ! j) \<le> length desc)"
  using find_row_ok [of UvcPayloads t desc 0] rows_fit by (simp add: uvcFindPayload_def)

lemma new_format_ok:
  assumes "3 \<le> length desc"
  shows "\<exists>f. new_format t desc n old = Some f \<and> payload_ok f \<and> ufo_Frames f = n \<and>
    ufo_NumFrames f = ufo_NumFrames old"
proof -
  obtain r where r: "uvcFindPayload t desc = Some r"
    "\<forall>j. r = Some j \<longrightarrow> j < length UvcPayloads \<and> up_FormatSize (UvcPayloads ! j) \<le> length desc"
    using uvcFindPayload_ok [of t desc] by blast
  have "\<exists>d. (case r of None \<Rightarrow> Some 0
      | Some i \<Rightarrow> do { up \<leftarrow> arr_get UvcPayloads i; rd8 desc (up_DefFrame up) }) = Some d"
  proof (cases r)
    case (Some j)
    then have j: "j < length UvcPayloads" "up_FormatSize (UvcPayloads ! j) \<le> length desc" using r(2) by auto
    have "row_fits (UvcPayloads ! j)" using rows_fit j(1) by simp
    then have "up_DefFrame (UvcPayloads ! j) < length desc" using j(2) assms by (auto simp: row_fits_def)
    then show ?thesis using Some j(1) by (simp add: rd8_def)
  qed simp
  then obtain d where d: "(case r of None \<Rightarrow> Some 0
      | Some i \<Rightarrow> do { up \<leftarrow> arr_get UvcPayloads i; rd8 desc (up_DefFrame up) }) = Some d" by blast
  have "\<exists>x. (if 3 < length desc then rd8 desc 3 else Some 0) = Some x" by (simp add: rd8_def)
  then obtain x where x: "(if 3 < length desc then rd8 desc 3 else Some 0) = Some x" ..
  show ?thesis unfolding new_format_def x r(1) bind.bind_lunit d
    using r(2) by (auto simp: payload_ok_def split: option.split)
qed

lemma frame_interval:
  "4 * i + 4 \<le> length (ufr_Intervals f) \<Longrightarrow> \<exists>v. uvcFrameInterval f i = Some v \<and> v \<noteq> 0"
proof -
  assume l: "4 * i + 4 \<le> length (ufr_Intervals f)"
  obtain v where v: "rd_le32 (ufr_Intervals f) (4 * i) = Some v" "v < 4294967296"
    using rd_le32_Some [OF l] le32_less by blast
  have "v \<noteq> 0 \<Longrightarrow> (word_of_nat v :: u32) \<noteq> 0"
    using v(2) by (simp add: word_unat_eq_iff unat_of_nat)
  then show ?thesis using v(1) by (simp add: uvcFrameInterval_def)
qed

lemma min_max_interval:
  assumes "frame_ok f"
  shows "\<exists>a. uvcFrameMinInterval f = Some a \<and> a \<noteq> 0" and "\<exists>b. uvcFrameMaxInterval f = Some b \<and> b \<noteq> 0"
proof -
  have n: "ufr_NumIntervals f \<noteq> 0 \<Longrightarrow> 0 < unat (ufr_NumIntervals f)" by (simp add: unat_gt_0)
  show "\<exists>a. uvcFrameMinInterval f = Some a \<and> a \<noteq> 0"
    using frame_interval [of 0 f] assms n by (auto simp: uvcFrameMinInterval_def frame_ok_def split: if_splits)
  show "\<exists>b. uvcFrameMaxInterval f = Some b \<and> b \<noteq> 0"
    using frame_interval [of "if ufr_NumIntervals f \<noteq> 0 then unat (ufr_NumIntervals f) - 1 else 1" f] assms n
    by (auto simp: uvcFrameMaxInterval_def frame_ok_def split: if_splits)
qed

lemma frame_ok_put [simp]: "frame_ok (f\<lparr>ufr_DefInterval := d\<rparr>) = frame_ok f"
  by (simp add: frame_ok_def)

lemma interval_put [simp]:
  "uvcFrameInterval (f\<lparr>ufr_DefInterval := d\<rparr>) i = uvcFrameInterval f i"
  "uvcFrameMinInterval (f\<lparr>ufr_DefInterval := d\<rparr>) = uvcFrameMinInterval f"
  "uvcFrameMaxInterval (f\<lparr>ufr_DefInterval := d\<rparr>) = uvcFrameMaxInterval f"
  by (simp_all add: uvcFrameInterval_def uvcFrameMinInterval_def uvcFrameMaxInterval_def)

text \<open>A frame's default interval lies inside its range (or at its longest, if the range is upside down).\<close>

definition default_ok :: "uvcFrame \<Rightarrow> bool" where
  "default_ok f \<longleftrightarrow> (case (uvcFrameMinInterval f, uvcFrameMaxInterval f) of
     (Some a, Some b) \<Rightarrow> ufr_DefInterval f \<le> b \<and> (a \<le> b \<longrightarrow> a \<le> ufr_DefInterval f) | _ \<Rightarrow> False)"

lemma clamp_ok: "frame_ok f \<Longrightarrow> \<exists>g. clamp_default d f = Some g \<and> frame_ok g \<and> default_ok g"
proof -
  assume f: "frame_ok f"
  obtain a b where ab: "uvcFrameMinInterval f = Some a" "uvcFrameMaxInterval f = Some b"
    using min_max_interval [OF f] by auto
  show ?thesis using f ab by (auto simp: clamp_default_def default_ok_def Let_def)
qed

lemma new_frame_ok:
  assumes "row_fits up" and "up_FrameType up \<noteq> 0"
  shows "\<exists>r. new_frame up desc = Some r \<and> (\<forall>f. r = Some f \<longrightarrow> frame_ok f \<and> default_ok f)"
proof (cases "length desc < up_FrameSize up")
  case True
  then show ?thesis by (simp add: new_frame_def)
next
  case False
  then have l: "3 < length desc" "up_Width up + 2 \<le> length desc" "up_Height up + 2 \<le> length desc"
    "up_DefInterval up + 4 \<le> length desc" "up_IntervalType up < length desc"
    using assms by (auto simp: row_fits_def)
  let ?n = "desc ! up_IntervalType up"
  show ?thesis
  proof (cases "length desc < up_Intervals up + 4 * (if ?n \<noteq> 0 then unat ?n else 3)")
    case True
    then show ?thesis using False l by (simp add: new_frame_def rd_simps)
  next
    case ok: False
    have "frame_ok \<lparr>ufr_Index = i, ufr_NumIntervals = ?n, ufr_Width = w, ufr_Height = h,
        ufr_DefInterval = 0, ufr_Intervals = drop (up_Intervals up) desc\<rparr>" for i w h
      using ok by (auto simp: frame_ok_def)
    note c = clamp_ok [OF this]
    obtain idx w h d where rd: "rd8 desc (up_IntervalType up) = Some ?n" "rd8 desc 3 = Some idx"
      "rd_le16 desc (up_Width up) = Some w" "rd_le16 desc (up_Height up) = Some h"
      "rd_le32 desc (up_DefInterval up) = Some d" using l by (simp add: rd_simps)
    obtain g where g: "clamp_default (word_of_nat d)
        \<lparr>ufr_Index = idx, ufr_NumIntervals = ?n, ufr_Width = word_of_nat w, ufr_Height = word_of_nat h,
         ufr_DefInterval = 0, ufr_Intervals = drop (up_Intervals up) desc\<rparr> = Some g" "frame_ok g \<and> default_ok g"
      using c by blast
    have "new_frame up desc = Some (Some g)"
      unfolding new_frame_def using False ok by (simp add: rd g(1))
    then show ?thesis using g(2) by simp
  qed
qed


section \<open>The descriptors of a stream\<close>

text \<open>
  The state between two descriptors of stream \<open>s\<close>: \<open>F0\<close> frames belong to earlier streams, and there
  is room for \<open>r\<close> more descriptors.
\<close>

definition in_stream :: "uvcFunction \<Rightarrow> nat \<Rightarrow> nat \<Rightarrow> nat \<Rightarrow> bool" where
  "in_stream uf s F0 r \<longleftrightarrow> uvc_wf uf \<and> s < unat (uf_NumStreams uf) \<and>
     (\<forall>i < unat (uf_NumFormats uf). us_Formats (uf_Streams uf ! s) \<le> i \<longrightarrow> F0 \<le> ufo_Frames (uf_Formats uf ! i)) \<and>
     F0 \<le> unat (uf_NumFrames uf) \<and>
     unat (uf_NumFormats uf) + (unat (uf_NumFrames uf) - F0) + r \<le> length (uf_Formats uf) \<and>
     unat (uf_NumFrames uf) + r \<le> length (uf_Frames uf)"

text \<open>What adding a descriptor to a stream leaves alone.\<close>

definition same_shape :: "uvcFunction \<Rightarrow> uvcFunction \<Rightarrow> bool" where
  "same_shape a b \<longleftrightarrow> uf_NumStreams a = uf_NumStreams b \<and> length (uf_Streams a) = length (uf_Streams b) \<and>
     length (uf_Formats a) = length (uf_Formats b) \<and> length (uf_Frames a) = length (uf_Frames b) \<and>
     uf_NumEntities a = uf_NumEntities b \<and> uf_Entities a = uf_Entities b"

lemma same_shape_trans: "same_shape a b \<Longrightarrow> same_shape b c \<Longrightarrow> same_shape a c"
  by (simp add: same_shape_def)

lemma in_stream_skip: "in_stream uf s F0 (Suc r) \<Longrightarrow> in_stream (skip_desc uf) s F0 r \<and> same_shape uf (skip_desc uf)"
  by (auto simp: in_stream_def skip_desc_def uvc_wf_def same_shape_def)

lemma in_stream_less: "in_stream uf s F0 (Suc r) \<Longrightarrow> in_stream uf s F0 r"
  by (auto simp: in_stream_def)

lemma stream_lt: "in_stream uf s F0 r \<Longrightarrow> s < length (uf_Streams uf)"
  by (auto simp: in_stream_def uvc_wf_def)

lemma upd_stream_Some:
  "s < length (uf_Streams uf) \<Longrightarrow>
   upd_stream uf s f = Some (uf\<lparr>uf_Streams := (uf_Streams uf)[s := f (uf_Streams uf ! s)]\<rparr>)"
  by (simp add: upd_stream_def)

lemma stream_ok_mono: "stream_ok n us \<Longrightarrow> n \<le> m \<Longrightarrow> stream_ok m us"
  by (simp add: stream_ok_def)

lemma format_ok_mono: "format_ok n f \<Longrightarrow> n \<le> m \<Longrightarrow> format_ok m f"
  by (simp add: format_ok_def)

lemma header_ok:
  assumes "in_stream uf s F0 (Suc r)" and "us' = f (uf_Streams uf ! s)"
    and "us_Formats us' = us_Formats (uf_Streams uf ! s)" and "us_NumFormats us' = us_NumFormats (uf_Streams uf ! s)"
  shows "\<exists>uf'. upd_stream uf s (\<lambda>_. us') = Some uf' \<and> in_stream uf' s F0 r \<and> same_shape uf uf'"
proof -
  have s: "s < length (uf_Streams uf)" using stream_lt [OF assms(1)] .
  have "stream_ok n us' = stream_ok n (uf_Streams uf ! s)" for n using assms(3,4) by (simp add: stream_ok_def)
  then show ?thesis using assms s
    by (auto simp: upd_stream_Some in_stream_def uvc_wf_def same_shape_def nth_list_update)
qed

text \<open>A format appended to the array and counted in its stream.\<close>

definition append_format :: "uvcFunction \<Rightarrow> nat \<Rightarrow> uvcFormat \<Rightarrow> uvcFunction" where
  "append_format uf s f = uf\<lparr>uf_Formats := (uf_Formats uf)[unat (uf_NumFormats uf) := f],
     uf_NumFormats := uf_NumFormats uf + 1,
     uf_Streams := (uf_Streams uf)[s := (uf_Streams uf ! s)\<lparr>us_NumFormats := us_NumFormats (uf_Streams uf ! s) + 1\<rparr>]\<rparr>"

lemma upd_append:
  "s < length (uf_Streams uf) \<Longrightarrow>
   upd_stream (uf\<lparr>uf_Formats := (uf_Formats uf)[unat (uf_NumFormats uf) := f],
     uf_NumFormats := uf_NumFormats uf + 1\<rparr>) s (\<lambda>us. us\<lparr>us_NumFormats := us_NumFormats us + 1\<rparr>) =
   Some (append_format uf s f)"
  by (simp add: upd_stream_Some append_format_def)

lemma append_format_shape:
  assumes i: "in_stream uf s F0 r" and room: "unat (uf_NumFormats uf) < length (uf_Formats uf)"
    and f: "format_ok (unat (uf_NumFrames uf)) f"
  shows "uvc_wf (append_format uf s f)" and "same_shape uf (append_format uf s f)"
    and "unat (uf_NumFormats (append_format uf s f)) = Suc (unat (uf_NumFormats uf))"
    and "uf_NumFrames (append_format uf s f) = uf_NumFrames uf"
proof -
  have w: "uvc_wf uf" and s: "s < length (uf_Streams uf)" using i stream_lt [OF i] by (auto simp: in_stream_def)
  have n: "unat (uf_NumFormats uf + 1) = Suc (unat (uf_NumFormats uf))"
    using room w by (intro inc_u16) (auto simp: uvc_wf_def)
  let ?us = "uf_Streams uf ! s"
  have so: "stream_ok (unat (uf_NumFormats uf)) ?us" using i by (auto simp: in_stream_def uvc_wf_def)
  have so': "stream_ok (Suc (unat (uf_NumFormats uf))) (?us\<lparr>us_NumFormats := us_NumFormats ?us + 1\<rparr>)"
    using so inc_u8_le [of "us_NumFormats ?us"] by (simp add: stream_ok_def)
  show "uvc_wf (append_format uf s f)"
    using w n so' f(1) s i room
    by (auto simp: append_format_def uvc_wf_def in_stream_def nth_list_update less_Suc_eq intro: stream_ok_mono)
  show "same_shape uf (append_format uf s f)"
    "unat (uf_NumFormats (append_format uf s f)) = Suc (unat (uf_NumFormats uf))"
    "uf_NumFrames (append_format uf s f) = uf_NumFrames uf"
    using n by (simp_all add: append_format_def same_shape_def)
qed

lemma append_format_ok:
  assumes i: "in_stream uf s F0 (Suc r)"
    and f: "format_ok (unat (uf_NumFrames uf)) f" "F0 \<le> ufo_Frames f"
  shows "in_stream (append_format uf s f) s F0 r"
proof -
  have room: "unat (uf_NumFormats uf) < length (uf_Formats uf)" using i by (auto simp: in_stream_def)
  note a = append_format_shape [OF i room f(1)]
  have s: "s < length (uf_Streams uf)" using stream_lt [OF i] .
  have us: "us_Formats (uf_Streams (append_format uf s f) ! s) = us_Formats (uf_Streams uf ! s)"
    and ss: "uf_NumStreams (append_format uf s f) = uf_NumStreams uf"
    and ff: "uf_Formats (append_format uf s f) = (uf_Formats uf)[unat (uf_NumFormats uf) := f]"
    and fr: "uf_Frames (append_format uf s f) = uf_Frames uf"
    using s by (simp_all add: append_format_def)
  show ?thesis
    unfolding in_stream_def us ss ff fr a(3,4) using a(1) i f(2) room
    by (auto simp: in_stream_def nth_list_update less_Suc_eq)
qed

lemma add_format_ok:
  assumes i: "in_stream uf s F0 (Suc r)" and "3 \<le> length desc"
  shows "\<exists>uf'. uvcAddFormat uf s t desc = Some uf' \<and> in_stream uf' s F0 r \<and> same_shape uf uf'"
proof -
  have room: "unat (uf_NumFormats uf) < length (uf_Formats uf)" using i by (auto simp: in_stream_def)
  then have z: "uf_Formats uf ! unat (uf_NumFormats uf) = zero_format" using i by (auto simp: in_stream_def uvc_wf_def)
  obtain f where f: "new_format t desc (unat (uf_NumFrames uf)) zero_format = Some f" "payload_ok f"
    "ufo_Frames f = unat (uf_NumFrames uf)" "ufo_NumFrames f = 0"
    using new_format_ok [OF assms(2), of t "unat (uf_NumFrames uf)" zero_format] by (auto simp: zero_format_def)
  have fo: "format_ok (unat (uf_NumFrames uf)) f" "F0 \<le> ufo_Frames f"
    using f i by (simp_all add: format_ok_def in_stream_def)
  have "uvcAddFormat uf s t desc = Some (append_format uf s f)"
    using room z f(1) upd_append [OF stream_lt [OF i]] by (simp add: uvcAddFormat_def Let_def)
  then show ?thesis using append_format_ok [OF i fo] append_format_shape(2) [OF i room fo(1)] by blast
qed


lemma frame_row_ok:
  assumes "payload_ok f"
  shows "\<exists>r. frame_row f t = Some r \<and> (\<forall>up. r = Some up \<longrightarrow> row_fits up \<and> up_FrameType up \<noteq> 0)"
  using assms rows_fit by (auto simp: frame_row_def payload_ok_def split: option.splits)

text \<open>The format a frame would belong to: the one opened last, if the count has not wrapped.\<close>

definition cur_format :: "uvcFunction \<Rightarrow> nat \<Rightarrow> nat" where
  "cur_format uf s = us_Formats (uf_Streams uf ! s) + unat (us_NumFormats (uf_Streams uf ! s)) - 1"

lemma cur_format_less:
  assumes "in_stream uf s F0 r" and "us_NumFormats (uf_Streams uf ! s) \<noteq> 0"
  shows "cur_format uf s < unat (uf_NumFormats uf)" and "us_Formats (uf_Streams uf ! s) \<le> cur_format uf s"
proof -
  have "0 < unat (us_NumFormats (uf_Streams uf ! s))" using assms(2) by (simp add: unat_gt_0)
  moreover have "us_Formats (uf_Streams uf ! s) + unat (us_NumFormats (uf_Streams uf ! s)) \<le> unat (uf_NumFormats uf)"
    using assms(1) by (auto simp: in_stream_def uvc_wf_def stream_ok_def)
  ultimately show "cur_format uf s < unat (uf_NumFormats uf)" "us_Formats (uf_Streams uf ! s) \<le> cur_format uf s"
    by (simp_all add: cur_format_def)
qed

lemma payload_ok_put [simp]: "payload_ok (f\<lparr>ufo_NumFrames := n\<rparr>) = payload_ok f"
  by (cases "ufo_Payload f") (simp_all add: payload_ok_def)

definition append_frame :: "uvcFunction \<Rightarrow> nat \<Rightarrow> uvcFrame \<Rightarrow> uvcFunction" where
  "append_frame uf j fr = uf\<lparr>uf_Frames := (uf_Frames uf)[unat (uf_NumFrames uf) := fr],
      uf_NumFrames := uf_NumFrames uf + 1,
      uf_Formats := (uf_Formats uf)[j := (uf_Formats uf ! j)\<lparr>ufo_NumFrames := ufo_NumFrames (uf_Formats uf ! j) + 1\<rparr>]\<rparr>"

lemma append_frame_shape: "same_shape uf (append_frame uf j fr)"
  by (simp add: append_frame_def same_shape_def)

lemma append_frame_ok:
  assumes i: "in_stream uf s F0 (Suc r)" and c: "j < unat (uf_NumFormats uf)" and f: "frame_ok fr"
  shows "in_stream (append_frame uf j fr) s F0 r" (is "in_stream ?uf s F0 r")
proof -
  have w: "uvc_wf uf" using i by (simp add: in_stream_def)
  have n: "unat (uf_NumFrames uf + 1) = Suc (unat (uf_NumFrames uf))"
    using i w by (intro inc_u16 [where k = "length (uf_Frames uf)"]) (auto simp: uvc_wf_def in_stream_def)
  let ?f = "uf_Formats uf ! j"
  have jl: "j < length (uf_Formats uf)" using c w by (simp add: uvc_wf_def)
  have "format_ok (unat (uf_NumFrames uf)) ?f" using w c by (simp add: uvc_wf_def)
  then have fo: "format_ok (Suc (unat (uf_NumFrames uf))) (?f\<lparr>ufo_NumFrames := ufo_NumFrames ?f + 1\<rparr>)"
    using inc_u8_le [of "ufo_NumFrames ?f"] by (simp add: format_ok_def)
  have "uvc_wf ?uf"
    using w n fo f jl c i
    by (auto simp: append_frame_def uvc_wf_def in_stream_def nth_list_update less_Suc_eq intro: format_ok_mono)
  then show ?thesis
    using i n jl by (auto simp: append_frame_def in_stream_def nth_list_update)
qed

lemma add_frame_ok:
  assumes i: "in_stream uf s F0 (Suc r)"
  shows "\<exists>uf' ok. uvcAddFrame uf s t desc = Some (uf', ok) \<and>
    (ok \<longrightarrow> in_stream uf' s F0 r) \<and> (\<not> ok \<longrightarrow> uf' = uf) \<and> same_shape uf uf'"
proof (cases "us_NumFormats (uf_Streams uf ! s) = 0")
  case True
  then show ?thesis using stream_lt [OF i] in_stream_less [OF i]
    by (intro exI [where x = uf] exI [where x = True]) (simp add: uvcAddFrame_def same_shape_def)
next
  case False
  let ?j = "cur_format uf s"
  have j: "?j < unat (uf_NumFormats uf)" using cur_format_less [OF i False] by simp
  have w: "uvc_wf uf" using i by (simp add: in_stream_def)
  have jl: "?j < length (uf_Formats uf)" using j w by (simp add: uvc_wf_def)
  have nf: "unat (uf_NumFrames uf) < length (uf_Frames uf)" using i by (auto simp: in_stream_def)
  have "payload_ok (uf_Formats uf ! ?j)" using w j by (simp add: uvc_wf_def format_ok_def)
  from frame_row_ok [OF this, of t] obtain row where row: "frame_row (uf_Formats uf ! ?j) t = Some row"
    "\<forall>up. row = Some up \<longrightarrow> row_fits up \<and> up_FrameType up \<noteq> 0" by blast
  have j': "us_Formats (uf_Streams uf ! s) + unat (us_NumFormats (uf_Streams uf ! s)) - 1 = ?j"
    by (simp add: cur_format_def)
  note unf = uvcAddFrame_def arr_get_Some [OF stream_lt [OF i]] bind.bind_lunit Let_def if_not_P [OF False]
    j' arr_get_Some [OF jl] row(1)
  show ?thesis
  proof (cases row)
    case None
    then show ?thesis unfolding unf using in_stream_less [OF i]
      by (intro exI [where x = uf] exI [where x = True]) (simp add: same_shape_def)
  next
    case (Some up)
    then obtain fr where fr: "new_frame up desc = Some fr" "\<forall>f. fr = Some f \<longrightarrow> frame_ok f \<and> default_ok f"
      using new_frame_ok row(2) by blast
    show ?thesis
    proof (cases fr)
      case None
      then show ?thesis unfolding unf using Some fr(1)
        by (intro exI [where x = uf] exI [where x = False]) (simp add: same_shape_def)
    next
      case (Some f)
      then have "frame_ok f" using fr(2) by blast
      from append_frame_ok [OF i j this] show ?thesis
        unfolding unf using \<open>row = Some up\<close> Some fr(1) nf jl append_frame_shape [of uf ?j f]
        by (intro exI [where x = "append_frame uf ?j f"] exI [where x = True]) (simp add: append_frame_def)
    qed
  qed
qed

lemma stream_desc_ok:
  assumes i: "in_stream uf s F0 (Suc r)"
  shows "\<exists>uf'. uvcAddStreamDesc uf s desc = Some uf' \<and> in_stream uf' s F0 r \<and> same_shape uf uf'"
proof (cases "length desc < 3")
  case True
  then show ?thesis using in_stream_skip [OF i] by (simp add: uvcAddStreamDesc_def)
next
  case False
  then have b: "rd8 desc 2 = Some (desc ! 2)" by (simp add: rd8_def)
  let ?t = "unat (desc ! 2)" and ?us = "uf_Streams uf ! s"
  consider "?t = 1 \<or> ?t = 2" | "\<not> (?t = 1 \<or> ?t = 2)" "?t \<in> set UVC_FORMAT_TYPES"
    | "\<not> (?t = 1 \<or> ?t = 2)" "?t \<notin> set UVC_FORMAT_TYPES" by blast
  then show ?thesis
  proof cases
    case 1
    obtain h where h: "uvcAddStreamHeader ?t desc ?us = Some h"
      "\<forall>us'. h = Some us' \<longrightarrow> us_Formats us' = us_Formats ?us \<and> us_NumFormats us' = us_NumFormats ?us"
    proof -
      have "\<exists>h. uvcAddStreamHeader ?t desc ?us = Some h \<and>
        (\<forall>us'. h = Some us' \<longrightarrow> us_Formats us' = us_Formats ?us \<and> us_NumFormats us' = us_NumFormats ?us)"
        by (simp add: uvcAddStreamHeader_def rd_simps)
      then show thesis using that by blast
    qed
    have e: "uvcAddStreamDesc uf s desc =
        (case h of None \<Rightarrow> Some (skip_desc uf) | Some us' \<Rightarrow> upd_stream uf s (\<lambda>_. us'))"
      unfolding uvcAddStreamDesc_def b bind.bind_lunit Let_def if_P [OF 1] if_not_P [OF False]
        arr_get_Some [OF stream_lt [OF i]] h(1) by simp
    show ?thesis
    proof (cases h)
      case None
      then show ?thesis using e in_stream_skip [OF i] by simp
    next
      case (Some us')
      then show ?thesis using e header_ok [OF i, where us' = us' and f = "\<lambda>_. us'"] h(2) by simp
    qed
  next
    case 2
    then have "uvcAddStreamDesc uf s desc = uvcAddFormat uf s ?t desc"
      unfolding uvcAddStreamDesc_def b bind.bind_lunit Let_def if_not_P [OF 2(1)] if_not_P [OF False] by simp
    moreover have "3 \<le> length desc" using False by simp
    ultimately show ?thesis using add_format_ok [OF i] by simp
  next
    case 3
    then have e: "uvcAddStreamDesc uf s desc =
        do { r \<leftarrow> uvcAddFrame uf s ?t desc; Some (if snd r then fst r else skip_desc (fst r)) }"
      unfolding uvcAddStreamDesc_def b bind.bind_lunit Let_def if_not_P [OF 3(1)] if_not_P [OF False] by simp
    obtain uf' ok where "uvcAddFrame uf s ?t desc = Some (uf', ok)" "ok \<longrightarrow> in_stream uf' s F0 r"
      "\<not> ok \<longrightarrow> uf' = uf" "same_shape uf uf'" using add_frame_ok [OF i] by blast
    then show ?thesis using e in_stream_skip [OF i] by (cases ok) auto
  qed
qed

lemma walk_stream_ok:
  "in_stream uf s F0 (length ds + r) \<Longrightarrow>
   \<exists>uf'. walk_stream uf s ds = Some uf' \<and> in_stream uf' s F0 r \<and> same_shape uf uf'"
proof (induction ds arbitrary: uf)
  case (Cons d ds)
  then obtain u1 where u: "uvcAddStreamDesc uf s d = Some u1" "in_stream u1 s F0 (length ds + r)" "same_shape uf u1"
    using stream_desc_ok [of uf s F0 "length ds + r" d] by auto
  from Cons.IH [OF u(2)] show ?case using u(1,3) same_shape_trans by fastforce
qed (simp add: same_shape_def)


section \<open>Whole functions\<close>

lemma entities_Some: "uvc_wf uf \<Longrightarrow> entities uf = Some (take (unat (uf_NumEntities uf)) (uf_Entities uf))"
  by (simp add: entities_def arr_slice_def uvc_wf_def)

lemma entities_ok: "uvc_wf uf \<Longrightarrow> entities uf = Some ues \<Longrightarrow> ue \<in> set ues \<Longrightarrow> entity_ok ue"
  by (auto simp: entities_Some in_set_conv_nth uvc_wf_def)

lemma h264_loop_ok: "\<forall>ue \<in> set ues. entity_ok ue \<Longrightarrow> \<exists>r. h264_loop ues = Some r"
proof (induction ues)
  case (Cons ue ues)
  show ?case
  proof (cases "unat (ue_Type ue) = UDST_VIDEO_CTRL_EXTENSION_UNIT")
    case True
    then have "24 \<le> length (ue_Desc ue)" using Cons.prems by (simp add: entity_ok_def)
    then have "\<exists>b. guid_loop (ue_Desc ue) 4 UVCX_H264_XU_GUID = Some b"
      by (intro guid_loop_ok) (simp add: UVCX_H264_XU_GUID_def)
    then show ?thesis using Cons True by auto
  qed (use Cons in simp)
qed simp

lemma uvcFindH264Unit_ok: "uvc_wf uf \<Longrightarrow> \<exists>r. uvcFindH264Unit uf = Some r"
  using h264_loop_ok entities_ok by (fastforce simp: uvcFindH264Unit_def entities_Some)

lemma formats_Some:
  "uvc_wf uf \<Longrightarrow> stream_ok (unat (uf_NumFormats uf)) us \<Longrightarrow>
   formats uf us = Some (take (unat (us_NumFormats us)) (drop (us_Formats us) (uf_Formats uf)))"
  by (simp add: formats_def arr_slice_def uvc_wf_def stream_ok_def)

lemma formats_nth:
  assumes "uvc_wf uf" and "stream_ok (unat (uf_NumFormats uf)) us" and "formats uf us = Some fs" and "f \<in> set fs"
  shows "\<exists>i < unat (uf_NumFormats uf). us_Formats us \<le> i \<and> f = uf_Formats uf ! i"
proof -
  obtain k where k: "k < length fs" "f = fs ! k" using assms(4) by (auto simp: in_set_conv_nth)
  have fs: "fs = take (unat (us_NumFormats us)) (drop (us_Formats us) (uf_Formats uf))"
    using formats_Some [OF assms(1,2)] assms(3) by simp
  have "us_Formats us + k < unat (uf_NumFormats uf)" using k(1) assms(2) unfolding fs by (simp add: stream_ok_def)
  moreover have "f = uf_Formats uf ! (us_Formats us + k)"
    using k assms(1,2) unfolding fs by (simp add: stream_ok_def uvc_wf_def)
  ultimately show ?thesis by (metis le_add1)
qed

lemma embedded_ok:
  assumes i: "in_stream uf s F0 0"
    and used: "unat (uf_NumFormats uf) + (unat (uf_NumFrames uf) - F0) \<le> u" and u: "u \<le> length (uf_Formats uf)"
  shows "\<exists>uf'. uvcAddEmbeddedFormat uf s = Some uf' \<and> uvc_wf uf' \<and> same_shape uf uf' \<and>
    unat (uf_NumFormats uf') \<le> u \<and> uf_NumFrames uf' = uf_NumFrames uf"
proof -
  have w: "uvc_wf uf" using i by (simp add: in_stream_def)
  let ?us = "uf_Streams uf ! s"
  have so: "stream_ok (unat (uf_NumFormats uf)) ?us" using i by (auto simp: in_stream_def uvc_wf_def)
  obtain xu where xu: "uvcFindH264Unit uf = Some xu" using uvcFindH264Unit_ok [OF w] by blast
  obtain fs where fs: "formats uf ?us = Some fs" using formats_Some [OF w so] by blast
  note unf = uvcAddEmbeddedFormat_def xu bind.bind_lunit arr_get_Some [OF stream_lt [OF i]] fs
  have none: "\<exists>uf'. Some uf = Some uf' \<and> uvc_wf uf' \<and> same_shape uf uf' \<and>
    unat (uf_NumFormats uf') \<le> u \<and> uf_NumFrames uf' = uf_NumFrames uf"
    using w used by (simp add: same_shape_def)
  show ?thesis
  proof (cases "xu = None \<or> find is_carrier fs = None")
    case True
    then show ?thesis unfolding unf using none by auto
  next
    case False
    then obtain f where f: "find is_carrier fs = Some f" by auto
    then have fc: "f \<in> set fs" "is_carrier f" by (auto simp: find_Some_iff in_set_conv_nth)
    from formats_nth [OF w so fs fc(1)] obtain j where
      j: "j < unat (uf_NumFormats uf)" "us_Formats ?us \<le> j" "f = uf_Formats uf ! j" by blast
    have fo: "format_ok (unat (uf_NumFrames uf)) f" using w j by (simp add: uvc_wf_def)
    have F0: "F0 \<le> ufo_Frames f" using i j by (auto simp: in_stream_def)
    have "0 < unat (ufo_NumFrames f)" using fc(2) by (simp add: is_carrier_def unat_gt_0)
    then have fr: "F0 < unat (uf_NumFrames uf)" using fo F0 by (auto simp: format_ok_def)
    let ?t = "f\<lparr>ufo_Payload := Some UVC_ROW_EMBEDDED\<rparr>"
    have ft: "format_ok (unat (uf_NumFrames uf)) ?t"
      using fo by (simp add: format_ok_def payload_ok_def UVC_ROW_EMBEDDED_def UvcPayloads_def)
    have room: "unat (uf_NumFormats uf) < length (uf_Formats uf)" using used u fr by simp
    have "uvcAddEmbeddedFormat uf s = Some (append_format uf s ?t)"
      unfolding unf using False f room upd_append [OF stream_lt [OF i], where f = ?t]
      by (cases xu) simp_all
    then show ?thesis using append_format_shape [OF i room ft] used fr by auto
  qed
qed

text \<open>Between two streams: \<open>k\<close> streams and \<open>d\<close> descriptors are still to come.\<close>

definition between :: "uvcFunction \<Rightarrow> nat \<Rightarrow> nat \<Rightarrow> bool" where
  "between uf k d \<longleftrightarrow> uvc_wf uf \<and> unat (uf_NumStreams uf) + k \<le> length (uf_Streams uf) \<and>
     unat (uf_NumFormats uf) + d \<le> length (uf_Formats uf) \<and>
     unat (uf_NumFrames uf) + d \<le> length (uf_Formats uf) \<and> length (uf_Frames uf) = length (uf_Formats uf)"

lemma add_stream_ok:
  assumes b: "between uf (Suc k) d"
  shows "\<exists>uf' s. uvcAddStream uf i = Some (uf', s) \<and> in_stream uf' s (unat (uf_NumFrames uf)) d \<and>
    unat (uf_NumStreams uf') = Suc (unat (uf_NumStreams uf)) \<and>
    length (uf_Streams uf') = length (uf_Streams uf) \<and> length (uf_Formats uf') = length (uf_Formats uf) \<and>
    length (uf_Frames uf') = length (uf_Frames uf) \<and>
    uf_NumEntities uf' = uf_NumEntities uf \<and> uf_Entities uf' = uf_Entities uf"
proof -
  let ?s = "unat (uf_NumStreams uf)"
  have w: "uvc_wf uf" and s: "?s < length (uf_Streams uf)" using b by (auto simp: between_def)
  have n: "unat (uf_NumStreams uf + 1) = Suc ?s" using w s by (intro inc_u16) (auto simp: uvc_wf_def)
  have z: "uf_Streams uf ! ?s = zero_stream" using w s by (simp add: uvc_wf_def)
  let ?us = "zero_stream\<lparr>us_IfNum := i, us_Formats := unat (uf_NumFormats uf)\<rparr>"
  let ?uf = "uf\<lparr>uf_NumStreams := uf_NumStreams uf + 1, uf_Streams := (uf_Streams uf)[?s := ?us]\<rparr>"
  have e: "uvcAddStream uf i = Some (?uf, ?s)" using s z by (simp add: uvcAddStream_def upd_stream_def Let_def)
  have "stream_ok (unat (uf_NumFormats uf)) ?us" by (simp add: stream_ok_def zero_stream_def)
  then have "uvc_wf ?uf" using w n s by (auto simp: uvc_wf_def nth_list_update less_Suc_eq)
  then have "in_stream ?uf ?s (unat (uf_NumFrames uf)) d"
    using b n s by (auto simp: in_stream_def between_def)
  then show ?thesis using e n by (intro exI [where x = ?uf] exI [where x = ?s]) simp
qed

lemma in_stream_weaken: "in_stream uf s F0 (r + r') \<Longrightarrow> in_stream uf s F0 r"
  by (auto simp: in_stream_def)

lemma stream_ok_whole:
  assumes b: "between uf (Suc k) (length ds + d)"
  shows "\<exists>uf1 s uf2 uf'. uvcAddStream uf i = Some (uf1, s) \<and> walk_stream uf1 s ds = Some uf2 \<and>
    uvcAddEmbeddedFormat uf2 s = Some uf' \<and> between uf' k d \<and>
    length (uf_Formats uf') = length (uf_Formats uf) \<and> length (uf_Streams uf') = length (uf_Streams uf) \<and>
    uf_NumEntities uf' = uf_NumEntities uf \<and> uf_Entities uf' = uf_Entities uf \<and>
    unat (uf_NumStreams uf') = Suc (unat (uf_NumStreams uf))"
proof -
  let ?F0 = "unat (uf_NumFrames uf)"
  obtain uf1 s where 1: "uvcAddStream uf i = Some (uf1, s)" "in_stream uf1 s ?F0 (length ds + d)"
    "unat (uf_NumStreams uf1) = Suc (unat (uf_NumStreams uf))"
    "length (uf_Streams uf1) = length (uf_Streams uf)" "length (uf_Formats uf1) = length (uf_Formats uf)"
    "length (uf_Frames uf1) = length (uf_Frames uf)"
    "uf_NumEntities uf1 = uf_NumEntities uf" "uf_Entities uf1 = uf_Entities uf"
    using add_stream_ok [OF b] by blast
  obtain uf2 where 2: "walk_stream uf1 s ds = Some uf2" "in_stream uf2 s ?F0 d" "same_shape uf1 uf2"
    using walk_stream_ok [OF 1(2)] by blast
  have u: "unat (uf_NumFormats uf2) + (unat (uf_NumFrames uf2) - ?F0) \<le> length (uf_Formats uf2) - d"
    and fr: "unat (uf_NumFrames uf2) + d \<le> length (uf_Frames uf2)" and dl: "d \<le> length (uf_Formats uf2)"
    using 2(2) by (auto simp: in_stream_def)
  have "in_stream uf2 s ?F0 0" using 2(2) in_stream_weaken [of uf2 s ?F0 0 d] by simp
  from embedded_ok [OF this u] obtain uf' where 3: "uvcAddEmbeddedFormat uf2 s = Some uf'" "uvc_wf uf'"
    "same_shape uf2 uf'" "unat (uf_NumFormats uf') \<le> length (uf_Formats uf2) - d" "uf_NumFrames uf' = uf_NumFrames uf2"
    by auto
  have "between uf' k d"
    using b 1 2(3) 3 fr dl by (auto simp: between_def same_shape_def)
  then show ?thesis using 1 2(1,3) 3(1,3)
    by (intro exI conjI) (auto simp: same_shape_def)
qed

lemma build_streams_ok:
  "between uf (length is) (sum_list (map (\<lambda>i. length (if_descs ifs i)) is)) \<Longrightarrow>
   \<exists>uf'. build_streams ifs uf is = Some uf' \<and> uvc_wf uf' \<and>
     unat (uf_NumStreams uf') \<le> unat (uf_NumStreams uf) + length is \<and>
     uf_NumEntities uf' = uf_NumEntities uf \<and> uf_Entities uf' = uf_Entities uf \<and>
     length (uf_Streams uf') = length (uf_Streams uf)"
proof (induction "is" arbitrary: uf)
  case (Cons i "is")
  let ?sum = "sum_list (map (\<lambda>i. length (if_descs ifs i)) is)"
  show ?case
  proof (cases "ifs i")
    case None
    then have "between uf (length is) ?sum" using Cons.prems by (simp add: between_def if_descs_def)
    from Cons.IH [OF this] None show ?thesis by auto
  next
    case (Some ds)
    then have "between uf (Suc (length is)) (length ds + ?sum)" using Cons.prems by (simp add: if_descs_def)
    from stream_ok_whole [OF this] obtain uf1 s uf2 u3 where
      r: "uvcAddStream uf i = Some (uf1, s)" "walk_stream uf1 s ds = Some uf2" "uvcAddEmbeddedFormat uf2 s = Some u3"
      "between u3 (length is) ?sum" "unat (uf_NumStreams u3) = Suc (unat (uf_NumStreams uf))"
      "uf_NumEntities u3 = uf_NumEntities uf" "uf_Entities u3 = uf_Entities uf"
      "length (uf_Streams u3) = length (uf_Streams uf)" by blast
    from Cons.IH [OF r(4)] Some r show ?thesis by auto
  qed
qed (simp add: between_def)

text \<open>The interface numbers the VideoControl header names, and that the descriptors fit the counters.\<close>

definition header_ifs :: "bytes list \<Rightarrow> u8 list option" where
  "header_ifs ctrl =
     (case find (\<lambda>d. 3 \<le> length d \<and> unat (d ! 2) = UDST_VIDEO_CTRL_HEADER) ctrl of
        None \<Rightarrow> None
      | Some h \<Rightarrow> if length h < 12 then None else Some (take (min (unat (h ! 11)) (length h - 12)) (drop 12 h)))"

definition descs_fit :: "bytes list \<Rightarrow> (u8 \<Rightarrow> bytes list option) \<Rightarrow> bool" where
  "descs_fit ctrl ifs \<longleftrightarrow> length ctrl < 65536 \<and>
     (case header_ifs ctrl of None \<Rightarrow> True
      | Some is \<Rightarrow> sum_list (map (\<lambda>i. length (if_descs ifs i)) is) < 65536)"

lemma build_ok:
  assumes fit: "descs_fit ctrl ifs"
  shows "\<exists>r. nBuildFunction mem ctrl ifs = Some r \<and> (r \<noteq> None \<longleftrightarrow> mem \<and> header_ifs ctrl \<noteq> None) \<and>
    (\<forall>uf. r = Some uf \<longrightarrow> uvc_wf uf)"
proof (cases "header_ifs ctrl")
  case None
  then show ?thesis by (auto simp: nBuildFunction_def header_ifs_def split: option.splits if_splits)
next
  case (Some ifnums)
  then obtain h where h: "find (\<lambda>d. 3 \<le> length d \<and> unat (d ! 2) = UDST_VIDEO_CTRL_HEADER) ctrl = Some h"
    "\<not> length h < 12" and ifnums: "ifnums = take (min (unat (h ! 11)) (length h - 12)) (drop 12 h)"
    by (auto simp: header_ifs_def split: option.splits if_splits)
  let ?n = "min (unat (h ! 11)) (length h - 12)"
  have rd: "rd8 h 11 = Some (h ! 11)" "rd_slice h 12 ?n = Some ifnums"
    using h(2) by (simp_all add: rd8_def rd_slice_def ifnums)
  have len: "length ifnums = ?n" using h(2) by (simp add: ifnums)
  have n: "?n < 65536" using unat_u8_less [of "h ! 11"] by linarith
  note unf = nBuildFunction_def h(1) option.case if_not_P [OF h(2)] rd bind.bind_lunit Let_def
  show ?thesis
  proof (cases mem)
    case False
    then show ?thesis unfolding unf by simp
  next
    case True
    let ?sum = "sum_list (map (\<lambda>i. length (if_descs ifs i)) ifnums)"
    let ?u0 = "uvcInitFunction (length ctrl) ?n ?sum"
    have s: "length ctrl < 65536" "?sum < 65536" using fit Some by (simp_all add: descs_fit_def)
    have w0: "uvc_wf ?u0" using s n by (intro wf_init)
    have "unat (uf_NumEntities ?u0) + length ctrl \<le> length (uf_Entities ?u0)" by (simp add: uvcInitFunction_def)
    from walk_ctrl_ok [OF w0 this] obtain u1 where
      u1: "walk_ctrl ?u0 ctrl = Some u1" "uvc_wf u1" "same_streams ?u0 u1" by blast
    have l: "length (uf_Streams u1) = ?n" "length (uf_Formats u1) = ?sum" "length (uf_Frames u1) = ?sum"
      "uf_NumStreams u1 = 0" "uf_NumFormats u1 = 0" "uf_NumFrames u1 = 0"
      using u1(3) by (auto simp: same_streams_def uvcInitFunction_def dest: arg_cong [where f = length])
    have "between u1 (length ifnums) ?sum"
      unfolding between_def l using u1(2) len by simp
    from build_streams_ok [OF this] obtain uf where u2: "build_streams ifs u1 ifnums = Some uf" "uvc_wf uf" by blast
    then show ?thesis unfolding unf using True Some u1(1) by simp
  qed
qed

end
