(* ===== verification/Uvc_Refine.thy ===== *)
theory Uvc_Refine
  imports Uvc_Model
begin

text \<open>
  What the arrays, indices and counts of the model stand for: each stream a list of formats, each
  format with the list of its frames. The parser of a stream's descriptors implements a fold over
  such nested lists.
\<close>

section \<open>The abstract stream\<close>

type_synonym spec_formats = "(uvcFormat \<times> uvcFrame list) list"

text \<open>A format without its place in the arrays.\<close>

definition format_core :: "uvcFormat \<Rightarrow> uvcFormat" where
  "format_core f = f\<lparr>ufo_Frames := 0, ufo_NumFrames := 0\<rparr>"

definition spec_frame :: "nat \<Rightarrow> bytes \<Rightarrow> uvcFormat \<Rightarrow> uvcFrame option" where
  "spec_frame t d f = (case frame_row f t of
     Some (Some up) \<Rightarrow> (case new_frame up d of Some r \<Rightarrow> r | None \<Rightarrow> None) | _ \<Rightarrow> None)"

definition spec_add_frame :: "nat \<Rightarrow> bytes \<Rightarrow> spec_formats \<Rightarrow> spec_formats" where
  "spec_add_frame t d acc =
     (if acc = [] then acc
      else case spec_frame t d (fst (last acc)) of
        None \<Rightarrow> acc
      | Some fr \<Rightarrow> butlast acc @ [(fst (last acc), snd (last acc) @ [fr])])"

definition spec_desc :: "spec_formats \<Rightarrow> bytes \<Rightarrow> spec_formats" where
  "spec_desc acc d =
     (if length d < 3 then acc
      else let t = unat (d ! 2)
           in if t = UDST_VIDEO_STREAM_INPUT_HEADER \<or> t = UDST_VIDEO_STREAM_OUTPUT_HEADER then acc
              else if t \<in> set UVC_FORMAT_TYPES
              then (case new_format t d 0 zero_format of Some f \<Rightarrow> acc @ [(f, [])] | None \<Rightarrow> acc)
              else spec_add_frame t d acc)"

definition spec_stream :: "bytes list \<Rightarrow> spec_formats" where
  "spec_stream ds = foldl spec_desc [] ds"

text \<open>The counters can hold it.\<close>

definition spec_small :: "spec_formats \<Rightarrow> bool" where
  "spec_small acc \<longleftrightarrow> length acc < 256 \<and> (\<forall>(f, fs) \<in> set acc. length fs < 256)"

text \<open>The formats and frames of stream \<open>s\<close> as the model stores them.\<close>

definition frame_list :: "uvcFunction \<Rightarrow> uvcFormat \<Rightarrow> uvcFrame list" where
  "frame_list uf f = take (unat (ufo_NumFrames f)) (drop (ufo_Frames f) (uf_Frames uf))"

definition format_list :: "uvcFunction \<Rightarrow> nat \<Rightarrow> uvcFormat list" where
  "format_list uf s = take (unat (us_NumFormats (uf_Streams uf ! s))) (drop (us_Formats (uf_Streams uf ! s)) (uf_Formats uf))"

definition view :: "uvcFunction \<Rightarrow> nat \<Rightarrow> spec_formats" where
  "view uf s = map (\<lambda>f. (format_core f, frame_list uf f)) (format_list uf s)"

section \<open>Growth of the abstract stream\<close>

definition grows :: "spec_formats \<Rightarrow> spec_formats \<Rightarrow> bool" where
  "grows a b \<longleftrightarrow> length a \<le> length b \<and> (\<forall>i < length a. length (snd (a ! i)) \<le> length (snd (b ! i)))"

lemma grows_refl [simp]: "grows a a"
  by (simp add: grows_def)

lemma grows_nil [simp]: "grows [] b"
  by (simp add: grows_def)

lemma grows_trans:
  assumes "grows a b" and "grows b c"
  shows "grows a c"
  unfolding grows_def
proof (intro conjI allI impI)
  show "length a \<le> length c" using assms unfolding grows_def by linarith
  fix i assume "i < length a"
  then have "i < length b" "length (snd (a ! i)) \<le> length (snd (b ! i))" using assms(1) by (auto simp: grows_def)
  then show "length (snd (a ! i)) \<le> length (snd (c ! i))" using assms(2) unfolding grows_def by (meson le_trans)
qed

lemma spec_small_nth: "spec_small acc \<longleftrightarrow> length acc < 256 \<and> (\<forall>i < length acc. length (snd (acc ! i)) < 256)"
  unfolding spec_small_def all_set_conv_all_nth by (simp add: case_prod_unfold)

lemma grows_small:
  assumes "grows a b" and "spec_small b"
  shows "spec_small a"
  unfolding spec_small_nth
proof (intro conjI allI impI)
  show "length a < 256" using assms unfolding grows_def spec_small_nth by linarith
  fix i assume "i < length a"
  then have "i < length b" "length (snd (a ! i)) \<le> length (snd (b ! i))" using assms(1) by (auto simp: grows_def)
  then show "length (snd (a ! i)) < 256" using assms(2) unfolding spec_small_nth by (meson le_less_trans)
qed

lemma grows_append [simp]: "grows acc (acc @ xs)"
  by (auto simp: grows_def nth_append)

lemma grows_last:
  "acc \<noteq> [] \<Longrightarrow> grows acc (butlast acc @ [(f, snd (last acc) @ [fr])])"
proof -
  assume "acc \<noteq> []"
  then obtain bs x where "acc = bs @ [x]" by (metis rev_exhaust)
  then show ?thesis by (auto simp: grows_def nth_append less_Suc_eq)
qed

lemma grows_desc: "grows acc (spec_desc acc d)"
  by (auto simp: spec_desc_def spec_add_frame_def Let_def grows_last split: option.split)

lemma grows_foldl: "grows acc (foldl spec_desc acc ds)"
  by (induction ds arbitrary: acc) (auto intro: grows_trans grows_desc)

section \<open>The parser implements it\<close>

text \<open>The stream's formats are the last ones of the array, and the last format's frames the last ones.\<close>

definition tight :: "uvcFunction \<Rightarrow> nat \<Rightarrow> bool" where
  "tight uf s \<longleftrightarrow>
     us_Formats (uf_Streams uf ! s) + unat (us_NumFormats (uf_Streams uf ! s)) = unat (uf_NumFormats uf) \<and>
     (us_NumFormats (uf_Streams uf ! s) \<noteq> 0 \<longrightarrow>
        ufo_Frames (uf_Formats uf ! cur_format uf s) + unat (ufo_NumFrames (uf_Formats uf ! cur_format uf s)) =
          unat (uf_NumFrames uf))"

lemma take_put: "off + k < length xs \<Longrightarrow> take (Suc k) (drop off (xs[off + k := y])) = take k (drop off xs) @ [y]"
  by (simp add: take_Suc_conv_app_nth drop_update_swap)

lemma take_get: "off + k < length xs \<Longrightarrow> take (Suc k) (drop off xs) = take k (drop off xs) @ [xs ! (off + k)]"
  by (simp add: take_Suc_conv_app_nth)

lemma take_other: "off + k \<le> m \<Longrightarrow> take k (drop off (xs[m := y])) = take k (drop off xs)"
  by (simp add: drop_update_swap)

lemma format_list_append:
  assumes s: "s < length (uf_Streams uf)" and t: "tight uf s"
    and small: "unat (us_NumFormats (uf_Streams uf ! s)) < 255" and room: "unat (uf_NumFormats uf) < length (uf_Formats uf)"
  shows "format_list (append_format uf s f) s = format_list uf s @ [f]"
proof -
  let ?us = "uf_Streams uf ! s"
  have n: "unat (us_NumFormats ?us + 1) = Suc (unat (us_NumFormats ?us))" using small by (simp add: unat_word_ariths)
  have e: "unat (uf_NumFormats uf) = us_Formats ?us + unat (us_NumFormats ?us)" using t by (simp add: tight_def)
  show ?thesis
    using take_put [of "us_Formats ?us" "unat (us_NumFormats ?us)" "uf_Formats uf" f] room s n e
    by (simp add: format_list_def append_format_def)
qed

lemma frame_list_append_format [simp]: "frame_list (append_format uf s f) = frame_list uf"
  by (simp add: frame_list_def append_format_def fun_eq_iff)

lemma view_append_format:
  assumes "s < length (uf_Streams uf)" and "tight uf s"
    and "unat (us_NumFormats (uf_Streams uf ! s)) < 255" and "unat (uf_NumFormats uf) < length (uf_Formats uf)"
  shows "view (append_format uf s f) s = view uf s @ [(format_core f, frame_list uf f)]"
  using format_list_append [OF assms, of f] by (simp add: view_def)

lemma tight_append_format:
  assumes i: "in_stream uf s F0 (Suc r)" and t: "tight uf s"
    and small: "unat (us_NumFormats (uf_Streams uf ! s)) < 255"
    and f: "ufo_Frames f = unat (uf_NumFrames uf)" "ufo_NumFrames f = 0"
  shows "tight (append_format uf s f) s"
proof -
  let ?us = "uf_Streams uf ! s"
  have room: "unat (uf_NumFormats uf) < length (uf_Formats uf)" using i by (auto simp: in_stream_def)
  have n: "unat (us_NumFormats ?us + 1) = Suc (unat (us_NumFormats ?us))" using small by (simp add: unat_word_ariths)
  have m: "unat (uf_NumFormats uf + 1) = Suc (unat (uf_NumFormats uf))"
    using room i by (intro inc_u16) (auto simp: uvc_wf_def in_stream_def)
  show ?thesis using t n m f room stream_lt [OF i]
    by (simp add: tight_def append_format_def cur_format_def)
qed

lemma format_list_split:
  assumes i: "in_stream uf s F0 r" and nz: "us_NumFormats (uf_Streams uf ! s) \<noteq> 0"
  defines "pre \<equiv> take (unat (us_NumFormats (uf_Streams uf ! s)) - 1) (drop (us_Formats (uf_Streams uf ! s)) (uf_Formats uf))"
  shows "format_list uf s = pre @ [uf_Formats uf ! cur_format uf s]"
    and "format_list (append_frame uf (cur_format uf s) fr) s = pre @ [(uf_Formats uf ! cur_format uf s)
      \<lparr>ufo_NumFrames := ufo_NumFrames (uf_Formats uf ! cur_format uf s) + 1\<rparr>]"
    and "f \<in> set pre \<Longrightarrow> ufo_Frames f + unat (ufo_NumFrames f) \<le> unat (uf_NumFrames uf)"
proof -
  let ?us = "uf_Streams uf ! s"
  obtain k where k: "unat (us_NumFormats ?us) = Suc k" using nz unat_gt_0 gr0_implies_Suc by blast
  have j: "cur_format uf s = us_Formats ?us + k" by (simp add: cur_format_def k)
  have w: "uvc_wf uf" using i by (simp add: in_stream_def)
  have b: "us_Formats ?us + k < unat (uf_NumFormats uf)" using cur_format_less(1) [OF i nz] j by simp
  then have l: "us_Formats ?us + k < length (uf_Formats uf)" using w by (simp add: uvc_wf_def)
  show "format_list uf s = pre @ [uf_Formats uf ! cur_format uf s]"
    using take_get [OF l] by (simp add: format_list_def pre_def k j)
  show "format_list (append_frame uf (cur_format uf s) fr) s = pre @ [(uf_Formats uf ! cur_format uf s)
      \<lparr>ufo_NumFrames := ufo_NumFrames (uf_Formats uf ! cur_format uf s) + 1\<rparr>]"
    using take_put [OF l] by (simp add: format_list_def append_frame_def pre_def k j)
  assume "f \<in> set pre"
  then obtain m where "m < k" "f = uf_Formats uf ! (us_Formats ?us + m)"
    using l by (auto simp: pre_def k in_set_conv_nth)
  then show "ufo_Frames f + unat (ufo_NumFrames f) \<le> unat (uf_NumFrames uf)"
    using w b by (simp add: uvc_wf_def format_ok_def)
qed

lemma view_append_frame:
  assumes i: "in_stream uf s F0 (Suc r)" and t: "tight uf s" and nz: "us_NumFormats (uf_Streams uf ! s) \<noteq> 0"
    and small: "unat (ufo_NumFrames (uf_Formats uf ! cur_format uf s)) < 255"
  shows "view (append_frame uf (cur_format uf s) fr) s =
    butlast (view uf s) @ [(fst (last (view uf s)), snd (last (view uf s)) @ [fr])]"
proof -
  let ?f = "uf_Formats uf ! cur_format uf s" and ?uf = "append_frame uf (cur_format uf s) fr"
  note sp = format_list_split [OF i nz]
  have fr: "uf_Frames ?uf = (uf_Frames uf)[unat (uf_NumFrames uf) := fr]" by (simp add: append_frame_def)
  have room: "unat (uf_NumFrames uf) < length (uf_Frames uf)" using i by (auto simp: in_stream_def)
  have n: "unat (ufo_NumFrames ?f + 1) = Suc (unat (ufo_NumFrames ?f))" using small by (simp add: unat_word_ariths)
  have e: "ufo_Frames ?f + unat (ufo_NumFrames ?f) = unat (uf_NumFrames uf)" using t nz by (simp add: tight_def)
  have "frame_list ?uf (?f\<lparr>ufo_NumFrames := ufo_NumFrames ?f + 1\<rparr>) = frame_list uf ?f @ [fr]"
    using take_put [of "ufo_Frames ?f" "unat (ufo_NumFrames ?f)" "uf_Frames uf" fr] room n e
    by (simp add: frame_list_def fr)
  moreover have "frame_list ?uf f = frame_list uf f"
    if "ufo_Frames f + unat (ufo_NumFrames f) \<le> unat (uf_NumFrames uf)" for f
    using take_other [OF that] by (simp add: frame_list_def fr)
  ultimately show ?thesis
    using sp by (simp add: view_def format_core_def)
qed

lemma tight_append_frame:
  assumes i: "in_stream uf s F0 (Suc r)" and t: "tight uf s" and nz: "us_NumFormats (uf_Streams uf ! s) \<noteq> 0"
    and small: "unat (ufo_NumFrames (uf_Formats uf ! cur_format uf s)) < 255"
  shows "tight (append_frame uf (cur_format uf s) fr) s"
proof -
  have n: "unat (uf_NumFrames uf + 1) = Suc (unat (uf_NumFrames uf))"
    using i by (intro inc_u16 [where k = "length (uf_Frames uf)"]) (auto simp: uvc_wf_def in_stream_def)
  have m: "unat (ufo_NumFrames (uf_Formats uf ! cur_format uf s) + 1) = Suc (unat (ufo_NumFrames (uf_Formats uf ! cur_format uf s)))"
    using small by (simp add: unat_word_ariths)
  have "cur_format uf s < length (uf_Formats uf)" using cur_format_less(1) [OF i nz] i by (auto simp: in_stream_def uvc_wf_def)
  moreover have "cur_format (append_frame uf (cur_format uf s) fr) s = cur_format uf s"
    by (simp add: cur_format_def append_frame_def)
  ultimately show ?thesis using t n m nz by (simp add: tight_def) (simp add: append_frame_def)
qed

text \<open>One descriptor at a time.\<close>

lemma length_view: "in_stream uf s F0 r \<Longrightarrow> length (view uf s) = unat (us_NumFormats (uf_Streams uf ! s))"
  by (auto simp: view_def format_list_def in_stream_def uvc_wf_def stream_ok_def)

lemma last_view:
  assumes i: "in_stream uf s F0 r" and nz: "us_NumFormats (uf_Streams uf ! s) \<noteq> 0"
  shows "last (view uf s) = (format_core (uf_Formats uf ! cur_format uf s), frame_list uf (uf_Formats uf ! cur_format uf s))"
    and "view uf s \<noteq> []"
  using format_list_split(1) [OF i nz] by (simp_all add: view_def)

lemma format_core_row [simp]: "frame_row (format_core f) t = frame_row f t"
  by (simp add: frame_row_def format_core_def)

lemma add_frame_eq:
  assumes i: "in_stream uf s F0 (Suc r)" and nz: "us_NumFormats (uf_Streams uf ! s) \<noteq> 0"
  shows "\<exists>ok. uvcAddFrame uf s t d = Some (case spec_frame t d (uf_Formats uf ! cur_format uf s) of
    None \<Rightarrow> uf | Some fr \<Rightarrow> append_frame uf (cur_format uf s) fr, ok) \<and>
    (\<not> ok \<longrightarrow> spec_frame t d (uf_Formats uf ! cur_format uf s) = None)"
proof -
  let ?j = "cur_format uf s"
  let ?f = "uf_Formats uf ! ?j"
  have w: "uvc_wf uf" using i by (simp add: in_stream_def)
  have j: "?j < unat (uf_NumFormats uf)" using cur_format_less(1) [OF i nz] .
  have jl: "?j < length (uf_Formats uf)" using j w by (simp add: uvc_wf_def)
  have nf: "unat (uf_NumFrames uf) < length (uf_Frames uf)" using i by (auto simp: in_stream_def)
  have "payload_ok ?f" using w j by (simp add: uvc_wf_def format_ok_def)
  from frame_row_ok [OF this, of t] obtain row where row: "frame_row ?f t = Some row"
    "\<forall>up. row = Some up \<longrightarrow> row_fits up \<and> up_FrameType up \<noteq> 0" by blast
  have j': "us_Formats (uf_Streams uf ! s) + unat (us_NumFormats (uf_Streams uf ! s)) - 1 = ?j"
    by (simp add: cur_format_def)
  note unf = uvcAddFrame_def arr_get_Some [OF stream_lt [OF i]] bind.bind_lunit Let_def if_not_P [OF nz]
    j' arr_get_Some [OF jl] row(1)
  show ?thesis
  proof (cases row)
    case None
    then show ?thesis unfolding unf spec_frame_def by simp blast
  next
    case (Some up)
    then obtain fr where fr: "new_frame up d = Some fr" using new_frame_ok row(2) by blast
    show ?thesis
      using Some fr nf jl unfolding unf spec_frame_def
      by (cases fr) (simp add: append_frame_def, blast)+
  qed
qed

lemma small_last:
  assumes "spec_small (butlast v @ [(f, fs @ [x])])"
  shows "length fs < 255"
  using assms by (auto simp: spec_small_def)

lemma refine_frame:
  assumes i: "in_stream uf s F0 (Suc r)" and t: "tight uf s" and small: "spec_small (spec_add_frame ty d (view uf s))"
  shows "\<exists>uf' ok. uvcAddFrame uf s ty d = Some (uf', ok) \<and> tight uf' s \<and>
    view uf' s = spec_add_frame ty d (view uf s) \<and> (\<not> ok \<longrightarrow> uf' = uf)"
proof (cases "us_NumFormats (uf_Streams uf ! s) = 0")
  case True
  then have "view uf s = []" using length_view [OF i] by simp
  then show ?thesis using True t stream_lt [OF i] by (simp add: uvcAddFrame_def spec_add_frame_def) blast
next
  case nz: False
  let ?f = "uf_Formats uf ! cur_format uf s"
  obtain ok where ok: "uvcAddFrame uf s ty d = Some (case spec_frame ty d ?f of
    None \<Rightarrow> uf | Some fr \<Rightarrow> append_frame uf (cur_format uf s) fr, ok)" "\<not> ok \<longrightarrow> spec_frame ty d ?f = None"
    using add_frame_eq [OF i nz] by blast
  note l = last_view [OF i nz]
  have sc: "spec_frame ty d (format_core ?f) = spec_frame ty d ?f" by (simp add: spec_frame_def)
  show ?thesis
  proof (cases "spec_frame ty d ?f")
    case None
    then show ?thesis using ok t l sc by (simp add: spec_add_frame_def)
  next
    case (Some fr)
    have sp: "spec_add_frame ty d (view uf s) =
        butlast (view uf s) @ [(fst (last (view uf s)), snd (last (view uf s)) @ [fr])]"
      using l Some sc by (simp add: spec_add_frame_def)
    have "length (frame_list uf ?f) < 255" using small_last [OF small [unfolded sp]] l(1) by simp
    moreover have "ufo_Frames ?f + unat (ufo_NumFrames ?f) = unat (uf_NumFrames uf)" using t nz by (simp add: tight_def)
    then have "length (frame_list uf ?f) = unat (ufo_NumFrames ?f)"
      using i by (auto simp: frame_list_def in_stream_def)
    ultimately have c: "unat (ufo_NumFrames ?f) < 255" by simp
    show ?thesis
      using ok Some view_append_frame [OF i t nz c, of fr] tight_append_frame [OF i t nz c, of fr] sp by auto
  qed
qed

lemma new_format_place:
  "new_format t d n old = map_option (\<lambda>f. f\<lparr>ufo_Frames := n\<rparr>) (new_format t d 0 old)"
  by (simp add: new_format_def map_option_bind comp_def)

lemma skip_view [simp]: "tight (skip_desc u) s = tight u s" "view (skip_desc u) s = view u s"
  by (simp_all add: skip_desc_def tight_def cur_format_def view_def format_list_def frame_list_def)

lemma header_view:
  assumes "s < length (uf_Streams uf)" and "us_Formats us' = us_Formats (uf_Streams uf ! s)"
    and "us_NumFormats us' = us_NumFormats (uf_Streams uf ! s)"
  shows "tight (uf\<lparr>uf_Streams := (uf_Streams uf)[s := us']\<rparr>) s = tight uf s"
    and "view (uf\<lparr>uf_Streams := (uf_Streams uf)[s := us']\<rparr>) s = view uf s"
  using assms by (simp_all add: tight_def cur_format_def view_def format_list_def frame_list_def)

lemma refine_desc:
  assumes i: "in_stream uf s F0 (Suc r)" and t: "tight uf s" and small: "spec_small (spec_desc (view uf s) d)"
  shows "\<exists>uf'. uvcAddStreamDesc uf s d = Some uf' \<and> tight uf' s \<and> view uf' s = spec_desc (view uf s) d"
proof (cases "length d < 3")
  case True
  then show ?thesis using t by (simp add: uvcAddStreamDesc_def spec_desc_def)
next
  case False
  then have b: "rd8 d 2 = Some (d ! 2)" by (simp add: rd8_def)
  let ?t = "unat (d ! 2)" and ?us = "uf_Streams uf ! s"
  consider (header) "?t = 1 \<or> ?t = 2" | (format) "\<not> (?t = 1 \<or> ?t = 2)" "?t \<in> set UVC_FORMAT_TYPES"
    | (other) "\<not> (?t = 1 \<or> ?t = 2)" "?t \<notin> set UVC_FORMAT_TYPES" by blast
  then show ?thesis
  proof cases
    case header
    have "\<exists>h. uvcAddStreamHeader ?t d ?us = Some h \<and>
        (\<forall>us'. h = Some us' \<longrightarrow> us_Formats us' = us_Formats ?us \<and> us_NumFormats us' = us_NumFormats ?us)"
      by (simp add: uvcAddStreamHeader_def rd_simps)
    then obtain h where h: "uvcAddStreamHeader ?t d ?us = Some h"
      "\<forall>us'. h = Some us' \<longrightarrow> us_Formats us' = us_Formats ?us \<and> us_NumFormats us' = us_NumFormats ?us" by blast
    have e: "uvcAddStreamDesc uf s d =
        (case h of None \<Rightarrow> Some (skip_desc uf) | Some us' \<Rightarrow> upd_stream uf s (\<lambda>_. us'))"
      unfolding uvcAddStreamDesc_def b bind.bind_lunit Let_def if_P [OF header] if_not_P [OF False]
        arr_get_Some [OF stream_lt [OF i]] h(1) by simp
    have sp: "spec_desc (view uf s) d = view uf s" using header False by (simp add: spec_desc_def)
    show ?thesis
      using e h(2) t stream_lt [OF i] header_view [OF stream_lt [OF i]]
      by (cases h) (simp_all add: sp upd_stream_Some)
  next
    case format
    have room: "unat (uf_NumFormats uf) < length (uf_Formats uf)" using i by (auto simp: in_stream_def)
    have z: "uf_Formats uf ! unat (uf_NumFormats uf) = zero_format" using room i by (auto simp: in_stream_def uvc_wf_def)
    obtain f where f: "new_format ?t d 0 zero_format = Some f" "ufo_Frames f = 0" "ufo_NumFrames f = 0"
      using new_format_ok [of d ?t 0 zero_format] False by (auto simp: zero_format_def)
    let ?g = "f\<lparr>ufo_Frames := unat (uf_NumFrames uf)\<rparr>"
    have "uvcAddStreamDesc uf s d = uvcAddFormat uf s ?t d"
      unfolding uvcAddStreamDesc_def b bind.bind_lunit Let_def if_not_P [OF format(1)] if_not_P [OF False]
      using format by simp
    then have e: "uvcAddStreamDesc uf s d = Some (append_format uf s ?g)"
      using room z f(1) upd_append [OF stream_lt [OF i], where f = ?g]
      by (simp add: uvcAddFormat_def Let_def new_format_place [of _ _ "unat (uf_NumFrames uf)"])
    have sp: "spec_desc (view uf s) d = view uf s @ [(f, [])]" using format False f(1) by (simp add: spec_desc_def)
    have c: "unat (us_NumFormats ?us) < 255"
      using small length_view [OF i] by (simp add: sp spec_small_def)
    have "view (append_format uf s ?g) s = view uf s @ [(format_core ?g, frame_list uf ?g)]"
      by (rule view_append_format [OF stream_lt [OF i] t c room])
    moreover have "format_core ?g = f" "frame_list uf ?g = []" using f by (simp_all add: format_core_def frame_list_def)
    ultimately show ?thesis using e sp tight_append_format [OF i t c, of ?g] f by simp
  next
    case other
    then have e: "uvcAddStreamDesc uf s d =
        do { r \<leftarrow> uvcAddFrame uf s ?t d; Some (if snd r then fst r else skip_desc (fst r)) }"
      unfolding uvcAddStreamDesc_def b bind.bind_lunit Let_def if_not_P [OF other(1)] if_not_P [OF False] by simp
    have sp: "spec_desc (view uf s) d = spec_add_frame ?t d (view uf s)" using other False by (simp add: spec_desc_def)
    from refine_frame [OF i t, of ?t d] small sp obtain uf' ok where
      u: "uvcAddFrame uf s ?t d = Some (uf', ok)" "tight uf' s" "view uf' s = spec_add_frame ?t d (view uf s)" by auto
    then show ?thesis using e sp by simp
  qed
qed

lemma refine_walk:
  "in_stream uf s F0 (length ds + r) \<Longrightarrow> tight uf s \<Longrightarrow> spec_small (foldl spec_desc (view uf s) ds) \<Longrightarrow>
   \<exists>uf'. walk_stream uf s ds = Some uf' \<and> tight uf' s \<and> view uf' s = foldl spec_desc (view uf s) ds"
proof (induction ds arbitrary: uf)
  case (Cons d ds)
  have i: "in_stream uf s F0 (Suc (length ds + r))" using Cons.prems(1) by simp
  have small: "spec_small (spec_desc (view uf s) d)"
    using Cons.prems(3) grows_small [OF grows_foldl] by simp
  from refine_desc [OF i Cons.prems(2) small] obtain u1 where
    u1: "uvcAddStreamDesc uf s d = Some u1" "tight u1 s" "view u1 s = spec_desc (view uf s) d" by blast
  have "in_stream u1 s F0 (length ds + r)" using stream_desc_ok [OF i, of d] u1(1) by auto
  from Cons.IH [OF this u1(2)] Cons.prems(3) u1 show ?case by auto
qed simp

section \<open>Whole streams\<close>

text \<open>The second format of a stream whose MJPEG pictures carry H.264, on the same frames.\<close>

definition spec_twin :: "bool \<Rightarrow> spec_formats \<Rightarrow> spec_formats" where
  "spec_twin xu acc =
     (if xu then (case find (\<lambda>(f, fs). ufo_Payload f = Some UVC_ROW_MJPEG \<and> fs \<noteq> []) acc of
        None \<Rightarrow> [] | Some (f, fs) \<Rightarrow> [(f\<lparr>ufo_Payload := Some UVC_ROW_EMBEDDED\<rparr>, fs)]) else [])"

lemma find_map: "find P (map h xs) = map_option h (find (P \<circ> h) xs)"
  by (induction xs) auto

lemma format_list_ok:
  assumes i: "in_stream uf s F0 r" and f: "f \<in> set (format_list uf s)"
  shows "format_ok (unat (uf_NumFrames uf)) f"
proof -
  have w: "uvc_wf uf" and so: "stream_ok (unat (uf_NumFormats uf)) (uf_Streams uf ! s)"
    using i by (auto simp: in_stream_def uvc_wf_def)
  from formats_nth [OF w so formats_Some [OF w so]] f w show ?thesis
    by (fastforce simp: format_list_def uvc_wf_def)
qed

lemma is_carrier_view:
  assumes "in_stream uf s F0 r" and "f \<in> set (format_list uf s)"
  shows "is_carrier f \<longleftrightarrow> ufo_Payload (format_core f) = Some UVC_ROW_MJPEG \<and> frame_list uf f \<noteq> []"
proof -
  have "length (frame_list uf f) = unat (ufo_NumFrames f)"
    using format_list_ok [OF assms] assms(1) by (auto simp: frame_list_def format_ok_def in_stream_def)
  then have "frame_list uf f \<noteq> [] \<longleftrightarrow> ufo_NumFrames f \<noteq> 0" by (auto simp: unat_eq_0)
  then show ?thesis by (simp add: is_carrier_def format_core_def)
qed

lemma refine_embedded:
  assumes i: "in_stream uf s F0 0" and t: "tight uf s" and small: "length (view uf s) < 255"
    and room: "unat (uf_NumFormats uf) + (unat (uf_NumFrames uf) - F0) \<le> length (uf_Formats uf)"
  shows "\<exists>uf'. uvcAddEmbeddedFormat uf s = Some uf' \<and>
    view uf' s = view uf s @ spec_twin (uvcFindH264Unit uf \<noteq> Some None) (view uf s)"
proof -
  have w: "uvc_wf uf" using i by (simp add: in_stream_def)
  let ?us = "uf_Streams uf ! s"
  have so: "stream_ok (unat (uf_NumFormats uf)) ?us" using i by (auto simp: in_stream_def uvc_wf_def)
  obtain xu where xu: "uvcFindH264Unit uf = Some xu" using uvcFindH264Unit_ok [OF w] by blast
  have fs: "formats uf ?us = Some (format_list uf s)" using formats_Some [OF w so] by (simp add: format_list_def)
  note unf = uvcAddEmbeddedFormat_def xu bind.bind_lunit arr_get_Some [OF stream_lt [OF i]] fs
  have fnd: "find (\<lambda>(f, fs). ufo_Payload f = Some UVC_ROW_MJPEG \<and> fs \<noteq> []) (view uf s) =
      map_option (\<lambda>f. (format_core f, frame_list uf f)) (find is_carrier (format_list uf s))"
    unfolding view_def find_map by (rule arg_cong [where f = "map_option _"], rule find_cong)
      (simp_all add: is_carrier_view [OF i])
  show ?thesis
  proof (cases "xu = None \<or> find is_carrier (format_list uf s) = None")
    case True
    then show ?thesis unfolding unf spec_twin_def fnd by auto
  next
    case False
    then obtain f where f: "find is_carrier (format_list uf s) = Some f" by auto
    then have fc: "f \<in> set (format_list uf s)" "is_carrier f" by (auto simp: find_Some_iff in_set_conv_nth)
    have fo: "format_ok (unat (uf_NumFrames uf)) f" by (rule format_list_ok [OF i fc(1)])
    obtain j where "j < unat (uf_NumFormats uf)" "us_Formats ?us \<le> j" "f = uf_Formats uf ! j"
      using formats_nth [OF w so fs fc(1)] by blast
    then have "F0 \<le> ufo_Frames f" using i by (auto simp: in_stream_def)
    moreover have "0 < unat (ufo_NumFrames f)" using fc(2) by (simp add: is_carrier_def unat_gt_0)
    ultimately have "F0 < unat (uf_NumFrames uf)" using fo by (auto simp: format_ok_def)
    then have rm: "unat (uf_NumFormats uf) < length (uf_Formats uf)" using room by simp
    let ?t = "f\<lparr>ufo_Payload := Some UVC_ROW_EMBEDDED\<rparr>"
    have c: "unat (us_NumFormats ?us) < 255" using small length_view [OF i] by simp
    have e: "uvcAddEmbeddedFormat uf s = Some (append_format uf s ?t)"
      unfolding unf using False f rm upd_append [OF stream_lt [OF i], where f = ?t] by (cases xu) simp_all
    have "format_core ?t = (format_core f)\<lparr>ufo_Payload := Some UVC_ROW_EMBEDDED\<rparr>" "frame_list uf ?t = frame_list uf f"
      by (simp_all add: format_core_def frame_list_def)
    then have "view (append_format uf s ?t) s = view uf s @ spec_twin (uvcFindH264Unit uf \<noteq> Some None) (view uf s)"
      using view_append_format [OF stream_lt [OF i] t c rm, of ?t] False f fnd xu by (simp add: spec_twin_def)
    then show ?thesis using e by blast
  qed
qed

lemma refine_stream:
  assumes b: "between uf (Suc k) (length ds + d)" and small: "spec_small (spec_stream ds)" "length (spec_stream ds) < 255"
  shows "\<exists>uf1 s uf2 uf'. uvcAddStream uf i = Some (uf1, s) \<and> walk_stream uf1 s ds = Some uf2 \<and>
    uvcAddEmbeddedFormat uf2 s = Some uf' \<and> view uf2 s = spec_stream ds \<and>
    view uf' s = spec_stream ds @ spec_twin (uvcFindH264Unit uf \<noteq> Some None) (spec_stream ds)"
proof -
  let ?F0 = "unat (uf_NumFrames uf)"
  obtain uf1 s where 1: "uvcAddStream uf i = Some (uf1, s)" "in_stream uf1 s ?F0 (length ds + d)"
    "uf_NumEntities uf1 = uf_NumEntities uf" "uf_Entities uf1 = uf_Entities uf"
    using add_stream_ok [OF b] by blast
  have sn: "s = unat (uf_NumStreams uf)" and z: "uf_Streams uf ! s = zero_stream"
    using 1(1) b by (auto simp: uvcAddStream_def upd_stream_def Let_def between_def uvc_wf_def arr_get_def arr_put_def
        split: if_splits bind_splits)
  have "uf_Streams uf1 ! s = zero_stream\<lparr>us_IfNum := i, us_Formats := unat (uf_NumFormats uf)\<rparr>"
    "uf_NumFormats uf1 = uf_NumFormats uf"
    using 1(1) b z by (auto simp: sn uvcAddStream_def upd_stream_def Let_def between_def)
  then have t: "tight uf1 s" and v: "view uf1 s = []"
    by (simp_all add: tight_def zero_stream_def view_def format_list_def)
  from refine_walk [OF 1(2) t] small(1) v obtain uf2 where
    2: "walk_stream uf1 s ds = Some uf2" "tight uf2 s" "view uf2 s = spec_stream ds"
    by (auto simp: spec_stream_def)
  have i2: "in_stream uf2 s ?F0 d" "same_shape uf1 uf2" using walk_stream_ok [OF 1(2)] 2(1) by auto
  then have i0: "in_stream uf2 s ?F0 0" using in_stream_weaken [of uf2 s ?F0 0 d] by simp
  have "uvcFindH264Unit uf2 = uvcFindH264Unit uf"
    using 1(3,4) i2(2) by (simp add: uvcFindH264Unit_def entities_def same_shape_def)
  moreover have "unat (uf_NumFormats uf2) + (unat (uf_NumFrames uf2) - ?F0) \<le> length (uf_Formats uf2)"
    using i0 by (auto simp: in_stream_def)
  ultimately show ?thesis using refine_embedded [OF i0 2(2)] 1(1) 2(1,3) small(2) by auto
qed

end
