(* ===== verification/Uvc_Lookup.thy ===== *)
theory Uvc_Lookup
  imports Uvc_Model
begin

text \<open>
  Laws of the lookups in the model of a video function: what interval, format and frame a
  request is given.
\<close>

section \<open>Intervals\<close>

text \<open>The intervals a frame lists, as they read.\<close>

definition interval_list :: "uvcFrame \<Rightarrow> u32 list" where
  "interval_list ufr = map (\<lambda>i. the (uvcFrameInterval ufr i)) [0..<unat (ufr_NumIntervals ufr)]"

lemma interval_readable:
  assumes "frame_ok ufr" and "ufr_NumIntervals ufr \<noteq> 0" and "i < unat (ufr_NumIntervals ufr)"
  shows "uvcFrameInterval ufr i = Some (interval_list ufr ! i)"
proof -
  have "4 * i + 4 \<le> length (ufr_Intervals ufr)" using assms by (simp add: frame_ok_def)
  from frame_interval [OF this] assms(3) show ?thesis by (auto simp: interval_list_def)
qed

lemma snap_loop_spec:
  "(\<And>i. i \<in> set is \<Longrightarrow> uvcFrameInterval ufr i = Some (f i)) \<Longrightarrow>
   \<exists>r. snap_loop ufr x is best = Some r \<and> (r = best \<or> r \<in> f ` set is) \<and>
     dist32 r x \<le> dist32 best x \<and> (\<forall>i \<in> set is. dist32 r x \<le> dist32 (f i) x)"
proof (induction "is" arbitrary: best)
  case (Cons i "is")
  let ?b = "if dist32 (f i) x < dist32 best x then f i else best"
  from Cons.IH [of ?b] Cons.prems obtain r where
    r: "snap_loop ufr x is ?b = Some r" "r = ?b \<or> r \<in> f ` set is" "dist32 r x \<le> dist32 ?b x"
      "\<forall>i \<in> set is. dist32 r x \<le> dist32 (f i) x" by auto
  have "snap_loop ufr x (i # is) best = Some r" using r(1) Cons.prems by simp
  moreover have "r = best \<or> r \<in> f ` set (i # is)" using r(2) by (auto split: if_splits)
  moreover have "dist32 r x \<le> dist32 best x" "dist32 r x \<le> dist32 (f i) x"
    using r(3) by (auto split: if_splits)
  ultimately show ?case using r(4) by auto
qed simp

lemma snap_discrete:
  assumes f: "frame_ok ufr" and n: "ufr_NumIntervals ufr \<noteq> 0" and x: "x \<noteq> 0"
  shows "\<exists>r. uvcSnapInterval ufr x = Some r \<and> r \<in> set (interval_list ufr) \<and>
    (\<forall>c \<in> set (interval_list ufr). dist32 r x \<le> dist32 c x)"
proof -
  let ?n = "unat (ufr_NumIntervals ufr)" and ?l = "interval_list ufr"
  have n0: "0 < ?n" using n by (simp add: unat_gt_0)
  have len: "length ?l = ?n" by (simp add: interval_list_def)
  note rd = interval_readable [OF f n]
  have "\<And>i. i \<in> set [1..<?n] \<Longrightarrow> uvcFrameInterval ufr i = Some (?l ! i)" using rd by simp
  from snap_loop_spec [OF this, where x = x and best = "?l ! 0"] obtain r where
    r: "snap_loop ufr x [1..<?n] (?l ! 0) = Some r" "r = ?l ! 0 \<or> r \<in> (!) ?l ` set [1..<?n]"
      "dist32 r x \<le> dist32 (?l ! 0) x" "\<forall>i \<in> set [1..<?n]. dist32 r x \<le> dist32 (?l ! i) x" by blast
  have e: "uvcSnapInterval ufr x = Some r" using x n r(1) rd [OF n0] by (simp add: uvcSnapInterval_def)
  have m: "r \<in> set ?l" using r(2) n0 len by auto
  have "dist32 r x \<le> dist32 c x" if "c \<in> set ?l" for c
  proof -
    obtain i where "i < ?n" "c = ?l ! i" using \<open>c \<in> set ?l\<close> len by (auto simp: in_set_conv_nth)
    then show ?thesis using r(3,4) by (cases i) auto
  qed
  then show ?thesis using e m by blast
qed

text \<open>Rounding to the nearest step of a range.\<close>

lemma round_step:
  fixes d s :: nat
  assumes "0 < s"
  defines "k \<equiv> (d + s div 2) div s"
  shows "2 * (k * s) \<le> 2 * d + s" and "2 * d \<le> 2 * (k * s) + s"
proof -
  have "k * s \<le> d + s div 2" by (simp add: k_def)
  then show "2 * (k * s) \<le> 2 * d + s" by linarith
  have "d + s div 2 < k * s + s"
    using assms(1) div_mult_mod_eq [of "d + s div 2" s] mod_less_divisor [of s "d + s div 2"]
    unfolding k_def by linarith
  then show "2 * d \<le> 2 * (k * s) + s" by linarith
qed

lemma round_stays:
  fixes d s w :: nat
  assumes "0 < s" and "d < w" and "s dvd w"
  shows "(d + s div 2) div s * s \<le> w"
proof -
  obtain m where m: "w = s * m" using assms(3) ..
  have "d + s div 2 < s * m + s" using assms(1,2) m by linarith
  then have "(d + s div 2) div s < Suc m"
    using assms(1) by (simp add: div_less_iff_less_mult algebra_simps)
  then show ?thesis using m by (simp add: mult.commute)
qed

lemma near:
  fixes a x p s :: nat
  assumes "a \<le> x"
  shows "2 * p \<le> 2 * (x - a) + s \<Longrightarrow> 2 * (a + p - x) \<le> s"
    and "2 * (x - a) \<le> 2 * p + s \<Longrightarrow> 2 * (x - (a + p)) \<le> s"
  using assms by linarith+

lemma snap_range:
  assumes f: "frame_ok ufr" and n: "ufr_NumIntervals ufr = 0" and x: "x \<noteq> 0"
    and ab: "uvcFrameMinInterval ufr = Some a" "uvcFrameMaxInterval ufr = Some b" "uvcFrameInterval ufr 2 = Some s"
    and wrap: "unat b + unat s < 2 ^ 32" and le: "a \<le> b"
  shows "\<exists>r. uvcSnapInterval ufr x = Some r \<and> a \<le> r \<and> (s udvd (b - a) \<longrightarrow> r \<le> b) \<and>
    (a \<le> x \<longrightarrow> x \<le> b \<longrightarrow> 2 * unat (dist32 r x) \<le> unat s)"
proof -
  have s0: "0 < unat s"
    using ab(3) frame_interval [of 2 ufr] f n by (auto simp: frame_ok_def unat_gt_0)
  consider "x \<le> a" | "\<not> x \<le> a" "b \<le> x" | "a < x" "x < b" by fastforce
  then show ?thesis
  proof cases
    case 1
    then show ?thesis using x n ab le by (auto simp: uvcSnapInterval_def dist32_def)
  next
    case 2
    then show ?thesis using x n ab le by (auto simp: uvcSnapInterval_def dist32_def)
  next
    case 3
    let ?d = "unat x - unat a"
    let ?k = "(?d + unat s div 2) div unat s"
    let ?r = "a + ((x - a + s div 2) div s) * s"
    have xb: "unat a < unat x" "unat x < unat b" using 3 by (simp_all add: word_less_nat_alt)
    have d: "unat (x - a) = ?d" using 3 by (simp add: unat_sub less_imp_le)
    have s2: "unat (s div 2) = unat s div 2" by (simp add: unat_div)
    have "?d + unat s div 2 < 2 ^ 32" using wrap xb by linarith
    then have sum: "unat (x - a + s div 2) = ?d + unat s div 2"
      by (simp add: unat_word_ariths d s2)
    then have k: "unat ((x - a + s div 2) div s) = ?k" by (simp add: unat_div)
    have ks: "?k * unat s \<le> ?d + unat s div 2" by simp
    have "unat a + ?k * unat s < 2 ^ 32" using ks wrap xb by linarith
    have mult: "unat (a + q * s) = unat a + unat q * unat s" if "unat a + unat q * unat s < 2 ^ 32" for q
      using that by (simp add: unat_word_ariths)
    have r: "unat ?r = unat a + ?k * unat s"
      using mult [of "(x - a + s div 2) div s"] \<open>unat a + ?k * unat s < 2 ^ 32\<close> unfolding k by simp
    have "\<not> x \<le> a" "\<not> b \<le> x" using 3 by simp_all
    then have e: "uvcSnapInterval ufr x = Some ?r" using x n ab by (simp add: uvcSnapInterval_def)
    have "a \<le> ?r" using r by (simp add: word_le_nat_alt)
    moreover have "?r \<le> b" if "s udvd (b - a)"
    proof -
      have w: "unat (b - a) = unat b - unat a" using le by (simp add: unat_sub)
      have "unat s dvd unat b - unat a" using that w by (simp add: udvd_iff_dvd)
      moreover have "?d < unat b - unat a" using xb by linarith
      ultimately have "?k * unat s \<le> unat b - unat a" using round_stays [OF s0] by blast
      then show ?thesis using r xb by (simp add: word_le_nat_alt)
    qed
    moreover have "2 * unat (dist32 ?r x) \<le> unat s"
    proof (cases "x < ?r")
      case True
      then have "unat (?r - x) = unat ?r - unat x" by (simp add: unat_sub less_imp_le)
      then show ?thesis using near(1) [OF less_imp_le [OF xb(1)] round_step(1) [OF s0]] True
        unfolding dist32_def r by simp
    next
      case False
      then have "unat (x - ?r) = unat x - unat ?r" by (simp add: unat_sub)
      then show ?thesis using near(2) [OF less_imp_le [OF xb(1)] round_step(2) [OF s0]] False
        unfolding dist32_def r by simp
    qed
    ultimately show ?thesis using e by blast
  qed
qed

section \<open>Formats\<close>

lemma fourcc_ok:
  assumes "payload_ok f" and "uvcIsStreamable f"
  shows "uvcFourCC f \<noteq> None"
proof -
  obtain i where i: "ufo_Payload f = Some i" "i < length UvcPayloads" "up_FormatSize (UvcPayloads ! i) \<le> length (ufo_Desc f)"
    using assms by (auto simp: payload_ok_def uvcIsStreamable_def)
  then have "row_fits (UvcPayloads ! i)" using rows_fit by simp
  then show ?thesis using i by (auto simp: uvcFourCC_def row_of_def row_fits_def rd_be32_def)
qed

lemma find_code:
  assumes "fourcc \<noteq> 0"
    and "\<forall>f \<in> set fos. uvcIsStreamable f \<longrightarrow> uvcFourCC f \<noteq> None"
  shows "find_format fourcc i fos best = Some (case index_of (\<lambda>f. uvcIsStreamable f \<and> uvcFourCC f = Some fourcc) fos of
     Some j \<Rightarrow> Some (i + j) | None \<Rightarrow> map_option fst best)"
  using assms(2)
proof (induction fos arbitrary: i)
  case (Cons f fos)
  then show ?case using assms(1) by (cases "uvcFourCC f") (auto split: option.split)
qed simp

lemma index_of_Some:
  "index_of P xs = Some i \<longleftrightarrow> i < length xs \<and> P (xs ! i) \<and> (\<forall>j < i. \<not> P (xs ! j))"
proof (induction xs arbitrary: i)
  case (Cons x xs)
  then show ?case by (cases i) (auto simp: less_Suc_eq_0_disj)
qed simp

lemma index_of_None: "index_of P xs = None \<longleftrightarrow> (\<forall>x \<in> set xs. \<not> P x)"
  by (induction xs) auto

text \<open>The best format so far in a prefix of the list.\<close>

definition earliest :: "uvcFormat list \<Rightarrow> (nat \<times> nat) option \<Rightarrow> bool" where
  "earliest fos best \<longleftrightarrow> (case best of
     None \<Rightarrow> \<forall>f \<in> set fos. \<not> uvcIsStreamable f
   | Some (j, q) \<Rightarrow> j < length fos \<and> uvcIsStreamable (fos ! j) \<and> ufo_Payload (fos ! j) = Some q \<and>
       (\<forall>k < length fos. uvcIsStreamable (fos ! k) \<longrightarrow>
          q \<le> the (ufo_Payload (fos ! k)) \<and> (k < j \<longrightarrow> q < the (ufo_Payload (fos ! k)))))"

lemma find_earliest:
  "earliest done best \<Longrightarrow> \<exists>b. find_format 0 (length done) fos best = Some (map_option fst b) \<and> earliest (done @ fos) b"
proof (induction fos arbitrary: "done" best)
  case (Cons f fos)
  let ?b = "case (best, ufo_Payload f) of (_, None) \<Rightarrow> best | (None, Some r) \<Rightarrow> Some (length done, r)
     | (Some (j, q), Some r) \<Rightarrow> if r < q then Some (length done, r) else best"
  show ?case
  proof (cases "uvcIsStreamable f")
    case True
    then obtain r where r: "ufo_Payload f = Some r" by (auto simp: uvcIsStreamable_def)
    have "earliest (done @ [f]) ?b"
      using Cons.prems True r
      by (auto simp: earliest_def nth_append less_Suc_eq dest: nth_mem split: option.splits)
    from Cons.IH [OF this] True show ?thesis by simp
  next
    case False
    have "earliest (done @ [f]) best"
      using Cons.prems False by (auto simp: earliest_def nth_append less_Suc_eq split: option.splits)
    from Cons.IH [OF this] False show ?thesis by simp
  qed
qed auto

lemma find_default:
  "\<exists>r. uvcFindFormat fos 0 = Some r \<and> (r = None \<longleftrightarrow> (\<forall>f \<in> set fos. \<not> uvcIsStreamable f)) \<and>
      (\<forall>i. r = Some i \<longrightarrow> i < length fos \<and> uvcIsStreamable (fos ! i) \<and>
        (\<forall>k < length fos. uvcIsStreamable (fos ! k) \<longrightarrow>
           the (ufo_Payload (fos ! i)) \<le> the (ufo_Payload (fos ! k)) \<and>
           (k < i \<longrightarrow> the (ufo_Payload (fos ! i)) < the (ufo_Payload (fos ! k)))))"
proof -
  have "earliest [] None" by (simp add: earliest_def)
  from find_earliest [OF this, of fos] obtain b where
    b: "uvcFindFormat fos 0 = Some (map_option fst b)" "earliest fos b" by (auto simp: uvcFindFormat_def)
  show ?thesis
  proof (cases b)
    case None
    then show ?thesis using b by (simp add: earliest_def)
  next
    case (Some jq)
    then show ?thesis using b by (cases jq) (auto simp: earliest_def)
  qed
qed

lemma find_named:
  assumes "\<forall>f \<in> set fos. payload_ok f"
  shows "c \<noteq> 0 \<longrightarrow> uvcFindFormat fos c = Some (index_of (\<lambda>f. uvcIsStreamable f \<and> uvcFourCC f = Some c) fos)"
proof
  assume c: "c \<noteq> 0"
  have "\<forall>f \<in> set fos. uvcIsStreamable f \<longrightarrow> uvcFourCC f \<noteq> None" using assms fourcc_ok by blast
  from find_code [OF c this, of 0 None] show
    "uvcFindFormat fos c = Some (index_of (\<lambda>f. uvcIsStreamable f \<and> uvcFourCC f = Some c) fos)"
    by (auto simp: uvcFindFormat_def split: option.splits)
qed

lemma smallest_loop_spec:
  "j < length done \<Longrightarrow> done ! j = best \<Longrightarrow> \<forall>f \<in> set done. pixels best \<le> pixels f \<Longrightarrow>
   smallest_loop (length done) fs j best < length (done @ fs) \<and>
   (\<forall>f \<in> set (done @ fs). pixels ((done @ fs) ! smallest_loop (length done) fs j best) \<le> pixels f)"
proof (induction fs arbitrary: "done" j best)
  case (Cons f fs)
  show ?case
  proof (cases "pixels f < pixels best")
    case True
    then have "\<forall>g \<in> set (done @ [f]). pixels f \<le> pixels g" using Cons.prems(3) by fastforce
    with Cons.IH [of "length done" "done @ [f]" f] True show ?thesis by (simp add: nth_append)
  next
    case False
    then have "\<forall>g \<in> set (done @ [f]). pixels best \<le> pixels g" using Cons.prems(3) by fastforce
    with Cons.IH [of j "done @ [f]" best] Cons.prems False show ?thesis by (simp add: nth_append)
  qed
qed (auto simp: nth_append)

end
