(* ===== verification/Uvc_Stream.thy ===== *)
theory Uvc_Stream
  imports Uvc_Desc
begin

text \<open>
  The video stream (\<open>classes/video/uvc_stream.c\<close>), its two transports (\<open>uvc_bulk.c\<close>, \<open>uvc_iso.c\<close>)
  and the read side of the device (\<open>dev.c\<close>): payload transfers become frames, frames answer reads.

  A read is a value; it is in the unit's queue, in the hands of the engine, or in \<open>ns_Replied\<close>,
  the reads given back so far. \<open>None\<close> is an access outside a buffer or through a null pointer.
  What the USB stack answers is an argument. Of a unit and of its mode the fields the stream works
  with are kept; what identifies the camera and the negotiated blocks, which it only hands on, are not.
\<close>

unbundle bit_operations_syntax

section \<open>State\<close>

record uvRead =
  rd_Id :: nat
  io_Length :: u32
  io_Data :: bytes
  io_Actual :: u32
  io_Error :: int
  rd_IsVideo :: bool
  ivr_Sequence :: u32
  ivr_Flags :: u32
  ivr_PTS :: u32
  ivr_BusFrame :: u16
  ivr_SCRFrame :: u16
  ivr_SCRClock :: u32

record uvcMode =
  um_Format :: "uvcFormat option"
  um_Frame :: "uvcFrame option"
  um_Interval :: u32
  um_MaxFrameSize :: u32
  um_ClockFrequency :: u32
  um_PayloadSize :: u32

record uvcReads =
  ur_Queue :: "uvRead list"
  ur_Cur :: "uvRead option"
  ur_AbortCur :: bool

record uvcBulk =
  ub_PayDone :: u32
  ub_PaySkip :: bool
  ub_Errors :: u16

record uvcAssembly =
  ua_Open :: bool
  ua_Damaged :: bool
  ua_Overflow :: bool
  ua_HasPTS :: bool
  ua_HasSCR :: bool
  ua_FID :: u8
  ua_PayInfo :: u8
  ua_BusFrame :: u16
  ua_Fill :: u32
  ua_PTS :: u32
  ua_SCRClock :: u32
  ua_SCRFrame :: u16

record usbVideoStats =
  uvs_Frames :: u32
  uvs_Delivered :: u32
  uvs_Skipped :: u32
  uvs_Damaged :: u32
  uvs_Overflowed :: u32
  uvs_LostIntervals :: u32
  uvs_BadPayloads :: u32
  uvs_CameraErrors :: u32

record nepVideoStream =
  ns_Binding :: bool
  ns_OpenCnt :: nat
  ns_IsBulk :: bool
  ns_OpenFlags :: u32
  ns_Mode :: uvcMode
  ns_Reads :: uvcReads
  ns_Streaming :: bool
  ns_Scratch :: bytes
  ns_ScratchSize :: u32
  ns_Bulk :: uvcBulk
  ns_Asm :: uvcAssembly
  ns_Stats :: usbVideoStats
  ns_Replied :: "uvRead list"

abbreviation (input) UVPHF_FID :: u8 where "UVPHF_FID \<equiv> 0x01"
abbreviation (input) UVPHF_EOF :: u8 where "UVPHF_EOF \<equiv> 0x02"
abbreviation (input) UVPHF_PTS :: u8 where "UVPHF_PTS \<equiv> 0x04"
abbreviation (input) UVPHF_SCR :: u8 where "UVPHF_SCR \<equiv> 0x08"
abbreviation (input) UVPHF_ERR :: u8 where "UVPHF_ERR \<equiv> 0x40"
abbreviation (input) IOERR_ABORTED :: int where "IOERR_ABORTED \<equiv> -2"
abbreviation (input) IOERR_OPENFAIL :: int where "IOERR_OPENFAIL \<equiv> -1"
abbreviation (input) IOERR_BADLENGTH :: int where "IOERR_BADLENGTH \<equiv> -4"
abbreviation (input) IOERR_UNITBUSY :: int where "IOERR_UNITBUSY \<equiv> -6"
abbreviation (input) UVERR_NOMODE :: int where "UVERR_NOMODE \<equiv> 1"
abbreviation (input) UVERR_REFUSED :: int where "UVERR_REFUSED \<equiv> 3"
abbreviation (input) UVERR_NOBANDWIDTH :: int where "UVERR_NOBANDWIDTH \<equiv> 4"
abbreviation (input) UVERR_BUSY :: int where "UVERR_BUSY \<equiv> 5"
abbreviation (input) UVERR_OVERFLOW :: int where "UVERR_OVERFLOW \<equiv> 6"
abbreviation (input) UVERR_GONE :: int where "UVERR_GONE \<equiv> 7"
abbreviation (input) UVERR_USB :: int where "UVERR_USB \<equiv> 8"
abbreviation (input) UVOF_DAMAGED :: u32 where "UVOF_DAMAGED \<equiv> 1"
abbreviation (input) IVRF_DAMAGED :: u32 where "IVRF_DAMAGED \<equiv> 1"
abbreviation (input) IVRF_PTS :: u32 where "IVRF_PTS \<equiv> 2"
abbreviation (input) IVRF_SCR :: u32 where "IVRF_SCR \<equiv> 4"
abbreviation (input) JPEG_MARKER :: u8 where "JPEG_MARKER \<equiv> 0xff"
abbreviation (input) JPEG_SOI :: u8 where "JPEG_SOI \<equiv> 0xd8"
abbreviation (input) JPEG_SOS :: u8 where "JPEG_SOS \<equiv> 0xda"
abbreviation (input) UVCX_MUX_MARKER :: u8 where "UVCX_MUX_MARKER \<equiv> 0xe4"

section \<open>Giving a read back\<close>

definition uvcDeliver :: "nepVideoStream \<Rightarrow> int \<Rightarrow> u32 \<Rightarrow> nepVideoStream option" where
  "uvcDeliver ns error flags =
     (case ur_Cur (ns_Reads ns) of
        None \<Rightarrow> None
      | Some r \<Rightarrow>
          let a = ns_Asm ns;
              r1 = r\<lparr>io_Actual := ua_Fill a, io_Error := error\<rparr>;
              r2 = (if rd_IsVideo r
                    then r1\<lparr>ivr_Sequence := uvs_Frames (ns_Stats ns),
                            ivr_Flags := flags OR (if ua_HasPTS a then IVRF_PTS else 0) OR
                                           (if ua_HasSCR a then IVRF_SCR else 0),
                            ivr_PTS := ua_PTS a, ivr_BusFrame := ua_BusFrame a,
                            ivr_SCRFrame := ua_SCRFrame a, ivr_SCRClock := ua_SCRClock a\<rparr>
                    else r1)
          in Some (ns\<lparr>ns_Reads := (ns_Reads ns)\<lparr>ur_Cur := None, ur_AbortCur := False\<rparr>,
                      ns_Replied := ns_Replied ns @ [r2]\<rparr>))"

section \<open>H.264 inside JPEG frames\<close>

definition uvcJpegSegment :: "bytes \<Rightarrow> nat \<Rightarrow> nat \<Rightarrow> nat option" where
  "uvcJpegSegment buf len pos =
     (if len < pos + 4 then Some 0
      else do {
        m \<leftarrow> rd8 buf pos;
        if m \<noteq> JPEG_MARKER then Some 0
        else do {
          t \<leftarrow> rd8 buf (pos + 1);
          if t = JPEG_SOS then Some 0
          else do {
            seglen \<leftarrow> rd_be16 buf (pos + 2);
            Some (if 2 \<le> seglen \<and> pos + 2 + seglen \<le> len then seglen else 0) } } })"

text \<open>The stream's kind, its size and how many bytes of the segment the two take.\<close>

definition uvcEmbeddedHeader :: "bytes \<Rightarrow> nat \<Rightarrow> nat \<Rightarrow> (nat \<times> nat \<times> nat) option" where
  "uvcEmbeddedHeader buf data datalen =
     do { hdrlen \<leftarrow> (if 22 \<le> datalen then rd_le16 buf (data + 2) else Some 0);
          if hdrlen < 22 \<or> datalen < hdrlen + 4 then Some (0, 0, 0)
          else do { fourcc \<leftarrow> rd_be32 buf (data + 4);
                    size \<leftarrow> rd_le32 buf (data + hdrlen);
                    Some (fourcc, size, hdrlen + 4) } }"

text \<open>
  The segments from \<open>pos\<close> on: \<open>out\<close> bytes have been moved to the start of the buffer, \<open>left\<close> are still
  to come of the stream in progress. One segment's share is moved inside the buffer.
\<close>

definition segment_step ::
  "nat \<Rightarrow> bytes \<Rightarrow> nat \<Rightarrow> nat \<Rightarrow> nat \<Rightarrow> nat \<Rightarrow> bool \<Rightarrow> (bytes \<times> nat \<times> nat \<times> bool) option" where
  "segment_step fourcc buf pos seglen out left wanted =
     do { t \<leftarrow> rd8 buf (pos + 1);
          if t \<noteq> UVCX_MUX_MARKER then Some (buf, out, left, wanted)
          else do {
            let data = pos + 4;
            let datalen = seglen - 2;
            (data, datalen, left, wanted) \<leftarrow>
              (if left \<noteq> 0 then Some (data, datalen, left - min left 4, wanted)
               else do { (kind, size, skip) \<leftarrow> uvcEmbeddedHeader buf data datalen;
                         Some (data + skip, datalen - skip, size, kind = fourcc) });
            let datalen = min datalen left;
            let left = left - datalen;
            if wanted
            then do { d \<leftarrow> rd_slice buf data datalen;
                      buf \<leftarrow> wr_bytes buf out d;
                      Some (buf, out + datalen, left, wanted) }
            else Some (buf, out, left, wanted) } }"

function extract_loop :: "nat \<Rightarrow> nat \<Rightarrow> bytes \<Rightarrow> nat \<Rightarrow> nat \<Rightarrow> nat \<Rightarrow> bool \<Rightarrow> (bytes \<times> nat) option" where
  "extract_loop fourcc len buf pos out left wanted =
     (case uvcJpegSegment buf len pos of
        None \<Rightarrow> None
      | Some seglen \<Rightarrow>
          if seglen = 0 then Some (buf, out)
          else (case segment_step fourcc buf pos seglen out left wanted of
                  None \<Rightarrow> None
                | Some (buf', out', left', wanted') \<Rightarrow>
                    extract_loop fourcc len buf' (pos + 2 + seglen) out' left' wanted'))"
  by pat_completeness auto

lemma jpeg_segment_bound:
  "uvcJpegSegment buf len pos = Some n \<Longrightarrow> n \<noteq> 0 \<Longrightarrow> 2 \<le> n \<and> pos + 2 + n \<le> len"
  by (auto simp: uvcJpegSegment_def split: if_splits bind_splits)

termination extract_loop
  by (relation "measure (\<lambda>(fourcc, len, buf, pos, out, left, wanted). len + 1 - pos)")
     (auto dest: jpeg_segment_bound)

declare extract_loop.simps [simp del]

definition uvcExtractEmbedded :: "bytes \<Rightarrow> nat \<Rightarrow> u32 \<Rightarrow> (bytes \<times> nat) option" where
  "uvcExtractEmbedded buf len fourcc = extract_loop (unat fourcc) len buf 2 0 0 False"

section \<open>The payload engine\<close>

definition count_frame :: "(usbVideoStats \<Rightarrow> usbVideoStats) \<Rightarrow> nepVideoStream \<Rightarrow> nepVideoStream" where
  "count_frame f ns = ns\<lparr>ns_Stats := f (ns_Stats ns)\<rparr>"

definition is_jpeg :: "uvRead \<Rightarrow> u32 \<Rightarrow> bool option" where
  "is_jpeg r fill =
     (if fill < 2 then Some False
      else do { b0 \<leftarrow> rd8 (io_Data r) 0;
                if b0 \<noteq> JPEG_MARKER then Some False
                else do { b1 \<leftarrow> rd8 (io_Data r) 1; Some (b1 = JPEG_SOI) } })"

definition close_whole :: "uvcPayload \<Rightarrow> uvRead \<Rightarrow> nepVideoStream \<Rightarrow> nepVideoStream option" where
  "close_whole up r ns =
     (if up_Embedded up
      then do {
        (buf, n) \<leftarrow> uvcExtractEmbedded (io_Data r) (unat (ua_Fill (ns_Asm ns))) UVFCC_H264;
        let ns = ns\<lparr>ns_Asm := (ns_Asm ns)\<lparr>ua_Fill := word_of_nat n\<rparr>,
                    ns_Reads := (ns_Reads ns)\<lparr>ur_Cur := Some (r\<lparr>io_Data := buf\<rparr>)\<rparr>\<rparr>;
        if n = 0 then Some (count_frame (\<lambda>s. s\<lparr>uvs_Frames := uvs_Frames s - 1\<rparr>) ns)
        else uvcDeliver (count_frame (\<lambda>s. s\<lparr>uvs_Delivered := uvs_Delivered s + 1\<rparr>) ns) 0 0 }
      else uvcDeliver (count_frame (\<lambda>s. s\<lparr>uvs_Delivered := uvs_Delivered s + 1\<rparr>) ns) 0 0)"

definition uvcCloseFrame :: "nepVideoStream \<Rightarrow> nepVideoStream option" where
  "uvcCloseFrame ns =
     (if \<not> ua_Open (ns_Asm ns) then Some ns
      else let ns = ns\<lparr>ns_Asm := (ns_Asm ns)\<lparr>ua_Open := False\<rparr>\<rparr> in
        case ur_Cur (ns_Reads ns) of
          None \<Rightarrow> Some (count_frame (\<lambda>s. s\<lparr>uvs_Skipped := uvs_Skipped s + 1\<rparr>) ns)
        | Some r \<Rightarrow>
            if ua_Overflow (ns_Asm ns)
            then uvcDeliver (count_frame (\<lambda>s. s\<lparr>uvs_Overflowed := uvs_Overflowed s + 1\<rparr>) ns) UVERR_OVERFLOW 0
            else do {
              ufo \<leftarrow> um_Format (ns_Mode ns);
              up \<leftarrow> row_of ufo;
              isjpeg \<leftarrow> is_jpeg r (ua_Fill (ns_Asm ns));
              let damaged = (ua_Damaged (ns_Asm ns) \<or> (up_JpegStart up \<and> \<not> isjpeg) \<or>
                     (up_FixedSize up \<and> ua_Fill (ns_Asm ns) \<noteq> um_MaxFrameSize (ns_Mode ns)));
              let ns = ns\<lparr>ns_Asm := (ns_Asm ns)\<lparr>ua_Damaged := damaged\<rparr>\<rparr>;
              if \<not> damaged then close_whole up r ns
              else let ns = count_frame (\<lambda>s. s\<lparr>uvs_Damaged := uvs_Damaged s + 1\<rparr>) ns
                   in if ns_OpenFlags ns AND UVOF_DAMAGED \<noteq> 0 then uvcDeliver ns 0 IVRF_DAMAGED
                      else Some ns })"

text \<open>The header's length, 0 without a valid one.\<close>

definition begin_abort :: "nepVideoStream \<Rightarrow> nepVideoStream option" where
  "begin_abort ns =
     (if \<not> ur_AbortCur (ns_Reads ns) then Some ns
      else do {
        ns \<leftarrow> (if ur_Cur (ns_Reads ns) = None then Some ns
               else uvcDeliver (ns\<lparr>ns_Asm := (ns_Asm ns)\<lparr>ua_Fill := 0\<rparr>\<rparr>) IOERR_ABORTED 0);
        Some (ns\<lparr>ns_Reads := (ns_Reads ns)\<lparr>ur_AbortCur := False\<rparr>\<rparr>) })"

definition begin_fields :: "bytes \<Rightarrow> nat \<Rightarrow> u16 \<Rightarrow> nepVideoStream \<Rightarrow> nepVideoStream option" where
  "begin_fields hdr hdrlen busframe ns =
     do { ufo \<leftarrow> um_Format (ns_Mode ns);
          up \<leftarrow> row_of ufo;
          let info = ua_PayInfo (ns_Asm ns);
          let pos = 1 + up_InfoBytes up;
          let haspts = (info AND UVPHF_PTS \<noteq> 0 \<and> pos + 4 \<le> hdrlen);
          pts \<leftarrow> (if haspts then rd_le32 hdr pos else Some 0);
          let pos = pos + (if info AND UVPHF_PTS \<noteq> 0 then 4 else 0);
          let hasscr = (info AND UVPHF_SCR \<noteq> 0 \<and> pos + 6 \<le> hdrlen);
          clk \<leftarrow> (if hasscr then rd_le32 hdr pos else Some 0);
          sof \<leftarrow> (if hasscr then rd_le16 hdr (pos + 4) else Some 0);
          Some (ns\<lparr>ns_Asm := (ns_Asm ns)\<lparr>ua_BusFrame := busframe, ua_HasPTS := haspts,
             ua_PTS := word_of_nat pts, ua_HasSCR := hasscr, ua_SCRClock := word_of_nat clk,
             ua_SCRFrame := word_of_nat sof AND 0x07ff\<rparr>\<rparr>) }"

definition uvcPayloadBegin ::
  "nepVideoStream \<Rightarrow> bytes \<Rightarrow> nat \<Rightarrow> bool \<Rightarrow> u16 \<Rightarrow> (nepVideoStream \<times> nat) option" where
  "uvcPayloadBegin ns hdr len wireerror busframe =
     do { b \<leftarrow> (if 2 \<le> len then rd8 hdr 0 else Some 0);
          let hdrlen = unat b;
          ns \<leftarrow> begin_abort ns;
          let ns = (if wireerror
                    then count_frame (\<lambda>s. s\<lparr>uvs_LostIntervals := uvs_LostIntervals s + 1\<rparr>) ns else ns);
          if hdrlen < 2 \<or> len < hdrlen
          then let ns = (if \<not> wireerror
                         then count_frame (\<lambda>s. s\<lparr>uvs_BadPayloads := uvs_BadPayloads s + 1\<rparr>) ns else ns)
               in Some (ns\<lparr>ns_Asm := (ns_Asm ns)\<lparr>ua_Damaged := True\<rparr>\<rparr>, 0)
          else do {
            info \<leftarrow> rd8 hdr 1;
            let ns = (if info AND UVPHF_ERR \<noteq> 0
                      then count_frame (\<lambda>s. s\<lparr>uvs_CameraErrors := uvs_CameraErrors s + 1\<rparr>) ns else ns);
            let info = info OR (if wireerror then UVPHF_ERR else 0);
            let ns = ns\<lparr>ns_Asm := (ns_Asm ns)\<lparr>ua_PayInfo := info\<rparr>\<rparr>;
            ns \<leftarrow> (if ua_Open (ns_Asm ns) \<and> info AND UVPHF_FID \<noteq> ua_FID (ns_Asm ns)
                   then uvcCloseFrame ns else Some ns);
            ns \<leftarrow> (if \<not> ua_Open (ns_Asm ns) then begin_fields hdr hdrlen busframe ns else Some ns);
            Some (ns, hdrlen) } }"

definition open_frame :: "nepVideoStream \<Rightarrow> nepVideoStream" where
  "open_frame ns =
     (let ns = count_frame (\<lambda>s. s\<lparr>uvs_Frames := uvs_Frames s + 1\<rparr>)
                 (ns\<lparr>ns_Asm := (ns_Asm ns)\<lparr>ua_Open := True, ua_FID := ua_PayInfo (ns_Asm ns) AND UVPHF_FID,
                     ua_Fill := 0, ua_Damaged := False, ua_Overflow := False\<rparr>\<rparr>)
      in case (ur_Cur (ns_Reads ns), ur_Queue (ns_Reads ns)) of
           (None, r # rs) \<Rightarrow> ns\<lparr>ns_Reads := (ns_Reads ns)\<lparr>ur_Cur := Some r, ur_Queue := rs\<rparr>\<rparr>
         | _ \<Rightarrow> ns)"

definition store_data :: "nepVideoStream \<Rightarrow> bytes \<Rightarrow> nepVideoStream option" where
  "store_data ns data =
     (case ur_Cur (ns_Reads ns) of
        None \<Rightarrow> Some ns
      | Some r \<Rightarrow>
          let fill = ua_Fill (ns_Asm ns);
              room = unat (io_Length r - fill);
              len = min (length data) room
          in do { d \<leftarrow> wr_bytes (io_Data r) (unat fill) (take len data);
                  Some (ns\<lparr>ns_Asm := (ns_Asm ns)\<lparr>ua_Overflow := (ua_Overflow (ns_Asm ns) \<or> room < length data),
                                                  ua_Fill := fill + word_of_nat len\<rparr>,
                           ns_Reads := (ns_Reads ns)\<lparr>ur_Cur := Some (r\<lparr>io_Data := d\<rparr>)\<rparr>\<rparr>) })"

definition uvcPayloadData :: "nepVideoStream \<Rightarrow> bytes \<Rightarrow> nepVideoStream option" where
  "uvcPayloadData ns data =
     (if data = [] then Some ns
      else store_data (if ua_Open (ns_Asm ns) then ns else open_frame ns) data)"

definition uvcPayloadEnd :: "nepVideoStream \<Rightarrow> nepVideoStream option" where
  "uvcPayloadEnd ns =
     (let info = ua_PayInfo (ns_Asm ns);
          ns = (if info AND UVPHF_ERR \<noteq> 0 then ns\<lparr>ns_Asm := (ns_Asm ns)\<lparr>ua_Damaged := True\<rparr>\<rparr> else ns)
      in if info AND UVPHF_EOF \<noteq> 0 then uvcCloseFrame ns else Some ns)"

section \<open>The transports\<close>

text \<open>The done hook of a service interval: the transfer is in the scratch buffer.\<close>

definition uvcInReqHook :: "nepVideoStream \<Rightarrow> u32 \<Rightarrow> u32" where
  "uvcInReqHook ns len = (if ns_ScratchSize ns < len then ns_ScratchSize ns else len)"

definition uvcInDoneHook :: "nepVideoStream \<Rightarrow> nat \<Rightarrow> bool \<Rightarrow> u16 \<Rightarrow> nepVideoStream option" where
  "uvcInDoneHook ns len xfererror frame =
     do { (ns, hdrlen) \<leftarrow> uvcPayloadBegin ns (ns_Scratch ns) len xfererror frame;
          if hdrlen \<noteq> 0
          then do { d \<leftarrow> rd_slice (ns_Scratch ns) hdrlen (len - hdrlen);
                    ns \<leftarrow> uvcPayloadData ns d;
                    uvcPayloadEnd ns }
          else Some ns }"

abbreviation (input) UVC_BULK_CHUNK :: u32 where "UVC_BULK_CHUNK \<equiv> 32768"
abbreviation (input) UVC_BULK_MAX_ERRORS :: u16 where "UVC_BULK_MAX_ERRORS \<equiv> 8"

definition uvcBulkBufferSize :: "nepVideoStream \<Rightarrow> u32" where
  "uvcBulkBufferSize ns =
     (let payloadsize = um_PayloadSize (ns_Mode ns)
      in if payloadsize \<noteq> 0 \<and> payloadsize < UVC_BULK_CHUNK then payloadsize else UVC_BULK_CHUNK)"

definition uvcBulkAsk :: "nepVideoStream \<Rightarrow> u32" where
  "uvcBulkAsk ns =
     (let left = um_PayloadSize (ns_Mode ns) - ub_PayDone (ns_Bulk ns)
      in if um_PayloadSize (ns_Mode ns) \<noteq> 0 \<and> left < ns_ScratchSize ns then left else ns_ScratchSize ns)"

definition bulk_piece :: "nepVideoStream \<Rightarrow> nat \<Rightarrow> u32 \<Rightarrow> nat \<Rightarrow> nepVideoStream option" where
  "bulk_piece ns hdrlen asked len =
     do { ns \<leftarrow> (if ub_PaySkip (ns_Bulk ns) then Some ns
                 else do { d \<leftarrow> rd_slice (ns_Scratch ns) hdrlen (len - hdrlen); uvcPayloadData ns d });
          let ns = ns\<lparr>ns_Bulk := (ns_Bulk ns)\<lparr>ub_PayDone := ub_PayDone (ns_Bulk ns) + word_of_nat len\<rparr>\<rparr>;
          if len < unat asked \<or> ub_PayDone (ns_Bulk ns) = um_PayloadSize (ns_Mode ns)
          then do { ns \<leftarrow> (if ub_PaySkip (ns_Bulk ns) then Some ns else uvcPayloadEnd ns);
                    Some (ns\<lparr>ns_Bulk := (ns_Bulk ns)\<lparr>ub_PayDone := 0\<rparr>\<rparr>) }
          else Some ns }"

definition uvcBulkTransfer :: "nepVideoStream \<Rightarrow> int \<Rightarrow> nat \<Rightarrow> (nepVideoStream \<times> u32) option" where
  "uvcBulkTransfer ns ioerr len =
     (let asked = uvcBulkAsk ns in
      if ioerr \<noteq> 0
      then do { (ns, _) \<leftarrow> uvcPayloadBegin ns (ns_Scratch ns) 0 True 0;
                let errors = ub_Errors (ns_Bulk ns) + 1;
                let ns = ns\<lparr>ns_Bulk := (ns_Bulk ns)\<lparr>ub_PayDone := 0, ub_Errors := errors\<rparr>\<rparr>;
                Some (ns, if errors < UVC_BULK_MAX_ERRORS then uvcBulkAsk ns else 0) }
      else let ns = ns\<lparr>ns_Bulk := (ns_Bulk ns)\<lparr>ub_Errors := 0\<rparr>\<rparr> in
        if ub_PayDone (ns_Bulk ns) = 0
        then (if len = 0 then Some (ns, asked)
              else do { (ns, hdrlen) \<leftarrow> uvcPayloadBegin ns (ns_Scratch ns) len False 0;
                        ns \<leftarrow> bulk_piece (ns\<lparr>ns_Bulk := (ns_Bulk ns)\<lparr>ub_PaySkip := hdrlen = 0\<rparr>\<rparr>) hdrlen asked len;
                        Some (ns, uvcBulkAsk ns) })
        else do { ns \<leftarrow> bulk_piece ns 0 asked len; Some (ns, uvcBulkAsk ns) })"

definition uvcBulkDone :: "nepVideoStream \<Rightarrow> int \<Rightarrow> nat \<Rightarrow> (nepVideoStream \<times> u32 option) option" where
  "uvcBulkDone ns ioerr actual =
     do { (ns, ask) \<leftarrow> uvcBulkTransfer ns ioerr actual;
          Some (ns, if ask \<noteq> 0 then Some ask else None) }"

section \<open>Start, stop and the read queue\<close>

text \<open>
  The alternate settings of the stream's interface in the order the stack gives them, each with the
  transfer type and capacity of the video endpoint, if it has that endpoint.
\<close>

datatype ep_type = USEAF_BULK | USEAF_ISOCHRONOUS | USEAF_OTHER

type_synonym alternate = "nat \<times> (ep_type \<times> u32) option"

fun find_alternate :: "u32 \<Rightarrow> alternate list \<Rightarrow> u32 \<Rightarrow> (nat \<times> ep_type \<times> u32) option \<Rightarrow> (nat \<times> ep_type \<times> u32) option" where
  "find_alternate payloadsize [] bestcap best = best"
| "find_alternate payloadsize ((pif, None) # alts) bestcap best = find_alternate payloadsize alts bestcap best"
| "find_alternate payloadsize ((pif, Some (t, capacity)) # alts) bestcap best =
     (if t = USEAF_BULK then Some (pif, t, capacity)
      else if t = USEAF_ISOCHRONOUS \<and> payloadsize \<le> capacity \<and> capacity < bestcap
      then find_alternate payloadsize alts capacity (Some (pif, t, capacity))
      else find_alternate payloadsize alts bestcap best)"

definition uvcFindAlternate :: "alternate list \<Rightarrow> u32 \<Rightarrow> (nat \<times> ep_type \<times> u32) option" where
  "uvcFindAlternate alts payloadsize = find_alternate payloadsize alts 0xffffffff None"

definition uvcStreamIsBulk :: "alternate list \<Rightarrow> bool" where
  "uvcStreamIsBulk alts = (case uvcFindAlternate alts 0 of None \<Rightarrow> False | Some (_, t, _) \<Rightarrow> t = USEAF_BULK)"

text \<open>
  What starting meets, in the order it is asked: the H.264 unit's and the camera's answers, the
  interface's alternates, whether the one found could be selected, whether there was memory, and
  the transport's start.
\<close>

record start_env =
  se_Embed :: int
  se_Commit :: int
  se_Alts :: "alternate list"
  se_Select :: bool
  se_Memory :: bool
  se_Transport :: int

abbreviation (input) UHIOERR_STALL :: int where "UHIOERR_STALL \<equiv> 6"

definition refused :: "int \<Rightarrow> int" where
  "refused ioerr = (if ioerr = UHIOERR_STALL then UVERR_REFUSED else UVERR_USB)"

definition zero_stats :: usbVideoStats where
  "zero_stats = \<lparr>uvs_Frames = 0, uvs_Delivered = 0, uvs_Skipped = 0, uvs_Damaged = 0, uvs_Overflowed = 0,
     uvs_LostIntervals = 0, uvs_BadPayloads = 0, uvs_CameraErrors = 0\<rparr>"

definition uvcStart :: "start_env \<Rightarrow> nepVideoStream \<Rightarrow> (nepVideoStream \<times> int) option" where
  "uvcStart env ns =
     (if ns_Streaming ns then Some (ns, UVERR_BUSY)
      else case um_Format (ns_Mode ns) of
        None \<Rightarrow> Some (ns, UVERR_NOMODE)
      | Some ufo \<Rightarrow>
          do { up \<leftarrow> row_of ufo;
               if up_Embedded up \<and> se_Embed env \<noteq> 0 then Some (ns, refused (se_Embed env))
               else if se_Commit env \<noteq> 0 then Some (ns, refused (se_Commit env))
               else (case uvcFindAlternate (se_Alts env) (um_PayloadSize (ns_Mode ns)) of
                   None \<Rightarrow> Some (ns, UVERR_NOBANDWIDTH)
                 | Some (_, _, capacity) \<Rightarrow>
                     if \<not> ns_IsBulk ns \<and> \<not> se_Select env then Some (ns, UVERR_NOBANDWIDTH)
                     else let size = (if ns_IsBulk ns then uvcBulkBufferSize ns else capacity);
                              ns = ns\<lparr>ns_ScratchSize := size\<rparr>
                       in if \<not> se_Memory env then Some (ns, UVERR_USB)
                          else let ns = ns\<lparr>ns_Scratch := replicate (unat size) 0,
                                     ns_Asm := (ns_Asm ns)\<lparr>ua_Open := False\<rparr>,
                                     ns_Reads := (ns_Reads ns)\<lparr>ur_Cur := None, ur_AbortCur := False\<rparr>,
                                     ns_Stats := zero_stats\<rparr>
                            in if se_Transport env \<noteq> 0 then Some (ns\<lparr>ns_Scratch := []\<rparr>, UVERR_USB)
                               else Some (ns\<lparr>ns_Streaming := True,
                                 ns_Bulk := (if ns_IsBulk ns then \<lparr>ub_PayDone = 0, ub_PaySkip = False, ub_Errors = 0\<rparr>
                                             else ns_Bulk ns)\<rparr>, 0)) })"

definition uvcStop :: "nepVideoStream \<Rightarrow> nepVideoStream option" where
  "uvcStop ns =
     (if \<not> ns_Streaming ns then Some ns
      else do {
        ns \<leftarrow> (case ur_Cur (ns_Reads ns) of
            None \<Rightarrow> Some ns
          | Some r \<Rightarrow>
              if ur_AbortCur (ns_Reads ns)
              then uvcDeliver (ns\<lparr>ns_Asm := (ns_Asm ns)\<lparr>ua_Fill := 0\<rparr>\<rparr>) IOERR_ABORTED 0
              else Some (ns\<lparr>ns_Reads := (ns_Reads ns)\<lparr>ur_Queue := r # ur_Queue (ns_Reads ns), ur_Cur := None\<rparr>\<rparr>));
        Some (ns\<lparr>ns_Reads := (ns_Reads ns)\<lparr>ur_AbortCur := False\<rparr>, ns_Asm := (ns_Asm ns)\<lparr>ua_Open := False\<rparr>,
                 ns_Streaming := False, ns_Scratch := []\<rparr>) })"

definition uvcAbortReads :: "nepVideoStream \<Rightarrow> int \<Rightarrow> nepVideoStream" where
  "uvcAbortReads ns error =
     ns\<lparr>ns_Reads := (ns_Reads ns)\<lparr>ur_Queue := [],
          ur_AbortCur := (ur_AbortCur (ns_Reads ns) \<or> ur_Cur (ns_Reads ns) \<noteq> None)\<rparr>,
        ns_Replied := ns_Replied ns @ map (\<lambda>r. r\<lparr>io_Actual := 0, io_Error := error\<rparr>) (ur_Queue (ns_Reads ns))\<rparr>"

text \<open>\<open>CMD_READ\<close> and \<open>CMD_FLUSH\<close> of \<open>devBeginIO\<close>, \<open>devAbortIO\<close> of a read, \<open>devOpen\<close> and \<open>devClose\<close> of
  one unit. \<open>devBeginIO\<close> resets the request first; a unit without its camera answers at once.\<close>

definition unit_read :: "nepVideoStream \<Rightarrow> uvRead \<Rightarrow> nepVideoStream" where
  "unit_read ns r =
     (let r = r\<lparr>io_Error := 0, io_Actual := 0\<rparr>
      in if ns_Binding ns then ns\<lparr>ns_Reads := (ns_Reads ns)\<lparr>ur_Queue := ur_Queue (ns_Reads ns) @ [r]\<rparr>\<rparr>
         else ns\<lparr>ns_Replied := ns_Replied ns @ [r\<lparr>io_Error := UVERR_GONE\<rparr>]\<rparr>)"

definition unit_abort :: "nepVideoStream \<Rightarrow> nat \<Rightarrow> nepVideoStream \<times> bool" where
  "unit_abort ns i =
     (if \<exists>r. ur_Cur (ns_Reads ns) = Some r \<and> rd_Id r = i
      then (ns\<lparr>ns_Reads := (ns_Reads ns)\<lparr>ur_AbortCur := True\<rparr>\<rparr>, True)
      else case find (\<lambda>r. rd_Id r = i) (ur_Queue (ns_Reads ns)) of
        None \<Rightarrow> (ns, False)
      | Some r \<Rightarrow> (ns\<lparr>ns_Reads := (ns_Reads ns)\<lparr>ur_Queue := remove1 r (ur_Queue (ns_Reads ns))\<rparr>,
                      ns_Replied := ns_Replied ns @ [r\<lparr>io_Actual := 0, io_Error := IOERR_ABORTED\<rparr>]\<rparr>, True))"

definition unit_open :: "u32 \<Rightarrow> nepVideoStream \<Rightarrow> nepVideoStream \<times> int" where
  "unit_open flags ns =
     (if \<not> ns_Binding ns then (ns, IOERR_OPENFAIL)
      else if ns_OpenCnt ns \<noteq> 0 \<or> ns_Streaming ns then (ns, IOERR_UNITBUSY)
      else (ns\<lparr>ns_OpenCnt := ns_OpenCnt ns + 1, ns_OpenFlags := flags,
               ns_Mode := (ns_Mode ns)\<lparr>um_Format := None\<rparr>\<rparr>, 0))"

definition unit_close :: "nepVideoStream \<Rightarrow> nepVideoStream" where
  "unit_close ns = (uvcAbortReads ns IOERR_ABORTED)\<lparr>ns_OpenCnt := ns_OpenCnt ns - 1\<rparr>"

end
