(* ===== verification/Uvc_Embed.thy ===== *)
theory Uvc_Embed
  imports Uvc_Stream
begin

text \<open>
  Laws of the extraction of an embedded stream: moving its parts down the buffer they came in
  gives what reading them from an untouched copy would, and gives a muxed stream back.
\<close>

section \<open>Reading the segments of a frame\<close>

text \<open>The segments in front of the picture data: each one's marker and data.\<close>

function segments :: "nat \<Rightarrow> bytes \<Rightarrow> nat \<Rightarrow> (u8 \<times> bytes) list" where
  "segments len buf pos =
     (case uvcJpegSegment buf len pos of
        None \<Rightarrow> []
      | Some n \<Rightarrow> if n = 0 then []
                  else (buf ! (pos + 1), take (n - 2) (drop (pos + 4) buf)) # segments len buf (pos + 2 + n))"
  by pat_completeness auto

termination segments
  by (relation "measure (\<lambda>(len, buf, pos). len + 1 - pos)") (auto dest: jpeg_segment_bound)

declare segments.simps [simp del]

definition be32_at :: "bytes \<Rightarrow> nat \<Rightarrow> nat" where
  "be32_at d i = le32 (d ! (i + 3)) (d ! (i + 2)) (d ! (i + 1)) (d ! i)"

definition le32_at :: "bytes \<Rightarrow> nat \<Rightarrow> nat" where
  "le32_at d i = le32 (d ! i) (d ! (i + 1)) (d ! (i + 2)) (d ! (i + 3))"

definition mux_header :: "bytes \<Rightarrow> nat \<times> nat \<times> nat" where
  "mux_header d =
     (if length d < 22 then (0, 0, 0)
      else let h = le16 (d ! 2) (d ! 3)
           in if h < 22 \<or> length d < h + 4 then (0, 0, 0) else (be32_at d 4, le32_at d h, h + 4))"

text \<open>What one segment contributes, and how much of the stream is left then.\<close>

definition share :: "nat \<Rightarrow> bytes \<Rightarrow> nat \<Rightarrow> bool \<Rightarrow> bytes \<times> nat \<times> bool" where
  "share fourcc d left wanted =
     (if left \<noteq> 0
      then let l = left - min left 4 in ((if wanted then take l d else []), l - length d, wanted)
      else let (kind, sz, skip) = mux_header d
           in ((if kind = fourcc then take sz (drop skip d) else []),
               sz - (length d - skip), kind = fourcc))"

fun spec_extract :: "nat \<Rightarrow> (u8 \<times> bytes) list \<Rightarrow> nat \<Rightarrow> bool \<Rightarrow> bytes" where
  "spec_extract fourcc [] left wanted = []"
| "spec_extract fourcc ((t, d) # segs) left wanted =
     (if t \<noteq> UVCX_MUX_MARKER then spec_extract fourcc segs left wanted
      else let (out, left', wanted') = share fourcc d left wanted
           in out @ spec_extract fourcc segs left' wanted')"

section \<open>In place\<close>

text \<open>The buffer still holds the frame from \<open>pos\<close> on.\<close>

definition agree :: "nat \<Rightarrow> bytes \<Rightarrow> bytes \<Rightarrow> bool" where
  "agree pos a b \<longleftrightarrow> length a = length b \<and> (\<forall>i \<ge> pos. i < length a \<longrightarrow> a ! i = b ! i)"

lemma agree_rd:
  assumes "agree pos a b" and "pos \<le> i"
  shows "rd8 a i = rd8 b i" and "rd_le16 a i = rd_le16 b i" and "rd_be16 a i = rd_be16 b i"
    and "rd_le32 a i = rd_le32 b i" and "rd_be32 a i = rd_be32 b i"
  using assms unfolding agree_def by (auto simp: rd8_def rd_le16_def rd_be16_def rd_le32_def rd_be32_def)

lemma agree_slice: "agree pos a b \<Longrightarrow> pos \<le> i \<Longrightarrow> rd_slice a i n = rd_slice b i n"
proof -
  assume "agree pos a b" "pos \<le> i"
  then have "drop i a = drop i b" by (intro nth_equalityI) (simp_all add: agree_def)
  then show ?thesis using \<open>agree pos a b\<close> by (simp add: rd_slice_def agree_def)
qed

lemma agree_segment: "agree pos a b \<Longrightarrow> uvcJpegSegment a len pos = uvcJpegSegment b len pos"
  by (simp add: uvcJpegSegment_def agree_rd cong: if_cong)

lemma agree_header: "agree pos a b \<Longrightarrow> pos \<le> data \<Longrightarrow> uvcEmbeddedHeader a data n = uvcEmbeddedHeader b data n"
  by (simp add: uvcEmbeddedHeader_def agree_rd cong: if_cong)

lemma agree_put:
  assumes "agree pos a b" and "off + length d \<le> pos'" and "pos \<le> pos'" and "pos' \<le> length a"
  shows "agree pos' (take off a @ d @ drop (off + length d) a) b"
  using assms by (auto simp: agree_def nth_append)

lemma rd_at:
  assumes "data + n \<le> length buf"
  shows "i + 4 \<le> n \<Longrightarrow> rd_be32 buf (data + i) = Some (be32_at (take n (drop data buf)) i)"
    and "i + 4 \<le> n \<Longrightarrow> rd_le32 buf (data + i) = Some (le32_at (take n (drop data buf)) i)"
  using assms by (simp_all add: rd_be32_def rd_le32_def be32_at_def le32_at_def add.assoc)

lemma jpeg_segment_total: "len \<le> length buf \<Longrightarrow> \<exists>n. uvcJpegSegment buf len pos = Some n"
proof (cases "len < pos + 4")
  case False
  assume "len \<le> length buf"
  then have "rd8 buf pos = Some (buf ! pos)" "rd8 buf (pos + 1) = Some (buf ! (pos + 1))"
    "\<exists>s. rd_be16 buf (pos + 2) = Some s" using False by (simp_all add: rd8_def rd_be16_def)
  then show ?thesis using False by (auto simp: uvcJpegSegment_def)
qed (simp add: uvcJpegSegment_def)

lemma header_eq:
  assumes "data + n \<le> length buf"
  shows "uvcEmbeddedHeader buf data n = Some (mux_header (take n (drop data buf)))"
proof (cases "22 \<le> n")
  case True
  let ?d = "take n (drop data buf)"
  have i: "data + k < length buf \<and> ?d ! k = buf ! (data + k)" if "k < n" for k
    using that assms by simp
  have len: "length ?d = n" using assms by simp
  have h: "rd_le16 buf (data + 2) = Some (le16 (?d ! 2) (?d ! 3))"
    using True assms by (simp add: rd_le16_def numeral_3_eq_3)
  let ?h = "le16 (?d ! 2) (?d ! 3)"
  show ?thesis
  proof (cases "?h < 22 \<or> n < ?h + 4")
    case True
    then show ?thesis unfolding uvcEmbeddedHeader_def mux_header_def len h using \<open>22 \<le> n\<close> by auto
  next
    case False
    then have "rd_be32 buf (data + 4) = Some (be32_at ?d 4)" "rd_le32 buf (data + ?h) = Some (le32_at ?d ?h)"
      using rd_at [OF assms] \<open>22 \<le> n\<close> by auto
    then show ?thesis unfolding uvcEmbeddedHeader_def mux_header_def len h Let_def using \<open>22 \<le> n\<close> False by auto
  qed
next
  case False
  then show ?thesis using assms by (simp add: uvcEmbeddedHeader_def mux_header_def)
qed

lemma mux_header_skip: "mux_header d = (kind, sz, skip) \<Longrightarrow> skip \<le> length d"
  by (auto simp: mux_header_def Let_def split: if_splits)

lemma take_length_min: "take k xs = take (min (length xs) k) xs"
  by (simp add: min_def)

lemma share_length: "share fourcc x left wanted = (d, left', wanted') \<Longrightarrow> length d \<le> length x"
  by (auto simp: share_def Let_def split: if_splits prod.splits)

lemma diff_min: "(x :: nat) - min k x = x - k"
  by (simp add: min_def)

lemma segment_step_eq:
  assumes ag: "agree pos buf buf0" and b: "pos + 2 + n \<le> length buf" "2 \<le> n" and out: "out \<le> pos"
    and t: "buf0 ! (pos + 1) = UVCX_MUX_MARKER"
    and sh: "share fourcc (take (n - 2) (drop (pos + 4) buf0)) left wanted = (d, left', wanted')"
  shows "segment_step fourcc buf pos n out left wanted =
      Some (take out buf @ d @ drop (out + length d) buf, out + length d, left', wanted')"
    and "length d \<le> n - 2"
proof -
  let ?d = "take (n - 2) (drop (pos + 4) buf0)"
  have l0: "length buf0 = length buf" using ag by (simp add: agree_def)
  have ld: "length ?d = n - 2" using b l0 by simp
  have r: "rd8 buf (pos + 1) = Some UVCX_MUX_MARKER" using b agree_rd(1) [OF ag, of "pos + 1"] l0 t by (simp add: rd8_def)
  obtain kind sz skip where h: "mux_header ?d = (kind, sz, skip)" by (cases "mux_header ?d")
  have hd: "uvcEmbeddedHeader buf (pos + 4) (n - 2) = Some (kind, sz, skip)"
    using header_eq [of "pos + 4" "n - 2" buf0] agree_header [OF ag, of "pos + 4" "n - 2"] b l0 h by simp
  have sk: "skip \<le> n - 2" using mux_header_skip [OF h] ld by simp
  have sl: "rd_slice buf (pos + 4 + o') k = Some (take k (drop (pos + 4 + o') buf0))" if "o' + k \<le> n - 2" for o' k
    using agree_slice [OF ag, of "pos + 4 + o'" k] that b l0 by (simp add: rd_slice_def)
  have wr: "wr_bytes buf out x = Some (take out buf @ x @ drop (out + length x) buf)" if "length x \<le> n - 2" for x
    using that out b by (simp add: wr_bytes_def)
  have cut: "take k (drop o' ?d) = take k (drop (pos + 4 + o') buf0)" if "o' + k \<le> n - 2" for o' k
    using that by (simp add: drop_take add.commute add.left_commute min_def)
  let ?k = "min (n - 2) (left - min left 4)"
  let ?m = "min (n - 2 - skip) sz"
  have a: "take (left - min left 4) ?d = take ?k (drop (pos + 4 + 0) buf0)" by (simp add: min.commute)
  have c: "take sz (drop skip ?d) = take ?m (drop (pos + 4 + skip) buf0)"
  proof -
    have "take sz (drop skip ?d) = take ?m (drop skip ?d)"
      using take_length_min [of sz "drop skip ?d"] ld by simp
    also have "\<dots> = take ?m (drop (pos + 4 + skip) buf0)" by (rule cut) (use sk in linarith)
    finally show ?thesis .
  qed
  have la: "length (take ?k (drop (pos + 4 + 0) buf0)) = ?k" and lc: "length (take ?m (drop (pos + 4 + skip) buf0)) = ?m"
    using b l0 sk by simp_all
  show "length d \<le> n - 2" using share_length [OF sh] ld by simp
  show "segment_step fourcc buf pos n out left wanted =
      Some (take out buf @ d @ drop (out + length d) buf, out + length d, left', wanted')"
  proof (cases "left = 0")
    case False
    have eq: "\<not> (UVCX_MUX_MARKER \<noteq> UVCX_MUX_MARKER)" by simp
    from False have d: "d = (if wanted then take ?k (drop (pos + 4 + 0) buf0) else [])" "left' = left - min left 4 - (n - 2)"
      "wanted' = wanted" using sh ld a by (auto simp: share_def Let_def)
    have e: "left - min left 4 - min (n - 2) (left - min left 4) = left'" unfolding d(2) by (rule diff_min)
    have s: "rd_slice buf (pos + 4) ?k = Some (take ?k (drop (pos + 4 + 0) buf0))" using sl [of 0 ?k] by simp
    have w: "wr_bytes buf out (take ?k (drop (pos + 4 + 0) buf0)) =
        Some (take out buf @ take ?k (drop (pos + 4 + 0) buf0) @ drop (out + ?k) buf)"
      using wr [of "take ?k (drop (pos + 4 + 0) buf0)"] unfolding la by simp
    note u = segment_step_def r bind.bind_lunit Let_def if_P [OF False] if_not_P [OF eq] prod.case s w e
    show ?thesis
    proof (cases wanted)
      case True
      then have d': "d = take ?k (drop (pos + 4 + 0) buf0)" and w': "wanted'" using d by simp_all
      show ?thesis unfolding u if_P [OF True] unfolding d' la using w' True by simp
    next
      case False
      then have d': "d = []" and w': "\<not> wanted'" using d by simp_all
      show ?thesis unfolding u if_not_P [OF False] d' using w' False by simp
    qed
  next
    case True
    have eq: "\<not> (UVCX_MUX_MARKER \<noteq> UVCX_MUX_MARKER)" by simp
    from True have d: "d = (if kind = fourcc then take ?m (drop (pos + 4 + skip) buf0) else [])" "left' = sz - (n - 2 - skip)"
      "wanted' = (kind = fourcc)" using sh ld h c by (auto simp: share_def Let_def)
    have e: "sz - min (n - 2 - skip) sz = left'" unfolding d(2) by (rule diff_min)
    have s: "rd_slice buf (pos + 4 + skip) ?m = Some (take ?m (drop (pos + 4 + skip) buf0))"
      using sl [of skip ?m] sk by simp
    have w: "wr_bytes buf out (take ?m (drop (pos + 4 + skip) buf0)) =
        Some (take out buf @ take ?m (drop (pos + 4 + skip) buf0) @ drop (out + ?m) buf)"
      using wr [of "take ?m (drop (pos + 4 + skip) buf0)"] unfolding lc by simp
    have nl: "\<not> left \<noteq> 0" using True by simp
    note u = segment_step_def r bind.bind_lunit Let_def if_not_P [OF nl] if_not_P [OF eq] hd prod.case s w e
    show ?thesis
    proof (cases "kind = fourcc")
      case True
      then have d': "d = take ?m (drop (pos + 4 + skip) buf0)" and w': "wanted'" using d by simp_all
      show ?thesis unfolding u if_P [OF True] unfolding d' lc using w' True by simp
    next
      case False
      then have d': "d = []" and w': "\<not> wanted'" using d by simp_all
      show ?thesis unfolding u if_not_P [OF False] d' using w' False by simp
    qed
  qed
qed

lemma extract_loop_eq:
  "agree pos buf buf0 \<Longrightarrow> len \<le> length buf \<Longrightarrow> out \<le> pos \<Longrightarrow> out \<le> length buf \<Longrightarrow>
   \<exists>buf' n. extract_loop fourcc len buf pos out left wanted = Some (buf', n) \<and> length buf' = length buf \<and>
     n \<le> max out len \<and> take n buf' = take out buf @ spec_extract fourcc (segments len buf0 pos) left wanted"
proof (induction fourcc len buf pos out left wanted rule: extract_loop.induct)
  case (1 fourcc len buf pos out left wanted)
  have ag: "agree pos buf buf0" and len: "len \<le> length buf" and out: "out \<le> pos" and ol: "out \<le> length buf"
    using 1 by blast+
  obtain n where n: "uvcJpegSegment buf len pos = Some n"
    using jpeg_segment_total [OF len] by blast
  have n0: "uvcJpegSegment buf0 len pos = Some n" using n agree_segment [OF ag] by simp
  note seg = segments.simps [of len buf0 pos, unfolded n0 option.case]
  note lp = extract_loop.simps [of fourcc len buf pos out left wanted, unfolded n option.case]
  show ?case
  proof (cases "n = 0")
    case True
    then show ?thesis unfolding lp seg by simp
  next
    case False
    have b: "2 \<le> n" "pos + 2 + n \<le> len" using jpeg_segment_bound [OF n False] by auto
    let ?t = "buf0 ! (pos + 1)" and ?d = "take (n - 2) (drop (pos + 4) buf0)"
    show ?thesis
    proof (cases "?t = UVCX_MUX_MARKER")
      case True
      obtain d left' wanted' where sh: "share fourcc ?d left wanted = (d, left', wanted')"
        by (cases "share fourcc ?d left wanted")
      let ?b = "take out buf @ d @ drop (out + length d) buf"
      have bl: "pos + 2 + n \<le> length buf" using b(2) len by simp
      note st = segment_step_eq [OF ag bl b(1) out True sh]
      have lb: "length ?b = length buf" using st(2) bl out by simp
      have ag': "agree (pos + 2 + n) ?b buf0"
        by (rule agree_put [OF ag]) (use st(2) bl out in simp_all)
      have p: "len \<le> length ?b" "out + length d \<le> pos + 2 + n" "out + length d \<le> length ?b"
        using lb len st(2) bl out b by auto
      from 1(1) [OF n False st(1) refl refl refl ag' p] obtain buf' m where
        r: "extract_loop fourcc len ?b (pos + 2 + n) (out + length d) left' wanted' = Some (buf', m)"
          "length buf' = length ?b" "m \<le> max (out + length d) len"
          "take m buf' = take (out + length d) ?b @ spec_extract fourcc (segments len buf0 (pos + 2 + n)) left' wanted'"
        by blast
      have "take (out + length d) ?b = take out buf @ d" using ol by simp
      moreover have "out + length d \<le> len" using st(2) b out by simp
      ultimately show ?thesis unfolding lp seg using False st(1) r lb True sh by simp
    next
      case nm: False
      have "rd8 buf (pos + 1) = Some ?t"
        using agree_rd(1) [OF ag, of "pos + 1"] b len ag by (simp add: rd8_def agree_def)
      then have st: "segment_step fourcc buf pos n out left wanted = Some (buf, out, left, wanted)"
        using nm by (simp add: segment_step_def)
      have "agree (pos + 2 + n) buf buf0" using ag by (simp add: agree_def)
      from 1(1) [OF n False st refl refl refl this] show ?thesis
        unfolding lp seg using False st nm len out ol by simp
    qed
  qed
qed

lemma extract_eq:
  assumes "len \<le> length buf"
  shows "\<exists>buf' n. uvcExtractEmbedded buf len fourcc = Some (buf', n) \<and> length buf' = length buf \<and> n \<le> len \<and>
    take n buf' = spec_extract (unat fourcc) (segments len buf 2) 0 False"
  using extract_loop_eq [of 2 buf buf len 0 "unat fourcc" 0 False] assms
  by (simp add: uvcExtractEmbedded_def agree_def)

section \<open>A muxed stream comes back\<close>

text \<open>
  The data of the segments a camera writes for one stream: the first behind a header (\<open>vers\<close> its
  fields but length and kind), the others as they are. The size counts the others' marker and length.
\<close>

definition mux_size :: "bytes \<Rightarrow> bytes list \<Rightarrow> nat" where
  "mux_size d ds = length d + sum_list (map (\<lambda>x. length x + 4) ds)"

definition mux_first :: "nat \<Rightarrow> bytes \<Rightarrow> bytes \<Rightarrow> bytes list \<Rightarrow> bytes" where
  "mux_first fourcc vers d ds =
     take 2 vers @ enc_le16 (length vers + 6) @ enc_be32 fourcc @ drop 2 vers @ enc_le32 (mux_size d ds) @ d"

definition enc_segment :: "u8 \<times> bytes \<Rightarrow> bytes" where
  "enc_segment s = [JPEG_MARKER, fst s] @ rev (enc_le16 (length (snd s) + 2)) @ snd s"

text \<open>A JPEG frame: segments in front of the picture data.\<close>

definition jpeg_frame :: "(u8 \<times> bytes) list \<Rightarrow> bytes \<Rightarrow> bytes" where
  "jpeg_frame segs picture =
     [JPEG_MARKER, JPEG_SOI] @ concat (map enc_segment segs) @ [JPEG_MARKER, JPEG_SOS] @ picture"

lemma le32_at_append: "le32_at (a @ b) (length a + i) = le32_at b i"
  by (simp add: le32_at_def nth_append)

lemma mux_header_first:
  assumes "16 \<le> length vers" and "length vers + 6 < 65536" and "fourcc < 4294967296" and "mux_size d ds < 4294967296"
  shows "mux_header (mux_first fourcc vers d ds) = (fourcc, mux_size d ds, length vers + 10)"
    and "drop (length vers + 10) (mux_first fourcc vers d ds) = d"
    and "length (mux_first fourcc vers d ds) = length vers + 10 + length d"
proof -
  obtain v0 v1 vs where v: "vers = v0 # v1 # vs" using assms(1) by (cases vers; cases "tl vers") auto
  let ?a = "[v0, v1] @ enc_le16 (length vers + 6) @ enc_be32 fourcc @ vs"
  have e: "mux_first fourcc vers d ds = ?a @ enc_le32 (mux_size d ds) @ d" by (simp add: mux_first_def v)
  have la: "length ?a = length vers + 6" by (simp add: v)
  show l: "length (mux_first fourcc vers d ds) = length vers + 10 + length d" unfolding e using la by simp
  show "drop (length vers + 10) (mux_first fourcc vers d ds) = d"
  proof -
    have "length (?a @ enc_le32 (mux_size d ds)) = length vers + 10" using la by simp
    then show ?thesis unfolding e append_assoc [symmetric] using append_eq_conv_conj by metis
  qed
  have h: "le16 (mux_first fourcc vers d ds ! 2) (mux_first fourcc vers d ds ! 3) = length vers + 6"
    unfolding e using le16_enc [of "length vers + 6"] assms(2) by (simp add: enc_le16_def)
  have f: "be32_at (mux_first fourcc vers d ds) 4 = fourcc"
    unfolding e using le32_enc [of fourcc] assms(3)
    by (simp add: be32_at_def enc_le16_def enc_be32_def enc_le32_def nth_append)
  have "le32_at (mux_first fourcc vers d ds) (length vers + 6) = le32_at (enc_le32 (mux_size d ds) @ d) 0"
    unfolding e using le32_at_append [of ?a "enc_le32 (mux_size d ds) @ d" 0] unfolding la by simp
  then have s: "le32_at (mux_first fourcc vers d ds) (length vers + 6) = mux_size d ds"
    using le32_enc [of "mux_size d ds"] assms(4) by (simp add: le32_at_def enc_le32_def)
  show "mux_header (mux_first fourcc vers d ds) = (fourcc, mux_size d ds, length vers + 10)"
    unfolding mux_header_def h l f s Let_def using assms(1) by simp
qed

lemma extract_filter:
  "spec_extract fourcc segs left wanted = spec_extract fourcc (filter (\<lambda>(t, d). t = UVCX_MUX_MARKER) segs) left wanted"
  by (induction segs arbitrary: left wanted) (auto split: prod.splits)

lemma extract_rest:
  "left = sum_list (map (\<lambda>x. length x + 4) ds) \<Longrightarrow>
   spec_extract fourcc (map (Pair UVCX_MUX_MARKER) ds) left True = concat ds"
  by (induction ds arbitrary: left) (auto simp: share_def Let_def)

lemma extract_mux:
  assumes "16 \<le> length vers" and "length vers + 6 < 65536" and "fourcc < 4294967296" and "mux_size d ds < 4294967296"
    and "filter (\<lambda>(t, d). t = UVCX_MUX_MARKER) segs = map (Pair UVCX_MUX_MARKER) (mux_first fourcc vers d ds # ds)"
  shows "spec_extract fourcc segs 0 False = d @ concat ds"
proof -
  note m = mux_header_first [OF assms(1-4)]
  have "share fourcc (mux_first fourcc vers d ds) 0 False = (d, sum_list (map (\<lambda>x. length x + 4) ds), True)"
    unfolding share_def m(1) using m(2,3) by (simp add: mux_size_def)
  then have "spec_extract fourcc (map (Pair UVCX_MUX_MARKER) (mux_first fourcc vers d ds # ds)) 0 False = d @ concat ds"
    using extract_rest [OF refl] by simp
  then show ?thesis by (subst extract_filter) (simp only: assms(5))
qed

lemma segments_enc:
  assumes "\<forall>(t, d) \<in> set segs. t \<noteq> JPEG_SOS \<and> length d + 2 < 65536"
  shows "segments (length (pre @ concat (map enc_segment segs) @ [JPEG_MARKER, JPEG_SOS] @ picture))
    (pre @ concat (map enc_segment segs) @ [JPEG_MARKER, JPEG_SOS] @ picture) (length pre) = segs"
  using assms
proof (induction segs arbitrary: pre)
  case Nil
  let ?b = "pre @ [JPEG_MARKER, JPEG_SOS] @ picture"
  have "uvcJpegSegment ?b (length ?b) (length pre) = Some 0"
    by (simp add: uvcJpegSegment_def rd8_def nth_append)
  then show ?case by (subst segments.simps) simp
next
  case (Cons s segs)
  obtain t d where s: "s = (t, d)" by (cases s)
  let ?tail = "concat (map enc_segment segs) @ [JPEG_MARKER, JPEG_SOS] @ picture"
  let ?b = "(pre @ enc_segment s) @ ?tail"
  have b: "?b = pre @ JPEG_MARKER # t # word_of_nat ((length d + 2) div 256) # word_of_nat (length d + 2) # d @ ?tail"
    by (simp add: enc_segment_def s enc_le16_def)
  have n: "uvcJpegSegment ?b (length ?b) (length pre) = Some (length d + 2)"
    unfolding b using Cons.prems le16_enc [of "length d + 2"]
    by (simp add: uvcJpegSegment_def rd8_def rd_be16_def nth_append s)
  have p: "?b ! (length pre + 1) = t" "take (length d + 2 - 2) (drop (length pre + 4) ?b) = d"
    "length pre + 2 + (length d + 2) = length (pre @ enc_segment s)"
    unfolding b by (simp_all add: nth_append enc_segment_def s)
  have "segments (length ?b) ?b (length (pre @ enc_segment s)) = segs"
    by (rule Cons.IH) (use Cons.prems in simp)
  then have "segments (length ?b) ?b (length pre) = s # segs"
    unfolding segments.simps [of "length ?b" ?b "length pre"] n option.case p using s by simp
  then show ?case by (simp add: append_assoc)
qed

end
