(* ===== verification/Uvc_Engine.thy ===== *)
theory Uvc_Engine
  imports Uvc_Embed "HOL-Library.Multiset"
begin

text \<open>
  Laws of the payload engine and of both transports: the unit's invariant, that no read is lost
  or given back twice, and that what the camera sends in payloads is what a read gets.
\<close>

section \<open>The invariant of a unit\<close>

definition read_ok :: "uvRead \<Rightarrow> bool" where
  "read_ok r \<longleftrightarrow> unat (io_Length r) \<le> length (io_Data r)"

text \<open>The mode in force has a format with a row in the payload table.\<close>

definition mode_ok :: "uvcMode \<Rightarrow> bool" where
  "mode_ok m \<longleftrightarrow> (case um_Format m of None \<Rightarrow> True | Some ufo \<Rightarrow> row_of ufo \<noteq> None)"

definition all_reads :: "nepVideoStream \<Rightarrow> uvRead list" where
  "all_reads ns = ur_Queue (ns_Reads ns) @ (case ur_Cur (ns_Reads ns) of None \<Rightarrow> [] | Some r \<Rightarrow> [r])"

text \<open>
  The frames that were started are those that ended in one of the counts, and the open one. The
  frame that was open when a stream was stopped is in none.
\<close>

definition counts_ok :: "nepVideoStream \<Rightarrow> bool" where
  "counts_ok ns \<longleftrightarrow> (let s = ns_Stats ns;
       ended = uvs_Delivered s + uvs_Skipped s + uvs_Damaged s + uvs_Overflowed s
     in if ns_Streaming ns then uvs_Frames s = ended + (if ua_Open (ns_Asm ns) then 1 else 0)
        else uvs_Frames s = ended \<or> uvs_Frames s = ended + 1)"

definition fill_ok :: "nepVideoStream \<Rightarrow> bool" where
  "fill_ok ns \<longleftrightarrow> (\<forall>r. ur_Cur (ns_Reads ns) = Some r \<longrightarrow> ua_Open (ns_Asm ns) \<longrightarrow>
     ua_Fill (ns_Asm ns) \<le> io_Length r)"

definition unit_inv :: "nepVideoStream \<Rightarrow> bool" where
  "unit_inv ns \<longleftrightarrow> mode_ok (ns_Mode ns) \<and> (\<forall>r \<in> set (all_reads ns). read_ok r) \<and> counts_ok ns \<and> fill_ok ns \<and>
     (ns_Streaming ns \<longrightarrow> um_Format (ns_Mode ns) \<noteq> None \<and> length (ns_Scratch ns) = unat (ns_ScratchSize ns)) \<and>
     (\<not> ns_Streaming ns \<longrightarrow> ur_Cur (ns_Reads ns) = None \<and> \<not> ua_Open (ns_Asm ns))"

text \<open>Every read by its identity: waiting, being filled, or given back.\<close>

definition read_ids :: "nepVideoStream \<Rightarrow> nat multiset" where
  "read_ids ns = mset (map rd_Id (all_reads ns)) + mset (map rd_Id (ns_Replied ns))"

text \<open>A step of the engine: the invariant and the account of reads, and what it leaves alone.\<close>

definition engine_keeps :: "nepVideoStream \<Rightarrow> nepVideoStream \<Rightarrow> bool" where
  "engine_keeps a b \<longleftrightarrow> unit_inv b \<and> ns_Streaming b \<and> read_ids b = read_ids a \<and> ns_Mode b = ns_Mode a \<and>
     ns_ScratchSize b = ns_ScratchSize a \<and> ns_Scratch b = ns_Scratch a \<and> ns_Bulk b = ns_Bulk a \<and>
     ns_IsBulk b = ns_IsBulk a \<and> ns_OpenFlags b = ns_OpenFlags a \<and> ns_Binding b = ns_Binding a \<and>
     ns_OpenCnt b = ns_OpenCnt a"

lemma keeps_trans: "engine_keeps a b \<Longrightarrow> engine_keeps b c \<Longrightarrow> engine_keeps a c"
  by (simp add: engine_keeps_def)

lemma keeps_inv: "engine_keeps a b \<Longrightarrow> unit_inv b \<and> ns_Streaming b"
  by (simp add: engine_keeps_def)

lemma keeps_refl: "unit_inv a \<Longrightarrow> ns_Streaming a \<Longrightarrow> engine_keeps a a"
  by (simp add: engine_keeps_def)

lemmas unit_defs = unit_inv_def all_reads_def counts_ok_def fill_ok_def read_ids_def

lemma running_row:
  assumes "unit_inv ns" and "ns_Streaming ns"
  shows "\<exists>ufo up. um_Format (ns_Mode ns) = Some ufo \<and> row_of ufo = Some up"
  using assms by (auto simp: unit_inv_def mode_ok_def split: option.splits)

section \<open>The engine\<close>

text \<open>Giving the current read back, with a count that keeps the balance.\<close>

lemma deliver_keeps:
  assumes "unit_inv a" and "ns_Streaming a" and "ur_Cur (ns_Reads a) = Some r0"
    and "ur_Cur (ns_Reads ns) = Some r" and "rd_Id r = rd_Id r0"
    and "ur_Queue (ns_Reads ns) = ur_Queue (ns_Reads a)" and "ns_Replied ns = ns_Replied a"
    and "counts_ok ns" and "ns_Streaming ns" and "ns_Mode ns = ns_Mode a" and "ns_ScratchSize ns = ns_ScratchSize a"
    and "ns_Scratch ns = ns_Scratch a" and "ns_Bulk ns = ns_Bulk a" and "ns_IsBulk ns = ns_IsBulk a"
    and "ns_OpenFlags ns = ns_OpenFlags a" and "ns_Binding ns = ns_Binding a" and "ns_OpenCnt ns = ns_OpenCnt a"
  shows "\<exists>ns'. uvcDeliver ns err fl = Some ns' \<and> engine_keeps a ns' \<and> ur_Cur (ns_Reads ns') = None \<and> ns_Asm ns' = ns_Asm ns"
  using assms by (auto simp: uvcDeliver_def engine_keeps_def unit_defs Let_def)

lemma is_jpeg_ok:
  assumes "read_ok r" and "fill \<le> io_Length r"
  shows "\<exists>b. is_jpeg r fill = Some b"
proof (cases "fill < 2")
  case False
  then have "2 \<le> unat fill" by (simp add: word_less_nat_alt)
  then have "2 \<le> length (io_Data r)" using assms by (simp add: read_ok_def word_le_nat_alt)
  then show ?thesis using False by (auto simp: is_jpeg_def rd8_def)
qed (simp add: is_jpeg_def, blast)

lemma close_whole_keeps:
  assumes a: "unit_inv a" "ns_Streaming a" "ur_Cur (ns_Reads a) = Some r" "ua_Open (ns_Asm a)"
    and n: "\<exists>d. ns = a\<lparr>ns_Asm := (ns_Asm a)\<lparr>ua_Open := False, ua_Damaged := d\<rparr>\<rparr>"
  shows "\<exists>ns'. close_whole up r ns = Some ns' \<and> engine_keeps a ns' \<and> \<not> ua_Open (ns_Asm ns')"
proof -
  obtain d where ns: "ns = a\<lparr>ns_Asm := (ns_Asm a)\<lparr>ua_Open := False, ua_Damaged := d\<rparr>\<rparr>" using n ..
  have r: "read_ok r" "ua_Fill (ns_Asm a) \<le> io_Length r" using a by (auto simp: unit_defs)
  show ?thesis
  proof (cases "up_Embedded up")
    case False
    have "\<exists>ns'. uvcDeliver (count_frame (\<lambda>s. s\<lparr>uvs_Delivered := uvs_Delivered s + 1\<rparr>) ns) 0 0 = Some ns' \<and>
        engine_keeps a ns' \<and> ur_Cur (ns_Reads ns') = None \<and>
        ns_Asm ns' = ns_Asm (count_frame (\<lambda>s. s\<lparr>uvs_Delivered := uvs_Delivered s + 1\<rparr>) ns)"
      using a by (intro deliver_keeps [OF a(1-3)]) (simp_all add: ns count_frame_def counts_ok_def unit_inv_def Let_def algebra_simps)
    then show ?thesis using False by (auto simp: close_whole_def ns count_frame_def)
  next
    case True
    have "unat (ua_Fill (ns_Asm ns)) \<le> length (io_Data r)" using r by (simp add: ns read_ok_def word_le_nat_alt)
    from extract_eq [OF this, of UVFCC_H264] obtain buf n where
      x: "uvcExtractEmbedded (io_Data r) (unat (ua_Fill (ns_Asm ns))) UVFCC_H264 = Some (buf, n)"
        "length buf = length (io_Data r)" by blast
    let ?ns = "ns\<lparr>ns_Asm := (ns_Asm ns)\<lparr>ua_Fill := word_of_nat n\<rparr>,
        ns_Reads := (ns_Reads ns)\<lparr>ur_Cur := Some (r\<lparr>io_Data := buf\<rparr>)\<rparr>\<rparr>"
    note cw = close_whole_def if_P [OF True] x(1) bind.bind_lunit prod.case Let_def
    show ?thesis
    proof (cases "n = 0")
      case True
      have "engine_keeps a (count_frame (\<lambda>s. s\<lparr>uvs_Frames := uvs_Frames s - 1\<rparr>) ?ns)"
        using a x(2) by (auto simp: engine_keeps_def unit_defs ns count_frame_def read_ok_def Let_def algebra_simps)
      then show ?thesis unfolding cw if_P [OF True] by (simp add: ns count_frame_def)
    next
      case False
      have "\<exists>ns'. uvcDeliver (count_frame (\<lambda>s. s\<lparr>uvs_Delivered := uvs_Delivered s + 1\<rparr>) ?ns) 0 0 = Some ns' \<and>
          engine_keeps a ns' \<and> ur_Cur (ns_Reads ns') = None \<and>
          ns_Asm ns' = ns_Asm (count_frame (\<lambda>s. s\<lparr>uvs_Delivered := uvs_Delivered s + 1\<rparr>) ?ns)"
        using a by (intro deliver_keeps [OF a(1-3), where r = "r\<lparr>io_Data := buf\<rparr>"]) (simp_all add: ns count_frame_def counts_ok_def unit_inv_def Let_def algebra_simps)
      then show ?thesis unfolding cw if_not_P [OF False] by (auto simp: ns count_frame_def)
    qed
  qed
qed

text \<open>Closing an open frame that a read is taking.\<close>

definition is_damaged :: "uvcPayload \<Rightarrow> bool \<Rightarrow> nepVideoStream \<Rightarrow> bool" where
  "is_damaged up isjpeg a \<longleftrightarrow> ua_Damaged (ns_Asm a) \<or> (up_JpegStart up \<and> \<not> isjpeg) \<or>
     (up_FixedSize up \<and> ua_Fill (ns_Asm a) \<noteq> um_MaxFrameSize (ns_Mode a))"

definition closing :: "nepVideoStream \<Rightarrow> bool \<Rightarrow> nepVideoStream" where
  "closing a d = a\<lparr>ns_Asm := (ns_Asm a)\<lparr>ua_Open := False, ua_Damaged := d\<rparr>\<rparr>"

lemma close_eq:
  assumes "ua_Open (ns_Asm a)" and "ur_Cur (ns_Reads a) = Some r" and "um_Format (ns_Mode a) = Some ufo"
    and "row_of ufo = Some up" and "is_jpeg r (ua_Fill (ns_Asm a)) = Some j"
  shows "uvcCloseFrame a =
    (if ua_Overflow (ns_Asm a)
     then uvcDeliver (count_frame (\<lambda>s. s\<lparr>uvs_Overflowed := uvs_Overflowed s + 1\<rparr>) (a\<lparr>ns_Asm := (ns_Asm a)\<lparr>ua_Open := False\<rparr>\<rparr>)) UVERR_OVERFLOW 0
     else if \<not> is_damaged up j a then close_whole up r (closing a False)
     else if ns_OpenFlags a AND UVOF_DAMAGED \<noteq> 0
     then uvcDeliver (count_frame (\<lambda>s. s\<lparr>uvs_Damaged := uvs_Damaged s + 1\<rparr>) (closing a True)) 0 IVRF_DAMAGED
     else Some (count_frame (\<lambda>s. s\<lparr>uvs_Damaged := uvs_Damaged s + 1\<rparr>) (closing a True)))"
  using assms by (auto simp: uvcCloseFrame_def is_damaged_def closing_def Let_def count_frame_def)

lemma close_keeps:
  assumes a: "unit_inv a" "ns_Streaming a"
  shows "\<exists>ns'. uvcCloseFrame a = Some ns' \<and> engine_keeps a ns' \<and> \<not> ua_Open (ns_Asm ns')"
proof (cases "ua_Open (ns_Asm a)")
  case False
  then show ?thesis using a keeps_refl by (simp add: uvcCloseFrame_def)
next
  case op: True
  let ?ns = "a\<lparr>ns_Asm := (ns_Asm a)\<lparr>ua_Open := False\<rparr>\<rparr>"
  show ?thesis
  proof (cases "ur_Cur (ns_Reads a)")
    case None
    have "engine_keeps a (count_frame (\<lambda>s. s\<lparr>uvs_Skipped := uvs_Skipped s + 1\<rparr>) ?ns)"
      using a op None by (auto simp: engine_keeps_def unit_defs count_frame_def Let_def algebra_simps)
    then show ?thesis using op None by (simp add: uvcCloseFrame_def Let_def count_frame_def)
  next
    case (Some r)
    obtain ufo up where row: "um_Format (ns_Mode a) = Some ufo" "row_of ufo = Some up" using running_row [OF a] by blast
    have r: "read_ok r" "ua_Fill (ns_Asm a) \<le> io_Length r" using a op Some by (auto simp: unit_defs)
    obtain j where j: "is_jpeg r (ua_Fill (ns_Asm a)) = Some j" using is_jpeg_ok [OF r] ..
    let ?c = "count_frame (\<lambda>s. s\<lparr>uvs_Damaged := uvs_Damaged s + 1\<rparr>) (closing a True)"
    let ?o = "count_frame (\<lambda>s. s\<lparr>uvs_Overflowed := uvs_Overflowed s + 1\<rparr>) ?ns"
    have dl: "\<exists>ns'. uvcDeliver x err fl = Some ns' \<and> engine_keeps a ns' \<and> \<not> ua_Open (ns_Asm ns')"
      if "x = ?c \<or> x = ?o" for x err fl
    proof -
      have "\<exists>ns'. uvcDeliver x err fl = Some ns' \<and> engine_keeps a ns' \<and> ur_Cur (ns_Reads ns') = None \<and> ns_Asm ns' = ns_Asm x"
        using a op that Some
        by (intro deliver_keeps [OF a Some]) (auto simp: count_frame_def closing_def counts_ok_def unit_inv_def Let_def algebra_simps)
      then show ?thesis using that by (auto simp: count_frame_def closing_def)
    qed
    have kc: "engine_keeps a ?c \<and> \<not> ua_Open (ns_Asm ?c)"
      using a op Some by (auto simp: engine_keeps_def unit_defs count_frame_def closing_def Let_def algebra_simps)
    have kw: "\<exists>ns'. close_whole up r (closing a False) = Some ns' \<and> engine_keeps a ns' \<and> \<not> ua_Open (ns_Asm ns')"
      by (rule close_whole_keeps [OF a Some op]) (auto simp: closing_def)
    show ?thesis unfolding close_eq [OF op Some row j] using dl kc kw by auto
  qed
qed

lemma abort_put [simp]:
  "unit_inv (d\<lparr>ns_Reads := (ns_Reads d)\<lparr>ur_AbortCur := b\<rparr>\<rparr>) = unit_inv d"
  "read_ids (d\<lparr>ns_Reads := (ns_Reads d)\<lparr>ur_AbortCur := b\<rparr>\<rparr>) = read_ids d"
  by (simp_all add: unit_defs Let_def)

lemma begin_abort_keeps:
  assumes a: "unit_inv a" "ns_Streaming a"
  shows "\<exists>ns'. begin_abort a = Some ns' \<and> engine_keeps a ns' \<and> ua_Open (ns_Asm ns') = ua_Open (ns_Asm a) \<and>
    ua_FID (ns_Asm ns') = ua_FID (ns_Asm a)"
proof (cases "ur_AbortCur (ns_Reads a) \<and> ur_Cur (ns_Reads a) \<noteq> None")
  case True
  then obtain r where r: "ur_Cur (ns_Reads a) = Some r" by auto
  let ?n = "a\<lparr>ns_Asm := (ns_Asm a)\<lparr>ua_Fill := 0\<rparr>\<rparr>"
  have "\<exists>ns'. uvcDeliver ?n IOERR_ABORTED 0 = Some ns' \<and> engine_keeps a ns' \<and> ur_Cur (ns_Reads ns') = None \<and> ns_Asm ns' = ns_Asm ?n"
    using a by (intro deliver_keeps [OF a r]) (simp_all add: r counts_ok_def unit_inv_def Let_def)
  then obtain d where d: "uvcDeliver ?n IOERR_ABORTED 0 = Some d" "engine_keeps a d" "ns_Asm d = ns_Asm ?n" by blast
  have "engine_keeps a (d\<lparr>ns_Reads := (ns_Reads d)\<lparr>ur_AbortCur := False\<rparr>\<rparr>)"
    using d(2) by (simp add: engine_keeps_def)
  then show ?thesis using True r d(1,3) by (simp add: begin_abort_def)
next
  case False
  then show ?thesis using a by (auto simp: begin_abort_def engine_keeps_def)
qed

text \<open>Fields of the assembly the invariant does not speak of, and the counts of faults.\<close>

definition harmless :: "nepVideoStream \<Rightarrow> nepVideoStream \<Rightarrow> bool" where
  "harmless a b \<longleftrightarrow> b = a\<lparr>ns_Asm := ns_Asm b, ns_Stats := ns_Stats b\<rparr> \<and>
     ua_Open (ns_Asm b) = ua_Open (ns_Asm a) \<and> ua_Fill (ns_Asm b) = ua_Fill (ns_Asm a) \<and>
     uvs_Frames (ns_Stats b) = uvs_Frames (ns_Stats a) \<and> uvs_Delivered (ns_Stats b) = uvs_Delivered (ns_Stats a) \<and>
     uvs_Skipped (ns_Stats b) = uvs_Skipped (ns_Stats a) \<and> uvs_Damaged (ns_Stats b) = uvs_Damaged (ns_Stats a) \<and>
     uvs_Overflowed (ns_Stats b) = uvs_Overflowed (ns_Stats a)"

lemma harmless_keeps:
  assumes h: "harmless a b" and a: "unit_inv a" "ns_Streaming a"
  shows "engine_keeps a b"
proof -
  obtain s st where b: "b = a\<lparr>ns_Asm := s, ns_Stats := st\<rparr>" using h unfolding harmless_def by blast
  have "ua_Open s = ua_Open (ns_Asm a)" "ua_Fill s = ua_Fill (ns_Asm a)"
    "uvs_Frames st = uvs_Frames (ns_Stats a)" "uvs_Delivered st = uvs_Delivered (ns_Stats a)"
    "uvs_Skipped st = uvs_Skipped (ns_Stats a)" "uvs_Damaged st = uvs_Damaged (ns_Stats a)"
    "uvs_Overflowed st = uvs_Overflowed (ns_Stats a)" using h unfolding harmless_def b by simp_all
  then show ?thesis using a by (simp add: engine_keeps_def unit_defs b Let_def)
qed

lemma fields_keeps:
  assumes a: "unit_inv a" "ns_Streaming a" and h: "hdrlen \<le> length hdr"
  shows "\<exists>ns'. begin_fields hdr hdrlen f a = Some ns' \<and> engine_keeps a ns' \<and> ns_Reads ns' = ns_Reads a \<and>
    ua_Open (ns_Asm ns') = ua_Open (ns_Asm a) \<and> ua_PayInfo (ns_Asm ns') = ua_PayInfo (ns_Asm a) \<and>
    ns_Stats ns' = ns_Stats a \<and> ns_Replied ns' = ns_Replied a"
proof -
  obtain ufo up where row: "um_Format (ns_Mode a) = Some ufo" "row_of ufo = Some up" using running_row [OF a] by blast
  let ?pts = "ua_PayInfo (ns_Asm a) AND UVPHF_PTS \<noteq> 0 \<and> 1 + up_InfoBytes up + 4 \<le> hdrlen"
  let ?pos = "1 + up_InfoBytes up + (if ua_PayInfo (ns_Asm a) AND UVPHF_PTS \<noteq> 0 then 4 else 0)"
  let ?scr = "ua_PayInfo (ns_Asm a) AND UVPHF_SCR \<noteq> 0 \<and> ?pos + 6 \<le> hdrlen"
  obtain pts clk sof where rd: "(if ?pts then rd_le32 hdr (1 + up_InfoBytes up) else Some 0) = Some pts"
    "(if ?scr then rd_le32 hdr ?pos else Some 0) = Some clk"
    "(if ?scr then rd_le16 hdr (?pos + 4) else Some 0) = Some sof"
  proof -
    have "\<exists>x. (if ?pts then rd_le32 hdr (1 + up_InfoBytes up) else Some 0) = Some x"
      using h by (simp add: rd_le32_def)
    moreover have "\<exists>x. (if ?scr then rd_le32 hdr ?pos else Some 0) = Some x" using h by (simp add: rd_le32_def)
    moreover have "\<exists>x. (if ?scr then rd_le16 hdr (?pos + 4) else Some 0) = Some x" using h by (simp add: rd_le16_def)
    ultimately show thesis using that by blast
  qed
  let ?n = "a\<lparr>ns_Asm := (ns_Asm a)\<lparr>ua_BusFrame := f, ua_HasPTS := ?pts,
             ua_PTS := word_of_nat pts, ua_HasSCR := ?scr, ua_SCRClock := word_of_nat clk,
             ua_SCRFrame := word_of_nat sof AND 0x07ff\<rparr>\<rparr>"
  have "begin_fields hdr hdrlen f a = Some ?n"
    unfolding begin_fields_def row bind.bind_lunit Let_def rd ..
  moreover have "harmless a ?n" by (simp add: harmless_def)
  ultimately show ?thesis using harmless_keeps [OF _ a] by simp
qed

lemma close_if:
  assumes "unit_inv a" and "ns_Streaming a"
  shows "\<exists>ns'. (if c then uvcCloseFrame a else Some a) = Some ns' \<and> engine_keeps a ns'"
  using close_keeps [OF assms] keeps_refl [OF assms] by (cases c) auto

lemma fields_if:
  assumes "unit_inv a" and "ns_Streaming a" and "hdrlen \<le> length hdr"
  shows "\<exists>ns'. (if c then begin_fields hdr hdrlen f a else Some a) = Some ns' \<and> engine_keeps a ns'"
  using fields_keeps [OF assms] keeps_refl [OF assms(1,2)] by (cases c) auto

lemma begin_keeps:
  assumes a: "unit_inv a" "ns_Streaming a" and l: "len \<le> length hdr"
  shows "\<exists>ns' h. uvcPayloadBegin a hdr len we bf = Some (ns', h) \<and> engine_keeps a ns' \<and> h \<le> len"
proof -
  obtain b where b: "(if 2 \<le> len then rd8 hdr 0 else Some 0) = Some b"
    using l by (cases "2 \<le> len"; cases hdr) (auto simp: rd8_def)
  obtain a1 where a1: "begin_abort a = Some a1" "engine_keeps a a1" using begin_abort_keeps [OF a] by blast
  let ?a2 = "if we then count_frame (\<lambda>s. s\<lparr>uvs_LostIntervals := uvs_LostIntervals s + 1\<rparr>) a1 else a1"
  have i1: "unit_inv a1" "ns_Streaming a1" using keeps_inv [OF a1(2)] by auto
  have "harmless a1 ?a2" by (simp add: harmless_def count_frame_def)
  from keeps_trans [OF a1(2) harmless_keeps [OF this i1]] have k2: "engine_keeps a ?a2" .
  then have i2: "unit_inv ?a2" "ns_Streaming ?a2" using keeps_inv by blast+
  show ?thesis
  proof (cases "unat b < 2 \<or> len < unat b")
    case True
    let ?a3 = "if \<not> we then count_frame (\<lambda>s. s\<lparr>uvs_BadPayloads := uvs_BadPayloads s + 1\<rparr>) ?a2 else ?a2"
    let ?a4 = "?a3\<lparr>ns_Asm := (ns_Asm ?a3)\<lparr>ua_Damaged := True\<rparr>\<rparr>"
    have "harmless ?a2 ?a4" by (simp add: harmless_def count_frame_def)
    from keeps_trans [OF k2 harmless_keeps [OF this i2]] have "engine_keeps a ?a4" .
    moreover have "uvcPayloadBegin a hdr len we bf = Some (?a4, 0)"
      unfolding uvcPayloadBegin_def b bind.bind_lunit Let_def a1(1) if_P [OF True] by simp
    ultimately show ?thesis by blast
  next
    case False
    then have "1 < length hdr" using l by linarith
    then have i: "rd8 hdr 1 = Some (hdr ! 1)" by (simp add: rd8_def)
    let ?info = "hdr ! 1 OR (if we then UVPHF_ERR else 0)"
    let ?a3 = "if hdr ! 1 AND UVPHF_ERR \<noteq> 0 then count_frame (\<lambda>s. s\<lparr>uvs_CameraErrors := uvs_CameraErrors s + 1\<rparr>) ?a2 else ?a2"
    let ?a4 = "?a3\<lparr>ns_Asm := (ns_Asm ?a3)\<lparr>ua_PayInfo := ?info\<rparr>\<rparr>"
    have "harmless ?a2 ?a4" by (simp add: harmless_def count_frame_def)
    from keeps_trans [OF k2 harmless_keeps [OF this i2]] have k4: "engine_keeps a ?a4" .
    then have i4: "unit_inv ?a4" "ns_Streaming ?a4" using keeps_inv by blast+
    obtain a5 where a5: "(if ua_Open (ns_Asm ?a4) \<and> ?info AND UVPHF_FID \<noteq> ua_FID (ns_Asm ?a4)
        then uvcCloseFrame ?a4 else Some ?a4) = Some a5" "engine_keeps ?a4 a5"
      using close_if [OF i4] by blast
    have i5: "unit_inv a5" "ns_Streaming a5" using keeps_inv [OF a5(2)] by auto
    have "unat b \<le> length hdr" using False l by simp
    from fields_if [OF i5 this] obtain a6 where
      a6: "(if \<not> ua_Open (ns_Asm a5) then begin_fields hdr (unat b) bf a5 else Some a5) = Some a6" "engine_keeps a5 a6"
      by blast
    have "uvcPayloadBegin a hdr len we bf = Some (a6, unat b)"
      unfolding uvcPayloadBegin_def b bind.bind_lunit Let_def a1(1) if_not_P [OF False] i a5(1) a6(1) ..
    then show ?thesis using keeps_trans [OF k4 keeps_trans [OF a5(2) a6(2)]] False by auto
  qed
qed

lemma open_keeps:
  assumes a: "unit_inv a" "ns_Streaming a" "\<not> ua_Open (ns_Asm a)"
  shows "engine_keeps a (open_frame a)"
proof -
  note d = open_frame_def engine_keeps_def unit_defs count_frame_def Let_def
  consider r where "ur_Cur (ns_Reads a) = Some r" | "ur_Cur (ns_Reads a) = None" "ur_Queue (ns_Reads a) = []"
    | r rs where "ur_Cur (ns_Reads a) = None" "ur_Queue (ns_Reads a) = r # rs"
    by (cases "ur_Cur (ns_Reads a)"; cases "ur_Queue (ns_Reads a)") auto
  then show ?thesis
  proof cases
    case 1
    then show ?thesis using a by (simp add: d)
  next
    case 2
    then show ?thesis using a by (simp add: d)
  next
    case 3
    then show ?thesis using a by (simp add: d)
  qed
qed

lemma store_room:
  assumes "fill \<le> (l :: u32)"
  shows "unat (l - fill) = unat l - unat fill"
    and "n \<le> unat (l - fill) \<Longrightarrow> unat (fill + word_of_nat n) = unat fill + n"
proof -
  show u: "unat (l - fill) = unat l - unat fill" using assms by (simp add: unat_sub)
  assume n: "n \<le> unat (l - fill)"
  have "unat fill + n \<le> unat l" using n u assms by (simp add: word_le_nat_alt)
  moreover have "unat l < 2 ^ 32" using unsigned_less [of l] by simp
  ultimately have "unat fill + n < 2 ^ 32" by linarith
  then show "unat (fill + word_of_nat n) = unat fill + n" by (simp add: unat_word_ariths unat_of_nat)
qed

text \<open>What storing does: the bytes behind those already there, as far as there is room.\<close>

lemma store_eq:
  fixes data :: bytes
  assumes f: "ua_Fill (ns_Asm a) \<le> io_Length r" and r: "read_ok r" and c: "ur_Cur (ns_Reads a) = Some r"
  defines "fill \<equiv> unat (ua_Fill (ns_Asm a))"
  defines "n \<equiv> min (length data) (unat (io_Length r) - fill)"
  shows "store_data a data = Some (a\<lparr>ns_Asm := (ns_Asm a)\<lparr>
        ua_Overflow := (ua_Overflow (ns_Asm a) \<or> unat (io_Length r) - fill < length data),
        ua_Fill := ua_Fill (ns_Asm a) + word_of_nat n\<rparr>,
      ns_Reads := (ns_Reads a)\<lparr>ur_Cur := Some (r\<lparr>io_Data := take fill (io_Data r) @ take n data @ drop (fill + n) (io_Data r)\<rparr>)\<rparr>\<rparr>)"
    and "unat (ua_Fill (ns_Asm a) + word_of_nat n) = fill + n" and "fill + n \<le> unat (io_Length r)"
proof -
  have room: "unat (io_Length r - ua_Fill (ns_Asm a)) = unat (io_Length r) - fill"
    using store_room(1) [OF f] by (simp add: fill_def)
  have le: "fill \<le> unat (io_Length r)" using f by (simp add: fill_def word_le_nat_alt)
  then show b: "fill + n \<le> unat (io_Length r)" by (simp add: n_def)
  show "unat (ua_Fill (ns_Asm a) + word_of_nat n) = fill + n"
    using store_room(2) [OF f, of n] room by (simp add: fill_def n_def)
  have "fill + length (take n data) \<le> length (io_Data r)" using b r by (simp add: read_ok_def n_def)
  then have w: "wr_bytes (io_Data r) fill (take n data) =
      Some (take fill (io_Data r) @ take n data @ drop (fill + n) (io_Data r))"
    by (simp add: wr_bytes_def n_def)
  show "store_data a data = Some (a\<lparr>ns_Asm := (ns_Asm a)\<lparr>
        ua_Overflow := (ua_Overflow (ns_Asm a) \<or> unat (io_Length r) - fill < length data),
        ua_Fill := ua_Fill (ns_Asm a) + word_of_nat n\<rparr>,
      ns_Reads := (ns_Reads a)\<lparr>ur_Cur := Some (r\<lparr>io_Data := take fill (io_Data r) @ take n data @ drop (fill + n) (io_Data r)\<rparr>)\<rparr>\<rparr>)"
    unfolding store_data_def c option.case Let_def room
    unfolding fill_def [symmetric] n_def [symmetric] w bind.bind_lunit ..
qed

lemma store_keeps:
  assumes a: "unit_inv a" "ns_Streaming a" "ua_Open (ns_Asm a)"
  shows "\<exists>ns'. store_data a data = Some ns' \<and> engine_keeps a ns' \<and> ua_Open (ns_Asm ns') \<and>
    ua_PayInfo (ns_Asm ns') = ua_PayInfo (ns_Asm a)"
proof (cases "ur_Cur (ns_Reads a)")
  case None
  then show ?thesis using a keeps_refl by (simp add: store_data_def)
next
  case (Some r)
  have f: "ua_Fill (ns_Asm a) \<le> io_Length r" and r: "read_ok r" using a Some by (auto simp: unit_defs)
  note s = store_eq [OF f r Some, of data]
  let ?fill = "unat (ua_Fill (ns_Asm a))"
  let ?n = "min (length data) (unat (io_Length r) - ?fill)"
  let ?r = "r\<lparr>io_Data := take ?fill (io_Data r) @ take ?n data @ drop (?fill + ?n) (io_Data r)\<rparr>"
  have "read_ok ?r" using r s(3) by (simp add: read_ok_def)
  moreover have "ua_Fill (ns_Asm a) + word_of_nat ?n \<le> io_Length r" using s(2,3) by (simp add: word_le_nat_alt)
  ultimately show ?thesis unfolding s(1) using a Some
    by (auto simp: engine_keeps_def unit_defs Let_def)
qed

lemma data_keeps:
  assumes a: "unit_inv a" "ns_Streaming a"
  shows "\<exists>ns'. uvcPayloadData a d = Some ns' \<and> engine_keeps a ns'"
proof (cases "d = []")
  case True
  then show ?thesis using keeps_refl [OF a] by (simp add: uvcPayloadData_def)
next
  case False
  let ?b = "if ua_Open (ns_Asm a) then a else open_frame a"
  have k: "engine_keeps a ?b" using keeps_refl [OF a] open_keeps [OF a] by simp
  have "ua_Open (ns_Asm (open_frame a))"
    by (auto simp: open_frame_def count_frame_def Let_def split: option.split list.split)
  then have "ua_Open (ns_Asm ?b)" by simp
  from store_keeps [OF _ _ this, of d] keeps_inv [OF k] obtain c where
    "store_data ?b d = Some c" "engine_keeps ?b c" by blast
  then show ?thesis using False keeps_trans [OF k] by (auto simp: uvcPayloadData_def)
qed

lemma end_keeps:
  assumes a: "unit_inv a" "ns_Streaming a"
  shows "\<exists>ns'. uvcPayloadEnd a = Some ns' \<and> engine_keeps a ns'"
proof -
  let ?b = "if ua_PayInfo (ns_Asm a) AND UVPHF_ERR \<noteq> 0 then a\<lparr>ns_Asm := (ns_Asm a)\<lparr>ua_Damaged := True\<rparr>\<rparr> else a"
  have "harmless a ?b" by (simp add: harmless_def)
  then have k: "engine_keeps a ?b" using harmless_keeps a by blast
  then have i: "unit_inv ?b" "ns_Streaming ?b" using keeps_inv by blast+
  show ?thesis unfolding uvcPayloadEnd_def Let_def
    using close_keeps [OF i] k keeps_trans [OF k] by (auto split: if_splits)
qed

section \<open>The transports\<close>

lemma done_hook_keeps:
  assumes a: "unit_inv a" "ns_Streaming a" and l: "len \<le> unat (ns_ScratchSize a)"
  shows "\<exists>ns'. uvcInDoneHook a len we f = Some ns' \<and> engine_keeps a ns'"
proof -
  have l': "len \<le> length (ns_Scratch a)" using a l by (simp add: unit_inv_def)
  obtain b h where b: "uvcPayloadBegin a (ns_Scratch a) len we f = Some (b, h)" "engine_keeps a b" "h \<le> len"
    using begin_keeps [OF a l'] by blast
  show ?thesis
  proof (cases "h = 0")
    case True
    then show ?thesis using b by (simp add: uvcInDoneHook_def)
  next
    case False
    have s: "ns_Scratch b = ns_Scratch a" using b(2) by (simp add: engine_keeps_def)
    then have d: "rd_slice (ns_Scratch b) h (len - h) = Some (take (len - h) (drop h (ns_Scratch b)))"
      using l' b(3) by (simp add: rd_slice_def)
    have ib: "unit_inv b" "ns_Streaming b" using keeps_inv [OF b(2)] by auto
    obtain c where c: "uvcPayloadData b (take (len - h) (drop h (ns_Scratch b))) = Some c" "engine_keeps b c"
      using data_keeps [OF ib] by blast
    have ic: "unit_inv c" "ns_Streaming c" using keeps_inv [OF c(2)] by auto
    obtain e where e: "uvcPayloadEnd c = Some e" "engine_keeps c e" using end_keeps [OF ic] by blast
    have "uvcInDoneHook a len we f = Some e"
      unfolding uvcInDoneHook_def b(1) bind.bind_lunit prod.case if_P [OF False] d c(1) e(1) ..
    then show ?thesis using keeps_trans [OF b(2) keeps_trans [OF c(2) e(2)]] by blast
  qed
qed

text \<open>A bulk transfer: as the engine, and what is left of the payload.\<close>

definition bulk_keeps :: "nepVideoStream \<Rightarrow> nepVideoStream \<Rightarrow> bool" where
  "bulk_keeps a b \<longleftrightarrow> engine_keeps (a\<lparr>ns_Bulk := ns_Bulk b\<rparr>) b"

lemma bulk_put [simp]:
  "unit_inv (a\<lparr>ns_Bulk := x\<rparr>) = unit_inv a" "read_ids (a\<lparr>ns_Bulk := x\<rparr>) = read_ids a"
  by (simp_all add: unit_defs Let_def)

lemma bulk_keeps_of: "engine_keeps a b \<Longrightarrow> bulk_keeps a b"
  by (simp add: bulk_keeps_def engine_keeps_def)

lemma bulk_keeps_put: "bulk_keeps a b \<Longrightarrow> bulk_keeps a (b\<lparr>ns_Bulk := x\<rparr>)"
  by (simp add: bulk_keeps_def engine_keeps_def)

lemma bulk_keeps_trans: "bulk_keeps a b \<Longrightarrow> bulk_keeps b c \<Longrightarrow> bulk_keeps a c"
  by (simp add: bulk_keeps_def engine_keeps_def)

lemma bulk_keeps_inv: "bulk_keeps a b \<Longrightarrow> unit_inv b \<and> ns_Streaming b"
  by (simp add: bulk_keeps_def engine_keeps_def)

lemma bulk_keeps_fields:
  "bulk_keeps a b \<Longrightarrow> ns_Mode b = ns_Mode a \<and> ns_ScratchSize b = ns_ScratchSize a \<and> ns_Scratch b = ns_Scratch a"
  by (simp add: bulk_keeps_def engine_keeps_def)

lemma engine_bulk: "engine_keeps a b \<Longrightarrow> ns_Bulk b = ns_Bulk a"
  by (simp add: engine_keeps_def)

text \<open>Between two transfers less than a payload has come, if the camera named its size.\<close>

definition bulk_inv :: "nepVideoStream \<Rightarrow> bool" where
  "bulk_inv ns \<longleftrightarrow> (um_PayloadSize (ns_Mode ns) \<noteq> 0 \<longrightarrow> ub_PayDone (ns_Bulk ns) < um_PayloadSize (ns_Mode ns))"

lemma bulk_ask_rest:
  assumes "bulk_inv ns" and "um_PayloadSize (ns_Mode ns) \<noteq> 0"
  shows "unat (ub_PayDone (ns_Bulk ns)) + unat (uvcBulkAsk ns) \<le> unat (um_PayloadSize (ns_Mode ns))"
proof -
  let ?p = "um_PayloadSize (ns_Mode ns)" and ?d = "ub_PayDone (ns_Bulk ns)"
  have lt: "?d < ?p" using assms by (simp add: bulk_inv_def)
  then have s: "unat (?p - ?d) = unat ?p - unat ?d" by (simp add: unat_sub less_imp_le)
  have "unat (uvcBulkAsk ns) \<le> unat (?p - ?d)"
    using assms(2) by (auto simp: uvcBulkAsk_def Let_def word_le_nat_alt not_less)
  then show ?thesis using s lt by (simp add: word_less_nat_alt)
qed

lemma bulk_piece_keeps:
  assumes a: "unit_inv a" "ns_Streaming a" and l: "len \<le> unat (ns_ScratchSize a)" "h \<le> len"
    and b: "bulk_inv a" and k: "len \<le> unat asked" "um_PayloadSize (ns_Mode a) \<noteq> 0 \<longrightarrow>
      unat (ub_PayDone (ns_Bulk a)) + unat asked \<le> unat (um_PayloadSize (ns_Mode a))"
  shows "\<exists>ns'. bulk_piece a h asked len = Some ns' \<and> bulk_keeps a ns' \<and> bulk_inv ns'"
proof -
  have l': "len \<le> length (ns_Scratch a)" using a l by (simp add: unit_inv_def)
  have rd: "rd_slice (ns_Scratch a) h (len - h) = Some (take (len - h) (drop h (ns_Scratch a)))"
    using l' l(2) by (simp add: rd_slice_def)
  have "\<exists>c. (if ub_PaySkip (ns_Bulk a) then Some a
      else do { d \<leftarrow> rd_slice (ns_Scratch a) h (len - h); uvcPayloadData a d }) = Some c \<and> engine_keeps a c"
    unfolding rd bind.bind_lunit using data_keeps [OF a] keeps_refl [OF a] by (cases "ub_PaySkip (ns_Bulk a)") auto
  then obtain c where c: "(if ub_PaySkip (ns_Bulk a) then Some a
      else do { d \<leftarrow> rd_slice (ns_Scratch a) h (len - h); uvcPayloadData a d }) = Some c" "engine_keeps a c" by blast
  let ?c = "c\<lparr>ns_Bulk := (ns_Bulk c)\<lparr>ub_PayDone := ub_PayDone (ns_Bulk c) + word_of_nat len\<rparr>\<rparr>"
  have kc: "bulk_keeps a ?c" using c(2) bulk_keeps_of bulk_keeps_put by blast
  have ic: "unit_inv ?c" "ns_Streaming ?c" using bulk_keeps_inv [OF kc] by blast+
  have same: "ns_Bulk c = ns_Bulk a" "ns_Mode c = ns_Mode a" using c(2) by (simp_all add: engine_keeps_def)
  show ?thesis
  proof (cases "len < unat asked \<or> ub_PayDone (ns_Bulk ?c) = um_PayloadSize (ns_Mode ?c)")
    case True
    have "\<exists>e. (if ub_PaySkip (ns_Bulk ?c) then Some ?c else uvcPayloadEnd ?c) = Some e \<and> engine_keeps ?c e"
      using end_keeps [OF ic] keeps_refl [OF ic] by (cases "ub_PaySkip (ns_Bulk ?c)") auto
    then obtain e where e: "(if ub_PaySkip (ns_Bulk ?c) then Some ?c else uvcPayloadEnd ?c) = Some e" "engine_keeps ?c e" by blast
    let ?e = "e\<lparr>ns_Bulk := (ns_Bulk e)\<lparr>ub_PayDone := 0\<rparr>\<rparr>"
    have ke: "bulk_keeps a ?e" using bulk_keeps_trans [OF kc bulk_keeps_of [OF e(2)]] bulk_keeps_put by blast
    have "bulk_inv ?e" by (simp add: bulk_inv_def word_neq_0_conv)
    moreover have "bulk_piece a h asked len = Some ?e"
      unfolding bulk_piece_def c(1) bind.bind_lunit Let_def if_P [OF True] e(1) ..
    ultimately show ?thesis using ke by blast
  next
    case False
    have "bulk_inv ?c"
      unfolding bulk_inv_def
    proof
      assume nz: "um_PayloadSize (ns_Mode ?c) \<noteq> 0"
      let ?p = "um_PayloadSize (ns_Mode a)" and ?d = "ub_PayDone (ns_Bulk a)"
      have le: "unat ?d + len \<le> unat ?p" using k nz same by auto
      moreover have "unat ?p < 2 ^ 32" using unsigned_less [of ?p] by simp
      ultimately have "unat (?d + word_of_nat len) = unat ?d + len" by (simp add: unat_word_ariths unat_of_nat)
      then have "?d + word_of_nat len \<le> ?p" using le by (simp add: word_le_nat_alt)
      moreover have "?d + word_of_nat len \<noteq> ?p" using False same by simp
      ultimately show "ub_PayDone (ns_Bulk ?c) < um_PayloadSize (ns_Mode ?c)" using same by simp
    qed
    moreover have "bulk_piece a h asked len = Some ?c"
      unfolding bulk_piece_def c(1) bind.bind_lunit Let_def if_not_P [OF False] ..
    ultimately show ?thesis using kc by blast
  qed
qed

lemma bulk_transfer_keeps:
  assumes a: "unit_inv a" "ns_Streaming a" and b: "bulk_inv a" and l: "len \<le> unat (uvcBulkAsk a)"
  shows "\<exists>ns' ask. uvcBulkTransfer a ioerr len = Some (ns', ask) \<and> bulk_keeps a ns' \<and> bulk_inv ns' \<and>
    (ask = uvcBulkAsk ns' \<or> ask = 0)"
proof -
  have ask: "unat (uvcBulkAsk a) \<le> unat (ns_ScratchSize a)"
    by (auto simp: uvcBulkAsk_def Let_def word_less_nat_alt)
  have ls: "len \<le> unat (ns_ScratchSize a)" using l ask by simp
  then have ll: "len \<le> length (ns_Scratch a)" using a by (simp add: unit_inv_def)
  have rest: "um_PayloadSize (ns_Mode a) \<noteq> 0 \<longrightarrow>
      unat (ub_PayDone (ns_Bulk a)) + unat (uvcBulkAsk a) \<le> unat (um_PayloadSize (ns_Mode a))"
    using bulk_ask_rest [OF b] by blast
  show ?thesis
  proof (cases "ioerr = 0")
    case False
    obtain c h where c: "uvcPayloadBegin a (ns_Scratch a) 0 True 0 = Some (c, h)" "engine_keeps a c"
      using begin_keeps [OF a, of 0 "ns_Scratch a" True 0] by auto
    let ?c = "c\<lparr>ns_Bulk := (ns_Bulk c)\<lparr>ub_PayDone := 0, ub_Errors := ub_Errors (ns_Bulk c) + 1\<rparr>\<rparr>"
    have "bulk_keeps a ?c" using c(2) bulk_keeps_of bulk_keeps_put by blast
    moreover have "bulk_inv ?c" by (simp add: bulk_inv_def word_neq_0_conv)
    moreover have "uvcBulkTransfer a ioerr len =
        Some (?c, if ub_Errors (ns_Bulk c) + 1 < UVC_BULK_MAX_ERRORS then uvcBulkAsk ?c else 0)"
      unfolding uvcBulkTransfer_def Let_def if_P [OF False] c(1) bind.bind_lunit prod.case ..
    ultimately show ?thesis by (intro exI conjI) auto
  next
    case True
    then have no: "\<not> ioerr \<noteq> 0" by simp
    let ?a = "a\<lparr>ns_Bulk := (ns_Bulk a)\<lparr>ub_Errors := 0\<rparr>\<rparr>"
    have ka: "bulk_keeps a ?a" using bulk_keeps_put [OF bulk_keeps_of [OF keeps_refl [OF a]]] .
    have ia: "unit_inv ?a" "ns_Streaming ?a" using a by simp_all
    have ba: "bulk_inv ?a" using b by (simp add: bulk_inv_def)
    note un = uvcBulkTransfer_def Let_def if_not_P [OF no]
    show ?thesis
    proof (cases "ub_PayDone (ns_Bulk ?a) = 0")
      case pz: True
      show ?thesis
      proof (cases "len = 0")
        case True
        have "uvcBulkAsk ?a = uvcBulkAsk a" by (simp add: uvcBulkAsk_def Let_def)
        then show ?thesis unfolding un if_P [OF pz] if_P [OF True] using ka ba by auto
      next
        case False
        obtain c h where c: "uvcPayloadBegin ?a (ns_Scratch ?a) len False 0 = Some (c, h)" "engine_keeps ?a c" "h \<le> len"
          using begin_keeps [OF ia, of len "ns_Scratch ?a" False 0] ll by auto
        let ?c = "c\<lparr>ns_Bulk := (ns_Bulk c)\<lparr>ub_PaySkip := h = 0\<rparr>\<rparr>"
        have kc: "bulk_keeps a ?c" using bulk_keeps_trans [OF ka bulk_keeps_of [OF c(2)]] bulk_keeps_put by blast
        have ic: "unit_inv ?c" "ns_Streaming ?c" using bulk_keeps_inv [OF kc] by blast+
        note f = bulk_keeps_fields [OF kc]
        have pd: "ub_PayDone (ns_Bulk ?c) = ub_PayDone (ns_Bulk a)" using engine_bulk [OF c(2)] by simp
        have bc: "bulk_inv ?c" using b f pd by (simp add: bulk_inv_def)
        have "\<exists>ns'. bulk_piece ?c h (uvcBulkAsk a) len = Some ns' \<and> bulk_keeps ?c ns' \<and> bulk_inv ns'"
          by (rule bulk_piece_keeps [OF ic _ c(3) bc l]) (use f pd ls rest in simp_all)
        then obtain d where d: "bulk_piece ?c h (uvcBulkAsk a) len = Some d" "bulk_keeps ?c d" "bulk_inv d" by blast
        show ?thesis unfolding un if_P [OF pz] if_not_P [OF False] c(1) bind.bind_lunit prod.case d(1)
          using bulk_keeps_trans [OF kc d(2)] d(3) by blast
      qed
    next
      case False
      have "\<exists>ns'. bulk_piece ?a 0 (uvcBulkAsk a) len = Some ns' \<and> bulk_keeps ?a ns' \<and> bulk_inv ns'"
        by (rule bulk_piece_keeps [OF ia _ _ ba l]) (use ls rest in simp_all)
      then obtain d where d: "bulk_piece ?a 0 (uvcBulkAsk a) len = Some d" "bulk_keeps ?a d" "bulk_inv d" by blast
      show ?thesis unfolding un if_not_P [OF False] d(1) bind.bind_lunit
        using bulk_keeps_trans [OF ka d(2)] d(3) by blast
    qed
  qed
qed

section \<open>Commands\<close>

lemma start_keeps:
  assumes a: "unit_inv a"
  shows "\<exists>ns' e. uvcStart env a = Some (ns', e) \<and> unit_inv ns' \<and> read_ids ns' = read_ids a \<and>
    (e = 0 \<longleftrightarrow> ns_Streaming ns' \<and> \<not> ns_Streaming a) \<and> (e = 0 \<longrightarrow> ns_IsBulk a \<longrightarrow> bulk_inv ns') \<and>
    (e \<noteq> 0 \<longrightarrow> ns_Streaming ns' = ns_Streaming a \<and> ur_Queue (ns_Reads ns') = ur_Queue (ns_Reads a))"
proof (cases "ns_Streaming a \<or> um_Format (ns_Mode a) = None")
  case True
  then show ?thesis using a by (auto simp: uvcStart_def)
next
  case False
  then obtain ufo where m: "um_Format (ns_Mode a) = Some ufo" and s: "\<not> ns_Streaming a" by auto
  then obtain up where row: "row_of ufo = Some up" using a by (auto simp: unit_inv_def mode_ok_def)
  have cur: "ur_Cur (ns_Reads a) = None" "\<not> ua_Open (ns_Asm a)" using a s by (auto simp: unit_inv_def)
  note un = uvcStart_def if_not_P [OF s] m option.case row bind.bind_lunit
  show ?thesis
  proof (cases "up_Embedded up \<and> se_Embed env \<noteq> 0")
    case True
    then show ?thesis unfolding un using a s by (auto simp: refused_def)
  next
    case e: False
    show ?thesis
    proof (cases "se_Commit env \<noteq> 0")
      case True
      then show ?thesis unfolding un if_not_P [OF e] using a s by (auto simp: refused_def)
    next
      case c: False
      show ?thesis
      proof (cases "uvcFindAlternate (se_Alts env) (um_PayloadSize (ns_Mode a))")
        case None
        then show ?thesis unfolding un if_not_P [OF e] if_not_P [OF c] using a s by simp
      next
        case (Some alt)
        obtain i t cap where al: "alt = (i, t, cap)" by (cases alt)
        show ?thesis
          unfolding un if_not_P [OF e] if_not_P [OF c] Some option.case al prod.case
          using a s m row cur
          by (cases "\<not> ns_IsBulk a \<and> \<not> se_Select env"; cases "se_Memory env"; cases "se_Transport env = 0"; cases "ns_IsBulk a")
            (simp_all add: unit_defs mode_ok_def zero_stats_def bulk_inv_def word_neq_0_conv Let_def)
      qed
    qed
  qed
qed

lemma stop_keeps:
  assumes a: "unit_inv a"
  shows "\<exists>ns'. uvcStop a = Some ns' \<and> unit_inv ns' \<and> read_ids ns' = read_ids a \<and> \<not> ns_Streaming ns' \<and>
    (\<not> ur_AbortCur (ns_Reads a) \<longrightarrow> ns_Streaming a \<longrightarrow>
       ur_Queue (ns_Reads ns') = (case ur_Cur (ns_Reads a) of None \<Rightarrow> [] | Some r \<Rightarrow> [r]) @ ur_Queue (ns_Reads a) \<and>
       ns_Replied ns' = ns_Replied a)"
proof (cases "ns_Streaming a")
  case False
  then show ?thesis using a by (simp add: uvcStop_def)
next
  case s: True
  note un = uvcStop_def unit_defs Let_def
  show ?thesis
  proof (cases "ur_Cur (ns_Reads a)")
    case None
    then show ?thesis using a s by (simp add: un)
  next
    case (Some r)
    then show ?thesis using a s
      by (cases "ur_AbortCur (ns_Reads a)") (simp_all add: un uvcDeliver_def)
  qed
qed

text \<open>A step that touches the read queue only.\<close>

lemma abort_reads_keeps:
  "unit_inv a \<Longrightarrow> unit_inv (uvcAbortReads a e) \<and> read_ids (uvcAbortReads a e) = read_ids a"
  by (auto simp: uvcAbortReads_def unit_defs Let_def image_mset.compositionality comp_def multiset.map_comp)

lemma remove1_ids:
  "r \<in> set q \<Longrightarrow> add_mset (rd_Id r) (image_mset rd_Id (mset (remove1 r q))) = image_mset rd_Id (mset q)"
  by (simp add: image_mset_Diff)

lemma unit_abort_keeps:
  assumes a: "unit_inv a"
  shows "unit_inv (fst (unit_abort a i)) \<and> read_ids (fst (unit_abort a i)) = read_ids a"
proof (cases "find (\<lambda>r. rd_Id r = i) (ur_Queue (ns_Reads a))")
  case None
  then show ?thesis using a by (simp add: unit_abort_def)
next
  case (Some r)
  then have r: "r \<in> set (ur_Queue (ns_Reads a))" by (auto simp: find_Some_iff in_set_conv_nth)
  have "set (remove1 r (ur_Queue (ns_Reads a))) \<subseteq> set (ur_Queue (ns_Reads a))" by (rule set_remove1_subset)
  then show ?thesis using a Some r remove1_ids [OF r]
    by (auto simp: unit_abort_def unit_defs Let_def)
qed

lemma unit_read_keeps:
  assumes "unit_inv a" and "read_ok r"
  shows "unit_inv (unit_read a r) \<and> read_ids (unit_read a r) = add_mset (rd_Id r) (read_ids a)"
  using assms by (auto simp: unit_read_def unit_defs read_ok_def Let_def)

definition unit_detach :: "nepVideoStream \<Rightarrow> nepVideoStream option" where
  "unit_detach ns =
     do { ns \<leftarrow> uvcStop ns;
          let ns = uvcAbortReads ns UVERR_GONE;
          Some (ns\<lparr>ns_Binding := False, ns_Mode := (ns_Mode ns)\<lparr>um_Format := None, um_Frame := None\<rparr>\<rparr>) }"

lemma unit_gone:
  assumes "\<not> ns_Streaming b"
  shows "unit_inv b \<Longrightarrow> unit_inv (b\<lparr>ns_Binding := False, ns_Mode := (ns_Mode b)\<lparr>um_Format := None, um_Frame := None\<rparr>\<rparr>)"
    and "read_ids (b\<lparr>ns_Binding := x, ns_Mode := m\<rparr>) = read_ids b"
    and "all_reads (b\<lparr>ns_Binding := x, ns_Mode := m\<rparr>) = all_reads b"
  using assms by (simp_all add: unit_defs mode_ok_def Let_def)

lemma detach_keeps:
  assumes a: "unit_inv a"
  shows "\<exists>ns'. unit_detach a = Some ns' \<and> unit_inv ns' \<and> read_ids ns' = read_ids a \<and> \<not> ns_Streaming ns' \<and>
    all_reads ns' = [] \<and> \<not> ns_Binding ns'"
proof -
  obtain b where b: "uvcStop a = Some b" "unit_inv b" "read_ids b = read_ids a" "\<not> ns_Streaming b"
    using stop_keeps [OF a] by blast
  note k = abort_reads_keeps [OF b(2), of UVERR_GONE]
  let ?c = "uvcAbortReads b UVERR_GONE"
  have s: "\<not> ns_Streaming ?c" "all_reads ?c = []"
    using b(2,4) by (simp_all add: uvcAbortReads_def unit_defs)
  show ?thesis unfolding unit_detach_def b(1) bind.bind_lunit Let_def
    using k s b(3) by (simp add: unit_gone)
qed

section \<open>Runs of a unit\<close>

text \<open>
  Everything that happens to a unit: its openers, reads coming and being called back, a service
  interval or a bulk transfer arriving with any bytes, the commands of the subtask, the camera
  coming and going. A read that is handed in has an identity of its own and a buffer as long as it says.
\<close>

inductive uv_event :: "nepVideoStream \<Rightarrow> nepVideoStream \<Rightarrow> bool" where
  uv_abort: "uv_event ns (fst (unit_abort ns i))"
| uv_flush: "uv_event ns (uvcAbortReads ns IOERR_ABORTED)"
| uv_interval: "ns_Streaming ns \<Longrightarrow> \<not> ns_IsBulk ns \<Longrightarrow> length scratch = unat (ns_ScratchSize ns) \<Longrightarrow>
    uvcInDoneHook (ns\<lparr>ns_Scratch := scratch\<rparr>) (unat (uvcInReqHook ns len)) we f = Some ns' \<Longrightarrow> uv_event ns ns'"
| uv_transfer: "ns_Streaming ns \<Longrightarrow> ns_IsBulk ns \<Longrightarrow> length scratch = unat (ns_ScratchSize ns) \<Longrightarrow>
    len \<le> unat (uvcBulkAsk ns) \<Longrightarrow>
    uvcBulkTransfer (ns\<lparr>ns_Scratch := scratch\<rparr>) ioerr len = Some (ns', ask) \<Longrightarrow> uv_event ns ns'"
| uv_mode: "\<not> ns_Streaming ns \<Longrightarrow> mode_ok m \<Longrightarrow> uv_event ns (ns\<lparr>ns_Mode := m\<rparr>)"
| uv_start: "uvcStart env ns = Some (ns', e) \<Longrightarrow> uv_event ns ns'"
| uv_stop: "uvcStop ns = Some ns' \<Longrightarrow> uv_event ns ns'"
| uv_open: "uv_event ns (fst (unit_open flags ns))"
| uv_close: "uv_event ns (unit_close ns)"
| uv_detach: "unit_detach ns = Some ns' \<Longrightarrow> uv_event ns ns'"
| uv_attach: "\<not> ns_Streaming ns \<Longrightarrow> uv_event ns (ns\<lparr>ns_Binding := True, ns_IsBulk := b\<rparr>)"

inductive uv_step :: "nepVideoStream \<Rightarrow> nepVideoStream \<Rightarrow> bool" where
  uv_read: "read_ok r \<Longrightarrow> rd_Id r \<notin># read_ids ns \<Longrightarrow> uv_step ns (unit_read ns r)"
| uv_other: "uv_event ns ns' \<Longrightarrow> uv_step ns ns'"

text \<open>A run with a log of the reads that were handed in.\<close>

inductive uv_log :: "nepVideoStream \<Rightarrow> nat list \<Rightarrow> nepVideoStream \<Rightarrow> bool" for ns where
  log_start: "uv_log ns [] ns"
| log_read: "uv_log ns ids a \<Longrightarrow> read_ok r \<Longrightarrow> rd_Id r \<notin># read_ids a \<Longrightarrow> uv_log ns (ids @ [rd_Id r]) (unit_read a r)"
| log_other: "uv_log ns ids a \<Longrightarrow> uv_event a b \<Longrightarrow> uv_log ns ids b"

text \<open>The invariant of a run: besides the unit's own, no read is in two places.\<close>

definition run_inv :: "nepVideoStream \<Rightarrow> bool" where
  "run_inv ns \<longleftrightarrow> unit_inv ns \<and> (\<forall>i. count (read_ids ns) i \<le> 1) \<and>
     (ns_Streaming ns \<longrightarrow> ns_IsBulk ns \<longrightarrow> bulk_inv ns)"

lemma scratch_put:
  "unit_inv ns \<Longrightarrow> length s = unat (ns_ScratchSize ns) \<Longrightarrow> unit_inv (ns\<lparr>ns_Scratch := s\<rparr>)"
  "read_ids (ns\<lparr>ns_Scratch := s\<rparr>) = read_ids ns"
  by (simp_all add: unit_defs Let_def)

lemma engine_fields:
  "engine_keeps a b \<Longrightarrow> unit_inv b \<and> read_ids b = read_ids a \<and> ns_IsBulk b = ns_IsBulk a \<and> ns_Streaming b"
  by (simp add: engine_keeps_def)

lemma bulk_fields:
  "bulk_keeps a b \<Longrightarrow> unit_inv b \<and> read_ids b = read_ids a \<and> ns_IsBulk b = ns_IsBulk a \<and> ns_Streaming b"
  by (simp add: bulk_keeps_def engine_keeps_def)

lemma queue_fields:
  "ns_Streaming (uvcAbortReads a e) = ns_Streaming a" "ns_IsBulk (uvcAbortReads a e) = ns_IsBulk a"
  "bulk_inv (uvcAbortReads a e) = bulk_inv a"
  "ns_Streaming (unit_read a r) = ns_Streaming a" "ns_IsBulk (unit_read a r) = ns_IsBulk a" "bulk_inv (unit_read a r) = bulk_inv a"
  "ns_Streaming (fst (unit_abort a i)) = ns_Streaming a" "ns_IsBulk (fst (unit_abort a i)) = ns_IsBulk a"
  "bulk_inv (fst (unit_abort a i)) = bulk_inv a"
  by (auto simp: uvcAbortReads_def unit_read_def unit_abort_def bulk_inv_def Let_def split: option.split)

lemma hook_len: "unat (uvcInReqHook ns len) \<le> unat (ns_ScratchSize ns)"
  by (auto simp: uvcInReqHook_def word_less_nat_alt)

lemma start_bulk: "uvcStart env ns = Some (ns', e) \<Longrightarrow> ns_IsBulk ns' = ns_IsBulk ns \<and> (ns_Streaming ns \<longrightarrow> ns' = ns)"
  by (auto simp: uvcStart_def Let_def split: if_splits option.splits bind_splits)

lemma uv_ids_put [simp]:
  "read_ids (ns\<lparr>ns_Mode := m\<rparr>) = read_ids ns" "read_ids (ns\<lparr>ns_Binding := b, ns_IsBulk := c\<rparr>) = read_ids ns"
  "read_ids (ns\<lparr>ns_OpenCnt := k, ns_OpenFlags := f\<rparr>) = read_ids ns"
  "read_ids (ns\<lparr>ns_OpenCnt := k\<rparr>) = read_ids ns"
  by (simp_all add: unit_defs)

lemma inv_put:
  "unit_inv ns \<Longrightarrow> \<not> ns_Streaming ns \<Longrightarrow> mode_ok m \<Longrightarrow> unit_inv (ns\<lparr>ns_Mode := m\<rparr>)"
  "unit_inv ns \<Longrightarrow> \<not> ns_Streaming ns \<Longrightarrow> mode_ok m \<Longrightarrow>
     unit_inv (ns\<lparr>ns_OpenCnt := k, ns_OpenFlags := f, ns_Mode := m\<rparr>)"
  "unit_inv ns \<Longrightarrow> unit_inv (ns\<lparr>ns_Binding := b, ns_IsBulk := c\<rparr>)"
  "unit_inv ns \<Longrightarrow> unit_inv (ns\<lparr>ns_OpenCnt := k\<rparr>)"
  by (simp_all add: unit_defs Let_def)

lemma uv_event_keeps:
  assumes "uv_event ns ns'" and "run_inv ns"
  shows "run_inv ns' \<and> read_ids ns' = read_ids ns"
  using assms
proof (cases rule: uv_event.cases)
  case (uv_abort i)
  then show ?thesis using assms(2) unit_abort_keeps [of ns i] by (simp add: run_inv_def queue_fields)
next
  case uv_flush
  then show ?thesis using assms(2) abort_reads_keeps [of ns] by (simp add: run_inv_def queue_fields)
next
  case (uv_interval scratch len we f)
  let ?n = "ns\<lparr>ns_Scratch := scratch\<rparr>"
  have i: "unit_inv ?n" "ns_Streaming ?n" using uv_interval assms(2) scratch_put by (auto simp: run_inv_def)
  have "unat (uvcInReqHook ns len) \<le> unat (ns_ScratchSize ?n)" using hook_len by simp
  from done_hook_keeps [OF i this, of we f] uv_interval(4) have "engine_keeps ?n ns'" by simp
  then show ?thesis using engine_fields [of ?n ns'] uv_interval(2) assms(2) scratch_put(2) by (auto simp: run_inv_def)
next
  case (uv_transfer scratch len ioerr ask)
  let ?n = "ns\<lparr>ns_Scratch := scratch\<rparr>"
  have i: "unit_inv ?n" "ns_Streaming ?n" using uv_transfer assms(2) scratch_put by (auto simp: run_inv_def)
  have b: "bulk_inv ?n" using uv_transfer(1,2) assms(2) by (simp add: run_inv_def bulk_inv_def)
  have "uvcBulkAsk ?n = uvcBulkAsk ns" by (simp add: uvcBulkAsk_def Let_def)
  then have "len \<le> unat (uvcBulkAsk ?n)" using uv_transfer(4) by simp
  from bulk_transfer_keeps [OF i b this, of ioerr] uv_transfer(5) have "bulk_keeps ?n ns'" "bulk_inv ns'" by auto
  then show ?thesis using bulk_fields [of ?n ns'] assms(2) scratch_put(2) by (auto simp: run_inv_def)
next
  case (uv_mode m)
  then show ?thesis using assms(2) by (simp add: run_inv_def inv_put)
next
  case (uv_start env e)
  have "unit_inv ns" using assms(2) by (simp add: run_inv_def)
  from start_keeps [OF this, of env] obtain n2 e2 where k2: "uvcStart env ns = Some (n2, e2)" "unit_inv n2"
    "read_ids n2 = read_ids ns" "e2 = 0 \<longrightarrow> ns_IsBulk ns \<longrightarrow> bulk_inv n2"
    "e2 \<noteq> 0 \<longrightarrow> ns_Streaming n2 = ns_Streaming ns" by blast
  then have "n2 = ns'" "e2 = e" using uv_start by simp_all
  note k = k2(2-5) [unfolded this]
  note s = start_bulk [OF uv_start]
  have "ns_Streaming ns' \<longrightarrow> ns_IsBulk ns' \<longrightarrow> bulk_inv ns'"
    using k(3,4) s assms(2) by (cases "e = 0") (simp_all add: run_inv_def)
  then show ?thesis using k(1,2) assms(2) by (simp add: run_inv_def)
next
  case uv_stop
  have "unit_inv ns" using assms(2) by (simp add: run_inv_def)
  from stop_keeps [OF this] uv_stop show ?thesis using assms(2) by (auto simp: run_inv_def)
next
  case (uv_open flags)
  then show ?thesis using assms(2)
    by (auto simp: run_inv_def unit_open_def inv_put mode_ok_def)
next
  case uv_close
  have "bulk_inv (x\<lparr>ns_OpenCnt := n\<rparr>) = bulk_inv x" for x n by (simp add: bulk_inv_def)
  then show ?thesis using uv_close assms(2) abort_reads_keeps [of ns]
    by (simp add: run_inv_def unit_close_def queue_fields inv_put)
next
  case uv_detach
  have "unit_inv ns" using assms(2) by (simp add: run_inv_def)
  from detach_keeps [OF this] uv_detach show ?thesis using assms(2) by (auto simp: run_inv_def)
next
  case (uv_attach b)
  then show ?thesis using assms(2) by (simp add: run_inv_def inv_put)
qed

lemma uv_read_keeps:
  assumes "read_ok r" and "rd_Id r \<notin># read_ids ns" and "run_inv ns"
  shows "run_inv (unit_read ns r) \<and> read_ids (unit_read ns r) = add_mset (rd_Id r) (read_ids ns)"
  using assms unit_read_keeps [of ns r] by (auto simp: run_inv_def queue_fields not_in_iff)

lemma uv_step_inv: "uv_step ns ns' \<Longrightarrow> run_inv ns \<Longrightarrow> run_inv ns'"
  by (erule uv_step.cases) (simp_all add: uv_read_keeps uv_event_keeps)

text \<open>The account: every read handed in is waiting, being filled or given back, and in one place.\<close>

lemma uv_log_account:
  "uv_log ns ids ns' \<Longrightarrow> run_inv ns \<Longrightarrow> run_inv ns' \<and> read_ids ns' = read_ids ns + mset ids"
  by (induction rule: uv_log.induct) (simp_all add: uv_read_keeps uv_event_keeps)

interpretation uv_run: step_invariant uv_step run_inv
  by unfold_locales (rule uv_step_inv)

section \<open>The alternate setting\<close>

definition fits :: "u32 \<Rightarrow> alternate \<Rightarrow> bool" where
  "fits n alt \<longleftrightarrow> (\<exists>c. snd alt = Some (USEAF_ISOCHRONOUS, c) \<and> n \<le> c \<and> c \<noteq> 0xffffffff)"

definition cap_of :: "alternate \<Rightarrow> u32" where
  "cap_of alt = (case snd alt of None \<Rightarrow> 0 | Some (_, c) \<Rightarrow> c)"

lemma top32: "(x :: u32) \<le> 0xffffffff"
proof -
  have "unat x < 2 ^ 32" using unsigned_less [of x] by simp
  then show ?thesis by (simp add: word_le_nat_alt)
qed

lemma find_alternate_iso:
  "\<forall>a \<in> set alts. \<forall>c. snd a \<noteq> Some (USEAF_BULK, c) \<Longrightarrow>
   (case best of None \<Rightarrow> bc = 0xffffffff | Some (i, t, c) \<Rightarrow> bc = c \<and> c \<noteq> 0xffffffff) \<Longrightarrow>
   (case find_alternate n alts bc best of
      None \<Rightarrow> best = None \<and> (\<forall>a \<in> set alts. \<not> fits n a)
    | Some (i, t, c) \<Rightarrow> ((i, Some (t, c)) \<in> set alts \<and> fits n (i, Some (t, c)) \<or> best = Some (i, t, c)) \<and>
        c \<le> bc \<and> (\<forall>a \<in> set alts. fits n a \<longrightarrow> c \<le> cap_of a))"
proof (induction alts arbitrary: bc best)
  case Nil
  then show ?case by (auto split: option.splits)
next
  case (Cons a alts)
  obtain i e where a: "a = (i, e)" by (cases a)
  show ?case
  proof (cases "\<exists>c. e = Some (USEAF_ISOCHRONOUS, c) \<and> n \<le> c \<and> c < bc")
    case True
    then obtain c where c: "e = Some (USEAF_ISOCHRONOUS, c)" "n \<le> c" "c < bc" by blast
    have top: "bc \<le> 0xffffffff" by (rule top32)
    then have "c \<noteq> 0xffffffff" using c(3) by auto
    then have "case Some (i, USEAF_ISOCHRONOUS, c) of None \<Rightarrow> c = 0xffffffff | Some (i, t, c') \<Rightarrow> c = c' \<and> c' \<noteq> 0xffffffff" by simp
    from Cons.IH [OF _ this] Cons.prems(1) c a \<open>c \<noteq> 0xffffffff\<close> show ?thesis
      by (auto simp: fits_def cap_of_def split: option.splits)
  next
    case False
    have "e \<noteq> Some (USEAF_BULK, c)" for c using Cons.prems(1) a by auto
    then have s: "find_alternate n (a # alts) bc best = find_alternate n alts bc best"
    proof (cases e)
      case (Some p)
      obtain t c where p: "p = (t, c)" by (cases p)
      then have "t \<noteq> USEAF_BULK" using \<open>\<And>c. e \<noteq> Some (USEAF_BULK, c)\<close> Some by blast
      then show ?thesis using False a Some p by auto
    qed (simp add: a)
    have "fits n a \<Longrightarrow> bc \<le> cap_of a" using False a by (auto simp: fits_def cap_of_def)
    moreover have "best = None \<Longrightarrow> \<not> fits n a"
    proof
      assume "best = None" "fits n a"
      then obtain c where "e = Some (USEAF_ISOCHRONOUS, c)" "n \<le> c" "c \<noteq> 0xffffffff" "bc = 0xffffffff"
        using Cons.prems(2) a by (auto simp: fits_def)
      moreover have "c \<le> 0xffffffff" by (rule top32)
      ultimately show False using False by auto
    qed
    ultimately show ?thesis using Cons.IH [OF _ Cons.prems(2)] Cons.prems(1) unfolding s
      by (fastforce split: option.splits)
  qed
qed

end
