(* ===== verification/Uvc_Frames.thy ===== *)
theory Uvc_Frames
  imports Uvc_Engine
begin

text \<open>
  What a camera sends is what a read gets: a frame cut into payloads, each behind a header, is
  put together again in the buffer of the read that was waiting.
\<close>

section \<open>Payloads\<close>

text \<open>A payload transfer: the header's length, its flags, further header bytes, data.\<close>

definition uvc_payload :: "u8 \<Rightarrow> bytes \<Rightarrow> bytes \<Rightarrow> bytes" where
  "uvc_payload info ext d = [word_of_nat (2 + length ext), info] @ ext @ d"

text \<open>One payload per service interval; the scratch buffer keeps what it held behind it.\<close>

definition put_scratch :: "bytes \<Rightarrow> nepVideoStream \<Rightarrow> nepVideoStream" where
  "put_scratch p ns = ns\<lparr>ns_Scratch := p @ drop (length p) (ns_Scratch ns)\<rparr>"

fun iso_run :: "nepVideoStream \<Rightarrow> bytes list \<Rightarrow> nepVideoStream option" where
  "iso_run ns [] = Some ns"
| "iso_run ns (p # ps) = do { ns \<leftarrow> uvcInDoneHook (put_scratch p ns) (length p) False 0; iso_run ns ps }"

definition good_flags :: "u8 \<Rightarrow> u8 \<Rightarrow> bool \<Rightarrow> bool" where
  "good_flags fid info eof \<longleftrightarrow> info AND UVPHF_FID = fid \<and> info AND UVPHF_ERR = 0 \<and> (info AND UVPHF_EOF \<noteq> 0 \<longleftrightarrow> eof)"

text \<open>A frame's payloads: the parts of the frame with their headers, the last with EOF.\<close>

fun frame_payloads :: "(u8 \<times> bytes \<times> bytes) list \<Rightarrow> bytes list" where
  "frame_payloads [] = []"
| "frame_payloads ((info, ext, d) # ps) = uvc_payload info ext d # frame_payloads ps"

definition frame_data :: "(u8 \<times> bytes \<times> bytes) list \<Rightarrow> bytes" where
  "frame_data ps = concat (map (\<lambda>(info, ext, d). d) ps)"

definition good_frame :: "u8 \<Rightarrow> (u8 \<times> bytes \<times> bytes) list \<Rightarrow> bool" where
  "good_frame fid ps \<longleftrightarrow> ps \<noteq> [] \<and>
     (\<forall>x \<in> set (butlast ps). good_flags fid (fst x) False) \<and>
     good_flags fid (fst (last ps)) True \<and>
     (\<forall>(info, ext, d) \<in> set ps. length ext \<le> 253 \<and> d \<noteq> [])"

section \<open>One payload at a time\<close>

lemma unat_small: "n < 256 \<Longrightarrow> unat (word_of_nat n :: u8) = n"
  by (simp add: unat_of_nat)

lemma payload_rd:
  assumes "length ext \<le> 253"
  shows "rd8 (uvc_payload info ext d @ s) 0 = Some (word_of_nat (2 + length ext))" and "rd8 (uvc_payload info ext d @ s) 1 = Some info"
    and "unat (word_of_nat (2 + length ext) :: u8) = 2 + length ext"
    and "length (uvc_payload info ext d) = 2 + length ext + length d"
    and "rd_slice (uvc_payload info ext d @ s) (2 + length ext) (length d) = Some d"
  using assms unat_small [of "2 + length ext"] by (simp_all add: uvc_payload_def rd8_def rd_slice_def)

lemma begin_open:
  assumes "ua_Open (ns_Asm a)" and "\<not> ur_AbortCur (ns_Reads a)" and "good_flags (ua_FID (ns_Asm a)) info eof"
    and "length ext \<le> 253"
  shows "uvcPayloadBegin a (uvc_payload info ext d @ s) (length (uvc_payload info ext d)) False f =
    Some (a\<lparr>ns_Asm := (ns_Asm a)\<lparr>ua_PayInfo := info\<rparr>\<rparr>, 2 + length ext)"
proof -
  note r = payload_rd [OF assms(4)]
  have h: "(if 2 \<le> length (uvc_payload info ext d) then rd8 (uvc_payload info ext d @ s) 0 else Some 0) =
      Some (word_of_nat (2 + length ext))" using r(1,4) by simp
  have v: "\<not> (unat (word_of_nat (2 + length ext) :: u8) < 2 \<or> length (uvc_payload info ext d) < unat (word_of_nat (2 + length ext) :: u8))"
    unfolding r(3,4) by simp
  show ?thesis
    unfolding uvcPayloadBegin_def h bind.bind_lunit Let_def if_not_P [OF v] r(2)
    using assms(1-3) r(3) by (simp add: begin_abort_def good_flags_def)
qed

lemma begin_idle:
  assumes a: "unit_inv a" "ns_Streaming a" and "\<not> ua_Open (ns_Asm a)" and "\<not> ur_AbortCur (ns_Reads a)"
    and "good_flags fid info eof" and "length ext \<le> 253"
  shows "\<exists>s'. uvcPayloadBegin a (uvc_payload info ext d @ s) (length (uvc_payload info ext d)) False f =
    Some (a\<lparr>ns_Asm := s'\<rparr>, 2 + length ext) \<and> ua_PayInfo s' = info \<and> \<not> ua_Open s' \<and> unit_inv (a\<lparr>ns_Asm := s'\<rparr>)"
proof -
  note r = payload_rd [OF assms(6)]
  have h: "(if 2 \<le> length (uvc_payload info ext d) then rd8 (uvc_payload info ext d @ s) 0 else Some 0) =
      Some (word_of_nat (2 + length ext))" using r(1,4) by simp
  have v: "\<not> (unat (word_of_nat (2 + length ext) :: u8) < 2 \<or> length (uvc_payload info ext d) < unat (word_of_nat (2 + length ext) :: u8))"
    unfolding r(3,4) by simp
  let ?a = "a\<lparr>ns_Asm := (ns_Asm a)\<lparr>ua_PayInfo := info\<rparr>\<rparr>"
  have "harmless a ?a" by (simp add: harmless_def)
  then have i: "unit_inv ?a" "ns_Streaming ?a" using harmless_keeps [OF _ a] keeps_inv by blast+
  obtain s' where s': "begin_fields (uvc_payload info ext d @ s) (2 + length ext) f ?a = Some (a\<lparr>ns_Asm := s'\<rparr>)"
    "ua_PayInfo s' = info" "\<not> ua_Open s'" "unit_inv (a\<lparr>ns_Asm := s'\<rparr>)"
  proof -
    have "2 + length ext \<le> length (uvc_payload info ext d @ s)" using r(4) by simp
    from fields_keeps [OF i this, of f] obtain n where n: "begin_fields (uvc_payload info ext d @ s) (2 + length ext) f ?a = Some n"
      "engine_keeps ?a n" "ua_Open (ns_Asm n) = ua_Open (ns_Asm ?a)" "ua_PayInfo (ns_Asm n) = ua_PayInfo (ns_Asm ?a)" by blast
    have "n = a\<lparr>ns_Asm := ns_Asm n\<rparr>"
      using n(1) by (auto simp: begin_fields_def Let_def split: bind_splits)
    then show thesis using that [of "ns_Asm n"] n assms(3) keeps_inv [OF n(2)] by simp
  qed
  have "uvcPayloadBegin a (uvc_payload info ext d @ s) (length (uvc_payload info ext d)) False f =
    Some (a\<lparr>ns_Asm := s'\<rparr>, 2 + length ext)"
    unfolding uvcPayloadBegin_def h bind.bind_lunit Let_def if_not_P [OF v] r(2)
    using assms(3-5) r(3) s'(1) by (simp add: begin_abort_def good_flags_def)
  then show ?thesis using s' by blast
qed

text \<open>A frame being put together: \<open>D\<close> has come of it.\<close>

definition filling :: "nepVideoStream \<Rightarrow> uvRead \<Rightarrow> u8 \<Rightarrow> bytes \<Rightarrow> bool" where
  "filling ns r fid D \<longleftrightarrow> unit_inv ns \<and> ns_Streaming ns \<and> ua_Open (ns_Asm ns) \<and> \<not> ur_AbortCur (ns_Reads ns) \<and>
     ua_FID (ns_Asm ns) = fid \<and> \<not> ua_Damaged (ns_Asm ns) \<and> \<not> ua_Overflow (ns_Asm ns) \<and>
     unat (ua_Fill (ns_Asm ns)) = length D \<and>
     (\<exists>b. ur_Cur (ns_Reads ns) = Some (r\<lparr>io_Data := b\<rparr>) \<and> take (length D) b = D)"

text \<open>What the payloads in the middle of a frame leave alone.\<close>

definition same_rest :: "nepVideoStream \<Rightarrow> nepVideoStream \<Rightarrow> bool" where
  "same_rest a b \<longleftrightarrow> ns_Stats b = ns_Stats a \<and> ur_Queue (ns_Reads b) = ur_Queue (ns_Reads a) \<and>
     ns_Replied b = ns_Replied a \<and> ns_Mode b = ns_Mode a \<and> ns_ScratchSize b = ns_ScratchSize a \<and>
     ns_OpenFlags b = ns_OpenFlags a"

lemma filling_scratch:
  assumes "filling a r fid D" and "length p \<le> unat (ns_ScratchSize a)"
  shows "filling (put_scratch p a) r fid D" and "same_rest a (put_scratch p a)"
    and "ns_Scratch (put_scratch p a) = p @ drop (length p) (ns_Scratch a)"
proof -
  have "length (ns_Scratch a) = unat (ns_ScratchSize a)" using assms(1) by (simp add: filling_def unit_inv_def)
  then have "unit_inv (put_scratch p a)"
    using assms scratch_put(1) [of a "p @ drop (length p) (ns_Scratch a)"] by (simp add: put_scratch_def filling_def)
  then show "filling (put_scratch p a) r fid D" using assms(1) by (simp add: filling_def put_scratch_def)
  show "same_rest a (put_scratch p a)" "ns_Scratch (put_scratch p a) = p @ drop (length p) (ns_Scratch a)"
    by (simp_all add: same_rest_def put_scratch_def)
qed

lemma fill_data:
  assumes f: "filling a r fid D" and room: "length D + length d \<le> unat (io_Length r)"
  shows "\<exists>b. uvcPayloadData a d = Some b \<and> filling b r fid (D @ d) \<and> same_rest a b \<and>
    ua_PayInfo (ns_Asm b) = ua_PayInfo (ns_Asm a)"
proof (cases "d = []")
  case True
  then show ?thesis using f by (simp add: uvcPayloadData_def same_rest_def)
next
  case False
  obtain b where b: "ur_Cur (ns_Reads a) = Some (r\<lparr>io_Data := b\<rparr>)" "take (length D) b = D" using f by (auto simp: filling_def)
  let ?r = "r\<lparr>io_Data := b\<rparr>"
  have a: "unit_inv a" "ns_Streaming a" "ua_Open (ns_Asm a)" and fl: "unat (ua_Fill (ns_Asm a)) = length D"
    using f by (auto simp: filling_def)
  have ok: "ua_Fill (ns_Asm a) \<le> io_Length ?r" "read_ok ?r" using a b(1) by (auto simp: unit_defs)
  note s = store_eq [OF ok b(1), of d, unfolded fl]
  have n: "min (length d) (unat (io_Length ?r) - length D) = length d" using room by simp
  have nov: "\<not> unat (io_Length ?r) - length D < length d" using room by simp
  let ?b = "take (length D) b @ d @ drop (length D + length d) b"
  let ?c = "a\<lparr>ns_Asm := (ns_Asm a)\<lparr>ua_Overflow := ua_Overflow (ns_Asm a), ua_Fill := ua_Fill (ns_Asm a) + word_of_nat (length d)\<rparr>,
      ns_Reads := (ns_Reads a)\<lparr>ur_Cur := Some (r\<lparr>io_Data := ?b\<rparr>)\<rparr>\<rparr>"
  have c: "store_data a d = Some ?c" using s(1) nov unfolding n by simp
  obtain c' where "store_data a d = Some c'" "engine_keeps a c'" using store_keeps [OF a] by blast
  then have "unit_inv ?c" "ns_Streaming ?c" using c keeps_inv by auto
  moreover have "unat (ua_Fill (ns_Asm ?c)) = length (D @ d)" using s(2) unfolding n by simp
  moreover have "take (length (D @ d)) ?b = D @ d" using b(2) by (simp add: take_Cons' min_absorb2)
  ultimately have "filling ?c r fid (D @ d)" using f unfolding filling_def by auto
  then show ?thesis using c False a(3) by (auto simp: uvcPayloadData_def same_rest_def)
qed

lemma same_rest_trans: "same_rest a b \<Longrightarrow> same_rest b c \<Longrightarrow> same_rest a c"
  by (simp add: same_rest_def)

text \<open>A payload of an open frame, up to its end.\<close>

lemma fill_payload:
  assumes f: "filling a r fid D" and g: "good_flags fid info eof" and e: "length ext \<le> 253"
    and room: "length D + length d \<le> unat (io_Length r)"
    and s: "length (uvc_payload info ext d) \<le> unat (ns_ScratchSize a)"
  shows "\<exists>b. uvcInDoneHook (put_scratch (uvc_payload info ext d) a) (length (uvc_payload info ext d)) False fr = uvcPayloadEnd b \<and>
    filling b r fid (D @ d) \<and> same_rest a b \<and> ua_PayInfo (ns_Asm b) = info"
proof -
  let ?p = "uvc_payload info ext d"
  let ?a = "put_scratch ?p a"
  note fs = filling_scratch [OF f s]
  let ?b = "?a\<lparr>ns_Asm := (ns_Asm ?a)\<lparr>ua_PayInfo := info\<rparr>\<rparr>"
  have op: "ua_Open (ns_Asm ?a)" "\<not> ur_AbortCur (ns_Reads ?a)" "good_flags (ua_FID (ns_Asm ?a)) info eof"
    using fs(1) g by (auto simp: filling_def)
  note b = begin_open [OF op e, of d "drop (length ?p) (ns_Scratch a)" fr]
  have "harmless ?a ?b" by (simp add: harmless_def)
  then have "unit_inv ?b" using harmless_keeps fs(1) keeps_inv by (auto simp: filling_def)
  then have fb: "filling ?b r fid D" using fs(1) by (simp add: filling_def)
  from fill_data [OF fb room] obtain c where
    c: "uvcPayloadData ?b d = Some c" "filling c r fid (D @ d)" "same_rest ?b c" "ua_PayInfo (ns_Asm c) = info" by auto
  have sc: "ns_Scratch ?b = ?p @ drop (length ?p) (ns_Scratch a)" using fs(3) by simp
  note r = payload_rd [OF e]
  have l: "length ?p - (2 + length ext) = length d" using r(4) by simp
  have nz: "2 + length ext \<noteq> 0" by simp
  have "uvcInDoneHook ?a (length ?p) False fr = uvcPayloadEnd c"
    unfolding uvcInDoneHook_def fs(3) b bind.bind_lunit prod.case if_P [OF nz] l sc r(5) c(1) ..
  moreover have "same_rest a c" using same_rest_trans [OF fs(2)] c(3) by (simp add: same_rest_def)
  ultimately show ?thesis using c by blast
qed

lemma end_middle: "good_flags fid (ua_PayInfo (ns_Asm b)) False \<Longrightarrow> uvcPayloadEnd b = Some b"
  by (simp add: uvcPayloadEnd_def good_flags_def)

text \<open>The first payload opens the frame and takes the next waiting read.\<close>

definition idle :: "nepVideoStream \<Rightarrow> bool" where
  "idle ns \<longleftrightarrow> unit_inv ns \<and> ns_Streaming ns \<and> \<not> ua_Open (ns_Asm ns) \<and> \<not> ur_AbortCur (ns_Reads ns) \<and>
     ur_Cur (ns_Reads ns) = None"

lemma first_payload:
  assumes f: "idle a" and q: "ur_Queue (ns_Reads a) = r # rs" and g: "good_flags fid info eof" and e: "length ext \<le> 253"
    and d: "d \<noteq> []" and room: "length d \<le> unat (io_Length r)"
    and s: "length (uvc_payload info ext d) \<le> unat (ns_ScratchSize a)"
  shows "\<exists>b. uvcInDoneHook (put_scratch (uvc_payload info ext d) a) (length (uvc_payload info ext d)) False fr = uvcPayloadEnd b \<and>
    filling b r fid d \<and> ua_PayInfo (ns_Asm b) = info \<and>
    ns_Stats b = (ns_Stats a)\<lparr>uvs_Frames := uvs_Frames (ns_Stats a) + 1\<rparr> \<and> ur_Queue (ns_Reads b) = rs \<and>
    ns_Replied b = ns_Replied a \<and> ns_Mode b = ns_Mode a \<and> ns_ScratchSize b = ns_ScratchSize a \<and>
    ns_OpenFlags b = ns_OpenFlags a"
proof -
  let ?p = "uvc_payload info ext d"
  let ?a = "put_scratch ?p a"
  have "length (ns_Scratch a) = unat (ns_ScratchSize a)" using f by (simp add: idle_def unit_inv_def)
  then have i: "unit_inv ?a" "ns_Streaming ?a" "\<not> ua_Open (ns_Asm ?a)" "\<not> ur_AbortCur (ns_Reads ?a)"
    using f s scratch_put(1) [of a "?p @ drop (length ?p) (ns_Scratch a)"] by (auto simp: put_scratch_def idle_def)
  have sc: "ns_Scratch ?a = ?p @ drop (length ?p) (ns_Scratch a)" by (simp add: put_scratch_def)
  obtain s' where b: "uvcPayloadBegin ?a (?p @ drop (length ?p) (ns_Scratch a)) (length ?p) False fr =
      Some (?a\<lparr>ns_Asm := s'\<rparr>, 2 + length ext)" "ua_PayInfo s' = info" "\<not> ua_Open s'" "unit_inv (?a\<lparr>ns_Asm := s'\<rparr>)"
    using begin_idle [OF i g e] by blast
  let ?b = "open_frame (?a\<lparr>ns_Asm := s'\<rparr>)"
  have ob: "?b = ?a\<lparr>ns_Asm := s'\<lparr>ua_Open := True, ua_FID := info AND UVPHF_FID, ua_Fill := 0, ua_Damaged := False, ua_Overflow := False\<rparr>,
      ns_Stats := (ns_Stats a)\<lparr>uvs_Frames := uvs_Frames (ns_Stats a) + 1\<rparr>,
      ns_Reads := (ns_Reads a)\<lparr>ur_Cur := Some r, ur_Queue := rs\<rparr>\<rparr>"
    using q f b(2) by (simp add: open_frame_def count_frame_def Let_def put_scratch_def idle_def)
  have "engine_keeps (?a\<lparr>ns_Asm := s'\<rparr>) ?b" using b i(2) by (intro open_keeps) simp_all
  then have "unit_inv ?b" using keeps_inv by blast
  moreover have "\<exists>b. r = r\<lparr>io_Data := b\<rparr>" by (rule exI [where x = "io_Data r"]) simp
  ultimately have fb: "filling ?b r fid []" using i g ob by (simp add: filling_def good_flags_def put_scratch_def)
  from fill_data [OF fb, of d] room obtain c where c: "uvcPayloadData ?b d = Some c" "filling c r fid d" "same_rest ?b c"
    "ua_PayInfo (ns_Asm c) = ua_PayInfo (ns_Asm ?b)" by auto
  have "ua_Open (ns_Asm ?b)" using fb by (simp add: filling_def)
  then have dd: "uvcPayloadData (?a\<lparr>ns_Asm := s'\<rparr>) d = Some c" using c(1) d b(3) by (simp add: uvcPayloadData_def)
  have sc': "ns_Scratch (?a\<lparr>ns_Asm := s'\<rparr>) = ?p @ drop (length ?p) (ns_Scratch a)" using sc by simp
  note r = payload_rd [OF e]
  have l: "length ?p - (2 + length ext) = length d" using r(4) by simp
  have nz: "2 + length ext \<noteq> 0" by simp
  have "uvcInDoneHook ?a (length ?p) False fr = uvcPayloadEnd c"
    unfolding uvcInDoneHook_def sc b(1) bind.bind_lunit prod.case if_P [OF nz] l sc' r(5) dd ..
  then show ?thesis using c ob b(2) by (auto simp: same_rest_def put_scratch_def)
qed

text \<open>A frame as the format in force has them.\<close>

definition proper :: "nepVideoStream \<Rightarrow> bytes \<Rightarrow> bool" where
  "proper ns F \<longleftrightarrow> (\<exists>ufo up. um_Format (ns_Mode ns) = Some ufo \<and> row_of ufo = Some up \<and> \<not> up_Embedded up \<and>
     (up_JpegStart up \<longrightarrow> 2 \<le> length F \<and> F ! 0 = JPEG_MARKER \<and> F ! 1 = JPEG_SOI) \<and>
     (up_FixedSize up \<longrightarrow> length F = unat (um_MaxFrameSize (ns_Mode ns))))"

text \<open>The read that is given back with the frame.\<close>

definition got_frame :: "uvRead \<Rightarrow> bytes \<Rightarrow> u32 \<Rightarrow> uvRead \<Rightarrow> bool" where
  "got_frame r F sequ r' \<longleftrightarrow> rd_Id r' = rd_Id r \<and> io_Error r' = 0 \<and> unat (io_Actual r') = length F \<and>
     take (length F) (io_Data r') = F \<and>
     (rd_IsVideo r \<longrightarrow> ivr_Sequence r' = sequ \<and> ivr_Flags r' AND IVRF_DAMAGED = 0)"

lemma is_jpeg_eq:
  assumes "unat fill = length F" and "take (length F) (io_Data r) = F"
  shows "is_jpeg r fill = Some (2 \<le> length F \<and> F ! 0 = JPEG_MARKER \<and> F ! 1 = JPEG_SOI)"
proof (cases "fill < 2")
  case True
  then have "length F < 2" using assms(1) by (simp add: word_less_nat_alt)
  then show ?thesis using True by (simp add: is_jpeg_def)
next
  case False
  then have l: "2 \<le> length F" using assms(1) by (simp add: word_less_nat_alt)
  have ld: "length F \<le> length (io_Data r)" using assms(2) by (metis length_take min.cobounded1)
  have nth: "F ! k = io_Data r ! k" if "k < length F" for k
    using arg_cong [OF assms(2), of "\<lambda>l. l ! k"] that by simp
  have "F ! 0 = io_Data r ! 0" "F ! 1 = io_Data r ! 1" using nth [of 0] nth [of 1] l by linarith+
  then show ?thesis using False l ld by (auto simp: is_jpeg_def rd8_def)
qed

lemma close_good:
  assumes f: "filling a r fid F" and p: "proper a F"
  shows "\<exists>b r'. uvcCloseFrame a = Some b \<and> idle b \<and> ns_Replied b = ns_Replied a @ [r'] \<and>
    got_frame r F (uvs_Frames (ns_Stats a)) r' \<and> ur_Queue (ns_Reads b) = ur_Queue (ns_Reads a) \<and>
    ns_Stats b = (ns_Stats a)\<lparr>uvs_Delivered := uvs_Delivered (ns_Stats a) + 1\<rparr>"
proof -
  obtain d where d: "ur_Cur (ns_Reads a) = Some (r\<lparr>io_Data := d\<rparr>)" "take (length F) d = F" using f by (auto simp: filling_def)
  obtain ufo up where row: "um_Format (ns_Mode a) = Some ufo" "row_of ufo = Some up" and e: "\<not> up_Embedded up"
    and j: "up_JpegStart up \<longrightarrow> 2 \<le> length F \<and> F ! 0 = JPEG_MARKER \<and> F ! 1 = JPEG_SOI"
    and m: "up_FixedSize up \<longrightarrow> length F = unat (um_MaxFrameSize (ns_Mode a))" using p by (auto simp: proper_def)
  have a: "unit_inv a" "ns_Streaming a" "ua_Open (ns_Asm a)" "\<not> ua_Damaged (ns_Asm a)" "\<not> ua_Overflow (ns_Asm a)"
    "\<not> ur_AbortCur (ns_Reads a)" and fl: "unat (ua_Fill (ns_Asm a)) = length F" using f by (auto simp: filling_def)
  have ij: "is_jpeg (r\<lparr>io_Data := d\<rparr>) (ua_Fill (ns_Asm a)) = Some (2 \<le> length F \<and> F ! 0 = JPEG_MARKER \<and> F ! 1 = JPEG_SOI)"
    by (rule is_jpeg_eq) (use fl d(2) in simp_all)
  have nd: "\<not> is_damaged up (2 \<le> length F \<and> F ! 0 = JPEG_MARKER \<and> F ! 1 = JPEG_SOI) a"
    using m j fl a by (auto simp: is_damaged_def word_unat_eq_iff)
  obtain b where b: "uvcCloseFrame a = Some b" "engine_keeps a b" "\<not> ua_Open (ns_Asm b)" using close_keeps [OF a(1,2)] by blast
  have "uvcCloseFrame a = uvcDeliver (count_frame (\<lambda>s. s\<lparr>uvs_Delivered := uvs_Delivered s + 1\<rparr>) (closing a False)) 0 0"
    unfolding close_eq [OF a(3) d(1) row ij] if_not_P [OF a(5)] if_P [OF nd] close_whole_def if_not_P [OF e] ..
  then show ?thesis using b d fl a
    by (auto simp: uvcDeliver_def closing_def count_frame_def Let_def idle_def engine_keeps_def got_frame_def word_ao_dist)
qed

text \<open>The payloads behind the first.\<close>

lemma rest_payloads:
  assumes "filling a r fid D" and "ps = qs @ [(info, ext, d)]"
    and "\<forall>x \<in> set qs. good_flags fid (fst x) False" and "good_flags fid info True"
    and "\<forall>(info, ext, d) \<in> set ps. length ext \<le> 253 \<and> length (uvc_payload info ext d) \<le> unat (ns_ScratchSize a)"
    and "length (D @ frame_data ps) \<le> unat (io_Length r)" and "proper a (D @ frame_data ps)"
  shows "\<exists>b r'. iso_run a (frame_payloads ps) = Some b \<and> idle b \<and> ns_Replied b = ns_Replied a @ [r'] \<and>
    got_frame r (D @ frame_data ps) (uvs_Frames (ns_Stats a)) r' \<and> ur_Queue (ns_Reads b) = ur_Queue (ns_Reads a) \<and>
    ns_Stats b = (ns_Stats a)\<lparr>uvs_Delivered := uvs_Delivered (ns_Stats a) + 1\<rparr>"
  using assms
proof (induction qs arbitrary: a D ps)
  case Nil
  then have ps: "ps = [(info, ext, d)]" and g: "good_flags fid info True" by simp_all
  then have e: "length ext \<le> 253" "length (uvc_payload info ext d) \<le> unat (ns_ScratchSize a)"
    "length D + length d \<le> unat (io_Length r)" and p: "proper a (D @ d)" using Nil.prems by (simp_all add: frame_data_def)
  from fill_payload [OF Nil.prems(1) g e(1,3,2), of 0] obtain b where
    b: "uvcInDoneHook (put_scratch (uvc_payload info ext d) a) (length (uvc_payload info ext d)) False 0 = uvcPayloadEnd b"
      "filling b r fid (D @ d)" "same_rest a b" "ua_PayInfo (ns_Asm b) = info" by blast
  have pb: "proper b (D @ d)" using p b(3) by (simp add: proper_def same_rest_def)
  have "uvcPayloadEnd b = uvcCloseFrame b" using g b(4) by (simp add: uvcPayloadEnd_def good_flags_def)
  then show ?case using close_good [OF b(2) pb] b(1,3) by (auto simp: ps frame_data_def same_rest_def)
next
  case (Cons q qs)
  obtain i1 e1 d1 where q: "q = (i1, e1, d1)" by (cases q)
  let ?ps = "qs @ [(info, ext, d)]"
  have ps: "ps = (i1, e1, d1) # ?ps" using Cons.prems(2) q by simp
  have g: "good_flags fid i1 False" using Cons.prems(3) q by simp
  have e: "length e1 \<le> 253" "length (uvc_payload i1 e1 d1) \<le> unat (ns_ScratchSize a)"
    "length D + length d1 \<le> unat (io_Length r)"
    using Cons.prems(5,6) ps by (auto simp: frame_data_def)
  from fill_payload [OF Cons.prems(1) g e(1,3,2), of 0] obtain b where
    b: "uvcInDoneHook (put_scratch (uvc_payload i1 e1 d1) a) (length (uvc_payload i1 e1 d1)) False 0 = uvcPayloadEnd b"
      "filling b r fid (D @ d1)" "same_rest a b" "ua_PayInfo (ns_Asm b) = i1" by blast
  have "uvcPayloadEnd b = Some b" using end_middle [of fid b] g b(4) by simp
  moreover have fd: "D @ frame_data ps = (D @ d1) @ frame_data ?ps" by (simp add: ps frame_data_def)
  moreover have "\<exists>c r'. iso_run b (frame_payloads ?ps) = Some c \<and> idle c \<and> ns_Replied c = ns_Replied b @ [r'] \<and>
    got_frame r ((D @ d1) @ frame_data ?ps) (uvs_Frames (ns_Stats b)) r' \<and> ur_Queue (ns_Reads c) = ur_Queue (ns_Reads b) \<and>
    ns_Stats c = (ns_Stats b)\<lparr>uvs_Delivered := uvs_Delivered (ns_Stats b) + 1\<rparr>"
  proof (rule Cons.IH [OF b(2) refl _ Cons.prems(4)])
    show "\<forall>x \<in> set qs. good_flags fid (fst x) False" using Cons.prems(3) by simp
    show "\<forall>(info, ext, d) \<in> set ?ps. length ext \<le> 253 \<and> length (uvc_payload info ext d) \<le> unat (ns_ScratchSize b)"
      using Cons.prems(5) ps b(3) by (auto simp: same_rest_def)
    show "length ((D @ d1) @ frame_data ?ps) \<le> unat (io_Length r)" using Cons.prems(6) unfolding fd .
    show "proper b ((D @ d1) @ frame_data ?ps)" using Cons.prems(7) b(3) unfolding fd by (simp add: proper_def same_rest_def)
  qed
  ultimately show ?case using b(1,3) by (simp add: ps same_rest_def)
qed

text \<open>A whole frame, from between two frames to between two frames.\<close>

lemma frame_received:
  assumes i: "idle a" and q: "ur_Queue (ns_Reads a) = r # rs" and g: "good_frame fid ps"
    and s: "\<forall>(info, ext, d) \<in> set ps. length (uvc_payload info ext d) \<le> unat (ns_ScratchSize a)"
    and room: "length (frame_data ps) \<le> unat (io_Length r)" and p: "proper a (frame_data ps)"
  shows "\<exists>b r'. iso_run a (frame_payloads ps) = Some b \<and> idle b \<and> ns_Replied b = ns_Replied a @ [r'] \<and>
    got_frame r (frame_data ps) (uvs_Frames (ns_Stats a) + 1) r' \<and> ur_Queue (ns_Reads b) = rs \<and>
    uvs_Frames (ns_Stats b) = uvs_Frames (ns_Stats a) + 1 \<and> uvs_Delivered (ns_Stats b) = uvs_Delivered (ns_Stats a) + 1 \<and>
    uvs_Skipped (ns_Stats b) = uvs_Skipped (ns_Stats a) \<and> uvs_Damaged (ns_Stats b) = uvs_Damaged (ns_Stats a) \<and>
    uvs_Overflowed (ns_Stats b) = uvs_Overflowed (ns_Stats a)"
proof -
  obtain i1 e1 d1 ps' where ps: "ps = (i1, e1, d1) # ps'" using g by (cases ps) (auto simp: good_frame_def)
  have e: "length e1 \<le> 253" "d1 \<noteq> []" using g ps by (auto simp: good_frame_def)
  have r1: "length d1 \<le> unat (io_Length r)" using room ps by (simp add: frame_data_def)
  have s1: "length (uvc_payload i1 e1 d1) \<le> unat (ns_ScratchSize a)" using s ps by simp
  have fd: "frame_data ps = d1 @ frame_data ps'" by (simp add: ps frame_data_def)
  show ?thesis
  proof (cases "ps' = []")
    case True
    then have gf: "good_flags fid i1 True" using g ps by (simp add: good_frame_def)
    from first_payload [OF i q gf e(1,2) r1 s1, of 0] obtain b where
      b: "uvcInDoneHook (put_scratch (uvc_payload i1 e1 d1) a) (length (uvc_payload i1 e1 d1)) False 0 = uvcPayloadEnd b"
        "filling b r fid d1" "ua_PayInfo (ns_Asm b) = i1" "ns_Stats b = (ns_Stats a)\<lparr>uvs_Frames := uvs_Frames (ns_Stats a) + 1\<rparr>"
        "ur_Queue (ns_Reads b) = rs" "ns_Replied b = ns_Replied a" "ns_Mode b = ns_Mode a" by blast
    have "proper b d1" using p b(7) True fd by (simp add: proper_def frame_data_def)
    from close_good [OF b(2) this] have c: "\<exists>c r'. uvcCloseFrame b = Some c \<and> idle c \<and> ns_Replied c = ns_Replied b @ [r'] \<and>
      got_frame r d1 (uvs_Frames (ns_Stats b)) r' \<and> ur_Queue (ns_Reads c) = ur_Queue (ns_Reads b) \<and>
      ns_Stats c = (ns_Stats b)\<lparr>uvs_Delivered := uvs_Delivered (ns_Stats b) + 1\<rparr>" .
    have "uvcPayloadEnd b = uvcCloseFrame b" using gf b(3) by (simp add: uvcPayloadEnd_def good_flags_def)
    then show ?thesis using c b(1,4-6) True fd by (auto simp: ps frame_data_def)
  next
    case False
    then obtain qs il el dl where l: "ps' = qs @ [(il, el, dl)]" by (metis rev_exhaust prod_cases3)
    then have gf: "good_flags fid i1 False" and gm: "\<forall>x \<in> set qs. good_flags fid (fst x) False"
      and gl: "good_flags fid il True" using g ps by (auto simp: good_frame_def butlast_append)
    from first_payload [OF i q gf e(1,2) r1 s1, of 0] obtain b where
      b: "uvcInDoneHook (put_scratch (uvc_payload i1 e1 d1) a) (length (uvc_payload i1 e1 d1)) False 0 = uvcPayloadEnd b"
        "filling b r fid d1" "ua_PayInfo (ns_Asm b) = i1" "ns_Stats b = (ns_Stats a)\<lparr>uvs_Frames := uvs_Frames (ns_Stats a) + 1\<rparr>"
        "ur_Queue (ns_Reads b) = rs" "ns_Replied b = ns_Replied a" "ns_Mode b = ns_Mode a" "ns_ScratchSize b = ns_ScratchSize a" by blast
    have "uvcPayloadEnd b = Some b" using end_middle [of fid b] gf b(3) by simp
    moreover have "\<exists>c r'. iso_run b (frame_payloads ps') = Some c \<and> idle c \<and> ns_Replied c = ns_Replied b @ [r'] \<and>
      got_frame r (d1 @ frame_data ps') (uvs_Frames (ns_Stats b)) r' \<and> ur_Queue (ns_Reads c) = ur_Queue (ns_Reads b) \<and>
      ns_Stats c = (ns_Stats b)\<lparr>uvs_Delivered := uvs_Delivered (ns_Stats b) + 1\<rparr>"
    proof (rule rest_payloads [OF b(2) l gm gl])
      show "\<forall>(info, ext, d) \<in> set ps'. length ext \<le> 253 \<and> length (uvc_payload info ext d) \<le> unat (ns_ScratchSize b)"
        using s g ps b(8) by (auto simp: good_frame_def)
      show "length (d1 @ frame_data ps') \<le> unat (io_Length r)" using room fd by simp
      show "proper b (d1 @ frame_data ps')" using p b(7) fd by (simp add: proper_def)
    qed
    ultimately show ?thesis using b(1,4-6) fd by (auto simp: ps)
  qed
qed

end
