(* ===== verification/Uvc_Props.thy ===== *)
theory Uvc_Props
  imports Uvc_Refine Uvc_Lookup Uvc_Frames
begin

text \<open>
  Properties of the USB video class, each with an instance at a concrete camera, frame or unit.
\<close>

section \<open>A camera\<close>

definition cam_ctrl :: "bytes list" where
  "cam_ctrl = [[13, 36, 1, 0x50, 0x01, 0, 0, 0x00, 0x6c, 0xdc, 0x02, 1, 1],
     [18, 36, 2, 1, 0x01, 0x02, 0, 0, 0, 0, 0, 0, 0, 0, 3, 0, 0, 0]]"

definition cam_stream :: "bytes list" where
  "cam_stream = [[14, 36, 1, 1, 0, 0, 0x81, 0, 3, 0, 0, 0, 1, 0],
     [11, 36, 6, 1, 1, 0, 1, 0, 0, 0, 0],
     [30, 36, 7, 1, 0, 0x80, 0x02, 0xe0, 0x01, 0, 0, 0, 0, 0, 0, 0, 0, 0, 0, 0, 0,
      0x15, 0x16, 0x05, 0x00, 1, 0x15, 0x16, 0x05, 0x00]]"

definition cam_ifs :: "u8 \<Rightarrow> bytes list option" where
  "cam_ifs i = (if i = 1 then Some cam_stream else None)"

section \<open>The descriptor parser\<close>

text \<open>C22: parsing the class descriptors of any function (fewer than 65536 of the control interface
  and fewer of its streams together, so that the counts do not wrap) ends without reading outside a descriptor or
  writing outside the one allocation the counting pass sized; a model is built exactly when there is
  memory and a header, and it is well formed: counts within capacities, every stream's formats and
  every format's frames within the arrays, every kept pointer with the bytes its count promises.\<close>
theorem build_function_safe:
  assumes "descs_fit ctrl ifs"
  shows "\<exists>r. nBuildFunction mem ctrl ifs = Some r \<and> (r \<noteq> None \<longleftrightarrow> mem \<and> header_ifs ctrl \<noteq> None) \<and>
    (\<forall>uf. r = Some uf \<longrightarrow> uvc_wf uf)"
  using build_ok [OF assms] .

lemma cam_fits: "descs_fit cam_ctrl cam_ifs" and cam_header: "header_ifs cam_ctrl = Some [1]"
  by (simp_all add: descs_fit_def header_ifs_def cam_ctrl_def cam_ifs_def cam_stream_def if_descs_def)

theorem build_function_safe_witness:
  "\<exists>uf. nBuildFunction True cam_ctrl cam_ifs = Some (Some uf) \<and> uvc_wf uf"
  using build_function_safe [OF cam_fits, of True] cam_header by auto

text \<open>C23: adding a stream, walking its descriptors and adding the embedded format implement nested
  lists, as long as their 8 bit counters suffice (fewer than 255 formats, fewer than 256 frames of a
  format): the stream's arrays, indices and counts hold exactly the formats of its descriptors in order,
  each with the frames that followed it and belong to its row, the last one a twin of the first MJPEG
  format when the camera has the H.264 unit.\<close>
theorem stream_refines_lists:
  assumes "between uf (Suc k) (length ds + d)" and "spec_small (spec_stream ds)" and "length (spec_stream ds) < 255"
  shows "\<exists>uf1 s uf2 uf'. uvcAddStream uf i = Some (uf1, s) \<and> walk_stream uf1 s ds = Some uf2 \<and>
    uvcAddEmbeddedFormat uf2 s = Some uf' \<and> view uf2 s = spec_stream ds \<and>
    view uf' s = spec_stream ds @ spec_twin (uvcFindH264Unit uf \<noteq> Some None) (spec_stream ds)"
  using refine_stream [OF assms] .

definition cam_start :: uvcFunction where
  "cam_start = uvcInitFunction 2 1 3"

lemma cam_between: "between cam_start (Suc 0) (length cam_stream + 0)"
  using wf_init [of 2 1 3] by (simp add: between_def cam_start_def uvcInitFunction_def cam_stream_def)

lemma cam_small: "spec_small (spec_stream cam_stream)" "length (spec_stream cam_stream) < 255"
  using grows_foldl [of "[]" cam_stream]
  by (simp_all add: spec_small_def spec_stream_def cam_stream_def spec_desc_def UVC_FORMAT_TYPES_def new_format_def
      rd8_def uvcFindPayload_def UvcPayloads_def arr_get_def spec_add_frame_def spec_frame_def split: option.splits)

theorem stream_refines_lists_witness:
  "\<exists>uf1 s uf2. uvcAddStream cam_start 1 = Some (uf1, s) \<and> walk_stream uf1 s cam_stream = Some uf2 \<and>
     view uf2 s = spec_stream cam_stream"
  using stream_refines_lists [OF cam_between cam_small, of 1] by blast

section \<open>Lookups\<close>

text \<open>C29: of a frame that lists its intervals a request gets one of them, and none is nearer to the one
  it asked for.\<close>
theorem snap_interval_nearest:
  assumes "frame_ok ufr" and "ufr_NumIntervals ufr \<noteq> 0" and "x \<noteq> 0"
  shows "\<exists>r. uvcSnapInterval ufr x = Some r \<and> r \<in> set (interval_list ufr) \<and>
    (\<forall>c \<in> set (interval_list ufr). dist32 r x \<le> dist32 c x)"
  using snap_discrete [OF assms] .

definition two_intervals :: uvcFrame where
  "two_intervals = zero_frame\<lparr>ufr_NumIntervals := 2, ufr_Intervals := [10, 0, 0, 0, 20, 0, 0, 0]\<rparr>"

theorem snap_interval_nearest_witness:
  "frame_ok two_intervals \<and> (\<exists>r. uvcSnapInterval two_intervals 17 = Some r \<and> r \<in> set (interval_list two_intervals) \<and>
    (\<forall>c \<in> set (interval_list two_intervals). dist32 r 17 \<le> dist32 c 17))"
proof -
  have "frame_ok two_intervals" "ufr_NumIntervals two_intervals \<noteq> 0"
    by (simp_all add: frame_ok_def two_intervals_def)
  then show ?thesis using snap_interval_nearest [of two_intervals 17] by simp
qed

text \<open>C30: of a frame with a range of intervals a request inside the range gets one at most half a step
  away; it is never below the range, and not above it if the range is a whole number of steps. The
  request is not zero, the range is in order, and its longest interval and a step together fit 32 bits.\<close>
theorem snap_interval_range:
  assumes "frame_ok ufr" and "ufr_NumIntervals ufr = 0" and "x \<noteq> 0"
    and "uvcFrameMinInterval ufr = Some a" and "uvcFrameMaxInterval ufr = Some b" and "uvcFrameInterval ufr 2 = Some s"
    and "unat b + unat s < 2 ^ 32" and "a \<le> b"
  shows "\<exists>r. uvcSnapInterval ufr x = Some r \<and> a \<le> r \<and> (s udvd (b - a) \<longrightarrow> r \<le> b) \<and>
    (a \<le> x \<longrightarrow> x \<le> b \<longrightarrow> 2 * unat (dist32 r x) \<le> unat s)"
  using snap_range [OF assms] .

definition a_range :: uvcFrame where
  "a_range = zero_frame\<lparr>ufr_Intervals := [10, 0, 0, 0, 27, 0, 0, 0, 10, 0, 0, 0]\<rparr>"

lemma a_range_facts:
  "frame_ok a_range" "ufr_NumIntervals a_range = 0" "uvcFrameMinInterval a_range = Some 10"
  "uvcFrameMaxInterval a_range = Some 27" "uvcFrameInterval a_range 2 = Some 10"
  by (simp_all add: a_range_def frame_ok_def zero_frame_def uvcFrameMinInterval_def uvcFrameMaxInterval_def
      uvcFrameInterval_def rd_le32_def le32_def)

theorem snap_interval_range_witness:
  "\<exists>r. uvcSnapInterval a_range 26 = Some r \<and> 10 \<le> r \<and> 2 * unat (dist32 r 26) \<le> 10"
  using snap_interval_range [OF a_range_facts(1,2) _ a_range_facts(3-5), of 26] by auto

text \<open>The interval a request gets may lie beyond the longest one of the range, when the range is not
  a whole number of steps (a flaw of the rounding).\<close>
theorem snap_interval_overshoots: "uvcSnapInterval a_range 26 = Some 30 \<and> uvcFrameMaxInterval a_range = Some 27"
  using a_range_facts by (simp add: uvcSnapInterval_def)

text \<open>A request that names no format gets the streamable format of the earliest row of the payload
  table, the first of them in descriptor order; one that names a FourCC gets the first streamable format
  with it; none is found only if there is none.\<close>
theorem find_format_spec:
  assumes "\<forall>f \<in> set fos. payload_ok f"
  shows "(\<exists>r. uvcFindFormat fos 0 = Some r \<and> (r = None \<longleftrightarrow> (\<forall>f \<in> set fos. \<not> uvcIsStreamable f)) \<and>
      (\<forall>i. r = Some i \<longrightarrow> i < length fos \<and> uvcIsStreamable (fos ! i) \<and>
        (\<forall>k < length fos. uvcIsStreamable (fos ! k) \<longrightarrow>
           the (ufo_Payload (fos ! i)) \<le> the (ufo_Payload (fos ! k)) \<and>
           (k < i \<longrightarrow> the (ufo_Payload (fos ! i)) < the (ufo_Payload (fos ! k)))))) \<and>
    (c \<noteq> 0 \<longrightarrow> uvcFindFormat fos c = Some (index_of (\<lambda>f. uvcIsStreamable f \<and> uvcFourCC f = Some c) fos))"
  using find_default [of fos] find_named [OF assms, of c] by blast

definition two_formats :: "uvcFormat list" where
  "two_formats = [zero_format\<lparr>ufo_Payload := Some 1, ufo_NumFrames := 1,
       ufo_Desc := [27, 36, 4, 1, 1, 0x59, 0x55, 0x59, 0x32] @ replicate 18 0\<rparr>,
     zero_format\<lparr>ufo_Payload := Some 0, ufo_NumFrames := 1, ufo_Desc := replicate 11 0\<rparr>]"

theorem find_format_spec_witness:
  "(\<exists>r. uvcFindFormat two_formats 0 = Some r \<and> r \<noteq> None) \<and>
   uvcFindFormat two_formats UVFCC_MJPG =
     Some (index_of (\<lambda>f. uvcIsStreamable f \<and> uvcFourCC f = Some UVFCC_MJPG) two_formats)"
proof -
  have "\<forall>f \<in> set two_formats. payload_ok f"
    by (simp add: two_formats_def payload_ok_def UvcPayloads_def)
  moreover have "\<exists>f \<in> set two_formats. uvcIsStreamable f"
    by (simp add: two_formats_def uvcIsStreamable_def)
  ultimately show ?thesis using find_format_spec [of two_formats UVFCC_MJPG] by auto
qed

section \<open>H.264 inside JPEG frames\<close>

text \<open>C27: taking the embedded stream out of a frame, moved down the very buffer it is read from, gives
  what reading the segments of an untouched copy gives, for every frame whatever it holds; nothing
  outside the frame is read or written.\<close>
theorem extract_in_place:
  assumes "len \<le> length buf"
  shows "\<exists>buf' n. uvcExtractEmbedded buf len fourcc = Some (buf', n) \<and> length buf' = length buf \<and> n \<le> len \<and>
    take n buf' = spec_extract (unat fourcc) (segments len buf 2) 0 False"
  using extract_eq [OF assms] .

theorem extract_in_place_witness:
  "\<exists>buf' n. uvcExtractEmbedded [0xff, 0xd8, 0xff, 0xe4, 0, 3, 1, 0xff, 0xda] 9 UVFCC_H264 = Some (buf', n) \<and>
     length buf' = 9 \<and> n \<le> 9"
  using extract_in_place [of 9 "[0xff, 0xd8, 0xff, 0xe4, 0, 3, 1, 0xff, 0xda]" UVFCC_H264] by auto

text \<open>C28: a stream that a camera puts into a JPEG frame, in any number of segments with segments of
  other kinds between them, comes back whole and in order.\<close>
theorem embedded_roundtrip:
  assumes "16 \<le> length vers" and "length vers + 6 < 65536" and "mux_size d ds < 4294967296"
    and "filter (\<lambda>(t, d). t = UVCX_MUX_MARKER) segs = map (Pair UVCX_MUX_MARKER) (mux_first (unat fourcc) vers d ds # ds)"
    and "\<forall>(t, d) \<in> set segs. t \<noteq> JPEG_SOS \<and> length d + 2 < 65536"
  shows "\<exists>buf' n. uvcExtractEmbedded (jpeg_frame segs picture) (length (jpeg_frame segs picture)) fourcc = Some (buf', n) \<and>
    take n buf' = d @ concat ds"
proof -
  have f: "unat fourcc < 4294967296" using unsigned_less [of fourcc] by simp
  have "segments (length (jpeg_frame segs picture)) (jpeg_frame segs picture) 2 = segs"
    using segments_enc [OF assms(5), of "[JPEG_MARKER, JPEG_SOI]" picture] by (simp add: jpeg_frame_def numeral_2_eq_2)
  with extract_eq [of "length (jpeg_frame segs picture)" "jpeg_frame segs picture" fourcc]
  show ?thesis using extract_mux [OF assms(1,2) f assms(3,4)] by auto
qed

theorem embedded_roundtrip_witness:
  "\<exists>buf' n. uvcExtractEmbedded
     (jpeg_frame [(0xe0, [1]), (UVCX_MUX_MARKER, mux_first 0x48323634 (replicate 16 0) [1, 2] [[3]]), (UVCX_MUX_MARKER, [3])] [9])
     (length (jpeg_frame [(0xe0, [1]), (UVCX_MUX_MARKER, mux_first 0x48323634 (replicate 16 0) [1, 2] [[3]]), (UVCX_MUX_MARKER, [3])] [9]))
     UVFCC_H264 = Some (buf', n) \<and> take n buf' = [1, 2, 3]"
proof -
  let ?segs = "[(0xe0, [1]), (UVCX_MUX_MARKER, mux_first 0x48323634 (replicate 16 0) [1, 2] [[3]]), (UVCX_MUX_MARKER, [3])]
    :: (u8 \<times> bytes) list"
  have m: "mux_size [1, 2] [[3]] < 4294967296" by (simp add: mux_size_def)
  have l: "length (mux_first 0x48323634 (replicate 16 0) [1, 2] [[3]]) = 28"
    using mux_header_first(3) [where vers = "replicate 16 0" and fourcc = "0x48323634" and d = "[1, 2]" and ds = "[[3]]"] m by simp
  show ?thesis
    using embedded_roundtrip [where vers = "replicate 16 0" and d = "[1, 2]" and ds = "[[3]]" and segs = ?segs
      and fourcc = UVFCC_H264 and picture = "[9]"] m l by simp
qed

section \<open>The stream\<close>

text \<open>Of the isochronous alternates the one chosen carries the payload in a service interval and
  none that does has a smaller capacity, so no more bus bandwidth is reserved than needed; none is
  chosen only if none carries the payload.\<close>
theorem alternate_smallest:
  assumes "\<forall>a \<in> set alts. \<forall>c. snd a \<noteq> Some (USEAF_BULK, c)"
  shows "case uvcFindAlternate alts n of
      None \<Rightarrow> \<forall>a \<in> set alts. \<not> fits n a
    | Some (i, t, c) \<Rightarrow> (i, Some (t, c)) \<in> set alts \<and> fits n (i, Some (t, c)) \<and>
        (\<forall>a \<in> set alts. fits n a \<longrightarrow> c \<le> cap_of a)"
  using find_alternate_iso [OF assms, where best = None and bc = "0xffffffff" and n = n]
  by (auto simp: uvcFindAlternate_def split: option.splits)

theorem alternate_smallest_witness:
  "case uvcFindAlternate [(0, None), (1, Some (USEAF_ISOCHRONOUS, 3072)), (2, Some (USEAF_ISOCHRONOUS, 1024))] 800 of
      None \<Rightarrow> False | Some (i, t, c) \<Rightarrow> c \<le> 1024"
proof -
  let ?alts = "[(0, None), (1, Some (USEAF_ISOCHRONOUS, 3072)), (2, Some (USEAF_ISOCHRONOUS, 1024))] :: alternate list"
  have f: "fits 800 (2, Some (USEAF_ISOCHRONOUS, 1024))" by (simp add: fits_def)
  have "\<forall>a \<in> set ?alts. \<forall>c. snd a \<noteq> Some (USEAF_BULK, c)" by simp
  from alternate_smallest [OF this, of 800] f show ?thesis
    by (auto simp: cap_of_def split: option.splits)
qed

text \<open>A new unit with its camera.\<close>

definition fresh_unit :: "bool \<Rightarrow> nepVideoStream" where
  "fresh_unit bulk = \<lparr>ns_Binding = True, ns_OpenCnt = 0, ns_IsBulk = bulk, ns_OpenFlags = 0,
     ns_Mode = \<lparr>um_Format = None, um_Frame = None, um_Interval = 0, um_MaxFrameSize = 0, um_ClockFrequency = 0,
       um_PayloadSize = 0\<rparr>,
     ns_Reads = \<lparr>ur_Queue = [], ur_Cur = None, ur_AbortCur = False\<rparr>, ns_Streaming = False, ns_Scratch = [],
     ns_ScratchSize = 0, ns_Bulk = \<lparr>ub_PayDone = 0, ub_PaySkip = False, ub_Errors = 0\<rparr>,
     ns_Asm = \<lparr>ua_Open = False, ua_Damaged = False, ua_Overflow = False, ua_HasPTS = False, ua_HasSCR = False,
       ua_FID = 0, ua_PayInfo = 0, ua_BusFrame = 0, ua_Fill = 0, ua_PTS = 0, ua_SCRClock = 0, ua_SCRFrame = 0\<rparr>,
     ns_Stats = zero_stats, ns_Replied = []\<rparr>"

lemma fresh_inv: "run_inv (fresh_unit bulk)"
  by (simp add: run_inv_def unit_defs fresh_unit_def mode_ok_def zero_stats_def Let_def)

text \<open>C24: in every run of a unit - reads queued and called back, any bytes the camera sends, starting,
  stopping, opening, closing, the camera coming and going - no read is lost or given back twice: the
  reads waiting, being filled and given back are together exactly those that were handed in, each once;
  the buffer of the read being filled is never overrun, while the stream runs every frame the camera
  started is in exactly one of the four counts or still open, and a bulk payload never exceeds its size.\<close>
theorem unit_runs_invariant:
  assumes "uv_log (fresh_unit bulk) ids ns"
  shows "read_ids ns = mset ids \<and> distinct ids \<and> unit_inv ns \<and> (ns_Streaming ns \<longrightarrow> ns_IsBulk ns \<longrightarrow> bulk_inv ns)"
proof -
  have "read_ids (fresh_unit bulk) = {#}" by (simp add: read_ids_def all_reads_def fresh_unit_def)
  then have r: "run_inv ns" "read_ids ns = mset ids" using uv_log_account [OF assms fresh_inv] by auto
  then have "\<forall>i. count (mset ids) i \<le> 1" by (simp add: run_inv_def)
  then have "count (mset ids) i = (if i \<in> set ids then 1 else 0)" for i
    using count_greater_zero_iff [of "mset ids" i] by (cases "i \<in> set ids") (auto simp: le_Suc_eq)
  then have "distinct ids" by (simp add: distinct_count_atmost_1)
  then show ?thesis using r by (simp add: run_inv_def)
qed

definition a_read :: uvRead where
  "a_read = \<lparr>rd_Id = 1, io_Length = 8, io_Data = replicate 8 0, io_Actual = 0, io_Error = 0, rd_IsVideo = True,
     ivr_Sequence = 0, ivr_Flags = 0, ivr_PTS = 0, ivr_BusFrame = 0, ivr_SCRFrame = 0, ivr_SCRClock = 0\<rparr>"

lemma a_read_step: "uv_step (fresh_unit bulk) (unit_read (fresh_unit bulk) a_read)"
  by (rule uv_read) (simp_all add: read_ok_def a_read_def read_ids_def all_reads_def fresh_unit_def)

lemma a_read_log: "uv_log (fresh_unit bulk) [1] (unit_read (fresh_unit bulk) a_read)"
  using uv_log.log_read [OF uv_log.log_start, of a_read "fresh_unit bulk"]
  by (simp add: read_ok_def a_read_def read_ids_def all_reads_def fresh_unit_def)

theorem unit_runs_invariant_witness:
  "read_ids (uvcAbortReads (unit_read (fresh_unit True) a_read) IOERR_ABORTED) = mset [1] \<and> distinct [1 :: nat]"
proof -
  have "uv_log (fresh_unit True) [1] (uvcAbortReads (unit_read (fresh_unit True) a_read) IOERR_ABORTED)"
    by (rule uv_log.log_other [OF a_read_log uv_flush])
  from unit_runs_invariant [OF this] show ?thesis by blast
qed

text \<open>C25: in every reachable state whatever happens next is defined: any service interval, any bulk
  transfer or failure of one, starting, stopping and unplugging go through without an access outside a
  buffer or through a null pointer.\<close>
theorem unit_runs_safe:
  assumes "uv_step\<^sup>*\<^sup>* (fresh_unit bulk) ns" and "length scratch = unat (ns_ScratchSize ns)"
  shows "(ns_Streaming ns \<longrightarrow> \<not> ns_IsBulk ns \<longrightarrow>
       uvcInDoneHook (ns\<lparr>ns_Scratch := scratch\<rparr>) (unat (uvcInReqHook ns len)) we f \<noteq> None) \<and>
    (ns_Streaming ns \<longrightarrow> ns_IsBulk ns \<longrightarrow> n \<le> unat (uvcBulkAsk ns) \<longrightarrow>
       uvcBulkTransfer (ns\<lparr>ns_Scratch := scratch\<rparr>) ioerr n \<noteq> None) \<and>
    uvcStart env ns \<noteq> None \<and> uvcStop ns \<noteq> None \<and> unit_detach ns \<noteq> None"
proof -
  have inv: "run_inv ns" using uv_run.reach [OF assms(1) fresh_inv] .
  then have u: "unit_inv ns" by (simp add: run_inv_def)
  let ?n = "ns\<lparr>ns_Scratch := scratch\<rparr>"
  have un: "unit_inv ?n" using scratch_put(1) [OF u assms(2)] .
  have "uvcInDoneHook ?n (unat (uvcInReqHook ns len)) we f \<noteq> None" if "ns_Streaming ns"
    using done_hook_keeps [OF un, of "unat (uvcInReqHook ns len)" we f] that hook_len [of ns len] by auto
  moreover have "uvcBulkTransfer ?n ioerr n \<noteq> None" if "ns_Streaming ns" "ns_IsBulk ns" "n \<le> unat (uvcBulkAsk ns)"
  proof -
    have "bulk_inv ?n" using inv that by (simp add: run_inv_def bulk_inv_def)
    moreover have "uvcBulkAsk ?n = uvcBulkAsk ns" by (simp add: uvcBulkAsk_def Let_def)
    ultimately show ?thesis using bulk_transfer_keeps [OF un, of n ioerr] that by auto
  qed
  ultimately show ?thesis using start_keeps [OF u, of env] stop_keeps [OF u] detach_keeps [OF u] by auto
qed

theorem unit_runs_safe_witness:
  "uvcStop (unit_read (fresh_unit True) a_read) \<noteq> None \<and> unit_detach (unit_read (fresh_unit True) a_read) \<noteq> None"
proof -
  have "length [] = unat (ns_ScratchSize (unit_read (fresh_unit True) a_read))"
    by (simp add: unit_read_def fresh_unit_def)
  from unit_runs_safe [OF r_into_rtranclp [of uv_step, OF a_read_step [of True]] this] show ?thesis by blast
qed

text \<open>C26: a frame the camera sends in any number of payloads, with any further header fields, each payload
  within the size of a service interval, is handed to the first waiting read whole if it fits the read's
  buffer and is a proper frame of the format (a JPEG begins like one, a frame of fixed size has it, the
  format is not one embedded in another): the read comes back without error, with the frame's length and bytes
  in its buffer and the frame's number; the frame is counted once, as delivered, and the other reads wait on.\<close>
theorem frame_reaches_read:
  assumes "idle ns" and "ur_Queue (ns_Reads ns) = r # rs" and "good_frame fid ps"
    and "\<forall>(info, ext, d) \<in> set ps. length (uvc_payload info ext d) \<le> unat (ns_ScratchSize ns)"
    and "length (frame_data ps) \<le> unat (io_Length r)" and "proper ns (frame_data ps)"
  shows "\<exists>b r'. iso_run ns (frame_payloads ps) = Some b \<and> idle b \<and> ns_Replied b = ns_Replied ns @ [r'] \<and>
    got_frame r (frame_data ps) (uvs_Frames (ns_Stats ns) + 1) r' \<and> ur_Queue (ns_Reads b) = rs \<and>
    uvs_Frames (ns_Stats b) = uvs_Frames (ns_Stats ns) + 1 \<and> uvs_Delivered (ns_Stats b) = uvs_Delivered (ns_Stats ns) + 1 \<and>
    uvs_Skipped (ns_Stats b) = uvs_Skipped (ns_Stats ns) \<and> uvs_Damaged (ns_Stats b) = uvs_Damaged (ns_Stats ns) \<and>
    uvs_Overflowed (ns_Stats b) = uvs_Overflowed (ns_Stats ns)"
  using frame_received [OF assms] .

definition running :: nepVideoStream where
  "running = (fresh_unit False)\<lparr>ns_Streaming := True, ns_ScratchSize := 16, ns_Scratch := replicate 16 0,
     ns_Mode := (ns_Mode (fresh_unit False))\<lparr>um_Format := Some (zero_format\<lparr>ufo_Payload := Some 0\<rparr>)\<rparr>,
     ns_Reads := \<lparr>ur_Queue = [a_read], ur_Cur = None, ur_AbortCur = False\<rparr>\<rparr>"

lemma running_idle: "idle running"
  by (simp add: idle_def running_def fresh_unit_def unit_defs mode_ok_def row_of_def UvcPayloads_def arr_get_def
      zero_format_def zero_stats_def read_ok_def a_read_def Let_def)

theorem frame_reaches_read_witness:
  "\<exists>b r'. iso_run running (frame_payloads [(0x81, [], [0xff, 0xd8, 1]), (0x83, [7], [2])]) = Some b \<and>
     ns_Replied b = [r'] \<and> take 4 (io_Data r') = [0xff, 0xd8, 1, 2] \<and> io_Actual r' = 4"
proof -
  let ?ps = "[(0x81, [], [0xff, 0xd8, 1]), (0x83, [7], [2])] :: (u8 \<times> bytes \<times> bytes) list"
  have q: "ur_Queue (ns_Reads running) = a_read # []" by (simp add: running_def)
  have g: "good_frame 1 ?ps" by (simp add: good_frame_def good_flags_def)
  have s: "\<forall>(info, ext, d) \<in> set ?ps. length (uvc_payload info ext d) \<le> unat (ns_ScratchSize running)"
    by (simp add: uvc_payload_def running_def)
  have r: "length (frame_data ?ps) \<le> unat (io_Length a_read)" by (simp add: frame_data_def a_read_def)
  have p: "proper running (frame_data ?ps)"
    by (simp add: proper_def running_def frame_data_def row_of_def UvcPayloads_def arr_get_def zero_format_def)
  have z: "ns_Replied running = []" by (simp add: running_def fresh_unit_def)
  from frame_reaches_read [OF running_idle q g s r p] z obtain b r' where
    b: "iso_run running (frame_payloads ?ps) = Some b" "ns_Replied b = [r']" "got_frame a_read (frame_data ?ps) (uvs_Frames (ns_Stats running) + 1) r'"
    by auto
  have F: "frame_data ?ps = [0xff, 0xd8, 1, 2]" by (simp add: frame_data_def)
  have four: "length (0xff # 0xd8 # 1 # [2 :: u8]) = 4" by simp
  have "take 4 (io_Data r') = [0xff, 0xd8, 1, 2]" "unat (io_Actual r') = 4"
    using b(3) unfolding F got_frame_def four by simp_all
  then have "io_Actual r' = 4" "take 4 (io_Data r') = [0xff, 0xd8, 1, 2]" by (simp_all add: word_unat_eq_iff)
  with b(1,2) show ?thesis by blast
qed

end
