(* ===== verification/Cfg_Form.thy ===== *)
theory Cfg_Form
  imports Neptune_Prelude
begin

text \<open>
  The forms of the preferences tree of neptune.library (src/neptune.library/neptune.library.c):
  an IFF style form (struct PsdIFFContext of neptune_intern.h) holds a buffer of chunks and a
  list of sub forms. The operations of this theory work inside one form: finding, removing and
  adding chunks, reading a form from a buffer, measuring and writing it, the string chunks, and
  the checksum.

  A form is a value of the type \<open>psdIFFContext\<close>, its buffer pic_Chunks is a list of
  pic_BufferLen bytes of which the first pic_ChunksLen are in use. Lengths are kept in the code's
  32 bit unsigned or signed words and wrap as they do there. An operation yields \<open>None\<close> when the
  code would access memory outside the buffers or never leave a loop. Memory allocation is the
  argument \<open>mem\<close>, as the prelude has it.

  memcpy() between overlapping regions in pRemCfgChunk() is modelled as a copy from an unchanged
  source, which is what a forward copying memcpy() does when it moves data down.
\<close>

unbundle bit_operations_syntax

section \<open>Data\<close>

datatype psdIFFContext = Pic (pic_FormID: u32) (pic_FormLength: u32) (pic_Chunks: bytes)
  (pic_ChunksLen: u32) (pic_BufferLen: u32) (pic_SubForms: "psdIFFContext list")

abbreviation ID_FORM :: u32 where "ID_FORM \<equiv> 0x464F524D"

definition rd32 :: "bytes \<Rightarrow> nat \<Rightarrow> u32 option" where
  "rd32 b off = map_option word_of_nat (rd_be32 b off)"

definition be32 :: "u32 \<Rightarrow> bytes" where
  "be32 w = enc_be32 (unat w)"

text \<open>The room a chunk whose length field is \<open>l\<close> takes, its header included.\<close>

definition chunk_bytes :: "u32 \<Rightarrow> u32" where
  "chunk_bytes l = (l + 9) AND NOT 1"

text \<open>The bytes of a form's contents when the form's length field is \<open>l\<close>.\<close>

definition form_bytes :: "u32 \<Rightarrow> u32" where
  "form_bytes l = (l - 3) AND NOT 1"

definition pic_with :: "psdIFFContext \<Rightarrow> bytes \<Rightarrow> u32 \<Rightarrow> u32 \<Rightarrow> psdIFFContext" where
  "pic_with f b cl bl = Pic (pic_FormID f) (pic_FormLength f) b cl bl (pic_SubForms f)"

definition pic_subs :: "psdIFFContext \<Rightarrow> psdIFFContext list \<Rightarrow> psdIFFContext" where
  "pic_subs f ss = Pic (pic_FormID f) (pic_FormLength f) (pic_Chunks f) (pic_ChunksLen f) (pic_BufferLen f) ss"

section \<open>Chunks\<close>

text \<open>The form pAllocForm() makes; its caller appends it to the parent's list.\<close>

definition new_form :: "u32 \<Rightarrow> psdIFFContext" where
  "new_form fid = Pic fid 4 [] 0 0 []"

definition pAllocForm :: "psdIFFContext \<Rightarrow> u32 \<Rightarrow> mem \<Rightarrow> bool \<times> psdIFFContext \<times> mem" where
  "pAllocForm parent fid m = (let (got, m) = psdAllocVec m in
     if got then (True, pic_subs parent (pic_SubForms parent @ [new_form fid]), m)
     else (False, parent, m))"

fun find_chunk :: "nat \<Rightarrow> bytes \<Rightarrow> nat \<Rightarrow> u32 \<Rightarrow> u32 \<Rightarrow> nat option option" where
  "find_chunk 0 b off len cid = None"
| "find_chunk (Suc n) b off len cid = (if len = 0 then Some None else do {
     w \<leftarrow> rd32 b off;
     if w = cid then Some (Some off) else do {
       l \<leftarrow> rd32 b (off + 4);
       find_chunk n b (off + unat (chunk_bytes l)) (len - chunk_bytes l) cid } })"

definition pFindCfgChunk :: "psdIFFContext \<Rightarrow> u32 \<Rightarrow> nat option option" where
  "pFindCfgChunk pic cid =
     find_chunk (Suc (length (pic_Chunks pic))) (pic_Chunks pic) 0 (pic_ChunksLen pic) cid"

fun rem_chunk :: "nat \<Rightarrow> bytes \<Rightarrow> nat \<Rightarrow> u32 \<Rightarrow> u32 \<Rightarrow> (bytes \<times> u32) option option" where
  "rem_chunk 0 b off len cid = None"
| "rem_chunk (Suc n) b off len cid = (if len = 0 then Some None else do {
     l \<leftarrow> rd32 b (off + 4);
     w \<leftarrow> rd32 b off;
     let chlen = chunk_bytes l;
     if w = cid then
       if len - chlen = 0 then Some (Some (b, chlen))
       else do {
         d \<leftarrow> rd_slice b (off + unat chlen) (unat (len - chlen));
         b' \<leftarrow> wr_bytes b off d;
         Some (Some (b', chlen)) }
     else rem_chunk n b (off + unat chlen) (len - chlen) cid })"

definition pRemCfgChunk :: "psdIFFContext \<Rightarrow> u32 \<Rightarrow> (bool \<times> psdIFFContext) option" where
  "pRemCfgChunk pic cid = do {
     r \<leftarrow> rem_chunk (Suc (length (pic_Chunks pic))) (pic_Chunks pic) 0 (pic_ChunksLen pic) cid;
     case r of None \<Rightarrow> Some (False, pic)
     | Some (b, chlen) \<Rightarrow>
         Some (True, pic_with pic b (pic_ChunksLen pic - chlen) (pic_BufferLen pic)) }"

text \<open>Room for \<open>len\<close> more bytes: the buffer is replaced by one of twice the size needed.\<close>

definition grow :: "psdIFFContext \<Rightarrow> u32 \<Rightarrow> mem \<Rightarrow> (bool \<times> psdIFFContext \<times> mem) option" where
  "grow pic len m = (let need = pic_ChunksLen pic + len in
     if need > pic_BufferLen pic then
       let (got, m) = psdAllocVec m in
       if got then do {
         let fresh = replicate (unat (push_bit 1 need)) 0;
         d \<leftarrow> rd_slice (pic_Chunks pic) 0 (unat (pic_ChunksLen pic));
         b \<leftarrow> wr_bytes fresh 0 d;
         Some (True, pic_with pic b (pic_ChunksLen pic) (push_bit 1 need), m) }
       else Some (False, pic, m)
     else Some (True, pic, m))"

definition add_plain :: "psdIFFContext \<Rightarrow> u32 \<Rightarrow> bytes \<Rightarrow> nat \<Rightarrow> mem
    \<Rightarrow> (bool \<times> psdIFFContext \<times> mem) option" where
  "add_plain pic w b off m = do {
     (_, pic) \<leftarrow> pRemCfgChunk pic w;
     l \<leftarrow> rd32 b (off + 4);
     let len = chunk_bytes l;
     (ok, pic, m) \<leftarrow> grow pic len m;
     if ok then do {
       d \<leftarrow> rd_slice b off (unat len);
       c \<leftarrow> wr_bytes (pic_Chunks pic) (unat (pic_ChunksLen pic)) d;
       Some (True, pic_with pic c (pic_ChunksLen pic + len) (pic_BufferLen pic), m) }
     else Some (False, pic, m) }"

text \<open>
  pAddCfgChunk() at offset \<open>off\<close> of the buffer \<open>b\<close>; \<open>True\<close> stands for a non-null result. A sub form
  is linked to its parent before it is filled; nothing looks at the parent in between.
\<close>

fun pAddCfgChunk :: "nat \<Rightarrow> psdIFFContext \<Rightarrow> bytes \<Rightarrow> nat \<Rightarrow> mem
    \<Rightarrow> (bool \<times> psdIFFContext \<times> mem) option"
  and add_loop :: "nat \<Rightarrow> psdIFFContext \<Rightarrow> bytes \<Rightarrow> nat \<Rightarrow> u32 \<Rightarrow> mem
    \<Rightarrow> (u32 \<times> psdIFFContext \<times> mem) option" where
  "pAddCfgChunk 0 pic b off m = None"
| "pAddCfgChunk (Suc n) pic b off m = do {
     w \<leftarrow> rd32 b off;
     if w = ID_FORM then do {
       l \<leftarrow> rd32 b (off + 4);
       fid \<leftarrow> rd32 b (off + 8);
       let (got, m) = psdAllocVec m;
       if got then do {
         (len, sub, m) \<leftarrow> add_loop n (new_form fid) b (off + 12) (form_bytes l) m;
         Some (len = 0, pic_subs pic (pic_SubForms pic @ [sub]), m) }
       else Some (False, pic, m) }
     else add_plain pic w b off m }"
| "add_loop 0 pic b off len m = None"
| "add_loop (Suc n) pic b off len m = (if 8 \<le>s len then do {
       (ok, pic, m) \<leftarrow> pAddCfgChunk n pic b off m;
       if ok then do {
         l \<leftarrow> rd32 b (off + 4);
         add_loop n pic b (off + unat (chunk_bytes l)) (len - chunk_bytes l) m }
       else Some (len, pic, m) }
     else Some (len, pic, m))"

text \<open>Every chunk that is read takes room in its buffer, so this much fuel is enough.\<close>

definition cfg_fuel :: "bytes \<Rightarrow> nat" where
  "cfg_fuel b = Suc (length b)"

text \<open>
  The two halves of psdReadCfg(): is the data a chunk or a form with another id than the form it
  is read into, and, when it is not, the form emptied and filled; \<open>True\<close> when all of it was read.
\<close>

definition alien_form :: "psdIFFContext \<Rightarrow> bytes \<Rightarrow> bool option" where
  "alien_form pic b = do {
     w \<leftarrow> rd32 b 0;
     if w \<noteq> ID_FORM then Some True else do { fid \<leftarrow> rd32 b 8; Some (fid \<noteq> pic_FormID pic) } }"

definition read_cfg :: "psdIFFContext \<Rightarrow> bytes \<Rightarrow> mem \<Rightarrow> (bool \<times> psdIFFContext \<times> mem) option" where
  "read_cfg pic b m = do {
     l \<leftarrow> rd32 b 4;
     (len, pic, m) \<leftarrow> add_loop (cfg_fuel b) (pic_subs (pic_with pic (pic_Chunks pic) 0 (pic_BufferLen pic)) [])
                      b 12 (form_bytes l) m;
     Some (len = 0, pic, m) }"

text \<open>psdRemCfgChunk() with the id 0 empties the form.\<close>

definition clear_form :: "psdIFFContext \<Rightarrow> bool \<times> psdIFFContext" where
  "clear_form pic = (pic_SubForms pic \<noteq> [] \<or> pic_ChunksLen pic \<noteq> 0,
     Pic (pic_FormID pic) 4 (pic_Chunks pic) 0 (pic_BufferLen pic) [])"

definition rem_cfg :: "psdIFFContext \<Rightarrow> u32 \<Rightarrow> (bool \<times> psdIFFContext) option" where
  "rem_cfg pic cid = (if cid \<noteq> 0 then pRemCfgChunk pic cid else Some (clear_form pic))"

text \<open>A copy of a chunk with its header.\<close>

definition get_cfg_chunk :: "psdIFFContext \<Rightarrow> u32 \<Rightarrow> mem \<Rightarrow> (bytes option \<times> mem) option" where
  "get_cfg_chunk pic cid m = do {
     r \<leftarrow> pFindCfgChunk pic cid;
     case r of None \<Rightarrow> Some (None, m)
     | Some off \<Rightarrow> do {
         l \<leftarrow> rd32 (pic_Chunks pic) (off + 4);
         let (got, m) = psdAllocVec m;
         if got then do {
           d \<leftarrow> rd_slice (pic_Chunks pic) off (unat (l + 8));
           Some (Some d, m) }
         else Some (None, m) } }"

section \<open>Measuring and writing\<close>

fun pGetFormLength :: "psdIFFContext \<Rightarrow> u32 \<times> psdIFFContext"
  and form_lengths :: "u32 \<Rightarrow> psdIFFContext list \<Rightarrow> u32 \<times> psdIFFContext list" where
  "pGetFormLength (Pic i l c cl bl ss) =
     (let (len, ss') = form_lengths ((5 + cl) AND NOT 1) ss in (len + 8, Pic i len c cl bl ss'))"
| "form_lengths len [] = (len, [])"
| "form_lengths len (s # ss) =
     (let (n, s') = pGetFormLength s; (len', ss') = form_lengths (len + n) ss in (len', s' # ss'))"

fun pInternalWriteForm :: "psdIFFContext \<Rightarrow> bytes \<Rightarrow> nat \<Rightarrow> (bytes \<times> nat) option"
  and write_forms :: "psdIFFContext list \<Rightarrow> bytes \<Rightarrow> nat \<Rightarrow> (bytes \<times> nat) option" where
  "pInternalWriteForm (Pic i l c cl bl ss) buf off = do {
     buf \<leftarrow> wr_bytes buf off (be32 ID_FORM);
     buf \<leftarrow> wr_bytes buf (off + 4) (be32 l);
     buf \<leftarrow> wr_bytes buf (off + 8) (be32 i);
     d \<leftarrow> rd_slice c 0 (unat cl);
     buf \<leftarrow> wr_bytes buf (off + 12) d;
     write_forms ss buf (off + 12 + unat cl) }"
| "write_forms [] buf off = Some (buf, off)"
| "write_forms (s # ss) buf off = do {
     (buf, off) \<leftarrow> pInternalWriteForm s buf off;
     write_forms ss buf off }"

text \<open>The part of psdWriteCfg() that follows pUpdateGlobalCfg(): the buffer, when there is memory,
  and the form with its lengths updated.\<close>

definition write_cfg :: "psdIFFContext \<Rightarrow> mem \<Rightarrow> (bytes option \<times> psdIFFContext \<times> mem) option" where
  "write_cfg pic m = (let (len, pic) = pGetFormLength pic; (got, m) = psdAllocVec m in
     if got then do {
       (buf, _) \<leftarrow> pInternalWriteForm pic (replicate (unat len) 0) 0;
       Some (Some buf, pic, m) }
     else Some (None, pic, m))"

section \<open>The checksum\<close>

fun crc_words :: "u32 \<Rightarrow> bytes \<Rightarrow> u32" where
  "crc_words crc (a # b # r) =
     crc_words (((push_bit 1 crc) OR (drop_bit 31 crc)) XOR word_of_nat (le16 b a)) r"
| "crc_words crc r = crc"

fun pCalcCfgCRC :: "psdIFFContext \<Rightarrow> u32"
  and crc_forms :: "u32 \<Rightarrow> psdIFFContext list \<Rightarrow> u32" where
  "pCalcCfgCRC (Pic i l c cl bl ss) = crc_forms (crc_words i (take (2 * (unat cl div 2)) c)) ss"
| "crc_forms crc [] = crc"
| "crc_forms crc (s # ss) = crc_forms (crc XOR pCalcCfgCRC s) ss"

section \<open>String chunks\<close>

text \<open>
  Strings are lists of bytes without their final NUL. A string given to these functions is read
  with its NUL; the string a chunk pointer stands for is read up to the first NUL.
\<close>

definition pAddStringChunk :: "psdIFFContext \<Rightarrow> u32 \<Rightarrow> bytes \<Rightarrow> mem
    \<Rightarrow> (bool \<times> psdIFFContext \<times> mem) option" where
  "pAddStringChunk pic cid str m = (let (got, m) = psdAllocVec m; len = (word_of_nat (length str) :: u32) in
     if got then do {
       let chnk = replicate (unat (len + 8 + 2)) 0;
       chnk \<leftarrow> wr_bytes chnk 0 (be32 cid);
       chnk \<leftarrow> wr_bytes chnk 4 (be32 (len + 1));
       chnk \<leftarrow> wr_bytes chnk 8 (str @ [0]);
       pAddCfgChunk (cfg_fuel chnk) pic chnk 0 m }
     else Some (False, pic, m))"

fun match_loop :: "bytes \<Rightarrow> nat \<Rightarrow> nat \<Rightarrow> bytes \<Rightarrow> bool option" where
  "match_loop b off 0 str = Some (str = [])"
| "match_loop b off (Suc len) str = do {
     c \<leftarrow> rd8 b off;
     if c = 0 then Some (str = [])
     else case str of [] \<Rightarrow> Some False
       | x # str' \<Rightarrow> if x \<noteq> c then Some False else match_loop b (off + 1) len str' }"

definition pMatchStringChunk :: "psdIFFContext \<Rightarrow> u32 \<Rightarrow> bytes \<Rightarrow> bool option" where
  "pMatchStringChunk pic cid str = do {
     r \<leftarrow> pFindCfgChunk pic cid;
     case r of None \<Rightarrow> Some False
     | Some off \<Rightarrow> do {
         l \<leftarrow> rd32 (pic_Chunks pic) (off + 4);
         match_loop (pic_Chunks pic) (off + 8) (unat l) str } }"

definition pGetStringChunk :: "psdIFFContext \<Rightarrow> u32 \<Rightarrow> mem \<Rightarrow> (bytes option \<times> mem) option" where
  "pGetStringChunk pic cid m = do {
     r \<leftarrow> pFindCfgChunk pic cid;
     case r of None \<Rightarrow> Some (None, m)
     | Some off \<Rightarrow> do {
         l \<leftarrow> rd32 (pic_Chunks pic) (off + 4);
         let (got, m) = psdAllocVec m;
         if got then do {
           d \<leftarrow> rd_slice (pic_Chunks pic) (off + 8) (unat l);
           Some (Some (takeWhile (\<lambda>c. c \<noteq> 0) (d @ [0])), m) }
         else Some (None, m) } }"

text \<open>The string at an address: up to the first NUL of the buffer.\<close>

definition c_string :: "bytes \<Rightarrow> nat \<Rightarrow> bytes option" where
  "c_string b off = (if 0 \<in> set (drop off b) then Some (takeWhile (\<lambda>c. c \<noteq> 0) (drop off b)) else None)"

end
