(* ===== verification/Cfg_Area.thy ===== *)
theory Cfg_Area
  imports Cfg_Form
begin

text \<open>
  The chunk buffer of a form as a list of chunks: the chunks of a buffer, and how finding,
  removing and adding a chunk act on the list.
\<close>

section \<open>Words\<close>

definition even_up :: "nat \<Rightarrow> nat" where
  "even_up n = (n + 1) div 2 * 2"

lemma and_not_1: "(y :: u32) AND NOT 1 = push_bit 1 (drop_bit 1 y)"
proof (rule bit_word_eqI)
  fix n assume n: "n < LENGTH(32)"
  have m: "(1 :: u32) = mask 1" by (simp add: mask_eq_exp_minus_1)
  show "bit (y AND NOT 1) n = bit (push_bit 1 (drop_bit 1 y)) n"
    unfolding m using n
    by (cases n) (simp_all only: bit_and_iff bit_not_iff bit_mask_iff bit_push_bit_iff bit_drop_bit_eq,
      auto simp: bit_simps)
qed

lemma u32_less: "unat (x :: u32) < 4294967296"
  using unsigned_less [of x] by simp

lemma unat_and_not_1: "unat ((y :: u32) AND NOT 1) = unat y div 2 * 2"
proof -
  have "unat y div 2 * 2 < 2 ^ 32" using u32_less [of y] by simp
  then show ?thesis
    by (simp only: and_not_1 push_bit_eq_mult drop_bit_eq_div unat_word_ariths unat_div mult.commute)
      (simp add: unat_div mult.commute)
qed

lemma unat_chunk_bytes:
  assumes "unat l + 9 < 4294967296"
  shows "unat (chunk_bytes l) = 8 + even_up (unat l)"
proof -
  have "unat (l + 9) = unat l + 9" using assms by (simp add: unat_word_ariths)
  moreover have "(n + 9) div 2 * 2 = 8 + (n + 1) div 2 * 2" for n :: nat by presburger
  ultimately show ?thesis unfolding chunk_bytes_def unat_and_not_1 even_up_def by simp
qed

lemma unat_form_bytes:
  assumes "3 \<le> unat l" shows "unat (form_bytes l) = (unat l - 3) div 2 * 2"
proof -
  have "unat (l - 3) = unat l - 3" using assms by (subst unat_sub) (simp_all add: word_le_nat_alt)
  then show ?thesis unfolding form_bytes_def unat_and_not_1 by simp
qed

lemma even_up_ge: "n \<le> even_up n" "even_up n \<le> n + 1" and even_up_dvd: "2 dvd even_up n"
  unfolding even_up_def by presburger+

lemma sint_small: assumes "unat (a :: u32) < 2147483648" shows "sint a = int (unat a)"
proof -
  have "uint a < 2147483648" using assms unfolding unat_eq_nat_uint by linarith
  moreover have "- 2147483648 \<le> uint a" using uint_ge_0 [of a] by linarith
  ultimately have "signed_take_bit (LENGTH(32) - Suc 0) (uint a) = uint a"
    by (intro signed_take_bit_int_eq_self) simp_all
  then show ?thesis by (simp add: sint_uint)
qed

lemma sle_unat: "unat (a :: u32) < 2147483648 \<Longrightarrow> unat b < 2147483648 \<Longrightarrow> (a \<le>s b) = (unat a \<le> unat b)"
  by (simp only: word_sle_eq sint_small of_nat_le_iff)

section \<open>Reading and writing in the middle of a buffer\<close>

lemma length_be32 [simp]: "length (be32 w) = 4"
  by (simp add: be32_def)

lemma rd32_mid: "off = length pre \<Longrightarrow> rd32 (pre @ be32 w @ r) off = Some w"
  using rd_be32_enc [of "unat w" r] rd_be32_drop [of off "pre @ be32 w @ r" 0] u32_less [of w]
  by (auto simp: rd32_def be32_def intro!: exI [of _ "unat w"])

lemma rd_slice_mid: "off = length pre \<Longrightarrow> n = length d \<Longrightarrow> rd_slice (pre @ d @ r) off n = Some d"
  by (simp add: rd_slice_def)

lemma wr_bytes_mid:
  "off = length pre \<Longrightarrow> length d = length x \<Longrightarrow> wr_bytes (pre @ x @ r) off d = Some (pre @ d @ r)"
  by (simp add: wr_bytes_def)

section \<open>Chunks\<close>

type_synonym chunk = "u32 \<times> u32 \<times> bytes"

text \<open>The id, the length field, the data with its pad byte.\<close>

definition chunk_ok :: "chunk \<Rightarrow> bool" where
  "chunk_ok = (\<lambda>(i, l, p). i \<noteq> ID_FORM \<and> unat l + 9 < 4294967296 \<and> length p = even_up (unat l))"

definition enc :: "chunk \<Rightarrow> bytes" where
  "enc = (\<lambda>(i, l, p). be32 i @ be32 l @ p)"

definition area :: "chunk list \<Rightarrow> bytes" where
  "area cs = concat (map enc cs)"

lemma area_simps [simp]: "area [] = []" "area (c # cs) = enc c @ area cs" "area (cs @ ds) = area cs @ area ds"
  by (simp_all add: area_def)

lemma length_enc_chunk: "chunk_ok c \<Longrightarrow> length (enc c) = unat (chunk_bytes (fst (snd c)))"
  by (cases c) (simp add: chunk_ok_def enc_def unat_chunk_bytes)

lemma enc_dvd: "chunk_ok c \<Longrightarrow> 2 dvd length (enc c)" and enc_ge: "8 \<le> length (enc c)"
  by (cases c, simp add: chunk_ok_def enc_def even_up_dvd) (cases c, simp add: enc_def)

lemma area_dvd: "\<forall>c \<in> set cs. chunk_ok c \<Longrightarrow> 2 dvd length (area cs)"
  by (induction cs) (auto simp: enc_dvd)

lemma area_ge: "8 * length cs \<le> length (area cs)"
proof (induction cs)
  case (Cons c cs) then show ?case using enc_ge [of c] by simp
qed simp

lemma rd32_enc:
  assumes "off = length pre"
  shows "rd32 (pre @ enc c @ r) off = Some (fst c)"
    and "rd32 (pre @ enc c @ r) (off + 4) = Some (fst (snd c))"
proof -
  obtain i l p where c: "c = (i, l, p)" by (cases c)
  show "rd32 (pre @ enc c @ r) off = Some (fst c)"
    using rd32_mid [OF assms, of i "be32 l @ p @ r"] by (simp add: c enc_def)
  show "rd32 (pre @ enc c @ r) (off + 4) = Some (fst (snd c))"
    using rd32_mid [of "off + 4" "pre @ be32 i" l "p @ r"] assms by (simp add: c enc_def)
qed

lemma len_minus:
  assumes "unat (len :: u32) = length (enc c) + n" "chunk_ok c"
  shows "unat (len - chunk_bytes (fst (snd c))) = n"
  using assms length_enc_chunk [OF assms(2)] by (subst unat_sub) (simp_all add: word_le_nat_alt)

lemma find_chunk_area:
  assumes "unat len = length (area cs)" and "\<forall>c \<in> set cs. chunk_ok c" and "length cs < n"
    and "off = length pre"
  shows "find_chunk n (pre @ area cs @ r) off len cid =
    Some (if cid \<in> fst ` set cs then Some (off + length (area (takeWhile (\<lambda>c. fst c \<noteq> cid) cs))) else None)"
  using assms
proof (induction cs arbitrary: n off pre len)
  case Nil
  then have "len = 0" by (simp add: unat_eq_0)
  then show ?case using Nil by (cases n) simp_all
next
  case (Cons c cs)
  obtain k where n: "n = Suc k" "length cs < k" using Cons.prems(3) by (cases n) auto
  have ne: "len \<noteq> 0" using Cons.prems(1) enc_ge [of c] by auto
  note rd = rd32_enc [OF Cons.prems(4), of c "area cs @ r"]
  have ok: "chunk_ok c" using Cons.prems(2) by simp
  have "unat (len - chunk_bytes (fst (snd c))) = length (area cs)"
    using len_minus [of len c] ok Cons.prems(1) by simp
  from Cons.IH [OF this _ n(2), of "off + length (enc c)" "pre @ enc c"] Cons.prems
  show ?case using ne rd n length_enc_chunk [OF ok] by auto
qed

lemma rem_chunk_area:
  assumes "unat len = length (area cs)" and "\<forall>c \<in> set cs. chunk_ok c" and "length cs < n"
    and "off = length pre" and "distinct (map fst cs)"
  shows "\<exists>b chlen. rem_chunk n (pre @ area cs @ r) off len cid =
      Some (if cid \<in> fst ` set cs then Some (b, chlen) else None) \<and>
    (cid \<in> fst ` set cs \<longrightarrow> (\<exists>r'. b = pre @ area (filter (\<lambda>c. fst c \<noteq> cid) cs) @ r') \<and>
       length b = length (pre @ area cs @ r) \<and>
       unat len = unat chlen + length (area (filter (\<lambda>c. fst c \<noteq> cid) cs)))"
  using assms
proof (induction cs arbitrary: n off pre len)
  case Nil
  then have "len = 0" by (simp add: unat_eq_0)
  then show ?case using Nil by (cases n) simp_all
next
  case (Cons c cs)
  obtain k where n: "n = Suc k" "length cs < k" using Cons.prems(3) by (cases n) auto
  have ne: "len \<noteq> 0" using Cons.prems(1) enc_ge [of c] by auto
  note rd = rd32_enc [OF Cons.prems(4), of c "area cs @ r"]
  have ok: "chunk_ok c" using Cons.prems(2) by simp
  note le = length_enc_chunk [OF ok]
  have l: "unat (len - chunk_bytes (fst (snd c))) = length (area cs)"
    using len_minus [of len c] ok Cons.prems(1) by simp
  show ?case
  proof (cases "fst c = cid")
    case False
    from Cons.IH [OF l _ n(2), of "off + length (enc c)" "pre @ enc c"] Cons.prems
    obtain b chlen where
      h: "rem_chunk k (pre @ enc c @ area cs @ r) (off + length (enc c)) (len - chunk_bytes (fst (snd c))) cid =
        Some (if cid \<in> fst ` set cs then Some (b, chlen) else None)"
        "cid \<in> fst ` set cs \<longrightarrow> (\<exists>r'. b = (pre @ enc c) @ area (filter (\<lambda>c. fst c \<noteq> cid) cs) @ r') \<and>
         length b = length (pre @ enc c @ area cs @ r) \<and>
         unat (len - chunk_bytes (fst (snd c))) = unat chlen + length (area (filter (\<lambda>c. fst c \<noteq> cid) cs))"
      by auto
    have "unat len = length (enc c) + unat (len - chunk_bytes (fst (snd c)))" using l Cons.prems(1) by simp
    with h show ?thesis using ne rd n le False
      by (intro exI [of _ b] exI [of _ chlen]) auto
  next
    case True
    then have nin: "cid \<notin> fst ` set cs" using Cons.prems(5) by auto
    then have f: "filter (\<lambda>c. fst c \<noteq> cid) cs = cs" by (induction cs) auto
    show ?thesis
    proof (cases "len - chunk_bytes (fst (snd c)) = 0")
      case z: True
      then have "area cs = []" using l by simp
      with z show ?thesis using ne rd n le True f Cons.prems(1)
        by (intro exI [of _ "pre @ enc c @ area cs @ r"] exI [of _ "chunk_bytes (fst (snd c))"]) auto
    next
      case z: False
      have s: "rd_slice (pre @ enc c @ area cs @ r) (off + length (enc c)) (length (area cs)) = Some (area cs)"
        using rd_slice_mid [of "off + length (enc c)" "pre @ enc c" "length (area cs)" "area cs" r] Cons.prems(4) by simp
      define b where "b = pre @ area cs @ drop (length (area cs)) (enc c @ area cs @ r)"
      have w: "wr_bytes (pre @ enc c @ area cs @ r) off (area cs) = Some b"
        unfolding b_def wr_bytes_def using Cons.prems(4) by simp
      have "length b = length (pre @ enc c @ area cs @ r)" unfolding b_def by simp
      moreover have "rem_chunk n (pre @ enc c @ area cs @ r) off len cid = Some (Some (b, chunk_bytes (fst (snd c))))"
        using ne rd z s w True l le by (simp add: n)
      moreover have "\<exists>r'. b = pre @ area cs @ r'" unfolding b_def by blast
      ultimately show ?thesis using True f le Cons.prems(1)
        by (intro exI [of _ b] exI [of _ "chunk_bytes (fst (snd c))"]) simp
    qed
  qed
qed

declare find_chunk.simps [simp del] rem_chunk.simps [simp del]

end
