(* ===== verification/Cfg_Tree.thy ===== *)
theory Cfg_Tree
  imports Cfg_Area
begin

text \<open>
  What a form stands for: a tree of forms, each with its chunks, no two of them with the same id,
  and its sub forms in order. The relation \<open>rep\<close> ties it to the buffers and lengths of the code;
  adding, removing and reading act on the tree as \<open>put_chunk\<close>, a filter and \<open>absorb\<close>.
\<close>

section \<open>The tree\<close>

datatype cform = CForm (cf_id: u32) (cf_chunks: "chunk list") (cf_subs: "cform list")

fun rep :: "cform \<Rightarrow> psdIFFContext \<Rightarrow> bool" where
  "rep (CForm i cs fs) (Pic j fl b cl bl ss) \<longleftrightarrow> i = j \<and> (\<forall>c \<in> set cs. chunk_ok c) \<and>
     distinct (map fst cs) \<and> unat cl = length (area cs) \<and> length b = unat bl \<and>
     (\<exists>junk. b = area cs @ junk) \<and> list_all2 rep fs ss"

definition pic_ok :: "psdIFFContext \<Rightarrow> bool" where
  "pic_ok f \<longleftrightarrow> (\<exists>a. rep a f)"

definition put_chunk :: "chunk \<Rightarrow> chunk list \<Rightarrow> chunk list" where
  "put_chunk c cs = filter (\<lambda>d. fst d \<noteq> fst c) cs @ [c]"

definition cut_chunk :: "u32 \<Rightarrow> chunk list \<Rightarrow> chunk list" where
  "cut_chunk cid = filter (\<lambda>d. fst d \<noteq> cid)"

datatype item = Ch chunk | Fm u32 "item list"

primrec absorb :: "item \<Rightarrow> cform \<Rightarrow> cform" where
  "absorb (Ch c) a = CForm (cf_id a) (put_chunk c (cf_chunks a)) (cf_subs a)"
| "absorb (Fm i its) a = CForm (cf_id a) (cf_chunks a)
     (cf_subs a @ [foldl (\<lambda>s f. f s) (CForm i [] []) (map absorb its)])"

definition contents :: "u32 \<Rightarrow> item list \<Rightarrow> cform" where
  "contents i its = foldl (\<lambda>s it. absorb it s) (CForm i [] []) its"

lemma foldl_map_fun: "foldl (\<lambda>s f. f s) a (map absorb its) = foldl (\<lambda>s it. absorb it s) a its"
  by (induction its arbitrary: a) simp_all

lemma absorb_Fm: "absorb (Fm i its) a = CForm (cf_id a) (cf_chunks a) (cf_subs a @ [contents i its])"
  by (simp add: contents_def foldl_map_fun)

section \<open>The bytes of a tree\<close>

fun ser_item :: "item \<Rightarrow> bytes" where
  "ser_item (Ch c) = enc c"
| "ser_item (Fm i its) = (let d = concat (map ser_item its) in
     be32 ID_FORM @ be32 (word_of_nat (4 + length d)) @ be32 i @ d)"

definition ser :: "item list \<Rightarrow> bytes" where
  "ser its = concat (map ser_item its)"

lemma ser_simps [simp]: "ser [] = []" "ser (it # its) = ser_item it @ ser its" "ser (a @ b) = ser a @ ser b"
  by (simp_all add: ser_def)

lemma ser_item_Fm: "ser_item (Fm i its) =
    be32 ID_FORM @ be32 (word_of_nat (4 + length (ser its))) @ be32 i @ ser its"
  by (simp add: ser_def Let_def)

declare ser_item.simps(2) [simp del]

fun item_ok :: "item \<Rightarrow> bool" where
  "item_ok (Ch c) = chunk_ok c"
| "item_ok (Fm i its) = (\<forall>it \<in> set its. item_ok it)"

lemma ser_item_dvd: "item_ok it \<Longrightarrow> 2 dvd length (ser_item it)"
proof (induction it rule: item_ok.induct)
  case (2 i its)
  then have "\<forall>it \<in> set its. 2 dvd length (ser_item it)" by simp
  then have "2 dvd length (ser its)" by (induction its) auto
  then show ?case by (simp add: ser_item_Fm)
qed (simp add: enc_dvd)

lemma ser_dvd: "\<forall>it \<in> set its. item_ok it \<Longrightarrow> 2 dvd length (ser its)"
  by (induction its) (auto simp: ser_item_dvd)

lemma ser_item_ge: "8 \<le> length (ser_item it)"
  by (cases it) (simp_all add: enc_ge ser_item_Fm)

lemma ser_item_header:
  assumes "off = length pre" "length (ser_item it) < 2147483648" "item_ok it"
  shows "\<exists>w l. rd32 (pre @ ser_item it @ r) off = Some w \<and> rd32 (pre @ ser_item it @ r) (off + 4) = Some l \<and>
    unat (chunk_bytes l) = length (ser_item it)"
proof (cases it)
  case (Ch c)
  then show ?thesis using rd32_enc [OF assms(1), of c r] length_enc_chunk [of c] assms(3) by simp
next
  case (Fm i its)
  let ?n = "4 + length (ser its)"
  have n: "unat (word_of_nat ?n :: u32) = ?n" using assms(2) Fm by (subst unat_of_nat) (simp add: ser_item_Fm)
  have d: "2 dvd length (ser its)" using assms(3) Fm by (intro ser_dvd) simp
  have "unat (chunk_bytes (word_of_nat ?n)) = length (ser_item it)"
    using assms(2) Fm n d by (subst unat_chunk_bytes) (auto simp: ser_item_Fm even_up_def)
  then show ?thesis
    using rd32_mid [OF assms(1), of ID_FORM "be32 (word_of_nat ?n) @ be32 i @ ser its @ r"]
      rd32_mid [of "off + 4" "pre @ be32 ID_FORM" "word_of_nat ?n" "be32 i @ ser its @ r"] assms(1)
    by (simp add: Fm ser_item_Fm)
qed

section \<open>Chunk operations on the tree\<close>

lemma rep_cases:
  assumes "rep a f"
  obtains i cs fs fl b cl bl ss junk where "a = CForm i cs fs" "f = Pic i fl b cl bl ss"
    "\<forall>c \<in> set cs. chunk_ok c" "distinct (map fst cs)" "unat cl = length (area cs)"
    "length b = unat bl" "b = area cs @ junk" "list_all2 rep fs ss"
  using assms by (cases a; cases f) auto

lemma rep_new [simp]: "rep (CForm i [] []) (new_form i)"
  by (simp add: new_form_def)

lemma length_cs: "length cs < Suc (length (area cs @ junk))"
  using area_ge [of cs] by simp

lemma pFindCfgChunk_rep:
  assumes "rep a f"
  shows "pFindCfgChunk f cid = Some (if cid \<in> fst ` set (cf_chunks a)
    then Some (length (area (takeWhile (\<lambda>c. fst c \<noteq> cid) (cf_chunks a)))) else None)"
  using assms
proof (cases rule: rep_cases)
  case (1 i cs fs fl b cl bl ss junk)
  have "length cs < Suc (length b)" using length_cs [of cs junk] 1 by simp
  then show ?thesis
    using find_chunk_area [of cl cs "Suc (length b)" 0 "[]" junk cid] 1 by (simp add: pFindCfgChunk_def)
qed

lemma pRemCfgChunk_rep:
  assumes "rep a f"
  shows "\<exists>f'. pRemCfgChunk f cid = Some (cid \<in> fst ` set (cf_chunks a), f') \<and>
    rep (CForm (cf_id a) (cut_chunk cid (cf_chunks a)) (cf_subs a)) f' \<and>
    pic_FormLength f' = pic_FormLength f \<and> pic_BufferLen f' = pic_BufferLen f"
  using assms
proof (cases rule: rep_cases)
  case (1 i cs fs fl b cl bl ss junk)
  have n: "length cs < Suc (length b)" using length_cs [of cs junk] 1 by simp
  from rem_chunk_area [of cl cs "Suc (length b)" 0 "[]" junk cid] 1 n obtain b' chlen where
    r: "rem_chunk (Suc (length b)) b 0 cl cid = Some (if cid \<in> fst ` set cs then Some (b', chlen) else None)"
    and b': "cid \<in> fst ` set cs \<longrightarrow> (\<exists>r'. b' = area (cut_chunk cid cs) @ r') \<and> length b' = length b \<and>
       unat cl = unat chlen + length (area (cut_chunk cid cs))"
    by (auto simp: cut_chunk_def)
  show ?thesis
  proof (cases "cid \<in> fst ` set cs")
    case False
    then have "cut_chunk cid cs = cs" by (auto simp: cut_chunk_def image_iff intro!: filter_True)
    then show ?thesis using r 1 False assms by (simp add: pRemCfgChunk_def)
  next
    case True
    from b' True have u: "unat (cl - chlen) = length (area (cut_chunk cid cs))"
      by (subst unat_sub) (simp_all add: word_le_nat_alt)
    have "pRemCfgChunk f cid = Some (True, Pic i fl b' (cl - chlen) bl ss)"
      using r 1 True by (simp add: pRemCfgChunk_def pic_with_def)
    moreover have "rep (CForm i (cut_chunk cid cs) fs) (Pic i fl b' (cl - chlen) bl ss)"
      using 1 b' True u by (auto simp: cut_chunk_def distinct_map_filter)
    ultimately show ?thesis using 1 True by simp
  qed
qed

lemma grow_rep:
  assumes "rep a f" and "length (area (cf_chunks a)) + unat len < 2147483648"
  shows "\<exists>ok f' m'. grow f len m = Some (ok, f', m') \<and> rep a f' \<and> pic_FormLength f' = pic_FormLength f \<and>
    (ok \<longrightarrow> unat (pic_ChunksLen f') + unat len \<le> length (pic_Chunks f')) \<and> (m = [] \<longrightarrow> ok \<and> m' = [])"
  using assms(1)
proof (cases rule: rep_cases)
  case (1 i cs fs fl b cl bl ss junk)
  have need: "unat (cl + len) = length (area cs) + unat len" using assms(2) 1 by (simp add: unat_word_ariths)
  show ?thesis
  proof (cases "cl + len > bl")
    case False
    then have "unat cl + unat len \<le> length b" using need 1 by (simp add: word_less_nat_alt)
    moreover have "grow f len m = Some (True, f, m)" using False 1 by (simp add: grow_def)
    ultimately show ?thesis using assms(1) 1 by auto
  next
    case True
    obtain got m' where al: "psdAllocVec m = (got, m')" by fastforce
    show ?thesis
    proof (cases got)
      case False
      then show ?thesis using True al 1 assms(1)
        by (auto simp: grow_def psdAllocVec_def split: list.splits)
    next
      case got: True
      have dbl: "unat (push_bit 1 (cl + len)) = 2 * (length (area cs) + unat len)"
        using need assms(2) 1 by (simp add: push_bit_eq_mult unat_word_ariths)
      have s: "rd_slice b 0 (unat cl) = Some (area cs)" using 1 by (simp add: rd_slice_def)
      let ?z = "replicate (2 * (length (area cs) + unat len)) (0 :: u8)"
      have w: "wr_bytes ?z 0 (area cs) = Some (area cs @ drop (length (area cs)) ?z)" by (simp add: wr_bytes_def)
      have "grow f len m = Some (True, Pic i fl (area cs @ drop (length (area cs)) ?z) cl (push_bit 1 (cl + len)) ss, m')"
        using True al got s w dbl need 1 by (simp add: grow_def pic_with_def Let_def)
      moreover have "rep a (Pic i fl (area cs @ drop (length (area cs)) ?z) cl (push_bit 1 (cl + len)) ss)"
        using 1 dbl by auto
      moreover have "m = [] \<longrightarrow> m' = []" using al by (auto simp: psdAllocVec_def)
      ultimately show ?thesis using 1 dbl by auto
    qed
  qed
qed

end
