(* ===== verification/Cfg_Parse.thy ===== *)
theory Cfg_Parse
  imports Cfg_Tree
begin

text \<open>
  Reading forms: what pAddCfgChunk() and psdReadCfg() build from the bytes of a list of chunks and
  forms, and measuring and writing a form.
\<close>

section \<open>Adding a chunk\<close>

definition built :: "cform \<Rightarrow> cform \<Rightarrow> bool \<Rightarrow> psdIFFContext \<Rightarrow> bool" where
  "built a t ok f \<longleftrightarrow> (ok \<longrightarrow> rep t f) \<and> pic_ok f \<and> pic_FormID f = cf_id a"

lemma pic_okI: "rep a f \<Longrightarrow> pic_ok f"
  by (auto simp: pic_ok_def)

lemma rep_id: "rep a f \<Longrightarrow> pic_FormID f = cf_id a"
  by (cases a; cases f) simp

lemma builtI: "rep t f \<Longrightarrow> cf_id t = cf_id a \<Longrightarrow> built a t ok f"
  using rep_id by (auto simp: built_def intro: pic_okI)

lemma built_failI: "rep t f \<Longrightarrow> cf_id t = cf_id a \<Longrightarrow> built a t' False f"
  using rep_id by (auto simp: built_def intro: pic_okI)

lemma cut_area: "length (area (cut_chunk cid cs)) \<le> length (area cs)"
  by (induction cs) (auto simp: cut_chunk_def)

lemma store_rep:
  assumes "rep (CForm i cs fs) f" and "chunk_ok c" and "fst c \<notin> fst ` set cs"
    and "unat (pic_ChunksLen f) + length (enc c) \<le> length (pic_Chunks f)"
  shows "\<exists>b. wr_bytes (pic_Chunks f) (unat (pic_ChunksLen f)) (enc c) = Some b \<and>
    rep (CForm i (cs @ [c]) fs)
      (pic_with f b (pic_ChunksLen f + chunk_bytes (fst (snd c))) (pic_BufferLen f))"
  using assms(1)
proof (cases rule: rep_cases)
  case (1 i' cs' fs' fl b cl bl ss junk)
  let ?b = "area cs @ enc c @ drop (length (enc c)) junk"
  have w: "wr_bytes b (unat cl) (enc c) = Some ?b" using 1 assms(4) by (simp add: wr_bytes_def)
  have "unat cl + length (enc c) < 4294967296" using assms(4) 1 u32_less [of bl] by simp
  then have "unat (cl + chunk_bytes (fst (snd c))) = length (area cs) + length (enc c)"
    using 1 length_enc_chunk [OF assms(2)] by (simp add: unat_word_ariths)
  moreover have "length ?b = unat bl" using 1 assms(4) by simp
  ultimately have "rep (CForm i (cs @ [c]) fs) (Pic i fl ?b (cl + chunk_bytes (fst (snd c))) bl ss)"
    using 1 assms(2,3) by auto
  then show ?thesis using w 1 by (simp add: pic_with_def)
qed

lemma add_plain_rep:
  assumes "rep a f" and "chunk_ok c" and "off = length pre"
    and "length (area (cf_chunks a)) + length (enc c) < 2147483648"
  shows "\<exists>ok f' m'. add_plain f (fst c) (pre @ enc c @ r) off m = Some (ok, f', m') \<and>
    built a (absorb (Ch c) a) ok f' \<and> (m = [] \<longrightarrow> ok \<and> m' = [])"
proof -
  let ?l = "fst (snd c)" and ?cs = "cut_chunk (fst c) (cf_chunks a)"
  let ?a1 = "CForm (cf_id a) ?cs (cf_subs a)"
  obtain f1 b1 where r: "pRemCfgChunk f (fst c) = Some (b1, f1)" and r1: "rep ?a1 f1"
    using pRemCfgChunk_rep [OF assms(1), of "fst c"] by blast
  note rd = rd32_enc [OF assms(3), of c r] and le = length_enc_chunk [OF assms(2)]
  have small: "length (area (cf_chunks ?a1)) + unat (chunk_bytes ?l) < 2147483648"
    using assms(4) cut_area [of "fst c" "cf_chunks a"] le by simp
  obtain ok f2 m2 where g: "grow f1 (chunk_bytes ?l) m = Some (ok, f2, m2)" and r2: "rep ?a1 f2"
    and room: "ok \<longrightarrow> unat (pic_ChunksLen f2) + unat (chunk_bytes ?l) \<le> length (pic_Chunks f2)"
    and mem: "m = [] \<longrightarrow> ok \<and> m2 = []"
    using grow_rep [OF r1 small] by blast
  have s: "rd_slice (pre @ enc c @ r) off (unat (chunk_bytes ?l)) = Some (enc c)"
    using rd_slice_mid [OF assms(3), of _ "enc c" r] le by simp
  have nin: "fst c \<notin> fst ` set ?cs" by (auto simp: cut_chunk_def)
  show ?thesis
  proof (cases ok)
    case False
    have "add_plain f (fst c) (pre @ enc c @ r) off m = Some (False, f2, m2)"
      using r rd g False by (simp add: add_plain_def)
    moreover have "built a (absorb (Ch c) a) False f2" using built_failI [OF r2] by simp
    ultimately show ?thesis using mem False by blast
  next
    case True
    then obtain b where w: "wr_bytes (pic_Chunks f2) (unat (pic_ChunksLen f2)) (enc c) = Some b" and
      r3: "rep (CForm (cf_id a) (?cs @ [c]) (cf_subs a)) (pic_with f2 b (pic_ChunksLen f2 + chunk_bytes ?l) (pic_BufferLen f2))"
      using store_rep [OF r2 assms(2) nin] room le by auto
    have "add_plain f (fst c) (pre @ enc c @ r) off m =
        Some (True, pic_with f2 b (pic_ChunksLen f2 + chunk_bytes ?l) (pic_BufferLen f2), m2)"
      using r rd g True s w by (simp add: add_plain_def)
    moreover have "built a (absorb (Ch c) a) True (pic_with f2 b (pic_ChunksLen f2 + chunk_bytes ?l) (pic_BufferLen f2))"
      using r3 by (intro builtI) (simp_all add: put_chunk_def cut_chunk_def)
    ultimately show ?thesis using mem by blast
  qed
qed

section \<open>Adding forms\<close>

lemma absorb_id [simp]: "cf_id (absorb it a) = cf_id a"
  by (cases it) simp_all

lemma absorb_area: "length (area (cf_chunks (absorb it a))) \<le> length (area (cf_chunks a)) + length (ser_item it)"
proof (cases it)
  case (Ch c)
  then show ?thesis using cut_area [of "fst c" "cf_chunks a"] by (simp add: put_chunk_def cut_chunk_def)
qed simp

lemma add_sub_rep: "rep a f \<Longrightarrow> rep s g \<Longrightarrow>
    rep (CForm (cf_id a) (cf_chunks a) (cf_subs a @ [s])) (pic_subs f (pic_SubForms f @ [g]))"
  by (cases a; cases f) (simp add: pic_subs_def list_all2_appendI)

lemma form_bytes_of:
  assumes "2 dvd n" "n < 2147483648" shows "unat (form_bytes (word_of_nat (4 + n))) = n"
proof -
  have "unat (word_of_nat (4 + n) :: u32) = 4 + n" using assms(2) by (subst unat_of_nat) simp
  then show ?thesis using assms(1) by (subst unat_form_bytes) auto
qed

lemma psdAllocVec_nil: "psdAllocVec m = (got, m') \<Longrightarrow> m = [] \<Longrightarrow> got \<and> m' = []"
  by (simp add: psdAllocVec_def)

text \<open>What \<open>n\<close> units of fuel are enough for: one item, a list of items.\<close>

definition reads_item :: "nat \<Rightarrow> bool" where
  "reads_item n \<longleftrightarrow> (\<forall>a f it off pre r m. rep a f \<longrightarrow> item_ok it \<longrightarrow> off = length pre \<longrightarrow>
     length (ser_item it) \<le> n \<longrightarrow> length (area (cf_chunks a)) + length (ser_item it) < 2147483648 \<longrightarrow>
     (\<exists>ok f' m'. pAddCfgChunk n f (pre @ ser_item it @ r) off m = Some (ok, f', m') \<and>
        built a (absorb it a) ok f' \<and> (m = [] \<longrightarrow> ok \<and> m' = [])))"

definition reads_items :: "nat \<Rightarrow> bool" where
  "reads_items n \<longleftrightarrow> (\<forall>a f its off pre r m len. rep a f \<longrightarrow> (\<forall>it \<in> set its. item_ok it) \<longrightarrow>
     off = length pre \<longrightarrow> length (ser its) < n \<longrightarrow>
     length (area (cf_chunks a)) + length (ser its) < 2147483648 \<longrightarrow> unat len = length (ser its) \<longrightarrow>
     (\<exists>len' f' m'. add_loop n f (pre @ ser its @ r) off len m = Some (len', f', m') \<and>
        built a (foldl (\<lambda>s it. absorb it s) a its) (len' = 0) f' \<and> (m = [] \<longrightarrow> len' = 0 \<and> m' = [])))"

lemmas reads_itemD = reads_item_def [THEN iffD1, rule_format]
lemmas reads_itemsD = reads_items_def [THEN iffD1, rule_format]

lemma Fm_header:
  assumes "off = length pre" and b: "b = pre @ ser_item (Fm i its) @ r" and l: "l = word_of_nat (4 + length (ser its))"
  shows "rd32 b off = Some ID_FORM" "rd32 b (off + 4) = Some l" "rd32 b (off + 8) = Some i"
    and "b = (pre @ be32 ID_FORM @ be32 l @ be32 i) @ ser its @ r"
  using rd32_mid [OF assms(1), of ID_FORM "be32 l @ be32 i @ ser its @ r"]
    rd32_mid [of "off + 4" "pre @ be32 ID_FORM" l "be32 i @ ser its @ r"]
    rd32_mid [of "off + 8" "pre @ be32 ID_FORM @ be32 l" i "ser its @ r"] assms(1)
  unfolding b l by (simp_all add: ser_item_Fm)

lemma read_form:
  assumes loop: "reads_items n" and r: "rep a f" and its: "\<forall>it \<in> set its. item_ok it"
    and off: "off = length pre" and n: "length (ser_item (Fm i its)) \<le> Suc n"
    and small: "length (ser_item (Fm i its)) < 2147483648"
  shows "\<exists>ok f' m'. pAddCfgChunk (Suc n) f (pre @ ser_item (Fm i its) @ r') off m = Some (ok, f', m') \<and>
    built a (absorb (Fm i its) a) ok f' \<and> (m = [] \<longrightarrow> ok \<and> m' = [])"
proof -
  let ?l = "word_of_nat (4 + length (ser its)) :: u32"
  define b where "b = pre @ ser_item (Fm i its) @ r'"
  note rd = Fm_header [OF off b_def refl]
  have sz: "length (ser_item (Fm i its)) = 12 + length (ser its)" by (simp add: ser_item_Fm)
  have fb: "unat (form_bytes ?l) = length (ser its)" using form_bytes_of [OF ser_dvd [OF its]] small sz by simp
  obtain got m1 where al: "psdAllocVec m = (got, m1)" by fastforce
  show ?thesis
  proof (cases got)
    case False
    have "pAddCfgChunk (Suc n) f b off m = Some (False, f, m1)" using rd(1-3) al False by simp
    moreover have "built a (absorb (Fm i its) a) False f" using built_failI [OF r] by simp
    ultimately show ?thesis using psdAllocVec_nil [OF al] False unfolding b_def by blast
  next
    case True
    let ?pre = "pre @ be32 ID_FORM @ be32 ?l @ be32 i"
    have "off + 12 = length ?pre" "length (ser its) < n"
      "length (area (cf_chunks (CForm i [] []))) + length (ser its) < 2147483648"
      using off n small sz by simp_all
    from reads_itemsD [OF loop rep_new _ this fb, of r' m1] its
    obtain len' g m2 where lp: "add_loop n (new_form i) b (off + 12) (form_bytes ?l) m1 = Some (len', g, m2)"
      and bg: "built (CForm i [] []) (contents i its) (len' = 0) g" and mm: "m1 = [] \<longrightarrow> len' = 0 \<and> m2 = []"
      unfolding rd(4) contents_def by auto
    let ?f = "pic_subs f (pic_SubForms f @ [g])"
    have e: "pAddCfgChunk (Suc n) f b off m = Some (len' = 0, ?f, m2)" using rd(1-3) al True lp by simp
    obtain s where s: "rep s g" "len' = 0 \<longrightarrow> s = contents i its" using bg by (auto simp: built_def pic_ok_def)
    note r2 = add_sub_rep [OF r s(1)]
    have "built a (absorb (Fm i its) a) (len' = 0) ?f"
      using builtI [OF r2] built_failI [OF r2] s(2) by (cases "len' = 0") (simp_all only: absorb_Fm cform.sel simp_thms)
    then show ?thesis using e mm psdAllocVec_nil [OF al] unfolding b_def by blast
  qed
qed

lemma read_item: "reads_items n \<Longrightarrow> reads_item (Suc n)"
  unfolding reads_item_def
proof (intro allI impI)
  fix a f it off pre r m
  assume loop: "reads_items n" and r: "rep a f" and ok: "item_ok it" and off: "off = length (pre :: bytes)"
    and n: "length (ser_item it) \<le> Suc n" and small: "length (area (cf_chunks a)) + length (ser_item it) < 2147483648"
  show "\<exists>ok f' m'. pAddCfgChunk (Suc n) f (pre @ ser_item it @ r) off m = Some (ok, f', m') \<and>
      built a (absorb it a) ok f' \<and> (m = [] \<longrightarrow> ok \<and> m' = [])"
  proof (cases it)
    case (Ch c)
    have ni: "fst c \<noteq> ID_FORM" using ok Ch by (cases c) (simp add: chunk_ok_def)
    have e: "pAddCfgChunk (Suc n) f (pre @ ser_item it @ r) off m = add_plain f (fst c) (pre @ enc c @ r) off m"
      using rd32_enc [OF off, of c r] ni by (simp add: Ch)
    show ?thesis unfolding e using add_plain_rep [OF r _ off] ok small Ch by simp
  next
    case (Fm i its)
    then show ?thesis using read_form [OF loop r _ off, of its i r m] ok n small by simp
  qed
qed

lemma read_items:
  assumes item: "reads_item n" and loop: "reads_items n" shows "reads_items (Suc n)"
  unfolding reads_items_def
proof (intro allI impI)
  fix a f its off pre r m and len :: u32
  assume rp: "rep a f" and ok: "\<forall>it \<in> set its. item_ok it" and off: "off = length (pre :: bytes)"
    and n: "length (ser its) < Suc n" and small: "length (area (cf_chunks a)) + length (ser its) < 2147483648"
    and len: "unat len = length (ser its)"
  show "\<exists>len' f' m'. add_loop (Suc n) f (pre @ ser its @ r) off len m = Some (len', f', m') \<and>
      built a (foldl (\<lambda>s it. absorb it s) a its) (len' = 0) f' \<and> (m = [] \<longrightarrow> len' = 0 \<and> m' = [])"
  proof (cases its)
    case Nil
    then have "len = 0" using len by (simp add: unat_eq_0)
    then have "add_loop (Suc n) f (pre @ ser its @ r) off len m = Some (0, f, m)" by (simp add: sle_unat)
    moreover have "built a a True f" using builtI [OF rp] by simp
    ultimately show ?thesis using Nil by auto
  next
    case (Cons it its')
    have iok: "item_ok it" and isok: "\<forall>it \<in> set its'. item_ok it" using ok Cons by simp_all
    have ge: "8 \<le> length (ser_item it)" by (rule ser_item_ge)
    have big: "8 \<le>s len" using small len Cons ge by (simp add: sle_unat)
    let ?b = "pre @ ser its @ r"
    have b: "?b = pre @ ser_item it @ (ser its' @ r)" by (simp add: Cons)
    obtain good f1 m1 where h: "pAddCfgChunk n f ?b off m = Some (good, f1, m1)"
        "built a (absorb it a) good f1" "m = [] \<longrightarrow> good \<and> m1 = []"
      using reads_itemD [OF item rp iok off, of "ser its' @ r" m] n small Cons unfolding b by auto
    obtain w l where hd: "rd32 ?b (off + 4) = Some l" "unat (chunk_bytes l) = length (ser_item it)"
      using ser_item_header [OF off _ iok, of "ser its' @ r"] small Cons unfolding b by auto
    show ?thesis
    proof (cases good)
      case False
      have "len \<noteq> 0" using len Cons ge by auto
      moreover have "add_loop (Suc n) f ?b off len m = Some (len, f1, m1)" using big h(1) False by simp
      moreover have "built a (foldl (\<lambda>s it. absorb it s) a its) False f1" using h(2) by (simp add: built_def)
      ultimately show ?thesis using h(3) False by auto
    next
      case True
      have u: "unat (len - chunk_bytes l) = length (ser its')"
        using hd(2) len Cons by (subst unat_sub) (simp_all add: word_le_nat_alt)
      have r1: "rep (absorb it a) f1" using h(2) True by (simp add: built_def)
      obtain len' f' m' where
        lp: "add_loop n f1 ?b (off + length (ser_item it)) (len - chunk_bytes l) m1 = Some (len', f', m')"
        "built (absorb it a) (foldl (\<lambda>s it. absorb it s) (absorb it a) its') (len' = 0) f'"
        "m1 = [] \<longrightarrow> len' = 0 \<and> m' = []"
        using reads_itemsD [OF loop r1, of its' "off + length (ser_item it)" "pre @ ser_item it" "len - chunk_bytes l" r m1]
          isok off n small Cons ge u absorb_area [of it a] unfolding b by auto
      have "add_loop (Suc n) f ?b off len m = Some (len', f', m')" using big h(1) True hd lp(1) by simp
      moreover have "built a (foldl (\<lambda>s it. absorb it s) a its) (len' = 0) f'" using lp(2) Cons by (simp add: built_def)
      ultimately show ?thesis using lp(3) h(3) by blast
    qed
  qed
qed

lemma reads_all: "reads_item n \<and> reads_items n"
proof (induction n)
  case 0
  have "ser_item it \<noteq> []" for it using ser_item_ge [of it] by auto
  then show ?case by (simp add: reads_item_def reads_items_def)
next
  case (Suc n)
  then show ?case using read_item read_items by blast
qed

lemmas pAddCfgChunk_item = reads_itemD [OF reads_all [THEN conjunct1]]
lemmas add_loop_items = reads_itemsD [OF reads_all [THEN conjunct2]]

declare pAddCfgChunk.simps [simp del] add_loop.simps [simp del]

end
