(* ===== verification/Cfg_Write.thy ===== *)
theory Cfg_Write
  imports Cfg_Parse
begin

text \<open>Measuring and writing a form, reading a form back, and the checksum.\<close>

section \<open>The items of a tree\<close>

fun items_of :: "cform \<Rightarrow> item list" where
  "items_of (CForm i cs fs) = map Ch cs @ map (\<lambda>f. Fm (cf_id f) (items_of f)) fs"

definition form_item :: "cform \<Rightarrow> item" where
  "form_item a = Fm (cf_id a) (items_of a)"

definition form_image :: "cform \<Rightarrow> bytes" where
  "form_image a = ser_item (form_item a)"

fun cform_ok :: "cform \<Rightarrow> bool" where
  "cform_ok (CForm i cs fs) \<longleftrightarrow> (\<forall>c \<in> set cs. chunk_ok c) \<and> distinct (map fst cs) \<and> (\<forall>f \<in> set fs. cform_ok f)"

lemma rep_cform_ok: "rep a f \<Longrightarrow> cform_ok a"
proof (induction a f rule: rep.induct)
  case (1 i cs fs j fl b cl bl ss)
  have "cform_ok f" if f: "f \<in> set fs" for f
  proof -
    obtain k where k: "k < length fs" "f = fs ! k" using f by (auto simp: in_set_conv_nth)
    then have "rep f (ss ! k)" "ss ! k \<in> set ss" using 1(2) by (auto simp: list_all2_conv_all_nth)
    then show ?thesis using 1(1) f by blast
  qed
  then show ?case using 1(2) by auto
qed

lemma items_of_ok: "cform_ok a \<Longrightarrow> \<forall>it \<in> set (items_of a). item_ok it"
  by (induction a rule: cform_ok.induct) auto

lemma absorb_chunks:
  "distinct (map fst (cs @ ds)) \<Longrightarrow>
   foldl (\<lambda>s it. absorb it s) (CForm i cs fs) (map Ch ds) = CForm i (cs @ ds) fs"
proof (induction ds arbitrary: cs)
  case (Cons d ds)
  then have "filter (\<lambda>c. fst c \<noteq> fst d) cs = cs" by (auto intro!: filter_True simp: image_iff)
  then have "put_chunk d cs = cs @ [d]" by (simp add: put_chunk_def)
  then show ?case using Cons by simp
qed simp

lemma absorb_forms:
  "\<forall>f \<in> set gs. contents (cf_id f) (items_of f) = f \<Longrightarrow>
   foldl (\<lambda>s it. absorb it s) (CForm i cs fs) (map (\<lambda>f. Fm (cf_id f) (items_of f)) gs) = CForm i cs (fs @ gs)"
  by (induction gs arbitrary: fs) (simp_all only: list.map foldl_Nil foldl_Cons absorb_Fm cform.sel, simp_all)

lemma contents_items: "cform_ok a \<Longrightarrow> contents (cf_id a) (items_of a) = a"
proof (induction a rule: cform_ok.induct)
  case (1 i cs fs)
  then have d: "distinct (map fst ([] @ cs))" and f: "\<forall>f \<in> set fs. contents (cf_id f) (items_of f) = f" by auto
  show ?case unfolding contents_def items_of.simps foldl_append cform.sel
    absorb_chunks [OF d] absorb_forms [OF f] by simp
qed

lemma form_image_def2: "form_image a = be32 ID_FORM @ be32 (word_of_nat (4 + length (ser (items_of a)))) @
    be32 (cf_id a) @ ser (items_of a)"
  by (simp add: form_image_def form_item_def ser_item_Fm)

lemma ser_chunks: "ser (map Ch cs) = area cs"
  by (induction cs) simp_all

definition images :: "cform list \<Rightarrow> bytes" where
  "images fs = concat (map form_image fs)"

lemma ser_items_of: "ser (items_of (CForm i cs fs)) = area cs @ images fs"
proof -
  have "ser (map (\<lambda>f. Fm (cf_id f) (items_of f)) fs) = images fs"
    by (induction fs) (simp_all add: images_def form_image_def form_item_def)
  then show ?thesis by (simp add: ser_chunks)
qed

section \<open>Measuring\<close>

fun sized :: "cform \<Rightarrow> psdIFFContext \<Rightarrow> bool" where
  "sized (CForm i cs fs) (Pic j fl b cl bl ss) \<longleftrightarrow>
     unat fl = 4 + length (area cs) + length (images fs) \<and> list_all2 sized fs ss"

lemma length_image: "length (form_image a) = 12 + length (area (cf_chunks a)) + length (images (cf_subs a))"
  by (cases a) (simp add: form_image_def2 ser_items_of del: items_of.simps)

lemma head_len:
  assumes "unat (cl :: u32) = length (area cs)" "\<forall>c \<in> set cs. chunk_ok c" "length (area cs) + 4 < 4294967296"
  shows "unat ((5 + cl) AND NOT 1) = 4 + length (area cs)"
proof -
  have "unat (5 + cl) = 5 + length (area cs)"
  proof (cases "length (area cs) + 5 < 4294967296")
    case True then show ?thesis using assms(1) by (simp add: unat_word_ariths)
  next
    case False
    then have "length (area cs) = 4294967291" using assms(3) by simp
    then show ?thesis using area_dvd [OF assms(2)] by simp
  qed
  then show ?thesis using area_dvd [OF assms(2)] unfolding unat_and_not_1 by auto
qed

lemma measure_rep:
  shows "rep a f \<Longrightarrow> length (form_image a) < 4294967296 \<Longrightarrow>
      \<exists>f'. pGetFormLength f = (word_of_nat (length (form_image a)), f') \<and> rep a f' \<and> sized a f'"
    and "list_all2 rep as ss \<Longrightarrow> unat len + length (images as) < 4294967296 \<Longrightarrow>
      \<exists>ss'. form_lengths len ss = (len + word_of_nat (length (images as)), ss') \<and> list_all2 rep as ss' \<and>
        list_all2 sized as ss'"
proof (induction f and len ss arbitrary: a and as rule: pGetFormLength_form_lengths.induct)
  case (1 i l c cl bl ss)
  obtain cs fs where a: "a = CForm i cs fs" using 1(2) by (cases a) simp
  have r: "list_all2 rep fs ss" "unat cl = length (area cs)" "\<forall>c \<in> set cs. chunk_ok c" using 1(2) by (auto simp: a)
  have sz: "12 + length (area cs) + length (images fs) < 4294967296" using 1(3) by (simp add: a length_image)
  have h: "unat ((5 + cl) AND NOT 1) = 4 + length (area cs)" using head_len [OF r(2,3)] sz by simp
  obtain ss' where m: "form_lengths ((5 + cl) AND NOT 1) ss = (((5 + cl) AND NOT 1) + word_of_nat (length (images fs)), ss')"
      "list_all2 rep fs ss'" "list_all2 sized fs ss'"
    using 1(1) [OF r(1)] h sz by auto
  let ?len = "((5 + cl) AND NOT 1) + word_of_nat (length (images fs)) :: u32"
  have u: "unat ?len = 4 + length (area cs) + length (images fs)"
    using h sz by (simp only: unat_word_ariths unat_of_nat) simp
  have "?len + 8 = word_of_nat (unat ?len + 8)" by simp
  also have "\<dots> = word_of_nat (length (form_image a))" unfolding u length_image a by (simp add: algebra_simps)
  finally have "pGetFormLength (Pic i l c cl bl ss) = (word_of_nat (length (form_image a)), Pic i ?len c cl bl ss')"
    using m(1) by simp
  moreover have "rep a (Pic i ?len c cl bl ss')" using 1(2) m(2) by (simp add: a)
  moreover have "sized a (Pic i ?len c cl bl ss')" using m(3) u by (simp add: a)
  ultimately show ?case by blast
next
  case (2 len)
  then show ?case by (simp add: images_def)
next
  case (3 len s ss)
  obtain x xs where as: "as = x # xs" "rep x s" "list_all2 rep xs ss" using 3(3) by (cases as) auto
  have im: "length (images as) = length (form_image x) + length (images xs)" by (simp add: as images_def)
  obtain s' where s: "pGetFormLength s = (word_of_nat (length (form_image x)), s')" "rep x s'" "sized x s'"
    using 3(1) [OF as(2)] 3(4) im by auto
  let ?n = "word_of_nat (length (form_image x)) :: u32"
  have "unat (len + ?n) = unat len + length (form_image x)"
    using 3(4) im by (simp only: unat_word_ariths unat_of_nat) simp
  then obtain ss' where t: "form_lengths (len + ?n) ss = (len + ?n + word_of_nat (length (images xs)), ss')"
      "list_all2 rep xs ss'" "list_all2 sized xs ss'"
    using 3(2) [OF s(1) [symmetric] refl as(3)] 3(4) im by (auto simp: s(1))
  then show ?case using s t by (auto simp: as(1) images_def algebra_simps)
qed

section \<open>Writing\<close>

lemma wr_at:
  assumes "length d \<le> length x" "off = length pre"
  shows "wr_bytes (pre @ x @ r) off d = Some ((pre @ d) @ drop (length d) x @ r)"
  using assms by (simp add: wr_bytes_def)

lemma write_rep:
  shows "rep a f \<Longrightarrow> sized a f \<Longrightarrow> length (form_image a) < 4294967296 \<Longrightarrow> length x = length (form_image a) \<Longrightarrow>
      off = length pre \<Longrightarrow> buf = pre @ x @ r \<Longrightarrow>
      pInternalWriteForm f buf off = Some (pre @ form_image a @ r, off + length (form_image a))"
    and "list_all2 rep as ss \<Longrightarrow> list_all2 sized as ss \<Longrightarrow> length (images as) < 4294967296 \<Longrightarrow>
      length x = length (images as) \<Longrightarrow> off = length pre \<Longrightarrow> buf = pre @ x @ r \<Longrightarrow>
      write_forms ss buf off = Some (pre @ images as @ r, off + length (images as))"
proof (induction f "buf :: bytes" off and ss "buf :: bytes" off arbitrary: a x pre r and as x pre r
    rule: pInternalWriteForm_write_forms.induct)
  case (1 i l c cl bl ss buf off)
  obtain cs fs where a: "a = CForm i cs fs" using 1(2) by (cases a) simp
  obtain junk where r: "list_all2 rep fs ss" "unat cl = length (area cs)" "c = area cs @ junk"
    and sz: "unat l = 4 + length (area cs) + length (images fs)" "list_all2 sized fs ss"
    using 1(2,3) by (auto simp: a)
  have len: "length x = 12 + length (area cs) + length (images fs)" using 1(5) by (simp add: a length_image)
  let ?y = "drop (12 + length (area cs)) x"
  let ?h = "be32 ID_FORM @ be32 l @ be32 i @ area cs"
  have w1: "wr_bytes buf off (be32 ID_FORM) = Some ((pre @ be32 ID_FORM) @ drop 4 x @ r)"
    using wr_at [of "be32 ID_FORM" x off pre r] len 1(6,7) by simp
  have w2: "wr_bytes ((pre @ be32 ID_FORM) @ drop 4 x @ r) (off + 4) (be32 l) =
      Some ((pre @ be32 ID_FORM @ be32 l) @ drop 8 x @ r)"
    using wr_at [of "be32 l" "drop 4 x" "off + 4" "pre @ be32 ID_FORM" r] len 1(6) by simp
  have w3: "wr_bytes ((pre @ be32 ID_FORM @ be32 l) @ drop 8 x @ r) (off + 8) (be32 i) =
      Some ((pre @ be32 ID_FORM @ be32 l @ be32 i) @ drop 12 x @ r)"
    using wr_at [of "be32 i" "drop 8 x" "off + 8" "pre @ be32 ID_FORM @ be32 l" r] len 1(6) by simp
  have s: "rd_slice c 0 (unat cl) = Some (area cs)" using r by (simp add: rd_slice_def)
  have w4: "wr_bytes ((pre @ be32 ID_FORM @ be32 l @ be32 i) @ drop 12 x @ r) (off + 12) (area cs) =
      Some ((pre @ ?h) @ ?y @ r)"
    using wr_at [of "area cs" "drop 12 x" "off + 12" "pre @ be32 ID_FORM @ be32 l @ be32 i" r] len 1(6)
    by (simp add: add.commute)
  have "write_forms ss ((pre @ ?h) @ ?y @ r) (off + 12 + unat cl) =
      Some ((pre @ ?h) @ images fs @ r, off + 12 + unat cl + length (images fs))"
    using 1(1) [OF w1 w2 w3 s w4 r(1) sz(2), of ?y "pre @ ?h" r] 1(4,6) len r(2) by (simp add: a length_image)
  moreover have "word_of_nat (unat l) = (word_of_nat (4 + length (ser (items_of a))) :: u32)"
    unfolding sz(1) a ser_items_of by (simp only: length_append add.assoc)
  then have "form_image a = ?h @ images fs" by (simp add: form_image_def2 ser_items_of a del: items_of.simps)
  ultimately show ?case using w1 w2 w3 s w4 r(2) by (simp add: length_image a)
next
  case (2 buf off)
  then show ?case by (simp add: images_def)
next
  case (3 s ss buf off)
  obtain y ys where as: "as = y # ys" "rep y s" "list_all2 rep ys ss" "sized y s" "list_all2 sized ys ss"
    using 3(3,4) by (cases as) auto
  have im: "images as = form_image y @ images ys" by (simp add: as images_def)
  let ?n = "length (form_image y)"
  have x: "x = take ?n x @ drop ?n x" by simp
  have "pInternalWriteForm s buf off = Some (pre @ form_image y @ drop ?n x @ r, off + ?n)"
    using 3(1) [OF as(2,4), of "take ?n x" pre "drop ?n x @ r"] 3(5-8) im by simp
  moreover have "write_forms ss (pre @ form_image y @ drop ?n x @ r) (off + ?n) =
      Some ((pre @ form_image y) @ images ys @ r, off + ?n + length (images ys))"
    using 3(2) [OF calculation refl as(3,5), of "drop ?n x" "pre @ form_image y" r] 3(5-8) im by simp
  ultimately show ?case by (simp add: im)
qed

end
