(* ===== verification/Cfg_Strings.thy ===== *)
theory Cfg_Strings
  imports Cfg_Write
begin

text \<open>
  The string chunks of a form, and its checksum, as functions of the tree: adding, matching and
  copying a string chunk is updating and looking up the string kept under the chunk's id.
\<close>

section \<open>Looking up a chunk\<close>

definition chunk_at :: "chunk list \<Rightarrow> u32 \<Rightarrow> chunk option" where
  "chunk_at cs cid = List.find (\<lambda>c. fst c = cid) cs"

definition c_str :: "bytes \<Rightarrow> bytes" where
  "c_str = takeWhile (\<lambda>c. c \<noteq> 0)"

definition str_at :: "chunk list \<Rightarrow> u32 \<Rightarrow> bytes option" where
  "str_at cs cid = map_option (\<lambda>c. c_str (take (unat (fst (snd c))) (snd (snd c)))) (chunk_at cs cid)"

lemma chunk_at_None: "chunk_at cs cid = None \<longleftrightarrow> cid \<notin> fst ` set cs"
  by (force simp: chunk_at_def find_None_iff)

lemma chunk_at_Some:
  "chunk_at cs cid = Some c \<Longrightarrow> \<exists>xs ys. cs = xs @ c # ys \<and> fst c = cid \<and> takeWhile (\<lambda>c. fst c \<noteq> cid) cs = xs"
proof (induction cs)
  case (Cons d cs)
  show ?case
  proof (cases "fst d = cid")
    case True
    then show ?thesis using Cons.prems by (intro exI [of _ "[]"] exI [of _ cs]) (simp add: chunk_at_def)
  next
    case False
    then obtain xs ys where "cs = xs @ c # ys" "fst c = cid" "takeWhile (\<lambda>c. fst c \<noteq> cid) cs = xs"
      using Cons by (auto simp: chunk_at_def)
    then show ?thesis using False by (intro exI [of _ "d # xs"] exI [of _ ys]) simp
  qed
qed (simp add: chunk_at_def)

lemma chunk_at_put: "chunk_at (put_chunk c cs) cid = (if cid = fst c then Some c else chunk_at cs cid)"
  by (induction cs) (auto simp: chunk_at_def put_chunk_def)

lemma chunk_at_cut: "chunk_at (cut_chunk d cs) cid = (if cid = d then None else chunk_at cs cid)"
  by (induction cs) (auto simp: chunk_at_def cut_chunk_def)

text \<open>Where a chunk lies in the buffer of a form.\<close>

lemma find_rep_None: "rep a f \<Longrightarrow> chunk_at (cf_chunks a) cid = None \<Longrightarrow> pFindCfgChunk f cid = Some None"
  by (simp add: pFindCfgChunk_rep chunk_at_None)

lemma find_rep_Some:
  assumes "rep a f" and "chunk_at (cf_chunks a) cid = Some c"
  shows "\<exists>pre r. pic_Chunks f = pre @ enc c @ r \<and> pFindCfgChunk f cid = Some (Some (length pre)) \<and>
    fst c = cid \<and> chunk_ok c"
proof -
  obtain xs ys where s: "cf_chunks a = xs @ c # ys" "fst c = cid" "takeWhile (\<lambda>c. fst c \<noteq> cid) (cf_chunks a) = xs"
    using chunk_at_Some [OF assms(2)] by blast
  have "cid \<in> fst ` set (cf_chunks a)" using s by auto
  then have "pFindCfgChunk f cid = Some (Some (length (area xs)))"
    using pFindCfgChunk_rep [OF assms(1), of cid] s(3) by simp
  moreover obtain junk where "pic_Chunks f = area (cf_chunks a) @ junk" "\<forall>c \<in> set (cf_chunks a). chunk_ok c"
    using assms(1) by (elim rep_cases) auto
  ultimately show ?thesis using s by (intro exI [of _ "area xs"] exI [of _ "area ys @ junk"]) simp
qed

lemma enc_parts:
  assumes "chunk_ok c"
  shows "enc c = be32 (fst c) @ be32 (fst (snd c)) @ snd (snd c)"
    and "unat (fst (snd c)) \<le> length (snd (snd c))"
  using assms even_up_ge [of "unat (fst (snd c))"] by (cases c; simp add: enc_def chunk_ok_def)+

section \<open>Matching and copying a string\<close>

lemma match_loop_ok:
  "off + len \<le> length b \<Longrightarrow> 0 \<notin> set str \<Longrightarrow>
   match_loop b off len str = Some (c_str (take len (drop off b)) = str)"
proof (induction len arbitrary: off str)
  case (Suc len)
  have d: "drop off b = b ! off # drop (off + 1) b" using Suc.prems(1) by (simp add: Cons_nth_drop_Suc)
  have r: "rd8 b off = Some (b ! off)" using Suc.prems(1) by (simp add: rd_simps)
  show ?case
  proof (cases "b ! off = 0")
    case True
    then show ?thesis using r d by (auto simp: c_str_def)
  next
    case False
    show ?thesis
    proof (cases str)
      case Nil
      then show ?thesis using False r d by (simp add: c_str_def)
    next
      case (Cons x str')
      then show ?thesis using False r d Suc.IH [of "off + 1" str'] Suc.prems
        by (auto simp: c_str_def)
    qed
  qed
qed (auto simp: c_str_def)

lemma pMatchStringChunk_rep:
  assumes "rep a f" and "0 \<notin> set str"
  shows "pMatchStringChunk f cid str = Some (str_at (cf_chunks a) cid = Some str)"
proof (cases "chunk_at (cf_chunks a) cid")
  case None
  then show ?thesis using find_rep_None [OF assms(1) None] by (simp add: pMatchStringChunk_def str_at_def)
next
  case (Some c)
  obtain pre r where b: "pic_Chunks f = pre @ enc c @ r" and
    o: "pFindCfgChunk f cid = Some (Some (length pre))" and ok: "chunk_ok c"
    using find_rep_Some [OF assms(1) Some] by blast
  have "pic_Chunks f = (pre @ be32 (fst c) @ be32 (fst (snd c))) @ snd (snd c) @ r"
    using enc_parts [OF ok] b by simp
  then have "take (unat (fst (snd c))) (drop (length pre + 8) (pic_Chunks f)) = take (unat (fst (snd c))) (snd (snd c))"
    and "length pre + 8 + unat (fst (snd c)) \<le> length (pic_Chunks f)"
    using enc_parts(2) [OF ok] by simp_all
  then show ?thesis using o rd32_enc(2) [OF refl, of pre c r] match_loop_ok [OF _ assms(2)] b Some
    by (simp add: pMatchStringChunk_def str_at_def)
qed

lemma pGetStringChunk_rep:
  assumes "rep a f"
  shows "pGetStringChunk f cid [] = Some (str_at (cf_chunks a) cid, [])"
proof (cases "chunk_at (cf_chunks a) cid")
  case None
  then show ?thesis using find_rep_None [OF assms None] by (simp add: pGetStringChunk_def str_at_def)
next
  case (Some c)
  obtain pre r where b: "pic_Chunks f = pre @ enc c @ r" and
    o: "pFindCfgChunk f cid = Some (Some (length pre))" and ok: "chunk_ok c"
    using find_rep_Some [OF assms Some] by blast
  have "pic_Chunks f = (pre @ be32 (fst c) @ be32 (fst (snd c))) @ snd (snd c) @ r"
    using enc_parts [OF ok] b by simp
  then have "rd_slice (pic_Chunks f) (length pre + 8) (unat (fst (snd c))) = Some (take (unat (fst (snd c))) (snd (snd c)))"
    using enc_parts(2) [OF ok] by (simp add: rd_slice_def)
  moreover have "takeWhile P (d @ [0]) = takeWhile P d" if "\<not> P 0" for P and d :: bytes
    using that by (induction d) simp_all
  ultimately show ?thesis using o rd32_enc(2) [OF refl, of pre c r] b Some
    by (simp add: pGetStringChunk_def str_at_def c_str_def psdAllocVec_def)
qed

section \<open>Adding a string\<close>

definition str_chunk :: "u32 \<Rightarrow> bytes \<Rightarrow> chunk" where
  "str_chunk cid s = (cid, word_of_nat (length s + 1), s @ replicate (even_up (length s + 1) - length s) 0)"

definition str_ok :: "bytes \<Rightarrow> bool" where
  "str_ok s \<longleftrightarrow> 0 \<notin> set s \<and> length s < 65536"

lemma unat_len1: "length s < 65536 \<Longrightarrow> unat (word_of_nat (length s + 1) :: u32) = length s + 1"
  by (subst unat_of_nat) simp

lemma str_chunk_ok: "cid \<noteq> ID_FORM \<Longrightarrow> length s < 65536 \<Longrightarrow> chunk_ok (str_chunk cid s)"
  using even_up_ge [of "length s + 1"] unat_len1 [of s]
  by (simp add: str_chunk_def chunk_ok_def del: of_nat_add of_nat_Suc)

lemma str_at_put: "str_ok s \<Longrightarrow>
    str_at (put_chunk (str_chunk i s) cs) cid = (if cid = i then Some s else str_at cs cid)"
proof -
  assume s: "str_ok s"
  have u: "unat (word_of_nat (length s + 1) :: u32) = length s + 1" using s by (intro unat_len1) (simp add: str_ok_def)
  have "even_up (length s + 1) - length s \<noteq> 0" using even_up_ge [of "length s + 1"] by simp
  then obtain k where k: "even_up (length s + 1) - length s = Suc k" by (cases "even_up (length s + 1) - length s") auto
  have "c_str (take (length s + 1) (s @ replicate (even_up (length s + 1) - length s) 0)) = s"
    using s by (auto simp: k c_str_def str_ok_def takeWhile_append)
  then have "map_option (\<lambda>c. c_str (take (unat (fst (snd c))) (snd (snd c)))) (Some (str_chunk i s)) = Some s"
    by (simp only: str_chunk_def option.map fst_conv snd_conv u)
  moreover have "fst (str_chunk i s) = i" by (simp add: str_chunk_def)
  ultimately show ?thesis unfolding str_at_def chunk_at_put by simp
qed

lemma str_at_cut: "str_at (cut_chunk d cs) cid = (if cid = d then None else str_at cs cid)"
  by (simp add: str_at_def chunk_at_cut)

lemma length_str_chunk: "length s < 65536 \<Longrightarrow> length (enc (str_chunk cid s)) \<le> length s + 10"
  using even_up_ge [of "length s + 1"] by (simp add: str_chunk_def enc_def)

lemma string_buffer:
  assumes "length s < 65536"
  defines "z \<equiv> replicate (unat ((word_of_nat (length s) :: u32) + 8 + 2)) (0 :: u8)"
  shows "\<exists>b1 b2 r. wr_bytes z 0 (be32 cid) = Some b1 \<and>
    wr_bytes b1 4 (be32 (word_of_nat (length s) + 1)) = Some b2 \<and>
    wr_bytes b2 8 (s @ [0]) = Some (enc (str_chunk cid s) @ r)"
proof -
  have u: "unat ((word_of_nat (length s) :: u32) + 8 + 2) = length s + 10"
    using assms(1) by (simp only: unat_word_ariths unat_of_nat) simp
  have z: "z = replicate (length s + 10) 0" unfolding z_def u ..
  let ?l = "word_of_nat (length s) + 1 :: u32" and ?k = "even_up (length s + 1) - (length s + 1)"
  have w1: "wr_bytes z 0 (be32 cid) = Some (be32 cid @ replicate (length s + 6) 0)" by (simp add: z wr_bytes_def)
  have w2: "wr_bytes (be32 cid @ replicate (length s + 6) 0) 4 (be32 ?l) = Some ((be32 cid @ be32 ?l) @ replicate (length s + 2) 0)"
    by (simp add: wr_bytes_def)
  have w3: "wr_bytes ((be32 cid @ be32 ?l) @ replicate (length s + 2) 0) 8 (s @ [0]) =
      Some (be32 cid @ be32 ?l @ s @ [0] @ replicate 1 0)"
    unfolding replicate_add by (simp add: wr_bytes_def drop_append)
  have k: "even_up (length s + 1) - length s = Suc ?k" "?k \<le> 1" using even_up_ge [of "length s + 1"] by simp_all
  have "[0] @ replicate 1 0 = replicate (Suc ?k + (1 - ?k)) (0 :: u8)" using k(2) by (simp add: numeral_2_eq_2)
  then have "[0] @ replicate 1 0 = replicate (even_up (length s + 1) - length s) 0 @ replicate (1 - ?k) (0 :: u8)"
    unfolding k(1) replicate_add .
  then have "be32 cid @ be32 ?l @ s @ [0] @ replicate 1 0 = enc (str_chunk cid s) @ replicate (1 - ?k) 0"
    by (simp add: str_chunk_def enc_def add.commute)
  then show ?thesis using w1 w2 w3 by fastforce
qed

lemma pAddStringChunk_rep:
  assumes "rep a f" and "cid \<noteq> ID_FORM" and "length s < 65536"
    and "length (area (cf_chunks a)) + length s + 10 < 2147483648"
  shows "\<exists>ok f' m'. pAddStringChunk f cid s m = Some (ok, f', m') \<and>
    built a (CForm (cf_id a) (put_chunk (str_chunk cid s) (cf_chunks a)) (cf_subs a)) ok f' \<and> (m = [] \<longrightarrow> ok \<and> m' = [])"
proof -
  let ?c = "str_chunk cid s"
  obtain got m1 where al: "psdAllocVec m = (got, m1)" by fastforce
  show ?thesis
  proof (cases got)
    case False
    have "pAddStringChunk f cid s m = Some (False, f, m1)" using al False by (simp add: pAddStringChunk_def)
    moreover have "built a t False f" for t using assms(1) rep_id [OF assms(1)] by (auto simp: built_def intro: pic_okI)
    ultimately show ?thesis using psdAllocVec_nil [OF al] False by blast
  next
    case True
    obtain b1 b2 r where w: "wr_bytes (replicate (unat ((word_of_nat (length s) :: u32) + 8 + 2)) (0 :: u8)) 0 (be32 cid) = Some b1"
      "wr_bytes b1 4 (be32 (word_of_nat (length s) + 1)) = Some b2"
      "wr_bytes b2 8 (s @ [0]) = Some (enc ?c @ r)"
      using string_buffer [OF assms(3), of cid] by blast
    have e: "pAddStringChunk f cid s m = pAddCfgChunk (cfg_fuel (enc ?c @ r)) f ([] @ ser_item (Ch ?c) @ r) 0 m1"
      using al True w by (simp add: pAddStringChunk_def Let_def)
    have "item_ok (Ch ?c)" using str_chunk_ok [OF assms(2,3)] by simp
    from pAddCfgChunk_item [OF assms(1) this, of 0 "[]" "cfg_fuel (enc ?c @ r)" r m1] psdAllocVec_nil [OF al]
    show ?thesis unfolding e using assms(4) length_str_chunk [OF assms(3), of cid]
      by (auto simp: cfg_fuel_def)
  qed
qed

section \<open>The checksum\<close>

fun crc_tree :: "cform \<Rightarrow> u32" where
  "crc_tree (CForm i cs fs) = foldl (\<lambda>c f. c XOR crc_tree f) (crc_words i (area cs)) fs"

lemma crc_rep:
  shows "rep a f \<Longrightarrow> pCalcCfgCRC f = crc_tree a"
    and "list_all2 rep as ss \<Longrightarrow> crc_forms c ss = foldl (\<lambda>c f. c XOR crc_tree f) c as"
proof (induction f and c ss arbitrary: a and as rule: pCalcCfgCRC_crc_forms.induct)
  case (1 i l c cl bl ss)
  obtain cs fs junk where a: "a = CForm i cs fs" "c = area cs @ junk" "unat cl = length (area cs)"
      "\<forall>c \<in> set cs. chunk_ok c" "list_all2 rep fs ss"
    using 1(2) by (cases a) auto
  have "2 * (unat cl div 2) = length (area cs)" using a(3) area_dvd [OF a(4)] by simp
  then show ?case using 1(1) [OF a(5)] by (simp add: a(1,2))
next
  case (3 c s ss)
  then show ?case by (cases as) auto
qed simp

end
