(* ===== verification/Cfg_State.thy ===== *)
theory Cfg_State
  imports Cfg_Strings
begin

text \<open>
  The configuration of neptune.library: the tree of forms below ps_ConfigRoot and the functions of
  neptune.library.c that search and change it on behalf of the classes and of the preferences
  editor.

  Only libOpen() links a form to ps_ConfigRoot, so the list is modelled as an optional root. A
  pointer to a form is the path of indices to it below the root, \<open>None\<close> as a pointer is NULL; a
  form keeps its path while others are appended, which is all these functions do while they hold
  a pointer. A result \<open>None\<close> of an operation is an access through a pointer to no form, an access
  outside a buffer, or a loop that does not end. ps_ConfigLock is not part of the state: every
  function holds it throughout (its own behaviour is the subject of Lock_Sem). Forms that
  psdAllocCfgForm() makes outside the tree are not modelled.
\<close>

section \<open>State and pointers\<close>

type_synonym path = "nat list"

record psdBase =
  ps_ConfigRoot :: "psdIFFContext option"
  ps_GlobalCfg :: bytes
  nt_InsertSndFile :: bytes
  nt_RemoveSndFile :: bytes
  ps_CheckConfigReq :: bool
  ps_ConfigHash :: u32
  ps_LinkPowerReq :: bool
  ps_ConfigChgEvents :: nat
  ps_Mem :: mem

abbreviation IFFFORM_PSDCFG :: u32 where "IFFFORM_PSDCFG \<equiv> 0x50534443"
abbreviation IFFFORM_STACKCFG :: u32 where "IFFFORM_STACKCFG \<equiv> 0x53544B43"
abbreviation IFFFORM_DEVICECFG :: u32 where "IFFFORM_DEVICECFG \<equiv> 0x44455643"
abbreviation IFFFORM_CLASSCFG :: u32 where "IFFFORM_CLASSCFG \<equiv> 0x434C5343"
abbreviation IFFFORM_USBCLASS :: u32 where "IFFFORM_USBCLASS \<equiv> 0x55434C53"
abbreviation IFFFORM_CLASSDATA :: u32 where "IFFFORM_CLASSDATA \<equiv> 0x47435044"
abbreviation IFFFORM_DEVCFGDATA :: u32 where "IFFFORM_DEVCFGDATA \<equiv> 0x44434647"
abbreviation IFFFORM_DEVCLSDATA :: u32 where "IFFFORM_DEVCLSDATA \<equiv> 0x44435044"
abbreviation IFFFORM_IFCFGDATA :: u32 where "IFFFORM_IFCFGDATA \<equiv> 0x49434647"
abbreviation IFFFORM_IFCLSDATA :: u32 where "IFFFORM_IFCLSDATA \<equiv> 0x49435044"
abbreviation IFFCHNK_OWNER :: u32 where "IFFCHNK_OWNER \<equiv> 0x4F574E52"
abbreviation IFFCHNK_NAME :: u32 where "IFFCHNK_NAME \<equiv> 0x4E414D45"
abbreviation IFFCHNK_GLOBALCFG :: u32 where "IFFCHNK_GLOBALCFG \<equiv> 0x47434647"
abbreviation IFFCHNK_DEVID :: u32 where "IFFCHNK_DEVID \<equiv> 0x44564944"
abbreviation IFFCHNK_IFID :: u32 where "IFFCHNK_IFID \<equiv> 0x49464944"
abbreviation IFFCHNK_FORCEDBIND :: u32 where "IFFCHNK_FORCEDBIND \<equiv> 0x46424E44"
abbreviation IFFCHNK_INSERTSND :: u32 where "IFFCHNK_INSERTSND \<equiv> 0x494E5346"
abbreviation IFFCHNK_REMOVESND :: u32 where "IFFCHNK_REMOVESND \<equiv> 0x524D5346"

fun get_sub :: "psdIFFContext \<Rightarrow> path \<Rightarrow> psdIFFContext option" where
  "get_sub f [] = Some f"
| "get_sub f (i # p) = (if i < length (pic_SubForms f) then get_sub (pic_SubForms f ! i) p else None)"

fun put_sub :: "psdIFFContext \<Rightarrow> path \<Rightarrow> psdIFFContext \<Rightarrow> psdIFFContext" where
  "put_sub f [] g = g"
| "put_sub f (i # p) g = pic_subs f ((pic_SubForms f)[i := put_sub (pic_SubForms f ! i) p g])"

definition get_form :: "psdBase \<Rightarrow> path \<Rightarrow> psdIFFContext option" where
  "get_form ps p = Option.bind (ps_ConfigRoot ps) (\<lambda>r. get_sub r p)"

definition put_form :: "psdBase \<Rightarrow> path \<Rightarrow> psdIFFContext \<Rightarrow> psdBase" where
  "put_form ps p f = ps\<lparr>ps_ConfigRoot := map_option (\<lambda>r. put_sub r p f) (ps_ConfigRoot ps)\<rparr>"

text \<open>An operation of one form applied where a pointer points.\<close>

definition at_form :: "psdBase \<Rightarrow> path \<Rightarrow> (psdIFFContext \<Rightarrow> mem \<Rightarrow> ('x \<times> psdIFFContext \<times> mem) option)
    \<Rightarrow> ('x \<times> psdBase) option" where
  "at_form ps p oper = do {
     f \<leftarrow> get_form ps p;
     (x, f', m) \<leftarrow> oper f (ps_Mem ps);
     Some (x, (put_form ps p f')\<lparr>ps_Mem := m\<rparr>) }"

definition alloc_form :: "psdBase \<Rightarrow> path \<Rightarrow> u32 \<Rightarrow> (path option \<times> psdBase) option" where
  "alloc_form ps p fid = do {
     f \<leftarrow> get_form ps p;
     (ok, ps) \<leftarrow> at_form ps p (\<lambda>f m. Some (pAllocForm f fid m));
     Some (if ok then Some (p @ [length (pic_SubForms f)]) else None, ps) }"

text \<open>NULL stands for the root.\<close>

definition start_at :: "psdBase \<Rightarrow> path option \<Rightarrow> path option" where
  "start_at ps ptr = (case ptr of Some p \<Rightarrow> Some p
     | None \<Rightarrow> if ps_ConfigRoot ps = None then None else Some [])"

section \<open>Walking the forms\<close>

fun scan_forms :: "u32 \<Rightarrow> psdIFFContext list \<Rightarrow> nat option" where
  "scan_forms fid [] = None"
| "scan_forms fid (f # fs) = (if pic_FormID f = fid then Some 0 else map_option Suc (scan_forms fid fs))"

definition psdFindCfgForm :: "psdBase \<Rightarrow> path option \<Rightarrow> u32 \<Rightarrow> path option option" where
  "psdFindCfgForm ps ptr fid = (case start_at ps ptr of None \<Rightarrow> Some None
     | Some p \<Rightarrow> do {
         f \<leftarrow> get_form ps p;
         Some (map_option (\<lambda>i. p @ [i]) (scan_forms fid (pic_SubForms f))) })"

definition psdNextCfgForm :: "psdBase \<Rightarrow> path option \<Rightarrow> path option option" where
  "psdNextCfgForm ps ptr = (case ptr of None \<Rightarrow> Some None
     | Some p \<Rightarrow> if p = [] then Some None else do {
         par \<leftarrow> get_form ps (butlast p);
         f \<leftarrow> get_form ps p;
         Some (map_option (\<lambda>i. butlast p @ [last p + 1 + i])
           (scan_forms (pic_FormID f) (drop (last p + 1) (pic_SubForms par)))) })"

text \<open>
  The loop of all the searches below: pic = psdFindCfgForm(ptr, fid); while(pic) \<open>{\<close> body;
  pic = psdNextCfgForm(pic); \<open>}\<close>. The body yields \<open>Some\<close> to leave the loop with a value.
\<close>

fun each_form :: "nat \<Rightarrow> (psdBase \<Rightarrow> path \<Rightarrow> ('r option \<times> psdBase) option) \<Rightarrow> psdBase \<Rightarrow> path option
    \<Rightarrow> ('r option \<times> psdBase) option" where
  "each_form 0 body ps ptr = None"
| "each_form (Suc n) body ps None = Some (None, ps)"
| "each_form (Suc n) body ps (Some p) = do {
     (r, ps) \<leftarrow> body ps p;
     case r of Some x \<Rightarrow> Some (Some x, ps)
     | None \<Rightarrow> do { q \<leftarrow> psdNextCfgForm ps (Some p); each_form n body ps q } }"

definition forms_fuel :: "psdBase \<Rightarrow> path option \<Rightarrow> nat" where
  "forms_fuel ps ptr = Suc (Suc (case Option.bind (start_at ps ptr) (get_form ps) of None \<Rightarrow> 0
     | Some f \<Rightarrow> length (pic_SubForms f)))"

definition for_forms :: "psdBase \<Rightarrow> path option \<Rightarrow> u32
    \<Rightarrow> (psdBase \<Rightarrow> path \<Rightarrow> ('r option \<times> psdBase) option) \<Rightarrow> ('r option \<times> psdBase) option" where
  "for_forms ps ptr fid body = do {
     q \<leftarrow> psdFindCfgForm ps ptr fid;
     each_form (forms_fuel ps ptr) body ps q }"

definition match_at :: "psdBase \<Rightarrow> path \<Rightarrow> u32 \<Rightarrow> bytes \<Rightarrow> bool option" where
  "match_at ps p cid str = do { f \<leftarrow> get_form ps p; pMatchStringChunk f cid str }"

definition add_string :: "psdBase \<Rightarrow> path \<Rightarrow> u32 \<Rightarrow> bytes \<Rightarrow> (bool \<times> psdBase) option" where
  "add_string ps p cid str = at_form ps p (\<lambda>f m. pAddStringChunk f cid str m)"

section \<open>The library functions\<close>

definition psdReadCfg :: "psdBase \<Rightarrow> path option \<Rightarrow> bytes \<Rightarrow> (bool \<times> psdBase) option" where
  "psdReadCfg ps ptr form = (case start_at ps ptr of None \<Rightarrow> Some (False, ps)
     | Some p \<Rightarrow> do {
         f \<leftarrow> get_form ps p;
         alien \<leftarrow> alien_form f form;
         if alien then Some (False, ps)
         else do {
           (ok, ps) \<leftarrow> at_form ps p (\<lambda>f m. read_cfg f form m);
           Some (ok, ps\<lparr>ps_CheckConfigReq := True\<rparr>) } })"

definition psdRemCfgChunk :: "psdBase \<Rightarrow> path option \<Rightarrow> u32 \<Rightarrow> (bool \<times> psdBase) option" where
  "psdRemCfgChunk ps ptr cid = (case start_at ps ptr of None \<Rightarrow> Some (False, ps)
     | Some p \<Rightarrow> do {
         (r, ps) \<leftarrow> at_form ps p (\<lambda>f m. map_option (\<lambda>(r, f). (r, f, m)) (rem_cfg f cid));
         Some (r, ps\<lparr>ps_CheckConfigReq := True\<rparr>) })"

fun del_sub :: "psdIFFContext \<Rightarrow> path \<Rightarrow> psdIFFContext" where
  "del_sub f [] = f"
| "del_sub f [i] = pic_subs f (take i (pic_SubForms f) @ drop (Suc i) (pic_SubForms f))"
| "del_sub f (i # p) = pic_subs f ((pic_SubForms f)[i := del_sub (pic_SubForms f ! i) p])"

definition psdRemCfgForm :: "psdBase \<Rightarrow> path option \<Rightarrow> psdBase option" where
  "psdRemCfgForm ps ptr = (case start_at ps ptr of None \<Rightarrow> Some ps
     | Some p \<Rightarrow> do {
         f \<leftarrow> get_form ps p;
         Some (ps\<lparr>ps_ConfigRoot := (if p = [] then None else map_option (\<lambda>r. del_sub r p) (ps_ConfigRoot ps)),
                  ps_CheckConfigReq := True\<rparr>) })"

definition pUpdateGlobalCfg :: "psdBase \<Rightarrow> path \<Rightarrow> psdBase option" where
  "pUpdateGlobalCfg ps p = (if p = [] then do {
       q \<leftarrow> psdFindCfgForm ps None IFFFORM_STACKCFG;
       case q of None \<Rightarrow> Some ps
       | Some q \<Rightarrow> do {
           (_, ps) \<leftarrow> at_form ps q (\<lambda>f m. pAddCfgChunk (cfg_fuel (ps_GlobalCfg ps)) f (ps_GlobalCfg ps) 0 m);
           (_, ps) \<leftarrow> add_string ps q IFFCHNK_INSERTSND (nt_InsertSndFile ps);
           (_, ps) \<leftarrow> add_string ps q IFFCHNK_REMOVESND (nt_RemoveSndFile ps);
           Some ps } }
     else Some ps)"

definition psdWriteCfg :: "psdBase \<Rightarrow> path option \<Rightarrow> (bytes option \<times> psdBase) option" where
  "psdWriteCfg ps ptr = (case start_at ps ptr of None \<Rightarrow> Some (None, ps)
     | Some p \<Rightarrow> do {
         ps \<leftarrow> pUpdateGlobalCfg ps p;
         at_form (ps\<lparr>ps_CheckConfigReq := True\<rparr>) p write_cfg })"

definition psdGetCfgChunk :: "psdBase \<Rightarrow> path option \<Rightarrow> u32 \<Rightarrow> (bytes option \<times> psdBase) option" where
  "psdGetCfgChunk ps ptr cid = (case start_at ps ptr of None \<Rightarrow> Some (None, ps)
     | Some p \<Rightarrow> do {
         ps \<leftarrow> pUpdateGlobalCfg ps p;
         at_form ps p (\<lambda>f m. map_option (\<lambda>(r, m). (r, f, m)) (get_cfg_chunk f cid m)) })"

text \<open>pCheckCfgChanged(): the saved global settings are merged into the live ones when the checksum
  has changed; pgc_LinkPowerMgmt is the big endian word at offset 54.\<close>

definition LINKPOWER :: nat where "LINKPOWER = 54"

definition merge_global :: "psdBase \<Rightarrow> psdIFFContext \<Rightarrow> psdBase option" where
  "merge_global ps f = do {
     r \<leftarrow> pFindCfgChunk f IFFCHNK_GLOBALCFG;
     case r of None \<Rightarrow> Some ps
     | Some off \<Rightarrow> do {
         old \<leftarrow> rd_be16 (ps_GlobalCfg ps) LINKPOWER;
         l \<leftarrow> rd32 (pic_Chunks f) (off + 4);
         gl \<leftarrow> rd32 (ps_GlobalCfg ps) 4;
         d \<leftarrow> rd_slice (pic_Chunks f) (off + 8) (unat (min l gl));
         g \<leftarrow> wr_bytes (ps_GlobalCfg ps) 8 d;
         new \<leftarrow> rd_be16 g LINKPOWER;
         Some (ps\<lparr>ps_GlobalCfg := g, ps_LinkPowerReq := (new \<noteq> old \<or> ps_LinkPowerReq ps)\<rparr>) } }"

definition merge_insert :: "psdBase \<Rightarrow> psdIFFContext \<Rightarrow> psdBase option" where
  "merge_insert ps f = do {
     same \<leftarrow> pMatchStringChunk f IFFCHNK_INSERTSND (nt_InsertSndFile ps);
     if same then Some ps else do {
       (s, m) \<leftarrow> pGetStringChunk f IFFCHNK_INSERTSND (ps_Mem ps);
       Some (ps\<lparr>nt_InsertSndFile := (case s of None \<Rightarrow> nt_InsertSndFile ps | Some s \<Rightarrow> s), ps_Mem := m\<rparr>) } }"

definition merge_remove :: "psdBase \<Rightarrow> psdIFFContext \<Rightarrow> psdBase option" where
  "merge_remove ps f = do {
     same \<leftarrow> pMatchStringChunk f IFFCHNK_REMOVESND (nt_RemoveSndFile ps);
     if same then Some ps else do {
       (s, m) \<leftarrow> pGetStringChunk f IFFCHNK_REMOVESND (ps_Mem ps);
       Some (ps\<lparr>nt_RemoveSndFile := (case s of None \<Rightarrow> nt_RemoveSndFile ps | Some s \<Rightarrow> s), ps_Mem := m\<rparr>) } }"

definition pCheckCfgChanged :: "psdBase \<Rightarrow> (bool \<times> psdBase) option" where
  "pCheckCfgChanged ps0 = (let ps = ps0\<lparr>ps_CheckConfigReq := False\<rparr> in
     case ps_ConfigRoot ps of None \<Rightarrow> Some (False, ps)
     | Some root \<Rightarrow> let crc = pCalcCfgCRC root in
         if crc \<noteq> ps_ConfigHash ps then do {
           let ps = ps\<lparr>ps_ConfigHash := crc\<rparr>;
           q \<leftarrow> psdFindCfgForm ps (Some []) IFFFORM_STACKCFG;
           ps \<leftarrow> (case q of None \<Rightarrow> Some ps
             | Some q \<Rightarrow> do {
                 f \<leftarrow> get_form ps q;
                 ps \<leftarrow> merge_global ps f;
                 ps \<leftarrow> merge_insert ps f;
                 merge_remove ps f });
           Some (True, ps\<lparr>ps_ConfigChgEvents := Suc (ps_ConfigChgEvents ps)\<rparr>) }
         else Some (False, ps))"

text \<open>What every setter ends with.\<close>

definition checked :: "bool \<times> psdBase \<Rightarrow> (bool \<times> psdBase) option" where
  "checked = (\<lambda>(result, ps). do { (_, ps) \<leftarrow> pCheckCfgChanged ps; Some (result, ps) })"

end
