(* ===== verification/Cfg_Ops.thy ===== *)
theory Cfg_Ops
  imports Cfg_State
begin

text \<open>
  The settings kept for the classes, the devices and their interfaces, and the forced bindings
  (psdSetClsCfg(), psdSetUsbDevCfg(), psdSetForcedBinding() and their counterparts).
\<close>

section \<open>Class settings\<close>

text \<open>Storing the caller's form in \<open>p\<close>: read it, or empty the form when there is none.\<close>

definition store_form :: "psdBase \<Rightarrow> path \<Rightarrow> bytes option \<Rightarrow> (bool \<times> psdBase) option" where
  "store_form ps p form = (case form of
       Some b \<Rightarrow> psdReadCfg ps (Some p) b
     | None \<Rightarrow> do { (_, ps) \<leftarrow> psdRemCfgChunk ps (Some p) 0; Some (True, ps) })"

definition EMPTY_CLASSDATA :: bytes where
  "EMPTY_CLASSDATA = be32 ID_FORM @ be32 4 @ be32 IFFFORM_CLASSDATA"

definition cls_found :: "bytes \<Rightarrow> bytes option \<Rightarrow> psdBase \<Rightarrow> path \<Rightarrow> (bool option \<times> psdBase) option" where
  "cls_found owner form ps p = do {
     ok \<leftarrow> match_at ps p IFFCHNK_OWNER owner;
     if ok then do {
       q \<leftarrow> psdFindCfgForm ps (Some p) IFFFORM_CLASSDATA;
       case q of
         Some q \<Rightarrow> do { (r, ps) \<leftarrow> store_form ps q form; Some (Some r, ps) }
       | None \<Rightarrow> Some (Some False, ps) }
     else Some (None, ps) }"

definition cls_create :: "bytes \<Rightarrow> bytes option \<Rightarrow> psdBase \<Rightarrow> (bool \<times> psdBase) option" where
  "cls_create owner form ps = (case ps_ConfigRoot ps of None \<Rightarrow> Some (False, ps)
     | Some _ \<Rightarrow> do {
         (q, ps) \<leftarrow> alloc_form ps [] IFFFORM_CLASSCFG;
         case q of None \<Rightarrow> Some (False, ps)
         | Some q \<Rightarrow> do {
             (ok, ps) \<leftarrow> add_string ps q IFFCHNK_OWNER owner;
             if ok then
               let b = (case form of Some b \<Rightarrow> b | None \<Rightarrow> EMPTY_CLASSDATA) in
               at_form ps q (\<lambda>f m. pAddCfgChunk (cfg_fuel b) f b 0 m)
             else Some (False, ps) } })"

definition psdSetClsCfg :: "bytes \<Rightarrow> bytes option \<Rightarrow> psdBase \<Rightarrow> (bool \<times> psdBase) option" where
  "psdSetClsCfg owner form ps = do {
     (r, ps) \<leftarrow> for_forms ps None IFFFORM_CLASSCFG (cls_found owner form);
     (result, ps) \<leftarrow> (if r = Some True then Some (True, ps) else cls_create owner form ps);
     checked (result, ps) }"

definition psdGetClsCfg :: "bytes \<Rightarrow> psdBase \<Rightarrow> path option option" where
  "psdGetClsCfg owner ps = do {
     (r, _) \<leftarrow> for_forms ps None IFFFORM_CLASSCFG (\<lambda>ps p. do {
       ok \<leftarrow> match_at ps p IFFCHNK_OWNER owner;
       if ok then do { q \<leftarrow> psdFindCfgForm ps (Some p) IFFFORM_CLASSDATA; Some (Some q, ps) }
       else Some (None, ps) });
     Some (Option.bind r (\<lambda>q. q)) }"

section \<open>Device and interface settings\<close>

text \<open>The form for the settings below the data form \<open>q\<close>: found, or added.\<close>

definition cls_data :: "u32 \<Rightarrow> psdBase \<Rightarrow> path \<Rightarrow> (path option \<times> psdBase) option" where
  "cls_data fid ps q = do {
     c \<leftarrow> psdFindCfgForm ps (Some q) fid;
     case c of Some c \<Rightarrow> Some (Some c, ps) | None \<Rightarrow> alloc_form ps q fid }"

definition if_matches :: "bytes \<Rightarrow> bytes \<Rightarrow> psdBase \<Rightarrow> path \<Rightarrow> bool option" where
  "if_matches owner ifid ps q = do {
     a \<leftarrow> match_at ps q IFFCHNK_IFID ifid;
     if a then match_at ps q IFFCHNK_OWNER owner else Some False }"

text \<open>A new data form for an interface or for the device, with the form for the settings in it.\<close>

definition new_if_data :: "bytes \<Rightarrow> bytes \<Rightarrow> psdBase \<Rightarrow> path \<Rightarrow> (path option \<times> psdBase) option" where
  "new_if_data owner ifid ps p = do {
     (q, ps) \<leftarrow> alloc_form ps p IFFFORM_IFCFGDATA;
     case q of None \<Rightarrow> Some (None, ps)
     | Some q \<Rightarrow> do {
         (ok, ps) \<leftarrow> add_string ps q IFFCHNK_OWNER owner;
         if ok then do {
           (ok, ps) \<leftarrow> add_string ps q IFFCHNK_IFID ifid;
           if ok then alloc_form ps q IFFFORM_IFCLSDATA else Some (None, ps) }
         else Some (None, ps) } }"

definition new_dev_data :: "bytes \<Rightarrow> psdBase \<Rightarrow> path \<Rightarrow> (path option \<times> psdBase) option" where
  "new_dev_data owner ps p = do {
     (q, ps) \<leftarrow> alloc_form ps p IFFFORM_DEVCFGDATA;
     case q of None \<Rightarrow> Some (None, ps)
     | Some q \<Rightarrow> do {
         (ok, ps) \<leftarrow> add_string ps q IFFCHNK_OWNER owner;
         if ok then alloc_form ps q IFFFORM_DEVCLSDATA else Some (None, ps) } }"

definition new_data :: "bytes \<Rightarrow> bytes option \<Rightarrow> psdBase \<Rightarrow> path \<Rightarrow> (path option \<times> psdBase) option" where
  "new_data owner ifid ps p = (case ifid of
     Some i \<Rightarrow> new_if_data owner i ps p | None \<Rightarrow> new_dev_data owner ps p)"

definition data_form :: "bytes \<Rightarrow> bytes option \<Rightarrow> psdBase \<Rightarrow> path \<Rightarrow> (path option \<times> psdBase) option" where
  "data_form owner ifid ps p = (case ifid of
       Some i \<Rightarrow> do {
         (r, ps) \<leftarrow> for_forms ps (Some p) IFFFORM_IFCFGDATA (\<lambda>ps q. do {
           ok \<leftarrow> if_matches owner i ps q;
           if ok then do { (c, ps) \<leftarrow> cls_data IFFFORM_IFCLSDATA ps q; Some (Some c, ps) }
           else Some (None, ps) });
         case Option.bind r (\<lambda>c. c) of Some c \<Rightarrow> Some (Some c, ps) | None \<Rightarrow> new_data owner ifid ps p }
     | None \<Rightarrow> do {
         (r, ps) \<leftarrow> for_forms ps (Some p) IFFFORM_DEVCFGDATA (\<lambda>ps q. do {
           ok \<leftarrow> match_at ps q IFFCHNK_OWNER owner;
           if ok then do { (c, ps) \<leftarrow> cls_data IFFFORM_DEVCLSDATA ps q; Some (Some c, ps) }
           else Some (None, ps) });
         case Option.bind r (\<lambda>c. c) of Some c \<Rightarrow> Some (Some c, ps) | None \<Rightarrow> new_data owner ifid ps p })"

definition dev_found :: "bytes \<Rightarrow> bytes \<Rightarrow> bytes option \<Rightarrow> bytes option \<Rightarrow> psdBase \<Rightarrow> path
    \<Rightarrow> (bool option \<times> psdBase) option" where
  "dev_found owner devid ifid form ps p = do {
     ok \<leftarrow> match_at ps p IFFCHNK_DEVID devid;
     if ok then do {
       (c, ps) \<leftarrow> data_form owner ifid ps p;
       case c of Some c \<Rightarrow> do { (r, ps) \<leftarrow> store_form ps c form; Some (Some r, ps) }
       | None \<Rightarrow> Some (None, ps) }
     else Some (None, ps) }"

definition dev_create :: "bytes \<Rightarrow> bytes \<Rightarrow> bytes option \<Rightarrow> bytes option \<Rightarrow> psdBase \<Rightarrow> (bool \<times> psdBase) option" where
  "dev_create owner devid ifid form ps = (case ps_ConfigRoot ps of None \<Rightarrow> Some (False, ps)
     | Some _ \<Rightarrow> do {
         (p, ps) \<leftarrow> alloc_form ps [] IFFFORM_DEVICECFG;
         case p of None \<Rightarrow> Some (False, ps)
         | Some p \<Rightarrow> do {
             (ok, ps) \<leftarrow> add_string ps p IFFCHNK_DEVID devid;
             if ok then do {
               (c, ps) \<leftarrow> new_data owner ifid ps p;
               case c of Some c \<Rightarrow> store_form ps c form | None \<Rightarrow> Some (False, ps) }
             else Some (False, ps) } })"

definition psdSetUsbDevCfg :: "bytes \<Rightarrow> bytes \<Rightarrow> bytes option \<Rightarrow> bytes option \<Rightarrow> psdBase \<Rightarrow> (bool \<times> psdBase) option" where
  "psdSetUsbDevCfg owner devid ifid form ps = do {
     (r, ps) \<leftarrow> for_forms ps None IFFFORM_DEVICECFG (dev_found owner devid ifid form);
     (result, ps) \<leftarrow> (if r = Some True then Some (True, ps) else dev_create owner devid ifid form ps);
     checked (result, ps) }"

definition find_data :: "bytes \<Rightarrow> bytes option \<Rightarrow> psdBase \<Rightarrow> path \<Rightarrow> path option option" where
  "find_data owner ifid ps p = (case ifid of
       Some i \<Rightarrow> do {
         (r, _) \<leftarrow> for_forms ps (Some p) IFFFORM_IFCFGDATA (\<lambda>ps q. do {
           ok \<leftarrow> if_matches owner i ps q;
           if ok then do { c \<leftarrow> psdFindCfgForm ps (Some q) IFFFORM_IFCLSDATA; Some (Some c, ps) }
           else Some (None, ps) });
         Some (Option.bind r (\<lambda>c. c)) }
     | None \<Rightarrow> do {
         (r, _) \<leftarrow> for_forms ps (Some p) IFFFORM_DEVCFGDATA (\<lambda>ps q. do {
           ok \<leftarrow> match_at ps q IFFCHNK_OWNER owner;
           if ok then do { c \<leftarrow> psdFindCfgForm ps (Some q) IFFFORM_DEVCLSDATA; Some (Some c, ps) }
           else Some (None, ps) });
         Some (Option.bind r (\<lambda>c. c)) })"

definition psdGetUsbDevCfg :: "bytes \<Rightarrow> bytes \<Rightarrow> bytes option \<Rightarrow> psdBase \<Rightarrow> path option option" where
  "psdGetUsbDevCfg owner devid ifid ps = do {
     (r, _) \<leftarrow> for_forms ps None IFFFORM_DEVICECFG (\<lambda>ps p. do {
       ok \<leftarrow> match_at ps p IFFCHNK_DEVID devid;
       if ok then do { c \<leftarrow> find_data owner ifid ps p; Some (Some c, ps) } else Some (None, ps) });
     Some (Option.bind r (\<lambda>c. c)) }"

section \<open>Forced bindings\<close>

text \<open>An owner that is NULL is given as the empty string, which the code treats the same.\<close>

definition bind_chunk :: "bytes \<Rightarrow> psdBase \<Rightarrow> path \<Rightarrow> (bool \<times> psdBase) option" where
  "bind_chunk owner ps q = (if owner \<noteq> [] then add_string ps q IFFCHNK_FORCEDBIND owner
     else do {
       (_, ps) \<leftarrow> at_form ps q (\<lambda>f m. map_option (\<lambda>(r, f). (r, f, m)) (pRemCfgChunk f IFFCHNK_FORCEDBIND));
       Some (True, ps) })"

definition new_if_bind :: "bytes \<Rightarrow> bytes \<Rightarrow> psdBase \<Rightarrow> path \<Rightarrow> (bool \<times> psdBase) option" where
  "new_if_bind owner ifid ps p = do {
     (q, ps) \<leftarrow> alloc_form ps p IFFFORM_IFCFGDATA;
     case q of None \<Rightarrow> Some (False, ps)
     | Some q \<Rightarrow> do {
         (ok, ps) \<leftarrow> add_string ps q IFFCHNK_OWNER owner;
         if ok then do {
           (ok, ps) \<leftarrow> add_string ps q IFFCHNK_FORCEDBIND owner;
           if ok then add_string ps q IFFCHNK_IFID ifid else Some (False, ps) }
         else Some (False, ps) } }"

text \<open>All the data forms of an interface get the binding; \<open>result\<close> is carried through the loop.\<close>

fun bind_loop :: "nat \<Rightarrow> bytes \<Rightarrow> bytes \<Rightarrow> bool \<Rightarrow> psdBase \<Rightarrow> path option \<Rightarrow> (bool \<times> psdBase) option" where
  "bind_loop 0 owner ifid result ps ptr = None"
| "bind_loop (Suc n) owner ifid result ps None = Some (result, ps)"
| "bind_loop (Suc n) owner ifid result ps (Some q) = do {
     ok \<leftarrow> match_at ps q IFFCHNK_IFID ifid;
     (result, ps) \<leftarrow> (if ok then do { (r, ps) \<leftarrow> bind_chunk owner ps q; Some (result \<or> r, ps) }
       else Some (result, ps));
     nx \<leftarrow> psdNextCfgForm ps (Some q);
     bind_loop n owner ifid result ps nx }"

definition bind_dev :: "bytes \<Rightarrow> bytes option \<Rightarrow> psdBase \<Rightarrow> path \<Rightarrow> (bool \<times> psdBase) option" where
  "bind_dev owner ifid ps p = (case ifid of
       Some i \<Rightarrow> do {
         q \<leftarrow> psdFindCfgForm ps (Some p) IFFFORM_IFCFGDATA;
         (result, ps) \<leftarrow> bind_loop (forms_fuel ps (Some p)) owner i False ps q;
         if owner = [] then Some (True, ps)
         else if \<not> result then new_if_bind owner i ps p
         else Some (result, ps) }
     | None \<Rightarrow> bind_chunk owner ps p)"

definition psdSetForcedBinding :: "bytes \<Rightarrow> bytes \<Rightarrow> bytes option \<Rightarrow> psdBase \<Rightarrow> (bool \<times> psdBase) option" where
  "psdSetForcedBinding owner devid ifid ps = do {
     (r, ps) \<leftarrow> for_forms ps None IFFFORM_DEVICECFG (\<lambda>ps p. do {
       ok \<leftarrow> match_at ps p IFFCHNK_DEVID devid;
       if ok then do { (r, ps) \<leftarrow> bind_dev owner ifid ps p; Some (Some r, ps) } else Some (None, ps) });
     if owner = [] \<or> r = Some True then checked (True, ps)
     else case ps_ConfigRoot ps of None \<Rightarrow> checked (False, ps)
     | Some _ \<Rightarrow> do {
         (p, ps) \<leftarrow> alloc_form ps [] IFFFORM_DEVICECFG;
         case p of None \<Rightarrow> checked (False, ps)
         | Some p \<Rightarrow> do {
             (ok, ps) \<leftarrow> add_string ps p IFFCHNK_DEVID devid;
             if ok then do {
               (r, ps) \<leftarrow> (case ifid of Some i \<Rightarrow> new_if_bind owner i ps p
                 | None \<Rightarrow> add_string ps p IFFCHNK_FORCEDBIND owner);
               checked (r, ps) }
             else checked (False, ps) } } }"

text \<open>The string of a chunk, read in place.\<close>

definition chunk_string :: "psdBase \<Rightarrow> path \<Rightarrow> u32 \<Rightarrow> bytes option option" where
  "chunk_string ps p cid = do {
     f \<leftarrow> get_form ps p;
     r \<leftarrow> pFindCfgChunk f cid;
     case r of None \<Rightarrow> Some None
     | Some off \<Rightarrow> do { s \<leftarrow> c_string (pic_Chunks f) (off + 8); Some (Some s) } }"

definition psdGetForcedBinding :: "bytes \<Rightarrow> bytes option \<Rightarrow> psdBase \<Rightarrow> bytes option option" where
  "psdGetForcedBinding devid ifid ps = do {
     (r, _) \<leftarrow> for_forms ps None IFFFORM_DEVICECFG (\<lambda>ps p. do {
       ok \<leftarrow> match_at ps p IFFCHNK_DEVID devid;
       if ok then (case ifid of
           Some i \<Rightarrow> do {
             (b, _) \<leftarrow> for_forms ps (Some p) IFFFORM_IFCFGDATA (\<lambda>ps q. do {
               ok \<leftarrow> match_at ps q IFFCHNK_IFID i;
               if ok then do { s \<leftarrow> chunk_string ps q IFFCHNK_FORCEDBIND; Some (s, ps) } else Some (None, ps) });
             Some (Some b, ps) }
         | None \<Rightarrow> do { s \<leftarrow> chunk_string ps p IFFCHNK_FORCEDBIND; Some (Some s, ps) })
       else Some (None, ps) });
     Some (Option.bind r (\<lambda>s. s)) }"

end
