(* ===== verification/Cfg_Index.thy ===== *)
theory Cfg_Index
  imports Cfg_Ops
begin

text \<open>
  The settings as an index over the tree: a key is a chain of conditions, the form found for it is
  reached by following at each level the first sub form that fulfils the condition. Storing a
  value replaces the form at the end of the chain and adds the levels that are missing.
\<close>

section \<open>Chains of conditions\<close>

type_synonym level = "(cform \<Rightarrow> bool) \<times> cform"

text \<open>A condition, and the form that is added when no sub form fulfils it.\<close>

fun first_index :: "('a \<Rightarrow> bool) \<Rightarrow> 'a list \<Rightarrow> nat option" where
  "first_index P [] = None"
| "first_index P (x # xs) = (if P x then Some 0 else map_option Suc (first_index P xs))"

fun walk :: "level list \<Rightarrow> cform \<Rightarrow> path option" where
  "walk [] a = Some []"
| "walk (l # ls) a = (case first_index (fst l) (cf_subs a) of None \<Rightarrow> None
     | Some i \<Rightarrow> map_option ((#) i) (walk ls (cf_subs a ! i)))"

fun sub_at :: "cform \<Rightarrow> path \<Rightarrow> cform option" where
  "sub_at a [] = Some a"
| "sub_at a (i # p) = (if i < length (cf_subs a) then sub_at (cf_subs a ! i) p else None)"

definition with_subs :: "cform \<Rightarrow> cform list \<Rightarrow> cform" where
  "with_subs a fs = CForm (cf_id a) (cf_chunks a) fs"

fun plant :: "level list \<Rightarrow> cform \<Rightarrow> cform \<Rightarrow> cform" where
  "plant [] v a = v"
| "plant (l # ls) v a = (case first_index (fst l) (cf_subs a) of
       Some i \<Rightarrow> with_subs a ((cf_subs a)[i := plant ls v (cf_subs a ! i)])
     | None \<Rightarrow> with_subs a (cf_subs a @ [plant ls v (snd l)]))"

definition look :: "level list \<Rightarrow> cform \<Rightarrow> cform option" where
  "look ls a = Option.bind (walk ls a) (sub_at a)"

section \<open>Laws of the search\<close>

lemma first_index_Some: "first_index P xs = Some i \<Longrightarrow> i < length xs \<and> P (xs ! i) \<and> (\<forall>j < i. \<not> P (xs ! j))"
proof (induction xs arbitrary: i)
  case (Cons x xs)
  show ?case
  proof (cases "P x")
    case False
    then obtain j where j: "first_index P xs = Some j" "i = Suc j" using Cons.prems by auto
    have "\<not> P ((x # xs) ! k)" if "k < i" for k using Cons.IH [OF j(1)] False that j(2) by (cases k) auto
    then show ?thesis using Cons.IH [OF j(1)] j(2) by auto
  qed (use Cons.prems in auto)
qed simp

lemma first_index_None: "first_index P xs = None \<longleftrightarrow> (\<forall>x \<in> set xs. \<not> P x)"
  by (induction xs) auto

lemma first_index_append:
  "first_index P (xs @ ys) = (case first_index P xs of Some i \<Rightarrow> Some i
     | None \<Rightarrow> map_option (\<lambda>i. length xs + i) (first_index P ys))"
  by (induction xs) (cases "first_index P ys"; auto split: option.splits)+

lemma first_index_update:
  "first_index P xs = Some i \<Longrightarrow> P y \<Longrightarrow> first_index P (xs[i := y]) = Some i"
  by (induction xs arbitrary: i) (auto split: if_splits nat.splits)

lemma first_index_update_other:
  "i < length xs \<Longrightarrow> P (xs ! i) = P y \<Longrightarrow> first_index P (xs[i := y]) = first_index P xs"
  by (induction xs arbitrary: i) (auto split: nat.splits)

lemma look_Nil [simp]: "look [] a = Some a"
  by (simp add: look_def)

lemma look_Cons: "look (l # ls) a = (case first_index (fst l) (cf_subs a) of None \<Rightarrow> None
    | Some i \<Rightarrow> look ls (cf_subs a ! i))"
proof (cases "first_index (fst l) (cf_subs a)")
  case (Some i)
  then have "i < length (cf_subs a)" using first_index_Some by blast
  then show ?thesis using Some by (cases "walk ls (cf_subs a ! i)") (simp_all add: look_def)
qed (simp add: look_def)

section \<open>Storing and looking up\<close>

text \<open>A condition looks at a form's own id and chunks only.\<close>

definition steady :: "(cform \<Rightarrow> bool) \<Rightarrow> bool" where
  "steady P \<longleftrightarrow> (\<forall>i cs fs fs'. P (CForm i cs fs) = P (CForm i cs fs'))"

lemma steadyD: "steady P \<Longrightarrow> P (with_subs a fs) = P a"
  by (cases a) (auto simp: steady_def with_subs_def)

lemma with_subs_sel [simp]: "cf_subs (with_subs a fs) = fs" "cf_id (with_subs a fs) = cf_id a"
    "cf_chunks (with_subs a fs) = cf_chunks a"
  by (simp_all add: with_subs_def)

definition chain_ok :: "level list \<Rightarrow> bool" where
  "chain_ok ls \<longleftrightarrow> (\<forall>l \<in> set ls. steady (fst l) \<and> fst l (snd l))"

text \<open>The value fulfils the last condition of the chain, if there is one.\<close>

definition holds_key :: "level list \<Rightarrow> cform \<Rightarrow> bool" where
  "holds_key ls v \<longleftrightarrow> ls = [] \<or> fst (last ls) v"

lemma holds_key_tail: "holds_key (l # ls) v \<Longrightarrow> holds_key ls v"
  by (cases ls) (simp_all add: holds_key_def)

lemma plant_fits: "ls \<noteq> [] \<Longrightarrow> steady P \<Longrightarrow> P (plant ls v a) = P a"
  by (cases ls) (simp_all add: steadyD split: option.splits)

lemma plant_level:
  assumes "chain_ok (l # ls)" "holds_key (l # ls) v" "fst l a" shows "fst l (plant ls v a)"
proof (cases ls)
  case Nil then show ?thesis using assms(2) by (simp add: holds_key_def)
next
  case Cons then show ?thesis using assms plant_fits [of ls "fst l" v a] by (simp add: chain_ok_def)
qed

lemma look_plant: "chain_ok ls \<Longrightarrow> holds_key ls v \<Longrightarrow> look ls (plant ls v a) = Some v"
proof (induction ls arbitrary: a)
  case (Cons l ls)
  have c: "chain_ok ls" "holds_key ls v" using Cons.prems holds_key_tail by (auto simp: chain_ok_def)
  note pl = plant_level [OF Cons.prems]
  show ?case
  proof (cases "first_index (fst l) (cf_subs a)")
    case None
    have "fst l (plant ls v (snd l))" using pl Cons.prems(1) by (simp add: chain_ok_def)
    then show ?thesis using None Cons.IH [OF c] by (simp add: look_Cons first_index_append)
  next
    case (Some i)
    note fi = first_index_Some [OF Some]
    then have "first_index (fst l) ((cf_subs a)[i := plant ls v (cf_subs a ! i)]) = Some i"
      using first_index_update [OF Some] pl by simp
    then show ?thesis using Some fi Cons.IH [OF c] by (simp add: look_Cons)
  qed
qed simp

text \<open>Two chains part: after some common levels their conditions exclude each other.\<close>

fun apart :: "level list \<Rightarrow> level list \<Rightarrow> bool" where
  "apart (l # ls) (k # ks) \<longleftrightarrow> (\<forall>f. \<not> (fst l f \<and> fst k f)) \<or> fst l = fst k \<and> apart ls ks"
| "apart _ _ = False"

lemma apart_none:
  assumes "apart ls ks" "chain_ok ls" "chain_ok ks" "cf_subs t = []"
    and "\<forall>l \<in> set ls. cf_subs (snd l) = []" and "holds_key ls v"
  shows "look ks (plant ls v t) = None"
  using assms
proof (induction ls ks arbitrary: t rule: apart.induct)
  case (1 l ls k ks)
  have cl: "chain_ok ls" "chain_ok ks" "holds_key ls v" using 1(3,4,7) holds_key_tail by (auto simp: chain_ok_def)
  have lv: "fst l (plant ls v (snd l))" using plant_level [OF 1(3,7)] 1(3) by (simp add: chain_ok_def)
  have ts: "cf_subs (snd l) = []" using 1(6) by simp
  show ?case
  proof (cases "fst l = fst k \<and> apart ls ks")
    case True
    have "look ks (plant ls v (snd l)) = None" using 1(1) [OF _ cl(1,2) ts _ cl(3)] 1(6) True by simp
    then show ?thesis using True 1(5) lv by (simp add: look_Cons)
  next
    case False
    then have "\<not> fst k (plant ls v (snd l))" using lv 1(2) by auto
    then show ?thesis using 1(5) by (simp add: look_Cons)
  qed
qed simp_all

lemma look_plant_other:
  assumes "apart ls ks" "chain_ok ls" "chain_ok ks" "holds_key ls v" and "\<forall>l \<in> set ls. cf_subs (snd l) = []"
  shows "look ks (plant ls v a) = look ks a"
  using assms
proof (induction ls ks arbitrary: a rule: apart.induct)
  case (1 l ls k ks)
  have cl: "chain_ok ls" "chain_ok ks" "holds_key ls v" using 1(3,4,5) holds_key_tail by (auto simp: chain_ok_def)
  have ls: "\<forall>l \<in> set ls. cf_subs (snd l) = []" and ts: "cf_subs (snd l) = []" using 1(6) by simp_all
  note pl = plant_level [OF 1(3,5)]
  have lt: "fst l (plant ls v (snd l))" using pl 1(3) by (simp add: chain_ok_def)
  show ?case
  proof (cases "fst l = fst k \<and> apart ls ks")
    case True
    then have ap: "apart ls ks" by simp
    show ?thesis
    proof (cases "first_index (fst l) (cf_subs a)")
      case None
      have "look ks (plant ls v (snd l)) = None" by (rule apart_none [OF ap cl(1,2) ts ls cl(3)])
      then show ?thesis using None True lt by (simp add: look_Cons first_index_append)
    next
      case (Some i)
      note fi = first_index_Some [OF Some]
      then have "first_index (fst k) ((cf_subs a)[i := plant ls v (cf_subs a ! i)]) = Some i"
        using first_index_update [OF Some] pl True by simp
      then show ?thesis using Some fi True 1(1) [OF ap cl ls] by (simp add: look_Cons)
    qed
  next
    case False
    then have ex: "\<not> (fst l f \<and> fst k f)" for f using 1(2) by auto
    show ?thesis
    proof (cases "first_index (fst l) (cf_subs a)")
      case None
      have "\<not> fst k (plant ls v (snd l))" using ex lt by blast
      then show ?thesis using None by (auto simp: look_Cons first_index_append dest: first_index_Some
          split: option.splits simp: nth_append)
    next
      case (Some i)
      note fi = first_index_Some [OF Some]
      have "\<not> fst k (plant ls v (cf_subs a ! i))" "\<not> fst k (cf_subs a ! i)" using ex pl fi by blast+
      then have e: "first_index (fst k) ((cf_subs a)[i := plant ls v (cf_subs a ! i)]) = first_index (fst k) (cf_subs a)"
        and "\<forall>j. first_index (fst k) (cf_subs a) = Some j \<longrightarrow> j \<noteq> i"
        using fi by (auto intro: first_index_update_other dest: first_index_Some)
      then show ?thesis using Some by (auto simp: look_Cons split: option.splits)
    qed
  qed
qed simp_all

section \<open>Keys\<close>

text \<open>
  The interface of the settings: a kind of key, for every key a chain, and the chains of different
  keys part. What is stored for a key is what is found for it, and nothing else changes.
\<close>

locale form_keys =
  fixes levels :: "'k \<Rightarrow> level list" and key_ok :: "'k \<Rightarrow> bool"
  assumes chain: "key_ok k \<Longrightarrow> chain_ok (levels k)"
    and bare: "key_ok k \<Longrightarrow> l \<in> set (levels k) \<Longrightarrow> cf_subs (snd l) = []"
    and keys_apart: "key_ok k \<Longrightarrow> key_ok k' \<Longrightarrow> k \<noteq> k' \<Longrightarrow> apart (levels k) (levels k')"
begin

lemma look_stored:
  "key_ok k \<Longrightarrow> key_ok k' \<Longrightarrow> holds_key (levels k) v \<Longrightarrow>
   look (levels k') (plant (levels k) v a) = (if k' = k then Some v else look (levels k') a)"
  using look_plant [OF chain] look_plant_other [OF keys_apart chain chain] bare by auto

text \<open>After any sequence of stores the last value stored for a key is found.\<close>

lemma look_run:
  assumes "\<forall>(k, v) \<in> set kvs. key_ok k \<and> holds_key (levels k) v" and "key_ok k'"
  shows "look (levels k') (foldl (\<lambda>a (k, v). plant (levels k) v a) a kvs) =
    (case map_of (rev kvs) k' of Some v \<Rightarrow> Some v | None \<Rightarrow> look (levels k') a)"
  using assms
proof (induction kvs rule: rev_induct)
  case (snoc kv kvs)
  obtain k v where kv: "kv = (k, v)" by fastforce
  then show ?case using snoc look_stored [of k k' v] by auto
qed simp

end

end
