(* ===== verification/Cfg_Refine.thy ===== *)
theory Cfg_Refine
  imports Cfg_Index
begin

text \<open>
  The functions on the state seen as functions of the tree: pointers are paths, searching is
  \<open>first_index\<close>, an operation at a pointer replaces one sub tree.
\<close>

section \<open>State and tree\<close>

definition tree :: "psdBase \<Rightarrow> cform \<Rightarrow> bool" where
  "tree ps a \<longleftrightarrow> (\<exists>r. ps_ConfigRoot ps = Some r \<and> rep a r)"

text \<open>Memory is available, the live settings are a whole struct, the file names are strings.\<close>

definition calm :: "psdBase \<Rightarrow> bool" where
  "calm ps \<longleftrightarrow> ps_Mem ps = [] \<and> length (ps_GlobalCfg ps) = 58 \<and>
     take 8 (ps_GlobalCfg ps) = be32 IFFCHNK_GLOBALCFG @ be32 50 \<and>
     0 \<notin> set (nt_InsertSndFile ps) \<and> 0 \<notin> set (nt_RemoveSndFile ps)"

lemma calm_GlobalCfg: "calm ps \<Longrightarrow> \<exists>d. ps_GlobalCfg ps = be32 IFFCHNK_GLOBALCFG @ be32 50 @ d \<and> length d = 50"
  using append_take_drop_id [of 8 "ps_GlobalCfg ps"] by (intro exI [of _ "drop 8 (ps_GlobalCfg ps)"]) (simp add: calm_def)

lemma calm_length: "calm ps \<Longrightarrow> rd32 (ps_GlobalCfg ps) 4 = Some 50"
  using calm_GlobalCfg [of ps] rd32_mid [of 4 "be32 IFFCHNK_GLOBALCFG" 50] by auto

fun upd_at :: "cform \<Rightarrow> path \<Rightarrow> cform \<Rightarrow> cform" where
  "upd_at a [] b = b"
| "upd_at a (i # p) b = with_subs a ((cf_subs a)[i := upd_at (cf_subs a ! i) p b])"

lemma rep_subs: "rep a f \<Longrightarrow> list_all2 rep (cf_subs a) (pic_SubForms f)"
  by (cases a; cases f) simp

lemma rep_with_subs: "rep a f \<Longrightarrow> list_all2 rep fs ss \<Longrightarrow> rep (with_subs a fs) (pic_subs f ss)"
  by (cases a; cases f) (simp add: with_subs_def pic_subs_def)

lemma get_sub_rep: "rep a f \<Longrightarrow> sub_at a p = Some b \<Longrightarrow> \<exists>g. get_sub f p = Some g \<and> rep b g"
proof (induction p arbitrary: a f)
  case (Cons i p)
  then have "i < length (cf_subs a)" "sub_at (cf_subs a ! i) p = Some b" by (auto split: if_splits)
  moreover have "rep (cf_subs a ! i) (pic_SubForms f ! i)" "length (cf_subs a) = length (pic_SubForms f)"
    using rep_subs [OF Cons.prems(1)] calculation(1) by (auto simp: list_all2_conv_all_nth)
  ultimately show ?case using Cons.IH by simp
qed simp

lemma put_sub_rep: "rep a f \<Longrightarrow> sub_at a p = Some b \<Longrightarrow> rep c g \<Longrightarrow> rep (upd_at a p c) (put_sub f p g)"
proof (induction p arbitrary: a f)
  case (Cons i p)
  then have i: "i < length (cf_subs a)" "sub_at (cf_subs a ! i) p = Some b" by (auto split: if_splits)
  note l = rep_subs [OF Cons.prems(1)]
  then have "rep (cf_subs a ! i) (pic_SubForms f ! i)" using i(1) by (auto simp: list_all2_conv_all_nth)
  from Cons.IH [OF this i(2) Cons.prems(3)] show ?case
    using rep_with_subs [OF Cons.prems(1) list_all2_update_cong [OF l]] by simp
qed simp

lemma get_form_rep: "tree ps a \<Longrightarrow> sub_at a p = Some b \<Longrightarrow> \<exists>f. get_form ps p = Some f \<and> rep b f"
  using get_sub_rep by (auto simp: tree_def get_form_def)

lemma put_form_tree: "tree ps a \<Longrightarrow> sub_at a p = Some b \<Longrightarrow> rep c g \<Longrightarrow> tree (put_form ps p g) (upd_at a p c)"
  using put_sub_rep by (auto simp: tree_def put_form_def)

lemma calm_put [simp]: "calm ps \<Longrightarrow> calm ((put_form ps p g)\<lparr>ps_Mem := []\<rparr>)"
  by (simp add: calm_def put_form_def)

lemma at_form_tree:
  assumes "tree ps a" "calm ps" "sub_at a p = Some b"
    and "\<And>f. rep b f \<Longrightarrow> \<exists>f'. oper f [] = Some (x, f', []) \<and> rep c f'"
  shows "\<exists>ps'. at_form ps p oper = Some (x, ps') \<and> tree ps' (upd_at a p c) \<and> calm ps'"
proof -
  obtain f where f: "get_form ps p = Some f" "rep b f" using get_form_rep [OF assms(1,3)] by blast
  obtain f' where f': "oper f [] = Some (x, f', [])" "rep c f'" using assms(4) [OF f(2)] by blast
  let ?ps = "(put_form ps p f')\<lparr>ps_Mem := []\<rparr>"
  have "at_form ps p oper = Some (x, ?ps)" using f f' assms(2) by (simp add: at_form_def calm_def)
  moreover have "tree ?ps (upd_at a p c)" using put_form_tree [OF assms(1,3) f'(2)] by (simp add: tree_def)
  ultimately show ?thesis using assms(2) by (intro exI [of _ ?ps]) simp
qed

section \<open>Searching\<close>

abbreviation has_id :: "u32 \<Rightarrow> cform \<Rightarrow> bool" where
  "has_id fid \<equiv> \<lambda>f. cf_id f = fid"

lemma scan_forms_rep: "list_all2 rep fs ss \<Longrightarrow> scan_forms fid ss = first_index (has_id fid) fs"
  by (induction rule: list_all2_induct) (simp_all add: rep_id)

lemma start_at_root: "tree ps a \<Longrightarrow> start_at ps None = Some []"
  by (auto simp: tree_def start_at_def)

lemma start_at_Some: "start_at ps (Some p) = Some p"
  by (simp add: start_at_def)

lemma psdFindCfgForm_tree:
  assumes "tree ps a" "start_at ps ptr = Some p" "sub_at a p = Some b"
  shows "psdFindCfgForm ps ptr fid = Some (map_option (\<lambda>i. p @ [i]) (first_index (has_id fid) (cf_subs b)))"
proof -
  obtain f where "get_form ps p = Some f" "rep b f" using get_form_rep [OF assms(1,3)] by blast
  then show ?thesis using assms(2) scan_forms_rep [OF rep_subs] by (simp add: psdFindCfgForm_def)
qed

lemma sub_at_append: "sub_at a (p @ q) = Option.bind (sub_at a p) (\<lambda>b. sub_at b q)"
  by (induction p arbitrary: a) auto

lemma psdNextCfgForm_tree:
  assumes "tree ps a" "sub_at a p = Some b" "i < length (cf_subs b)"
  shows "psdNextCfgForm ps (Some (p @ [i])) = Some (map_option (\<lambda>j. p @ [Suc (i + j)])
    (first_index (has_id (cf_id (cf_subs b ! i))) (drop (Suc i) (cf_subs b))))"
proof -
  obtain f where f: "get_form ps p = Some f" "rep b f" using get_form_rep [OF assms(1,2)] by blast
  have "sub_at a (p @ [i]) = Some (cf_subs b ! i)" using assms(2,3) by (simp add: sub_at_append)
  then obtain g where g: "get_form ps (p @ [i]) = Some g" "rep (cf_subs b ! i) g"
    using get_form_rep [OF assms(1)] by blast
  have "list_all2 rep (drop (Suc i) (cf_subs b)) (drop (Suc i) (pic_SubForms f))"
    using list_all2_dropI [OF rep_subs [OF f(2)]] .
  then show ?thesis using f g scan_forms_rep rep_id [OF g(2)] by (simp add: psdNextCfgForm_def)
qed

text \<open>
  The loop over the sub forms of an id: the body passes over the forms that do not fulfil
  \<open>hit\<close>, and is left at the first that does.
\<close>

lemma first_index_conj: "first_index (\<lambda>x. P x \<and> Q x) xs = (case first_index P xs of None \<Rightarrow> None
    | Some i \<Rightarrow> if Q (xs ! i) then Some i
        else map_option (\<lambda>j. Suc (i + j)) (first_index (\<lambda>x. P x \<and> Q x) (drop (Suc i) xs)))"
  by (induction xs) (auto simp: option.map_comp comp_def split: option.splits)

lemma each_form_search:
  assumes t: "tree ps a" and b: "sub_at a p = Some b"
    and miss: "\<And>i. i < length (cf_subs b) \<Longrightarrow> cf_id (cf_subs b ! i) = fid \<Longrightarrow> \<not> hit (cf_subs b ! i) \<Longrightarrow>
      body ps (p @ [i]) = Some (None, ps)"
    and found: "\<And>i. first_index (\<lambda>f. cf_id f = fid \<and> hit f) (cf_subs b) = Some i \<Longrightarrow>
      body ps (p @ [i]) = Some (Some (fst res), snd res)"
  shows "length (cf_subs b) < n + k \<Longrightarrow> k \<le> length (cf_subs b) \<Longrightarrow>
    \<forall>j. first_index (\<lambda>f. cf_id f = fid \<and> hit f) (drop k (cf_subs b)) = Some j \<longrightarrow>
      first_index (\<lambda>f. cf_id f = fid \<and> hit f) (cf_subs b) = Some (k + j) \<Longrightarrow>
    each_form n body ps (map_option (\<lambda>j. p @ [k + j]) (first_index (has_id fid) (drop k (cf_subs b)))) =
    (case first_index (\<lambda>f. cf_id f = fid \<and> hit f) (drop k (cf_subs b)) of
       None \<Rightarrow> Some (None, ps) | Some j \<Rightarrow> Some (Some (fst res), snd res))"
proof (induction n arbitrary: k)
  case 0 then show ?case by simp
next
  case (Suc n)
  let ?d = "drop k (cf_subs b)"
  show ?case
  proof (cases "first_index (has_id fid) ?d")
    case None
    then show ?thesis by (subst first_index_conj) simp
  next
    case (Some j)
    note fi = first_index_Some [OF Some]
    then have kj: "k + j < length (cf_subs b)" "?d ! j = cf_subs b ! (k + j)"
      and idj: "cf_id (cf_subs b ! (k + j)) = fid" by auto
    show ?thesis
    proof (cases "hit (?d ! j)")
      case True
      have h: "first_index (\<lambda>f. cf_id f = fid \<and> hit f) ?d = Some j" using True Some by (subst first_index_conj) simp
      then have "body ps (p @ [k + j]) = Some (Some (fst res), snd res)" using found Suc.prems(3) by simp
      then show ?thesis using Some h by simp
    next
      case False
      let ?k = "Suc (k + j)"
      have m: "body ps (p @ [k + j]) = Some (None, ps)" using miss [OF kj(1) idj] False kj(2) by simp
      have nx: "psdNextCfgForm ps (Some (p @ [k + j])) =
          Some (map_option (\<lambda>i. p @ [?k + i]) (first_index (has_id fid) (drop ?k (cf_subs b))))"
        using psdNextCfgForm_tree [OF t b kj(1)] unfolding idj by simp
      have h: "first_index (\<lambda>f. cf_id f = fid \<and> hit f) ?d =
          map_option (\<lambda>i. Suc (j + i)) (first_index (\<lambda>f. cf_id f = fid \<and> hit f) (drop ?k (cf_subs b)))"
      proof -
        have dd: "drop (Suc j) ?d = drop ?k (cf_subs b)" by (simp add: add.commute)
        show ?thesis using first_index_conj [of "has_id fid" hit ?d] False unfolding Some dd [symmetric] by simp
      qed
      have n: "length (cf_subs b) < n + ?k" "?k \<le> length (cf_subs b)" using Suc.prems(1) kj(1) by simp_all
      have "\<forall>i. first_index (\<lambda>f. cf_id f = fid \<and> hit f) (drop ?k (cf_subs b)) = Some i \<longrightarrow>
          first_index (\<lambda>f. cf_id f = fid \<and> hit f) (cf_subs b) = Some (?k + i)"
        using Suc.prems(3) h by (auto simp: add.assoc)
      note ih = Suc.IH [OF n this]
      have "each_form (Suc n) body ps (map_option (\<lambda>j. p @ [k + j]) (first_index (has_id fid) ?d)) =
          each_form n body ps (map_option (\<lambda>i. p @ [?k + i]) (first_index (has_id fid) (drop ?k (cf_subs b))))"
        using Some m nx by simp
      then show ?thesis unfolding ih h by (simp split: option.splits)
    qed
  qed
qed

lemma for_forms_search:
  assumes "tree ps a" and "start_at ps ptr = Some p" and "sub_at a p = Some b"
    and "\<And>i. i < length (cf_subs b) \<Longrightarrow> cf_id (cf_subs b ! i) = fid \<Longrightarrow> \<not> hit (cf_subs b ! i) \<Longrightarrow>
      body ps (p @ [i]) = Some (None, ps)"
    and "\<And>i. first_index (\<lambda>f. cf_id f = fid \<and> hit f) (cf_subs b) = Some i \<Longrightarrow>
      body ps (p @ [i]) = Some (Some (fst res), snd res)"
  shows "for_forms ps ptr fid body = (case first_index (\<lambda>f. cf_id f = fid \<and> hit f) (cf_subs b) of
      None \<Rightarrow> Some (None, ps) | Some j \<Rightarrow> Some (Some (fst res), snd res))"
proof -
  obtain f where "get_form ps p = Some f" "rep b f" using get_form_rep [OF assms(1,3)] by blast
  then have "forms_fuel ps ptr = Suc (Suc (length (cf_subs b)))"
    using list_all2_lengthD [OF rep_subs] assms(2) by (simp add: forms_fuel_def)
  moreover have "each_form (Suc (Suc (length (cf_subs b)))) body ps
      (map_option (\<lambda>j. p @ [0 + j]) (first_index (has_id fid) (drop 0 (cf_subs b)))) =
      (case first_index (\<lambda>f. cf_id f = fid \<and> hit f) (drop 0 (cf_subs b)) of
       None \<Rightarrow> Some (None, ps) | Some j \<Rightarrow> Some (Some (fst res), snd res))"
    by (rule each_form_search [where hit = hit and res = res, OF assms(1,3)]) (use assms(4,5) in simp_all)
  ultimately show ?thesis using psdFindCfgForm_tree [OF assms(1-3), of fid]
    by (simp add: for_forms_def)
qed

end
