(* ===== verification/Cfg_Steps.thy ===== *)
theory Cfg_Steps
  imports Cfg_Refine
begin

text \<open>What the steps of the setters do to the tree, with memory at hand.\<close>

section \<open>Sub trees\<close>

lemma upd_at_length: "i < length (cf_subs a) \<Longrightarrow> cf_subs (upd_at a (i # p) b) ! i = upd_at (cf_subs a ! i) p b"
  by simp

lemma sub_at_upd: "sub_at a p = Some b \<Longrightarrow> sub_at (upd_at a p c) (p @ q) = sub_at c q"
  by (induction p arbitrary: a) (auto split: if_splits)

lemma sub_at_upd_same: "sub_at a p = Some b \<Longrightarrow> sub_at (upd_at a p c) p = Some c"
  using sub_at_upd [of a p b c "[]"] by simp

lemma with_subs_twice [simp]: "with_subs (with_subs a x) y = with_subs a y"
  by (simp add: with_subs_def)

lemma with_subs_same [simp]: "with_subs a (cf_subs a) = a"
  by (cases a) (simp add: with_subs_def)

lemma upd_at_upd: "sub_at a p = Some b \<Longrightarrow> upd_at (upd_at a p c) (p @ q) d = upd_at a p (upd_at c q d)"
  by (induction p arbitrary: a) (auto split: if_splits)

lemma upd_at_same: "sub_at a p = Some b \<Longrightarrow> upd_at a p b = a"
  by (induction p arbitrary: a) (auto split: if_splits)

section \<open>Steps\<close>

definition grown :: "cform \<Rightarrow> u32 \<Rightarrow> cform" where
  "grown b fid = with_subs b (cf_subs b @ [CForm fid [] []])"

definition with_string :: "cform \<Rightarrow> u32 \<Rightarrow> bytes \<Rightarrow> cform" where
  "with_string b cid s = CForm (cf_id b) (put_chunk (str_chunk cid s) (cf_chunks b)) (cf_subs b)"

lemma match_at_tree:
  "tree ps a \<Longrightarrow> sub_at a p = Some b \<Longrightarrow> 0 \<notin> set s \<Longrightarrow>
   match_at ps p cid s = Some (str_at (cf_chunks b) cid = Some s)"
  using get_form_rep pMatchStringChunk_rep by (fastforce simp: match_at_def)

lemma alloc_form_tree:
  assumes "tree ps a" "calm ps" "sub_at a p = Some b"
  shows "\<exists>ps'. alloc_form ps p fid = Some (Some (p @ [length (cf_subs b)]), ps') \<and>
    tree ps' (upd_at a p (grown b fid)) \<and> calm ps'"
proof -
  obtain f where f: "get_form ps p = Some f" "rep b f" using get_form_rep [OF assms(1,3)] by blast
  have "\<exists>ps'. at_form ps p (\<lambda>f m. Some (pAllocForm f fid m)) = Some (True, ps') \<and>
      tree ps' (upd_at a p (grown b fid)) \<and> calm ps'"
  proof (rule at_form_tree [OF assms])
    fix g assume g: "rep b g"
    have "rep (grown b fid) (pic_subs g (pic_SubForms g @ [new_form fid]))"
      unfolding grown_def using rep_with_subs [OF g] rep_subs [OF g] by (simp add: list_all2_appendI)
    then show "\<exists>f'. Some (pAllocForm g fid []) = Some (True, f', []) \<and> rep (grown b fid) f'"
      by (simp add: pAllocForm_def psdAllocVec_def)
  qed
  then show ?thesis using f list_all2_lengthD [OF rep_subs [OF f(2)]] by (auto simp: alloc_form_def)
qed

lemma add_string_tree:
  assumes "tree ps a" "calm ps" "sub_at a p = Some b" "cid \<noteq> ID_FORM" "length s < 65536"
    and "length (area (cf_chunks b)) < 1073741824"
  shows "\<exists>ps'. add_string ps p cid s = Some (True, ps') \<and> tree ps' (upd_at a p (with_string b cid s)) \<and> calm ps'"
  unfolding add_string_def
proof (rule at_form_tree [OF assms(1-3)])
  fix f assume f: "rep b f"
  show "\<exists>f'. pAddStringChunk f cid s [] = Some (True, f', []) \<and> rep (with_string b cid s) f'"
    using pAddStringChunk_rep [OF f assms(4,5), of "[]"] assms(5,6) by (auto simp: built_def with_string_def)
qed

lemma add_form_tree:
  assumes "tree ps a" "calm ps" "sub_at a p = Some b" "\<forall>it \<in> set its. item_ok it"
    and "d = ser_item (Fm fid its) @ r"
    and "length (area (cf_chunks b)) + length (ser_item (Fm fid its)) < 2147483648"
  shows "\<exists>ps'. at_form ps p (\<lambda>f m. pAddCfgChunk (cfg_fuel d) f d 0 m) = Some (True, ps') \<and>
    tree ps' (upd_at a p (with_subs b (cf_subs b @ [contents fid its]))) \<and> calm ps'"
proof (rule at_form_tree [OF assms(1-3)])
  fix f assume f: "rep b f"
  have ok: "item_ok (Fm fid its)" using assms(4) by simp
  show "\<exists>f'. pAddCfgChunk (cfg_fuel d) f d 0 [] = Some (True, f', []) \<and>
      rep (with_subs b (cf_subs b @ [contents fid its])) f'"
    using pAddCfgChunk_item [OF f ok, of 0 "[]" "cfg_fuel d" r "[]"] assms(5,6)
    by (auto simp: built_def cfg_fuel_def absorb_Fm with_subs_def simp del: absorb.simps)
qed

lemma rep_emptied: "rep b f \<Longrightarrow>
    rep (CForm (cf_id b) [] []) (pic_subs (pic_with f (pic_Chunks f) 0 (pic_BufferLen f)) [])"
  by (cases b; cases f) (auto simp: pic_subs_def pic_with_def)

lemma read_cfg_rep:
  assumes "rep b f" "\<forall>it \<in> set its. item_ok it" "d = ser_item (Fm fid its) @ r"
    and "length (ser_item (Fm fid its)) < 2147483648"
  shows "alien_form f d = Some (fid \<noteq> cf_id b)"
    and "\<exists>ok f' m'. read_cfg f d m = Some (ok, f', m') \<and>
      built b (contents (cf_id b) its) ok f' \<and> (m = [] \<longrightarrow> ok \<and> m' = [])"
proof -
  let ?l = "word_of_nat (4 + length (ser its)) :: u32"
  note hd = Fm_header [of 0 "[]" d fid its r ?l]
  have rd: "rd32 d 0 = Some ID_FORM" "rd32 d 4 = Some ?l" "rd32 d 8 = Some fid"
    "d = (be32 ID_FORM @ be32 ?l @ be32 fid) @ ser its @ r" using hd assms(3) by simp_all
  show "alien_form f d = Some (fid \<noteq> cf_id b)" using rd rep_id [OF assms(1)] by (simp add: alien_form_def)
  have sz: "length (ser_item (Fm fid its)) = 12 + length (ser its)" by (simp add: ser_item_Fm)
  have fb: "unat (form_bytes ?l) = length (ser its)" using form_bytes_of [OF ser_dvd [OF assms(2)]] assms(4) sz by simp
  have len: "12 = length (be32 ID_FORM @ be32 ?l @ be32 fid)" "length (ser its) < cfg_fuel d"
    "length (area (cf_chunks (CForm (cf_id b) [] []))) + length (ser its) < 2147483648"
    using assms(3,4) sz by (simp_all add: cfg_fuel_def)
  from add_loop_items [OF rep_emptied [OF assms(1)] _ len fb, of r m] assms(2)
  obtain len' f' m' where "add_loop (cfg_fuel d) (pic_subs (pic_with f (pic_Chunks f) 0 (pic_BufferLen f)) []) d 12 (form_bytes ?l) m =
      Some (len', f', m')" "built (CForm (cf_id b) [] []) (contents (cf_id b) its) (len' = 0) f'"
      "m = [] \<longrightarrow> len' = 0 \<and> m' = []"
    unfolding rd(4) [symmetric] contents_def by blast
  then show "\<exists>ok f' m'. read_cfg f d m = Some (ok, f', m') \<and>
      built b (contents (cf_id b) its) ok f' \<and> (m = [] \<longrightarrow> ok \<and> m' = [])"
    using rd(2) by (auto simp: read_cfg_def built_def)
qed

lemma tree_CheckConfigReq [simp]: "tree (ps\<lparr>ps_CheckConfigReq := x\<rparr>) a = tree ps a"
  by (simp add: tree_def)

lemma calm_CheckConfigReq [simp]: "calm (ps\<lparr>ps_CheckConfigReq := x\<rparr>) = calm ps"
  by (simp add: calm_def)

lemma psdReadCfg_tree:
  assumes "tree ps a" "calm ps" "sub_at a p = Some b" "\<forall>it \<in> set its. item_ok it"
    and "d = ser_item (Fm (cf_id b) its) @ r" and "length (ser_item (Fm (cf_id b) its)) < 2147483648"
  shows "\<exists>ps'. psdReadCfg ps (Some p) d = Some (True, ps') \<and> tree ps' (upd_at a p (contents (cf_id b) its)) \<and> calm ps'"
proof -
  obtain f where f: "get_form ps p = Some f" "rep b f" using get_form_rep [OF assms(1,3)] by blast
  have al: "alien_form f d = Some False" using read_cfg_rep(1) [OF f(2) assms(4-6)] by simp
  have "\<exists>ps'. at_form ps p (\<lambda>f m. read_cfg f d m) = Some (True, ps') \<and>
      tree ps' (upd_at a p (contents (cf_id b) its)) \<and> calm ps'"
  proof (rule at_form_tree [OF assms(1-3)])
    fix g assume g: "rep b g"
    show "\<exists>f'. read_cfg g d [] = Some (True, f', []) \<and> rep (contents (cf_id b) its) f'"
      using read_cfg_rep(2) [OF g assms(4-6), of "[]"] by (auto simp: built_def)
  qed
  then show ?thesis using f al by (auto simp: psdReadCfg_def start_at_def)
qed

lemma psdRemCfgChunk_tree:
  assumes "tree ps a" "calm ps" "sub_at a p = Some b"
  shows "\<exists>r ps'. psdRemCfgChunk ps (Some p) 0 = Some (r, ps') \<and> tree ps' (upd_at a p (CForm (cf_id b) [] [])) \<and> calm ps'"
proof -
  obtain f where f: "get_form ps p = Some f" "rep b f" using get_form_rep [OF assms(1,3)] by blast
  have c: "rep (CForm (cf_id b) [] []) (snd (clear_form g))" if "rep b g" for g
    using that by (cases b; cases g) (auto simp: clear_form_def)
  let ?ps = "(put_form ps p (snd (clear_form f)))\<lparr>ps_Mem := [], ps_CheckConfigReq := True\<rparr>"
  have "psdRemCfgChunk ps (Some p) 0 = Some (fst (clear_form f), ?ps)"
    using f assms(2) by (simp add: psdRemCfgChunk_def start_at_def at_form_def rem_cfg_def calm_def split_beta)
  moreover have "tree ?ps (upd_at a p (CForm (cf_id b) [] []))"
    using put_form_tree [OF assms(1,3) c [OF f(2)]] by (simp add: tree_def)
  moreover have "calm ?ps" using assms(2) by (simp add: calm_def put_form_def)
  ultimately show ?thesis by blast
qed

text \<open>The caller's data: nothing, or a form of the id expected with well formed contents.\<close>

definition data_ok :: "u32 \<Rightarrow> item list \<Rightarrow> bytes option \<Rightarrow> bool" where
  "data_ok fid its form \<longleftrightarrow> (case form of None \<Rightarrow> its = []
     | Some d \<Rightarrow> (\<forall>it \<in> set its. item_ok it) \<and> length (ser_item (Fm fid its)) < 1073741824 \<and>
         (\<exists>r. d = ser_item (Fm fid its) @ r))"

lemma store_form_tree:
  assumes "tree ps a" "calm ps" "sub_at a p = Some b" "data_ok (cf_id b) its form"
  shows "\<exists>ps'. store_form ps p form = Some (True, ps') \<and> tree ps' (upd_at a p (contents (cf_id b) its)) \<and> calm ps'"
proof (cases form)
  case None
  then show ?thesis using psdRemCfgChunk_tree [OF assms(1-3)] assms(4)
    by (auto simp: store_form_def data_ok_def contents_def)
next
  case (Some d)
  then obtain r where "d = ser_item (Fm (cf_id b) its) @ r" "\<forall>it \<in> set its. item_ok it"
    "length (ser_item (Fm (cf_id b) its)) < 2147483648" using assms(4) by (auto simp: data_ok_def)
  then show ?thesis using psdReadCfg_tree [OF assms(1-3)] Some by (simp add: store_form_def)
qed

section \<open>The check after a change\<close>

definition merged :: "bytes \<Rightarrow> chunk \<Rightarrow> bytes" where
  "merged G c = (let n = unat (min (fst (snd c)) 50) in take 8 G @ take n (snd (snd c)) @ drop (8 + n) G)"

definition link_word :: "bytes \<Rightarrow> nat" where
  "link_word g = le16 (g ! 55) (g ! 54)"

lemma length_merged: "chunk_ok c \<Longrightarrow> length G = 58 \<Longrightarrow> length (merged G c) = 58"
proof -
  assume c: "chunk_ok c" and G: "length G = 58"
  have "unat (min (fst (snd c)) 50) \<le> unat (fst (snd c))" "unat (min (fst (snd c)) 50) \<le> 50"
    by (simp_all add: min_def word_le_nat_alt)
  then show ?thesis using enc_parts(2) [OF c] G by (simp add: merged_def Let_def)
qed

lemma merge_global_Some:
  assumes "rep b f" "calm ps" and c: "chunk_at (cf_chunks b) IFFCHNK_GLOBALCFG = Some c"
  shows "merge_global ps f = Some (ps\<lparr>ps_GlobalCfg := merged (ps_GlobalCfg ps) c, ps_LinkPowerReq :=
      (link_word (merged (ps_GlobalCfg ps) c) \<noteq> link_word (ps_GlobalCfg ps) \<or> ps_LinkPowerReq ps)\<rparr>)"
    and "chunk_ok c"
proof -
  obtain pre r where b: "pic_Chunks f = pre @ enc c @ r" and ok: "chunk_ok c"
    and o: "pFindCfgChunk f IFFCHNK_GLOBALCFG = Some (Some (length pre))"
    using find_rep_Some [OF assms(1) c] by blast
  show "chunk_ok c" by (rule ok)
  let ?l = "fst (snd c)" and ?G = "ps_GlobalCfg ps"
  have G: "length ?G = 58" "rd32 ?G 4 = Some 50" using assms(2) calm_length by (simp_all add: calm_def)
  define n where "n = unat (min ?l 50)"
  have n: "n \<le> unat ?l" "n \<le> 50" by (simp_all add: n_def min_def word_le_nat_alt)
  have nl: "n \<le> length (snd (snd c))" using n(1) enc_parts(2) [OF ok] by simp
  have bf: "pic_Chunks f = (pre @ be32 (fst c) @ be32 ?l) @ snd (snd c) @ r" using b enc_parts(1) [OF ok] by simp
  have s: "rd_slice (pic_Chunks f) (length pre + 8) n = Some (take n (snd (snd c)))"
    unfolding bf using nl by (simp add: rd_slice_def)
  have m: "merged ?G c = take 8 ?G @ take n (snd (snd c)) @ drop (8 + n) ?G" by (simp add: merged_def n_def Let_def)
  have w: "wr_bytes ?G 8 (take n (snd (snd c))) = Some (merged ?G c)"
    using n nl G by (simp add: wr_bytes_def m)
  have rd16: "rd_be16 h LINKPOWER = Some (link_word h)" if "length h = 58" for h
    using that by (simp add: rd_be16_def LINKPOWER_def link_word_def)
  show "merge_global ps f = Some (ps\<lparr>ps_GlobalCfg := merged ?G c, ps_LinkPowerReq :=
      (link_word (merged ?G c) \<noteq> link_word ?G \<or> ps_LinkPowerReq ps)\<rparr>)"
    using o rd32_enc(2) [OF refl, of pre c r] b G rd16 [OF G(1)] rd16 [OF length_merged [OF ok G(1)]] s w
    unfolding merge_global_def by (simp only: bind.bind_lunit option.case n_def [symmetric])
qed

lemma merge_global_None:
  "rep b f \<Longrightarrow> chunk_at (cf_chunks b) IFFCHNK_GLOBALCFG = None \<Longrightarrow> merge_global ps f = Some ps"
  using find_rep_None by (simp add: merge_global_def)

lemma no_nul_c_str: "0 \<notin> set (c_str b)"
  by (auto simp: c_str_def dest: set_takeWhileD)

lemma str_at_no_nul: "str_at cs cid = Some s \<Longrightarrow> 0 \<notin> set s"
  using no_nul_c_str by (auto simp: str_at_def)

text \<open>Nothing but the live settings changes: the tree and the memory stay as they are.\<close>

definition settled :: "psdBase \<Rightarrow> psdBase \<Rightarrow> bool" where
  "settled ps ps' \<longleftrightarrow> ps_ConfigRoot ps' = ps_ConfigRoot ps \<and> (calm ps \<longrightarrow> calm ps')"

lemma merge_global_calm: "rep b f \<Longrightarrow> calm ps \<Longrightarrow> \<exists>ps'. merge_global ps f = Some ps' \<and> settled ps ps'"
proof (cases "chunk_at (cf_chunks b) IFFCHNK_GLOBALCFG")
  case None
  assume "rep b f"
  then show ?thesis using merge_global_None None by (auto simp: settled_def)
next
  case (Some c)
  assume r: "rep b f" and c: "calm ps"
  note m = merge_global_Some [OF r c Some]
  have "length (merged (ps_GlobalCfg ps) c) = 58" using length_merged [OF m(2)] c by (simp add: calm_def)
  moreover have "take 8 (merged (ps_GlobalCfg ps) c) = take 8 (ps_GlobalCfg ps)"
    using c by (simp add: merged_def Let_def calm_def)
  ultimately show ?thesis using m(1) c by (simp add: settled_def calm_def)
qed

lemma merge_insert_calm: "rep b f \<Longrightarrow> calm ps \<Longrightarrow> \<exists>ps'. merge_insert ps f = Some ps' \<and> settled ps ps'"
  using pMatchStringChunk_rep pGetStringChunk_rep str_at_no_nul
  by (fastforce simp: merge_insert_def settled_def calm_def split: option.splits)

lemma merge_remove_calm: "rep b f \<Longrightarrow> calm ps \<Longrightarrow> \<exists>ps'. merge_remove ps f = Some ps' \<and> settled ps ps'"
  using pMatchStringChunk_rep pGetStringChunk_rep str_at_no_nul
  by (fastforce simp: merge_remove_def settled_def calm_def split: option.splits)

lemma settled_trans: "settled a b \<Longrightarrow> settled b c \<Longrightarrow> settled a c"
  by (simp add: settled_def)

lemma settled_refl: "settled a a"
  by (simp add: settled_def)

lemma settled_fields [simp]:
  "settled a (b\<lparr>ps_ConfigHash := h\<rparr>) = settled a b" "settled a (b\<lparr>ps_CheckConfigReq := r\<rparr>) = settled a b"
  "settled a (b\<lparr>ps_ConfigChgEvents := n\<rparr>) = settled a b"
  by (simp_all add: settled_def calm_def)

lemma merge_all_calm:
  assumes "rep b f" "calm ps"
  shows "\<exists>ps'. do { ps \<leftarrow> merge_global ps f; ps \<leftarrow> merge_insert ps f; merge_remove ps f } = Some ps' \<and> settled ps ps'"
proof -
  obtain p1 where p1: "merge_global ps f = Some p1" "settled ps p1" using merge_global_calm [OF assms] by blast
  have c1: "calm p1" using p1(2) assms(2) by (simp add: settled_def)
  obtain p2 where p2: "merge_insert p1 f = Some p2" "settled p1 p2" using merge_insert_calm [OF assms(1) c1] by blast
  have c2: "calm p2" using p2(2) c1 by (simp add: settled_def)
  obtain p3 where p3: "merge_remove p2 f = Some p3" "settled p2 p3" using merge_remove_calm [OF assms(1) c2] by blast
  have "settled ps p3" using settled_trans [OF settled_trans [OF p1(2) p2(2)] p3(2)] .
  then show ?thesis by (simp add: p1(1) p2(1) p3(1))
qed

lemma pCheckCfgChanged_tree:
  assumes "tree ps a" "calm ps"
  shows "\<exists>r ps'. pCheckCfgChanged ps = Some (r, ps') \<and> settled ps ps'"
proof -
  obtain root where root: "ps_ConfigRoot ps = Some root" "rep a root" using assms(1) by (auto simp: tree_def)
  show ?thesis
  proof (cases "pCalcCfgCRC root = ps_ConfigHash ps")
    case True
    then show ?thesis using root by (auto simp: pCheckCfgChanged_def settled_refl)
  next
    case False
    let ?p = "ps\<lparr>ps_CheckConfigReq := False, ps_ConfigHash := pCalcCfgCRC root\<rparr>"
    have t: "tree ?p a" "calm ?p" using assms by (simp_all add: tree_def calm_def)
    note f = psdFindCfgForm_tree [OF t(1) start_at_Some [of _ "[]"], of a IFFFORM_STACKCFG]
    have s: "settled ps x" if "settled ?p x" for x using that assms(2) by (simp add: settled_def calm_def)
    show ?thesis
    proof (cases "first_index (has_id IFFFORM_STACKCFG) (cf_subs a)")
      case None
      then show ?thesis using False root f s settled_refl [of ?p] by (auto simp: pCheckCfgChanged_def Let_def)
    next
      case (Some i)
      then have "sub_at a [i] = Some (cf_subs a ! i)" using first_index_Some by fastforce
      then obtain g where g: "get_form ?p [i] = Some g" "rep (cf_subs a ! i) g" using get_form_rep [OF t(1)] by blast
      obtain p' where "do { ps \<leftarrow> merge_global ?p g; ps \<leftarrow> merge_insert ps g; merge_remove ps g } = Some p'" "settled ?p p'"
        using merge_all_calm [OF g(2) t(2)] by blast
      then show ?thesis using Some False root f g s by (auto simp: pCheckCfgChanged_def Let_def)
    qed
  qed
qed

lemma checked_tree:
  assumes "tree ps a" "calm ps"
  shows "\<exists>ps'. checked (r, ps) = Some (r, ps') \<and> calm ps' \<and> tree ps' a"
proof -
  obtain x ps' where "pCheckCfgChanged ps = Some (x, ps')" "settled ps ps'"
    using pCheckCfgChanged_tree [OF assms] by blast
  then show ?thesis using assms by (simp add: checked_def settled_def tree_def)
qed

end
