(* ===== verification/Cfg_Settings.thy ===== *)
theory Cfg_Settings
  imports Cfg_Steps
begin

text \<open>
  The settings of classes, devices and interfaces are an index over the tree: the getters follow
  the chain of their key, the setters store at its end.
\<close>

section \<open>The keys\<close>

definition has_string :: "u32 \<Rightarrow> u32 \<Rightarrow> bytes \<Rightarrow> cform \<Rightarrow> bool" where
  "has_string fid cid s f \<longleftrightarrow> cf_id f = fid \<and> str_at (cf_chunks f) cid = Some s"

definition cls_levels :: "bytes \<Rightarrow> level list" where
  "cls_levels owner =
     [(has_string IFFFORM_CLASSCFG IFFCHNK_OWNER owner, CForm IFFFORM_CLASSCFG [str_chunk IFFCHNK_OWNER owner] []),
      (has_id IFFFORM_CLASSDATA, CForm IFFFORM_CLASSDATA [] [])]"

type_synonym dev_key = "bytes \<times> bytes \<times> bytes option"

text \<open>The owner, the id of the device, and the id of the interface for settings of an interface.\<close>

definition is_if :: "bytes \<Rightarrow> bytes \<Rightarrow> cform \<Rightarrow> bool" where
  "is_if owner ifid f \<longleftrightarrow> cf_id f = IFFFORM_IFCFGDATA \<and> str_at (cf_chunks f) IFFCHNK_IFID = Some ifid \<and>
     str_at (cf_chunks f) IFFCHNK_OWNER = Some owner"

definition data_levels :: "bytes \<Rightarrow> bytes option \<Rightarrow> level list" where
  "data_levels owner ifid = (case ifid of
       Some i \<Rightarrow> [(is_if owner i, CForm IFFFORM_IFCFGDATA [str_chunk IFFCHNK_OWNER owner, str_chunk IFFCHNK_IFID i] []),
         (has_id IFFFORM_IFCLSDATA, CForm IFFFORM_IFCLSDATA [] [])]
     | None \<Rightarrow> [(has_string IFFFORM_DEVCFGDATA IFFCHNK_OWNER owner, CForm IFFFORM_DEVCFGDATA [str_chunk IFFCHNK_OWNER owner] []),
         (has_id IFFFORM_DEVCLSDATA, CForm IFFFORM_DEVCLSDATA [] [])])"

definition dev_levels :: "dev_key \<Rightarrow> level list" where
  "dev_levels = (\<lambda>(owner, devid, ifid).
     (has_string IFFFORM_DEVICECFG IFFCHNK_DEVID devid, CForm IFFFORM_DEVICECFG [str_chunk IFFCHNK_DEVID devid] [])
     # data_levels owner ifid)"

definition dev_key_ok :: "dev_key \<Rightarrow> bool" where
  "dev_key_ok = (\<lambda>(owner, devid, ifid). str_ok owner \<and> str_ok devid \<and> (case ifid of None \<Rightarrow> True | Some i \<Rightarrow> str_ok i))"

definition data_id :: "bytes option \<Rightarrow> u32" where
  "data_id ifid = (if ifid = None then IFFFORM_DEVCLSDATA else IFFFORM_IFCLSDATA)"

lemma steady_conds: "steady (has_string fid cid s)" "steady (has_id fid)" "steady (is_if owner i)"
  by (simp_all add: steady_def has_string_def is_if_def)

lemma str_at_single: "str_ok s \<Longrightarrow> str_at [str_chunk cid s] cid = Some s"
  using str_at_put [of s cid "[]" cid] by (simp add: put_chunk_def)

lemma str_at_pair: "str_ok s \<Longrightarrow> str_ok t \<Longrightarrow> i \<noteq> j \<Longrightarrow>
    str_at [str_chunk i s, str_chunk j t] i = Some s \<and> str_at [str_chunk i s, str_chunk j t] j = Some t"
  using str_at_put [of t j "[str_chunk i s]"] str_at_single [of s i] by (simp add: put_chunk_def str_chunk_def)

interpretation cls_keys: form_keys cls_levels str_ok
proof
  fix k l assume k: "str_ok k"
  show "chain_ok (cls_levels k)" using k
    by (simp add: chain_ok_def cls_levels_def steady_conds) (simp add: has_string_def str_at_single)
  show "l \<in> set (cls_levels k) \<Longrightarrow> cf_subs (snd l) = []" by (auto simp: cls_levels_def)
next
  fix k k' :: bytes assume "k \<noteq> k'"
  then show "apart (cls_levels k) (cls_levels k')" by (simp add: cls_levels_def has_string_def)
qed

interpretation dev_keys: form_keys dev_levels dev_key_ok
proof
  fix k l assume k: "dev_key_ok k"
  obtain owner devid ifid where e: "k = (owner, devid, ifid)" by (cases k)
  show "chain_ok (dev_levels k)" using k
    by (cases ifid) (simp_all add: e dev_key_ok_def chain_ok_def dev_levels_def data_levels_def steady_conds,
      simp_all add: has_string_def is_if_def str_at_single str_at_pair)
  show "l \<in> set (dev_levels k) \<Longrightarrow> cf_subs (snd l) = []"
    by (cases ifid) (auto simp: e dev_levels_def data_levels_def)
next
  fix k k' :: dev_key assume n: "k \<noteq> k'"
  obtain o1 d1 i1 where k: "k = (o1, d1, i1)" by (cases k)
  obtain o2 d2 i2 where k': "k' = (o2, d2, i2)" by (cases k')
  show "apart (dev_levels k) (dev_levels k')"
    using n unfolding k k' by (cases i1; cases i2) (auto simp: dev_levels_def data_levels_def has_string_def is_if_def)
qed

section \<open>Class settings\<close>

lemma has_string_first:
  "first_index (\<lambda>f. cf_id f = fid \<and> str_at (cf_chunks f) cid = Some s) fs = first_index (has_string fid cid s) fs"
  by (simp add: has_string_def [abs_def])

lemma sub_at_child: "sub_at a p = Some b \<Longrightarrow> i < length (cf_subs b) \<Longrightarrow> sub_at a (p @ [i]) = Some (cf_subs b ! i)"
  by (simp add: sub_at_append)

lemma match_child:
  assumes "tree ps a" "sub_at a p = Some b" "i < length (cf_subs b)" "str_ok s"
  shows "match_at ps (p @ [i]) cid s = Some (str_at (cf_chunks (cf_subs b ! i)) cid = Some s)"
  using match_at_tree [OF assms(1) sub_at_child [OF assms(2,3)]] assms(4) by (simp add: str_ok_def)

lemma find_child:
  assumes "tree ps a" "sub_at a p = Some b" "i < length (cf_subs b)"
  shows "psdFindCfgForm ps (Some (p @ [i])) fid =
    Some (map_option (\<lambda>j. p @ [i, j]) (first_index (has_id fid) (cf_subs (cf_subs b ! i))))"
  using psdFindCfgForm_tree [OF assms(1) start_at_Some sub_at_child [OF assms(2,3)]] by simp

lemma psdGetClsCfg_walk:
  assumes t: "tree ps a" and s: "str_ok owner"
  shows "psdGetClsCfg owner ps = Some (walk (cls_levels owner) a)"
proof -
  let ?P = "\<lambda>f. cf_id f = IFFFORM_CLASSCFG \<and> str_at (cf_chunks f) IFFCHNK_OWNER = Some owner"
  let ?res = "case first_index ?P (cf_subs a) of None \<Rightarrow> None
    | Some i \<Rightarrow> map_option (\<lambda>j. [i, j]) (first_index (has_id IFFFORM_CLASSDATA) (cf_subs (cf_subs a ! i)))"
  note m = match_child [OF t, of "[]" a _ owner IFFCHNK_OWNER, simplified]
  note f = find_child [OF t, of "[]" a _ IFFFORM_CLASSDATA, simplified]
  have "for_forms ps None IFFFORM_CLASSCFG (\<lambda>ps p. do {
       ok \<leftarrow> match_at ps p IFFCHNK_OWNER owner;
       if ok then do { q \<leftarrow> psdFindCfgForm ps (Some p) IFFFORM_CLASSDATA; Some (Some q, ps) }
       else Some (None, ps) }) =
    (case first_index ?P (cf_subs a) of None \<Rightarrow> Some (None, ps) | Some j \<Rightarrow> Some (Some (fst (?res, ps)), snd (?res, ps)))"
  proof (rule for_forms_search [where p = "[]" and b = a, OF t start_at_root [OF t]])
    fix i assume fi: "first_index ?P (cf_subs a) = Some i"
    then have "i < length (cf_subs a)" "str_at (cf_chunks (cf_subs a ! i)) IFFCHNK_OWNER = Some owner"
      using first_index_Some by blast+
    then show "(do { ok \<leftarrow> match_at ps ([] @ [i]) IFFCHNK_OWNER owner;
       if ok then do { q \<leftarrow> psdFindCfgForm ps (Some ([] @ [i])) IFFFORM_CLASSDATA; Some (Some q, ps) }
       else Some (None, ps) }) = Some (Some (fst (?res, ps)), snd (?res, ps))"
      using fi m f s by simp
  qed (use m s in simp_all)
  then show ?thesis unfolding psdGetClsCfg_def cls_levels_def
    by (simp add: has_string_first option.map_comp comp_def split: option.splits)
qed

text \<open>Every class form holds a data form.\<close>

definition classes_complete :: "cform \<Rightarrow> bool" where
  "classes_complete a \<longleftrightarrow> (\<forall>f \<in> set (cf_subs a). cf_id f = IFFFORM_CLASSCFG \<longrightarrow>
     first_index (has_id IFFFORM_CLASSDATA) (cf_subs f) \<noteq> None)"

lemma grown_last: "sub_at (grown b fid) [length (cf_subs b)] = Some (CForm fid [] [])"
  by (simp add: grown_def)

lemma upd_last: "upd_at (with_subs b (xs @ [t])) [length xs] y = with_subs b (xs @ [y])"
  by simp

lemma contents_id [simp]: "cf_id (contents fid its) = fid"
proof -
  have "cf_id (foldl (\<lambda>s it. absorb it s) s its) = cf_id s" for s by (induction its arbitrary: s) simp_all
  then show ?thesis by (simp add: contents_def)
qed

lemma add_data_tree:
  assumes "tree ps a" "calm ps" "sub_at a p = Some b" "data_ok fid its form"
    and "length (area (cf_chunks b)) < 1073741824" and "fid = IFFFORM_CLASSDATA"
  shows "\<exists>ps'. (let d = (case form of Some d \<Rightarrow> d | None \<Rightarrow> EMPTY_CLASSDATA) in
      at_form ps p (\<lambda>f m. pAddCfgChunk (cfg_fuel d) f d 0 m)) = Some (True, ps') \<and>
    tree ps' (upd_at a p (with_subs b (cf_subs b @ [contents fid its]))) \<and> calm ps'"
proof (cases form)
  case None
  have "EMPTY_CLASSDATA = ser_item (Fm IFFFORM_CLASSDATA []) @ []" by (simp add: EMPTY_CLASSDATA_def ser_item_Fm)
  moreover have "length (ser_item (Fm IFFFORM_CLASSDATA [])) = 12" by (simp add: ser_item_Fm)
  ultimately show ?thesis using add_form_tree [OF assms(1-3), of "[]" EMPTY_CLASSDATA fid "[]"] assms None
    by (simp add: data_ok_def)
next
  case (Some d)
  then obtain r where "d = ser_item (Fm fid its) @ r" "\<forall>it \<in> set its. item_ok it"
    "length (ser_item (Fm fid its)) < 1073741824" using assms(4) by (auto simp: data_ok_def)
  then show ?thesis using add_form_tree [OF assms(1-3), of its d fid r] assms(5) Some by (simp add: Let_def)
qed

lemma cls_create_tree:
  assumes t: "tree ps a" and c: "calm ps" and s: "str_ok owner" and d: "data_ok IFFFORM_CLASSDATA its form"
  shows "\<exists>ps'. cls_create owner form ps = Some (True, ps') \<and> calm ps' \<and>
    tree ps' (with_subs a (cf_subs a @ [CForm IFFFORM_CLASSCFG [str_chunk IFFCHNK_OWNER owner] [contents IFFFORM_CLASSDATA its]]))"
proof -
  let ?n = "length (cf_subs a)" and ?t = "CForm IFFFORM_CLASSCFG [] []"
  obtain p1 where p1: "alloc_form ps [] IFFFORM_CLASSCFG = Some (Some [?n], p1)"
      "tree p1 (with_subs a (cf_subs a @ [?t]))" "calm p1"
    using alloc_form_tree [OF t c, of "[]" a IFFFORM_CLASSCFG] by (auto simp: grown_def)
  let ?t2 = "CForm IFFFORM_CLASSCFG [str_chunk IFFCHNK_OWNER owner] []"
  have l: "length owner < 65536" using s by (simp add: str_ok_def)
  obtain p2 where p2: "add_string p1 [?n] IFFCHNK_OWNER owner = Some (True, p2)"
      "tree p2 (with_subs a (cf_subs a @ [?t2]))" "calm p2"
    using add_string_tree [OF p1(2,3), of "[?n]" ?t IFFCHNK_OWNER owner] l by (auto simp: with_string_def put_chunk_def)
  have "length (area (cf_chunks ?t2)) < 1073741824" using length_str_chunk [OF l, of IFFCHNK_OWNER] l by simp
  then obtain p3 where p3: "(let d = (case form of Some d \<Rightarrow> d | None \<Rightarrow> EMPTY_CLASSDATA) in
      at_form p2 [?n] (\<lambda>f m. pAddCfgChunk (cfg_fuel d) f d 0 m)) = Some (True, p3)"
      "tree p3 (with_subs a (cf_subs a @ [with_subs ?t2 [contents IFFFORM_CLASSDATA its]]))" "calm p3"
    using add_data_tree [OF p2(2,3), of "[?n]" ?t2 IFFFORM_CLASSDATA its form] d by auto
  obtain root where "ps_ConfigRoot ps = Some root" using t by (auto simp: tree_def)
  then have "cls_create owner form ps = Some (True, p3)" using p1 p2 p3 by (simp add: cls_create_def)
  then show ?thesis using p3 by (simp add: with_subs_def)
qed

lemma cls_search:
  assumes t: "tree ps a" and s: "str_ok owner"
    and found: "\<And>i. first_index (has_string IFFFORM_CLASSCFG IFFCHNK_OWNER owner) (cf_subs a) = Some i \<Longrightarrow>
      cls_found owner form ps [i] = Some (Some (fst res), snd res)"
  shows "for_forms ps None IFFFORM_CLASSCFG (cls_found owner form) =
    (case first_index (has_string IFFFORM_CLASSCFG IFFCHNK_OWNER owner) (cf_subs a) of
       None \<Rightarrow> Some (None, ps) | Some i \<Rightarrow> Some (Some (fst res), snd res))"
  unfolding has_string_first [symmetric]
proof (rule for_forms_search [where p = "[]" and b = a, OF t start_at_root [OF t]])
  fix i assume "i < length (cf_subs a)" "str_at (cf_chunks (cf_subs a ! i)) IFFCHNK_OWNER \<noteq> Some owner"
  then show "cls_found owner form ps ([] @ [i]) = Some (None, ps)"
    using match_child [OF t, of "[]" a i owner IFFCHNK_OWNER] s by (simp add: cls_found_def)
qed (use found in \<open>simp_all add: has_string_first\<close>)

lemma has_stringD: "first_index (has_string fid cid s) fs = Some i \<Longrightarrow>
    i < length fs \<and> cf_id (fs ! i) = fid \<and> str_at (cf_chunks (fs ! i)) cid = Some s"
  using first_index_Some by (fastforce simp: has_string_def)

lemma psdSetClsCfg_plant:
  assumes t: "tree ps a" and c: "calm ps" and s: "str_ok owner" and d: "data_ok IFFFORM_CLASSDATA its form"
    and full: "classes_complete a"
  shows "\<exists>ps'. psdSetClsCfg owner form ps = Some (True, ps') \<and> calm ps' \<and>
    tree ps' (plant (cls_levels owner) (contents IFFFORM_CLASSDATA its) a)"
proof (cases "first_index (has_string IFFFORM_CLASSCFG IFFCHNK_OWNER owner) (cf_subs a)")
  case None
  obtain p1 where p1: "cls_create owner form ps = Some (True, p1)" "calm p1"
    "tree p1 (with_subs a (cf_subs a @ [CForm IFFFORM_CLASSCFG [str_chunk IFFCHNK_OWNER owner] [contents IFFFORM_CLASSDATA its]]))"
    using cls_create_tree [OF t c s d] by blast
  have "for_forms ps None IFFFORM_CLASSCFG (cls_found owner form) = Some (None, ps)"
    using cls_search [OF t s, of form] None by simp
  then have "psdSetClsCfg owner form ps = checked (True, p1)" using p1(1) by (simp add: psdSetClsCfg_def)
  then show ?thesis using checked_tree [OF p1(3,2), of True] None by (simp add: cls_levels_def with_subs_def)
next
  case (Some i)
  note i = has_stringD [OF Some]
  let ?f = "cf_subs a ! i"
  obtain j where j: "first_index (has_id IFFFORM_CLASSDATA) (cf_subs ?f) = Some j"
    using full i by (auto simp: classes_complete_def)
  note fj = first_index_Some [OF j]
  have sub: "sub_at a [i, j] = Some (cf_subs ?f ! j)" using i fj by simp
  have d': "data_ok (cf_id (cf_subs ?f ! j)) its form" using d fj by simp
  obtain p1 where p1: "store_form ps [i, j] form = Some (True, p1)" "calm p1"
      "tree p1 (upd_at a [i, j] (contents (cf_id (cf_subs ?f ! j)) its))"
    using store_form_tree [OF t c sub d'] by blast
  have pl: "upd_at a [i, j] (contents (cf_id (cf_subs ?f ! j)) its) = plant (cls_levels owner) (contents IFFFORM_CLASSDATA its) a"
    using Some j fj by (simp add: cls_levels_def)
  have "cls_found owner form ps [i] = Some (Some True, p1)"
    using match_child [OF t, of "[]" a i owner IFFCHNK_OWNER] find_child [OF t, of "[]" a i IFFFORM_CLASSDATA] s i j p1(1)
    by (simp add: cls_found_def)
  then have "for_forms ps None IFFFORM_CLASSCFG (cls_found owner form) = Some (Some True, p1)"
    using cls_search [OF t s, of form "(True, p1)"] Some by simp
  then have "psdSetClsCfg owner form ps = checked (True, p1)" by (simp add: psdSetClsCfg_def)
  then show ?thesis using checked_tree [OF p1(3,2), of True] unfolding pl by simp
qed

end
