(* ===== verification/Cfg_Devices.thy ===== *)
theory Cfg_Devices
  imports Cfg_Settings
begin

text \<open>The setters and getters of the settings of devices and interfaces.\<close>

section \<open>The two kinds of data forms\<close>

definition data_cond :: "bytes \<Rightarrow> bytes option \<Rightarrow> cform \<Rightarrow> bool" where
  "data_cond owner ifid f \<longleftrightarrow> (case ifid of Some i \<Rightarrow> is_if owner i f
     | None \<Rightarrow> has_string IFFFORM_DEVCFGDATA IFFCHNK_OWNER owner f)"

definition data_template :: "bytes \<Rightarrow> bytes option \<Rightarrow> cform" where
  "data_template owner ifid = (case ifid of
       Some i \<Rightarrow> CForm IFFFORM_IFCFGDATA [str_chunk IFFCHNK_OWNER owner, str_chunk IFFCHNK_IFID i] []
     | None \<Rightarrow> CForm IFFFORM_DEVCFGDATA [str_chunk IFFCHNK_OWNER owner] [])"

definition key_strings :: "bytes \<Rightarrow> bytes option \<Rightarrow> bool" where
  "key_strings owner ifid \<longleftrightarrow> str_ok owner \<and> (case ifid of None \<Rightarrow> True | Some i \<Rightarrow> str_ok i)"

lemma data_levels_alt: "data_levels owner ifid =
    [(data_cond owner ifid, data_template owner ifid), (has_id (data_id ifid), CForm (data_id ifid) [] [])]"
  by (cases ifid) (simp_all add: data_levels_def data_cond_def [abs_def] data_template_def data_id_def)

lemma data_template_subs [simp]: "cf_subs (data_template owner ifid) = []"
  by (simp add: data_template_def split: option.splits)

text \<open>The test the loops over the data forms make, and the id they look for.\<close>

definition data_match :: "bytes \<Rightarrow> bytes option \<Rightarrow> psdBase \<Rightarrow> path \<Rightarrow> bool option" where
  "data_match owner ifid ps q = (case ifid of Some i \<Rightarrow> if_matches owner i ps q
     | None \<Rightarrow> match_at ps q IFFCHNK_OWNER owner)"

definition data_fid :: "bytes option \<Rightarrow> u32" where
  "data_fid ifid = (if ifid = None then IFFFORM_DEVCFGDATA else IFFFORM_IFCFGDATA)"

lemma data_form_alt: "data_form owner ifid ps p = do {
    (r, ps) \<leftarrow> for_forms ps (Some p) (data_fid ifid) (\<lambda>ps q. do {
      ok \<leftarrow> data_match owner ifid ps q;
      if ok then do { (c, ps) \<leftarrow> cls_data (data_id ifid) ps q; Some (Some c, ps) } else Some (None, ps) });
    case Option.bind r (\<lambda>c. c) of Some c \<Rightarrow> Some (Some c, ps) | None \<Rightarrow> new_data owner ifid ps p }"
proof (cases ifid)
  case None
  show ?thesis unfolding None data_form_def data_match_def data_fid_def data_id_def by simp
next
  case (Some i)
  show ?thesis unfolding Some data_form_def data_match_def data_fid_def data_id_def by simp
qed

lemma find_data_alt: "find_data owner ifid ps p = do {
    (r, _) \<leftarrow> for_forms ps (Some p) (data_fid ifid) (\<lambda>ps q. do {
      ok \<leftarrow> data_match owner ifid ps q;
      if ok then do { c \<leftarrow> psdFindCfgForm ps (Some q) (data_id ifid); Some (Some c, ps) } else Some (None, ps) });
    Some (Option.bind r (\<lambda>c. c)) }"
proof (cases ifid)
  case None
  show ?thesis unfolding None find_data_def data_match_def data_fid_def data_id_def by simp
next
  case (Some i)
  show ?thesis unfolding Some find_data_def data_match_def data_fid_def data_id_def by simp
qed

lemma data_match_tree:
  assumes "tree ps a" "sub_at a p = Some b" "i < length (cf_subs b)" "key_strings owner ifid"
    and "cf_id (cf_subs b ! i) = data_fid ifid"
  shows "data_match owner ifid ps (p @ [i]) = Some (data_cond owner ifid (cf_subs b ! i))"
proof (cases ifid)
  case None
  then show ?thesis using match_child [OF assms(1-3), of owner IFFCHNK_OWNER] assms(4,5)
    by (simp add: data_match_def data_cond_def key_strings_def has_string_def data_fid_def)
next
  case (Some j)
  then show ?thesis using match_child [OF assms(1-3), of owner IFFCHNK_OWNER]
      match_child [OF assms(1-3), of j IFFCHNK_IFID] assms(4,5)
    by (simp add: data_match_def data_cond_def key_strings_def is_if_def data_fid_def if_matches_def)
qed

lemma data_cond_fid: "(\<lambda>f. cf_id f = data_fid ifid \<and> data_cond owner ifid f) = data_cond owner ifid"
  by (rule ext) (auto simp: data_cond_def data_fid_def is_if_def has_string_def split: option.splits)

lemma data_condD: "data_cond owner ifid f \<Longrightarrow> cf_id f = data_fid ifid"
  by (auto simp: data_cond_def data_fid_def is_if_def has_string_def split: option.splits)

lemma data_cond_first: "first_index (data_cond owner ifid) fs = Some i \<Longrightarrow>
    i < length fs \<and> cf_id (fs ! i) = data_fid ifid \<and> data_cond owner ifid (fs ! i)"
  using first_index_Some [of "data_cond owner ifid" fs i] data_condD by blast

lemma data_search:
  assumes t: "tree ps a" and b: "sub_at a p = Some b" and k: "key_strings owner ifid"
    and found: "\<And>i. first_index (data_cond owner ifid) (cf_subs b) = Some i \<Longrightarrow>
      act ps (p @ [i]) = Some (Some (fst res), snd res)"
  shows "for_forms ps (Some p) (data_fid ifid) (\<lambda>ps q. do {
      ok \<leftarrow> data_match owner ifid ps q; if ok then act ps q else Some (None, ps) }) =
    (case first_index (data_cond owner ifid) (cf_subs b) of
       None \<Rightarrow> Some (None, ps) | Some i \<Rightarrow> Some (Some (fst res), snd res))"
proof -
  let ?hit = "\<lambda>f. cf_id f = data_fid ifid \<and> data_cond owner ifid f"
  let ?body = "\<lambda>ps q. do { ok \<leftarrow> data_match owner ifid ps q; if ok then act ps q else Some (None, ps) }"
  have "for_forms ps (Some p) (data_fid ifid) ?body = (case first_index ?hit (cf_subs b) of
      None \<Rightarrow> Some (None, ps) | Some i \<Rightarrow> Some (Some (fst res), snd res))"
  proof (rule for_forms_search [OF t start_at_Some b])
    fix i assume "first_index ?hit (cf_subs b) = Some i"
    then have f: "first_index (data_cond owner ifid) (cf_subs b) = Some i" unfolding data_cond_fid .
    note i = data_cond_first [OF f]
    show "?body ps (p @ [i]) = Some (Some (fst res), snd res)"
      using data_match_tree [OF t b _ k] i found [OF f] by simp
  qed (use data_match_tree [OF t b _ k] in simp)
  then show ?thesis unfolding data_cond_fid .
qed

lemma find_data_walk:
  assumes t: "tree ps a" and b: "sub_at a p = Some b" and k: "key_strings owner ifid"
  shows "find_data owner ifid ps p = Some (map_option (\<lambda>q. p @ q) (walk (data_levels owner ifid) b))"
proof -
  let ?q = "case first_index (data_cond owner ifid) (cf_subs b) of None \<Rightarrow> None
    | Some i \<Rightarrow> map_option (\<lambda>j. p @ [i, j]) (first_index (has_id (data_id ifid)) (cf_subs (cf_subs b ! i)))"
  have "for_forms ps (Some p) (data_fid ifid) (\<lambda>ps q. do {
      ok \<leftarrow> data_match owner ifid ps q;
      if ok then do { c \<leftarrow> psdFindCfgForm ps (Some q) (data_id ifid); Some (Some c, ps) } else Some (None, ps) }) =
    (case first_index (data_cond owner ifid) (cf_subs b) of
       None \<Rightarrow> Some (None, ps) | Some i \<Rightarrow> Some (Some (fst (?q, ps)), snd (?q, ps)))"
  proof (rule data_search [OF t b k])
    fix i assume f: "first_index (data_cond owner ifid) (cf_subs b) = Some i"
    then show "do { c \<leftarrow> psdFindCfgForm ps (Some (p @ [i])) (data_id ifid); Some (Some c, ps) } =
        Some (Some (fst (?q, ps)), snd (?q, ps))"
      using find_child [OF t b, of i "data_id ifid"] data_cond_first [OF f] by simp
  qed
  then show ?thesis unfolding find_data_alt data_levels_alt
    by (simp add: option.map_comp comp_def split: option.splits)
qed

section \<open>Making a data form\<close>

lemma str_small: "str_ok s \<Longrightarrow> length s < 65536"
  by (simp add: str_ok_def)

lemma chunk_small: "str_ok s \<Longrightarrow> length (area [str_chunk cid s]) < 1073741824"
  using length_str_chunk [OF str_small, of s cid] by (simp add: str_ok_def)

text \<open>Adding a string to the form that was added last.\<close>

lemma add_string_last:
  assumes "tree ps (upd_at a p (with_subs b (cf_subs b @ [t])))" "calm ps" "sub_at a p = Some b"
    and "cid \<noteq> ID_FORM" "str_ok s" "length (area (cf_chunks t)) < 1073741824"
  shows "\<exists>ps'. add_string ps (p @ [length (cf_subs b)]) cid s = Some (True, ps') \<and> calm ps' \<and>
    tree ps' (upd_at a p (with_subs b (cf_subs b @ [with_string t cid s])))"
proof -
  let ?b = "with_subs b (cf_subs b @ [t])"
  have "sub_at (upd_at a p ?b) (p @ [length (cf_subs b)]) = Some t"
    using sub_at_upd [OF assms(3), of ?b "[length (cf_subs b)]"] by simp
  then show ?thesis
    using add_string_tree [OF assms(1,2) _ assms(4) str_small [OF assms(5)] assms(6)] upd_at_upd [OF assms(3)]
    by fastforce
qed

lemma alloc_form_last:
  assumes "tree ps (upd_at a p (with_subs b (cf_subs b @ [t])))" "calm ps" "sub_at a p = Some b"
  shows "\<exists>ps'. alloc_form ps (p @ [length (cf_subs b)]) fid =
      Some (Some (p @ [length (cf_subs b), length (cf_subs t)]), ps') \<and> calm ps' \<and>
    tree ps' (upd_at a p (with_subs b (cf_subs b @ [grown t fid])))"
proof -
  let ?b = "with_subs b (cf_subs b @ [t])"
  have "sub_at (upd_at a p ?b) (p @ [length (cf_subs b)]) = Some t"
    using sub_at_upd [OF assms(3), of ?b "[length (cf_subs b)]"] by simp
  then show ?thesis
    using alloc_form_tree [OF assms(1,2)] upd_at_upd [OF assms(3)] by fastforce
qed

lemma new_data_tree:
  assumes t: "tree ps a" and c: "calm ps" and b: "sub_at a p = Some b" and k: "key_strings owner ifid"
  shows "\<exists>ps'. new_data owner ifid ps p = Some (Some (p @ [length (cf_subs b), 0]), ps') \<and> calm ps' \<and>
    tree ps' (upd_at a p (with_subs b (cf_subs b @ [grown (data_template owner ifid) (data_id ifid)])))"
proof -
  let ?n = "length (cf_subs b)" and ?t = "CForm (data_fid ifid) [] []"
  obtain p1 where p1: "alloc_form ps p (data_fid ifid) = Some (Some (p @ [?n]), p1)"
      "tree p1 (upd_at a p (with_subs b (cf_subs b @ [?t])))" "calm p1"
    using alloc_form_tree [OF t c b] by (auto simp: grown_def)
  have so: "str_ok owner" using k by (simp add: key_strings_def)
  obtain p2 where p2: "add_string p1 (p @ [?n]) IFFCHNK_OWNER owner = Some (True, p2)" "calm p2"
      "tree p2 (upd_at a p (with_subs b (cf_subs b @ [with_string ?t IFFCHNK_OWNER owner])))"
    using add_string_last [OF p1(2,3) b, of IFFCHNK_OWNER owner] so by auto
  show ?thesis
  proof (cases ifid)
    case None
    obtain p3 where p3: "alloc_form p2 (p @ [?n]) IFFFORM_DEVCLSDATA = Some (Some (p @ [?n, 0]), p3)" "calm p3"
      "tree p3 (upd_at a p (with_subs b (cf_subs b @ [grown (with_string ?t IFFCHNK_OWNER owner) IFFFORM_DEVCLSDATA])))"
      using alloc_form_last [OF p2(3,2) b, of IFFFORM_DEVCLSDATA] by (auto simp: with_string_def)
    then show ?thesis using p1 p2 None
      by (simp add: new_data_def new_dev_data_def data_fid_def data_id_def data_template_def with_string_def put_chunk_def)
  next
    case (Some i)
    have si: "str_ok i" using k Some by (simp add: key_strings_def)
    let ?t2 = "with_string ?t IFFCHNK_OWNER owner" and ?t3 = "with_string (with_string ?t IFFCHNK_OWNER owner) IFFCHNK_IFID i"
    have "length (area (cf_chunks ?t2)) < 1073741824" using chunk_small [OF so] by (simp add: with_string_def put_chunk_def)
    then obtain p3 where p3: "add_string p2 (p @ [?n]) IFFCHNK_IFID i = Some (True, p3)" "calm p3"
        "tree p3 (upd_at a p (with_subs b (cf_subs b @ [?t3])))"
      using add_string_last [OF p2(3,2) b, of IFFCHNK_IFID i] si by auto
    obtain p4 where p4: "alloc_form p3 (p @ [?n]) IFFFORM_IFCLSDATA = Some (Some (p @ [?n, 0]), p4)" "calm p4"
      "tree p4 (upd_at a p (with_subs b (cf_subs b @ [grown ?t3 IFFFORM_IFCLSDATA])))"
      using alloc_form_last [OF p3(3,2) b, of IFFFORM_IFCLSDATA] by (auto simp: with_string_def)
    have "?t3 = data_template owner ifid" using Some
      by (simp add: data_template_def data_fid_def with_string_def put_chunk_def str_chunk_def)
    then show ?thesis using p1 p2 p3 p4 Some
      by (simp add: new_data_def new_if_data_def data_fid_def data_id_def)
  qed
qed

section \<open>Finding or making the form for the settings\<close>

lemma plant_at: "walk ls b = Some q \<Longrightarrow> upd_at b q v = plant ls v b"
  by (induction ls arbitrary: b q) (auto split: option.splits)

lemma walk_sub: "walk ls b = Some q \<Longrightarrow> \<exists>c. sub_at b q = Some c \<and> (ls \<noteq> [] \<longrightarrow> fst (last ls) c)"
proof (induction ls arbitrary: b q)
  case (Cons l ls)
  then obtain i q' where i: "first_index (fst l) (cf_subs b) = Some i" "walk ls (cf_subs b ! i) = Some q'" "q = i # q'"
    by (auto split: option.splits)
  then show ?case using Cons.IH [OF i(2)] first_index_Some [OF i(1)] by auto
qed simp

lemma data_form_tree:
  assumes t: "tree ps a" and c: "calm ps" and b: "sub_at a p = Some b" and k: "key_strings owner ifid"
  shows "\<exists>b' q ps'. data_form owner ifid ps p = Some (Some (p @ q), ps') \<and> calm ps' \<and> tree ps' (upd_at a p b') \<and>
    (\<exists>d. sub_at b' q = Some d \<and> cf_id d = data_id ifid) \<and> (\<forall>v. upd_at b' q v = plant (data_levels owner ifid) v b)"
proof -
  note ds = data_search [OF t b k, where act = "\<lambda>ps q. do { (c, ps) \<leftarrow> cls_data (data_id ifid) ps q; Some (Some c, ps) }"]
  show ?thesis
  proof (cases "first_index (data_cond owner ifid) (cf_subs b)")
    case None
    obtain p1 where p1: "new_data owner ifid ps p = Some (Some (p @ [length (cf_subs b), 0]), p1)" "calm p1"
      "tree p1 (upd_at a p (with_subs b (cf_subs b @ [grown (data_template owner ifid) (data_id ifid)])))"
      using new_data_tree [OF assms] by blast
    have "data_form owner ifid ps p = Some (Some (p @ [length (cf_subs b), 0]), p1)"
      unfolding data_form_alt using ds None p1(1) by simp
    then show ?thesis using p1 None
      by (intro exI [of _ "with_subs b (cf_subs b @ [grown (data_template owner ifid) (data_id ifid)])"]
          exI [of _ "[length (cf_subs b), 0]"] exI [of _ p1]) (simp add: data_levels_alt grown_def)
  next
    case (Some i)
    note i = data_cond_first [OF Some]
    let ?f = "cf_subs b ! i"
    note s = sub_at_child [OF b conjunct1 [OF i]]
    note fc = find_child [OF t b conjunct1 [OF i], of "data_id ifid"]
    show ?thesis
    proof (cases "first_index (has_id (data_id ifid)) (cf_subs ?f)")
      case j: (Some j)
      note fj = first_index_Some [OF j]
      have "data_form owner ifid ps p = Some (Some (p @ [i, j]), ps)"
        unfolding data_form_alt using ds [where res = "(Some (p @ [i, j]), ps)"] Some fc j
        by (simp add: cls_data_def)
      then show ?thesis using t c i fj Some j upd_at_same [OF b]
        by (intro exI [of _ b] exI [of _ "[i, j]"] exI [of _ ps]) (simp add: data_levels_alt)
    next
      case j: None
      let ?n = "length (cf_subs ?f)"
      obtain p1 where p1: "alloc_form ps (p @ [i]) (data_id ifid) = Some (Some (p @ [i, ?n]), p1)" "calm p1"
        "tree p1 (upd_at a (p @ [i]) (grown ?f (data_id ifid)))"
        using alloc_form_tree [OF t c s, of "data_id ifid"] by auto
      have e: "upd_at a (p @ [i]) x = upd_at a p (with_subs b ((cf_subs b)[i := x]))" for x
        using upd_at_upd [OF b, of b "[i]" x] upd_at_same [OF b] by simp
      have "data_form owner ifid ps p = Some (Some (p @ [i, ?n]), p1)"
        unfolding data_form_alt using ds [where res = "(Some (p @ [i, ?n]), p1)"] Some fc j p1(1)
        by (simp add: cls_data_def)
      then show ?thesis using p1(2,3) i Some j unfolding e
        by (intro exI [of _ "with_subs b ((cf_subs b)[i := grown ?f (data_id ifid)])"] exI [of _ "[i, ?n]"] exI [of _ p1])
          (simp add: data_levels_alt grown_def)
    qed
  qed
qed

section \<open>Device settings\<close>

lemma dev_key_ok_iff: "dev_key_ok (owner, devid, ifid) \<longleftrightarrow> str_ok devid \<and> key_strings owner ifid"
  by (auto simp: dev_key_ok_def key_strings_def)

lemma dev_first: "(\<lambda>f. cf_id f = fid \<and> str_at (cf_chunks f) cid = Some s) = has_string fid cid s"
  by (rule ext) (simp add: has_string_def)

lemma dev_search:
  assumes t: "tree ps a" and s: "str_ok devid"
    and found: "\<And>i. first_index (has_string IFFFORM_DEVICECFG IFFCHNK_DEVID devid) (cf_subs a) = Some i \<Longrightarrow>
      act ps [i] = Some (Some (fst res), snd res)"
  shows "for_forms ps None IFFFORM_DEVICECFG (\<lambda>ps p. do {
      ok \<leftarrow> match_at ps p IFFCHNK_DEVID devid; if ok then act ps p else Some (None, ps) }) =
    (case first_index (has_string IFFFORM_DEVICECFG IFFCHNK_DEVID devid) (cf_subs a) of
       None \<Rightarrow> Some (None, ps) | Some i \<Rightarrow> Some (Some (fst res), snd res))"
  unfolding dev_first [symmetric]
proof (rule for_forms_search [where p = "[]" and b = a, OF t start_at_root [OF t]])
  note m = match_child [OF t, of "[]" a _ devid IFFCHNK_DEVID, simplified]
  fix i assume "first_index (\<lambda>f. cf_id f = IFFFORM_DEVICECFG \<and> str_at (cf_chunks f) IFFCHNK_DEVID = Some devid) (cf_subs a) = Some i"
  then have f: "first_index (has_string IFFFORM_DEVICECFG IFFCHNK_DEVID devid) (cf_subs a) = Some i" unfolding dev_first .
  show "do { ok \<leftarrow> match_at ps ([] @ [i]) IFFCHNK_DEVID devid; if ok then act ps ([] @ [i]) else Some (None, ps) } =
      Some (Some (fst res), snd res)"
    using m s has_stringD [OF f] found [OF f] by simp
next
  fix i assume "i < length (cf_subs a)" "str_at (cf_chunks (cf_subs a ! i)) IFFCHNK_DEVID \<noteq> Some devid"
  then show "do { ok \<leftarrow> match_at ps ([] @ [i]) IFFCHNK_DEVID devid; if ok then act ps ([] @ [i]) else Some (None, ps) } =
      Some (None, ps)"
    using match_child [OF t, of "[]" a i devid IFFCHNK_DEVID] s by simp
qed simp

lemma psdGetUsbDevCfg_walk:
  assumes t: "tree ps a" and k: "dev_key_ok (owner, devid, ifid)"
  shows "psdGetUsbDevCfg owner devid ifid ps = Some (walk (dev_levels (owner, devid, ifid)) a)"
proof -
  let ?fi = "first_index (has_string IFFFORM_DEVICECFG IFFCHNK_DEVID devid) (cf_subs a)"
  let ?q = "case ?fi of None \<Rightarrow> None
    | Some i \<Rightarrow> map_option (\<lambda>q. i # q) (walk (data_levels owner ifid) (cf_subs a ! i))"
  have s: "str_ok devid" "key_strings owner ifid" using k by (simp_all add: dev_key_ok_iff)
  have "for_forms ps None IFFFORM_DEVICECFG (\<lambda>ps p. do {
       ok \<leftarrow> match_at ps p IFFCHNK_DEVID devid;
       if ok then do { c \<leftarrow> find_data owner ifid ps p; Some (Some c, ps) } else Some (None, ps) }) =
    (case ?fi of None \<Rightarrow> Some (None, ps) | Some i \<Rightarrow> Some (Some (fst (?q, ps)), snd (?q, ps)))"
  proof (rule dev_search [OF t s(1)])
    fix i assume f: "?fi = Some i"
    have "sub_at a [i] = Some (cf_subs a ! i)" using has_stringD [OF f] by simp
    then show "do { c \<leftarrow> find_data owner ifid ps [i]; Some (Some c, ps) } = Some (Some (fst (?q, ps)), snd (?q, ps))"
      using find_data_walk [OF t _ s(2)] f by simp
  qed
  then show ?thesis unfolding psdGetUsbDevCfg_def dev_levels_def
    by (simp add: option.map_comp comp_def split: option.splits)
qed

lemma dev_create_tree:
  assumes t: "tree ps a" and c: "calm ps" and k: "dev_key_ok (owner, devid, ifid)"
    and d: "data_ok (data_id ifid) its form"
  shows "\<exists>ps'. dev_create owner devid ifid form ps = Some (True, ps') \<and> calm ps' \<and>
    tree ps' (with_subs a (cf_subs a @ [plant (data_levels owner ifid) (contents (data_id ifid) its)
      (CForm IFFFORM_DEVICECFG [str_chunk IFFCHNK_DEVID devid] [])]))"
proof -
  have s: "str_ok devid" "key_strings owner ifid" using k by (simp_all add: dev_key_ok_iff)
  let ?n = "length (cf_subs a)" and ?t = "CForm IFFFORM_DEVICECFG [] []"
  let ?t2 = "CForm IFFFORM_DEVICECFG [str_chunk IFFCHNK_DEVID devid] []"
  obtain p1 where p1: "alloc_form ps [] IFFFORM_DEVICECFG = Some (Some [?n], p1)"
      "tree p1 (upd_at a [] (with_subs a (cf_subs a @ [?t])))" "calm p1"
    using alloc_form_tree [OF t c, of "[]" a IFFFORM_DEVICECFG] by (auto simp: grown_def)
  obtain p2 where p2: "add_string p1 [?n] IFFCHNK_DEVID devid = Some (True, p2)" "calm p2"
      "tree p2 (with_subs a (cf_subs a @ [?t2]))"
    using add_string_last [OF p1(2,3), of IFFCHNK_DEVID devid] s(1) by (auto simp: with_string_def put_chunk_def)
  let ?a2 = "with_subs a (cf_subs a @ [?t2])"
  let ?t3 = "with_subs ?t2 [grown (data_template owner ifid) (data_id ifid)]"
  have b2: "sub_at ?a2 [?n] = Some ?t2" by simp
  obtain p3 where p3: "new_data owner ifid p2 [?n] = Some (Some [?n, 0, 0], p3)" "calm p3"
      "tree p3 (upd_at ?a2 [?n] ?t3)"
    using new_data_tree [OF p2(3,2) b2 s(2)] by auto
  have b3: "sub_at (upd_at ?a2 [?n] ?t3) [?n, 0, 0] = Some (CForm (data_id ifid) [] [])" by (simp add: grown_def)
  obtain p4 where p4: "store_form p3 [?n, 0, 0] form = Some (True, p4)" "calm p4"
      "tree p4 (upd_at (upd_at ?a2 [?n] ?t3) [?n, 0, 0] (contents (data_id ifid) its))"
    using store_form_tree [OF p3(3,2) b3, of its form] d by auto
  have "upd_at (upd_at ?a2 [?n] ?t3) [?n, 0, 0] (contents (data_id ifid) its) =
      with_subs a (cf_subs a @ [plant (data_levels owner ifid) (contents (data_id ifid) its) ?t2])"
    by (simp add: data_levels_alt grown_def)
  moreover obtain root where "ps_ConfigRoot ps = Some root" using t by (auto simp: tree_def)
  ultimately show ?thesis using p1(1) p2(1) p3(1) p4 by (simp add: dev_create_def)
qed

lemma psdSetUsbDevCfg_plant:
  assumes t: "tree ps a" and c: "calm ps" and k: "dev_key_ok (owner, devid, ifid)"
    and d: "data_ok (data_id ifid) its form"
  shows "\<exists>ps'. psdSetUsbDevCfg owner devid ifid form ps = Some (True, ps') \<and> calm ps' \<and>
    tree ps' (plant (dev_levels (owner, devid, ifid)) (contents (data_id ifid) its) a)"
proof -
  let ?fi = "first_index (has_string IFFFORM_DEVICECFG IFFCHNK_DEVID devid) (cf_subs a)"
  let ?act = "\<lambda>ps p. do { (c, ps) \<leftarrow> data_form owner ifid ps p;
    case c of Some c \<Rightarrow> do { (r, ps) \<leftarrow> store_form ps c form; Some (Some r, ps) } | None \<Rightarrow> Some (None, ps) }"
  have s: "str_ok devid" "key_strings owner ifid" using k by (simp_all add: dev_key_ok_iff)
  have df: "dev_found owner devid ifid form = (\<lambda>ps p. do {
      ok \<leftarrow> match_at ps p IFFCHNK_DEVID devid; if ok then ?act ps p else Some (None, ps) })"
    by (intro ext) (simp add: dev_found_def)
  note ds = dev_search [OF t s(1), of ?act, folded df]
  show ?thesis
  proof (cases ?fi)
    case None
    obtain p1 where p1: "dev_create owner devid ifid form ps = Some (True, p1)" "calm p1"
      "tree p1 (plant (dev_levels (owner, devid, ifid)) (contents (data_id ifid) its) a)"
      using dev_create_tree [OF t c k d] None by (auto simp: dev_levels_def)
    have "psdSetUsbDevCfg owner devid ifid form ps = checked (True, p1)"
      using ds None p1(1) by (simp add: psdSetUsbDevCfg_def)
    then show ?thesis using checked_tree [OF p1(3,2), of True] by simp
  next
    case (Some i)
    have b: "sub_at a [i] = Some (cf_subs a ! i)" using has_stringD [OF Some] by simp
    obtain b' q p1 e where p1: "data_form owner ifid ps [i] = Some (Some ([i] @ q), p1)" "calm p1" "tree p1 (upd_at a [i] b')"
      and q: "sub_at b' q = Some e" "cf_id e = data_id ifid" and pl: "\<And>v. upd_at b' q v = plant (data_levels owner ifid) v (cf_subs a ! i)"
      using data_form_tree [OF t c b s(2)] by blast
    have sq: "sub_at (upd_at a [i] b') ([i] @ q) = Some e" using sub_at_upd [OF b, of b' q] q(1) by simp
    obtain p2 where p2: "store_form p1 ([i] @ q) form = Some (True, p2)" "calm p2"
        "tree p2 (upd_at (upd_at a [i] b') ([i] @ q) (contents (data_id ifid) its))"
      using store_form_tree [OF p1(3,2) sq, of its form] d q(2) by auto
    have "upd_at (upd_at a [i] b') ([i] @ q) (contents (data_id ifid) its) =
        plant (dev_levels (owner, devid, ifid)) (contents (data_id ifid) its) a"
      using upd_at_upd [OF b, of b' q] pl Some by (simp add: dev_levels_def)
    then have t2: "tree p2 (plant (dev_levels (owner, devid, ifid)) (contents (data_id ifid) its) a)" using p2(3) by simp
    have "?act ps [i] = Some (Some True, p2)" using p1(1) p2(1) by simp
    then have "for_forms ps None IFFFORM_DEVICECFG (dev_found owner devid ifid form) = Some (Some True, p2)"
      using ds [of "(True, p2)"] Some by simp
    then have "psdSetUsbDevCfg owner devid ifid form ps = checked (True, p2)" by (simp add: psdSetUsbDevCfg_def)
    then show ?thesis using checked_tree [OF t2 p2(2), of True] by simp
  qed
qed

end
