(* ===== verification/Cfg_Runs.thy ===== *)
theory Cfg_Runs
  imports Cfg_Devices
begin

text \<open>
  The interface of the settings: a setter that stores at the end of a key's chain, and a getter
  that follows it. Whatever is set in whatever order, the last settings of a key are found under
  it and other keys keep theirs; both kinds of settings are instances.
\<close>

section \<open>Runs of a setter\<close>

fun run_sets :: "('k \<Rightarrow> 'v \<Rightarrow> psdBase \<Rightarrow> (bool \<times> psdBase) option) \<Rightarrow> ('k \<times> 'v) list \<Rightarrow> psdBase \<Rightarrow> psdBase option" where
  "run_sets put [] ps = Some ps"
| "run_sets put ((k, v) # kvs) ps = (case put k v ps of
     Some (True, ps') \<Rightarrow> run_sets put kvs ps' | _ \<Rightarrow> None)"

text \<open>The pointer \<open>q\<close> a getter gave leads to a form with these contents, or is NULL.\<close>

definition shows_form :: "psdBase \<Rightarrow> path option option \<Rightarrow> cform option \<Rightarrow> bool" where
  "shows_form ps q c \<longleftrightarrow> (case c of None \<Rightarrow> q = Some None
     | Some c \<Rightarrow> \<exists>p f. q = Some (Some p) \<and> get_form ps p = Some f \<and> rep c f)"

lemma shows_look: "tree ps a \<Longrightarrow> shows_form ps (Some (walk ls a)) (look ls a)"
proof (cases "walk ls a")
  case (Some q)
  assume t: "tree ps a"
  obtain c where c: "sub_at a q = Some c" using walk_sub [OF Some] by blast
  then show ?thesis using get_form_rep [OF t c] Some by (auto simp: shows_form_def look_def)
qed (simp add: shows_form_def look_def)

locale keyed_settings = form_keys levels key_ok
  for levels :: "'k \<Rightarrow> level list" and key_ok :: "'k \<Rightarrow> bool" +
  fixes put :: "'k \<Rightarrow> 'v \<Rightarrow> psdBase \<Rightarrow> (bool \<times> psdBase) option"
    and get :: "'k \<Rightarrow> psdBase \<Rightarrow> path option option"
    and val_ok :: "'k \<Rightarrow> 'v \<Rightarrow> bool" and val :: "'k \<Rightarrow> 'v \<Rightarrow> cform" and whole :: "cform \<Rightarrow> bool"
  assumes put_plant: "tree ps a \<Longrightarrow> calm ps \<Longrightarrow> whole a \<Longrightarrow> key_ok k \<Longrightarrow> val_ok k v \<Longrightarrow>
      \<exists>ps'. put k v ps = Some (True, ps') \<and> calm ps' \<and> tree ps' (plant (levels k) (val k v) a)"
    and get_walk: "tree ps a \<Longrightarrow> key_ok k \<Longrightarrow> get k ps = Some (walk (levels k) a)"
    and val_fits: "key_ok k \<Longrightarrow> val_ok k v \<Longrightarrow> holds_key (levels k) (val k v)"
    and whole_plant: "whole a \<Longrightarrow> key_ok k \<Longrightarrow> val_ok k v \<Longrightarrow> whole (plant (levels k) (val k v) a)"
begin

lemma run_plants:
  assumes "tree ps a" "calm ps" "whole a" "\<forall>(k, v) \<in> set kvs. key_ok k \<and> val_ok k v"
  shows "\<exists>ps'. run_sets put kvs ps = Some ps' \<and> calm ps' \<and>
    tree ps' (foldl (\<lambda>a (k, v). plant (levels k) v a) a (map (\<lambda>(k, v). (k, val k v)) kvs))"
  using assms
proof (induction kvs arbitrary: ps a)
  case (Cons kv kvs)
  obtain k v where kv: "kv = (k, v)" by fastforce
  have ok: "key_ok k" "val_ok k v" "\<forall>(k, v) \<in> set kvs. key_ok k \<and> val_ok k v" using Cons.prems(4) by (auto simp: kv)
  obtain p where p: "put k v ps = Some (True, p)" "calm p" "tree p (plant (levels k) (val k v) a)"
    using put_plant [OF Cons.prems(1-3) ok(1,2)] by blast
  then show ?case using Cons.IH [OF p(3,2) whole_plant [OF Cons.prems(3) ok(1,2)] ok(3)] by (simp add: kv)
qed simp

lemma run_whole:
  assumes "tree ps a" "calm ps" "whole a" "\<forall>(k, v) \<in> set kvs. key_ok k \<and> val_ok k v" "run_sets put kvs ps = Some ps'"
  shows "\<exists>a'. tree ps' a' \<and> calm ps' \<and> whole a'"
  using assms
proof (induction kvs arbitrary: ps a)
  case (Cons kv kvs)
  obtain k v where kv: "kv = (k, v)" by fastforce
  have ok: "key_ok k" "val_ok k v" "\<forall>(k, v) \<in> set kvs. key_ok k \<and> val_ok k v" using Cons.prems(4) by (auto simp: kv)
  obtain p where p: "put k v ps = Some (True, p)" "calm p" "tree p (plant (levels k) (val k v) a)"
    using put_plant [OF Cons.prems(1-3) ok(1,2)] by blast
  then show ?case using Cons.IH [OF p(3,2) whole_plant [OF Cons.prems(3) ok(1,2)] ok(3)] Cons.prems(5) by (simp add: kv)
qed auto

lemma sets_kept:
  assumes "tree ps a" "calm ps" "whole a" "\<forall>(k, v) \<in> set kvs. key_ok k \<and> val_ok k v"
  shows "\<exists>ps'. run_sets put kvs ps = Some ps' \<and> (\<forall>k. key_ok k \<longrightarrow>
    (\<exists>c. shows_form ps (get k ps) c \<and>
      shows_form ps' (get k ps') (case map_of (rev kvs) k of Some v \<Rightarrow> Some (val k v) | None \<Rightarrow> c)))"
proof -
  let ?kvs = "map (\<lambda>(k, v). (k, val k v)) kvs"
  let ?a = "foldl (\<lambda>a (k, v). plant (levels k) v a) a ?kvs"
  obtain ps' where p: "run_sets put kvs ps = Some ps'" "tree ps' ?a" using run_plants [OF assms] by blast
  have f: "\<forall>(k, v) \<in> set ?kvs. key_ok k \<and> holds_key (levels k) v" using assms(4) val_fits by fastforce
  have m: "map_of (rev ?kvs) k = map_option (val k) (map_of (rev kvs) k)" for k
  proof -
    have "map_of (map (\<lambda>(k, v). (k, val k v)) xs) k = map_option (val k) (map_of xs k)" for xs :: "('k \<times> 'v) list"
      by (induction xs) auto
    then show ?thesis by (simp add: rev_map)
  qed
  have "shows_form ps (get k ps) (look (levels k) a)" if "key_ok k" for k
    using shows_look [OF assms(1)] get_walk [OF assms(1) that] by simp
  moreover have "shows_form ps' (get k ps') (case map_of (rev kvs) k of Some v \<Rightarrow> Some (val k v) | None \<Rightarrow> look (levels k) a)"
    if k: "key_ok k" for k
    using shows_look [OF p(2), of "levels k"] get_walk [OF p(2) k] look_run [OF f k, of a] unfolding m
    by (cases "map_of (rev kvs) k") simp_all
  ultimately show ?thesis using p(1) by blast
qed

end

section \<open>The two kinds of settings\<close>

type_synonym settings = "item list \<times> bytes option"

text \<open>The contents of the caller's form, and the form as it is given.\<close>

lemma classes_complete_plant:
  assumes "classes_complete a"
  shows "classes_complete (plant (cls_levels owner) (contents IFFFORM_CLASSDATA its) a)"
proof -
  let ?P = "has_string IFFFORM_CLASSCFG IFFCHNK_OWNER owner" and ?v = "contents IFFFORM_CLASSDATA its"
  let ?t = "CForm IFFFORM_CLASSCFG [str_chunk IFFCHNK_OWNER owner] []"
  have full: "first_index (has_id IFFFORM_CLASSDATA) (cf_subs (plant [(has_id IFFFORM_CLASSDATA, t)] ?v f)) \<noteq> None" for f t
    by (auto simp: first_index_append first_index_update dest: first_index_Some split: option.splits)
  have "cf_subs (plant (cls_levels owner) ?v a) = (case first_index ?P (cf_subs a) of
      Some i \<Rightarrow> (cf_subs a)[i := plant [(has_id IFFFORM_CLASSDATA, CForm IFFFORM_CLASSDATA [] [])] ?v (cf_subs a ! i)]
    | None \<Rightarrow> cf_subs a @ [plant [(has_id IFFFORM_CLASSDATA, CForm IFFFORM_CLASSDATA [] [])] ?v ?t])"
    by (simp add: cls_levels_def split: option.splits)
  then show ?thesis using assms full
    by (auto simp: classes_complete_def simp del: plant.simps split: option.splits dest!: set_update_subset_insert [THEN subsetD])
qed

lemma last_cls_level: "fst (last (cls_levels owner)) = has_id IFFFORM_CLASSDATA"
  by (simp add: cls_levels_def)

interpretation cls_settings: keyed_settings cls_levels str_ok "\<lambda>owner s. psdSetClsCfg owner (snd s)" psdGetClsCfg
  "\<lambda>owner s. data_ok IFFFORM_CLASSDATA (fst s) (snd s)" "\<lambda>owner s. contents IFFFORM_CLASSDATA (fst s)" classes_complete
proof
  fix ps a k and v :: settings
  assume "tree ps a" "calm ps" "classes_complete a" "str_ok k" "data_ok IFFFORM_CLASSDATA (fst v) (snd v)"
  then show "\<exists>ps'. psdSetClsCfg k (snd v) ps = Some (True, ps') \<and> calm ps' \<and>
      tree ps' (plant (cls_levels k) (contents IFFFORM_CLASSDATA (fst v)) a)"
    using psdSetClsCfg_plant by blast
qed (simp_all add: psdGetClsCfg_walk classes_complete_plant holds_key_def last_cls_level)

interpretation dev_settings: keyed_settings dev_levels dev_key_ok
  "\<lambda>(owner, devid, ifid) s. psdSetUsbDevCfg owner devid ifid (snd s)"
  "\<lambda>(owner, devid, ifid). psdGetUsbDevCfg owner devid ifid"
  "\<lambda>(owner, devid, ifid) s. data_ok (data_id ifid) (fst s) (snd s)"
  "\<lambda>(owner, devid, ifid) s. contents (data_id ifid) (fst s)" "\<lambda>_. True"
proof
  fix ps a and k :: dev_key and v :: settings
  obtain owner devid ifid where k: "k = (owner, devid, ifid)" by (cases k)
  assume "tree ps a" "calm ps" "dev_key_ok k" "(\<lambda>(owner, devid, ifid) s. data_ok (data_id ifid) (fst s) (snd s)) k v"
  then show "\<exists>ps'. (\<lambda>(owner, devid, ifid) s. psdSetUsbDevCfg owner devid ifid (snd s)) k v ps = Some (True, ps') \<and> calm ps' \<and>
      tree ps' (plant (dev_levels k) ((\<lambda>(owner, devid, ifid) s. contents (data_id ifid) (fst s)) k v) a)"
    using psdSetUsbDevCfg_plant unfolding k by (simp only: prod.case)
next
  fix ps a and k :: dev_key
  assume "tree ps a" "dev_key_ok k"
  then show "(\<lambda>(owner, devid, ifid). psdGetUsbDevCfg owner devid ifid) k ps = Some (walk (dev_levels k) a)"
    using psdGetUsbDevCfg_walk by (cases k) simp
next
  fix k :: dev_key and v :: settings
  show "holds_key (dev_levels k) ((\<lambda>(owner, devid, ifid) s. contents (data_id ifid) (fst s)) k v)"
    by (cases k) (simp add: holds_key_def dev_levels_def data_levels_alt)
qed simp

end
