(* ===== verification/Cfg_Binding.thy ===== *)
theory Cfg_Binding
  imports Cfg_Devices
begin

text \<open>
  Forced bindings: the owner that psdSetForcedBinding() stores for a device or an interface is the
  one psdGetForcedBinding() gives, until it is stored anew or removed.
\<close>

section \<open>Where a binding is found\<close>

abbreviation dev_of :: "bytes \<Rightarrow> cform \<Rightarrow> bool" where
  "dev_of devid \<equiv> has_string IFFFORM_DEVICECFG IFFCHNK_DEVID devid"

abbreviation if_of :: "bytes \<Rightarrow> cform \<Rightarrow> bool" where
  "if_of ifid \<equiv> has_string IFFFORM_IFCFGDATA IFFCHNK_IFID ifid"

definition binding :: "cform \<Rightarrow> bytes option" where
  "binding f = str_at (cf_chunks f) IFFCHNK_FORCEDBIND"

definition bound_in :: "bytes option \<Rightarrow> cform \<Rightarrow> bytes option" where
  "bound_in ifid d = (case ifid of None \<Rightarrow> binding d
     | Some i \<Rightarrow> Option.bind (first_index (\<lambda>f. if_of i f \<and> binding f \<noteq> None) (cf_subs d)) (\<lambda>j. binding (cf_subs d ! j)))"

definition bound_to :: "bytes \<Rightarrow> bytes option \<Rightarrow> cform \<Rightarrow> bytes option" where
  "bound_to devid ifid a = Option.bind (first_index (dev_of devid) (cf_subs a)) (\<lambda>i. bound_in ifid (cf_subs a ! i))"

text \<open>
  The code reads the string of a binding in place, up to its NUL: the chunk has to hold one. To
  store a binding a form needs room for one more string below the 2 GB that signed lengths allow.
\<close>

definition ended :: "cform \<Rightarrow> bool" where
  "ended f \<longleftrightarrow> (\<forall>c. chunk_at (cf_chunks f) IFFCHNK_FORCEDBIND = Some c \<longrightarrow> 0 \<in> set (take (unat (fst (snd c))) (snd (snd c))))"

definition roomy :: "cform \<Rightarrow> bool" where
  "roomy f \<longleftrightarrow> length (area (cf_chunks f)) < 1000000000"

definition bindings_ok :: "cform \<Rightarrow> bool" where
  "bindings_ok a \<longleftrightarrow> (\<forall>d \<in> set (cf_subs a). ended d \<and> (\<forall>f \<in> set (cf_subs d). ended f))"

definition bindings_roomy :: "cform \<Rightarrow> bool" where
  "bindings_roomy a \<longleftrightarrow> (\<forall>d \<in> set (cf_subs a). roomy d \<and> (\<forall>f \<in> set (cf_subs d). roomy f))"

lemma c_string_in:
  assumes "pic_Chunks f = pre @ enc c @ r" "chunk_ok c" "0 \<in> set (take (unat (fst (snd c))) (snd (snd c)))"
  shows "c_string (pic_Chunks f) (length pre + 8) = Some (c_str (take (unat (fst (snd c))) (snd (snd c))))"
proof -
  let ?n = "unat (fst (snd c))" and ?d = "snd (snd c)"
  have "drop (length pre + 8) (pic_Chunks f) = take ?n ?d @ drop ?n ?d @ r"
    using assms(1) enc_parts(1) [OF assms(2)] by (simp flip: append_assoc)
  moreover have "takeWhile (\<lambda>x. x \<noteq> 0) (x @ y) = takeWhile (\<lambda>x. x \<noteq> 0) x" if "0 \<in> set x" for x y :: bytes
    using that by (induction x) auto
  ultimately show ?thesis using assms(3) by (simp add: c_string_def c_str_def del: append_take_drop_id)
qed

lemma chunk_string_tree:
  assumes "tree ps a" "sub_at a p = Some b" "ended b"
  shows "chunk_string ps p IFFCHNK_FORCEDBIND = Some (binding b)"
proof -
  obtain f where f: "get_form ps p = Some f" "rep b f" using get_form_rep [OF assms(1,2)] by blast
  show ?thesis
  proof (cases "chunk_at (cf_chunks b) IFFCHNK_FORCEDBIND")
    case None
    then show ?thesis using f find_rep_None [OF f(2) None] by (simp add: chunk_string_def binding_def str_at_def)
  next
    case (Some c)
    obtain pre r where o: "pic_Chunks f = pre @ enc c @ r" "pFindCfgChunk f IFFCHNK_FORCEDBIND = Some (Some (length pre))"
      "chunk_ok c" using find_rep_Some [OF f(2) Some] by blast
    show ?thesis using f o(2) c_string_in [OF o(1,3)] Some assms(3)
      by (simp add: chunk_string_def binding_def str_at_def ended_def)
  qed
qed

lemma if_first: "(\<lambda>f. cf_id f = IFFFORM_IFCFGDATA \<and> str_at (cf_chunks f) IFFCHNK_IFID = Some i) = if_of i"
  by (rule ext) (simp add: has_string_def)

lemma if_binding_search:
  assumes t: "tree ps a" and b: "sub_at a p = Some d" and s: "str_ok i" and e: "\<forall>f \<in> set (cf_subs d). ended f"
  shows "for_forms ps (Some p) IFFFORM_IFCFGDATA (\<lambda>ps q. do {
      ok \<leftarrow> match_at ps q IFFCHNK_IFID i;
      if ok then do { s \<leftarrow> chunk_string ps q IFFCHNK_FORCEDBIND; Some (s, ps) } else Some (None, ps) }) =
    Some (bound_in (Some i) d, ps)"
proof -
  let ?hit = "\<lambda>f. str_at (cf_chunks f) IFFCHNK_IFID = Some i \<and> binding f \<noteq> None"
  let ?fi = "first_index (\<lambda>f. cf_id f = IFFFORM_IFCFGDATA \<and> ?hit f) (cf_subs d)"
  let ?s = "case ?fi of None \<Rightarrow> [] | Some j \<Rightarrow> the (binding (cf_subs d ! j))"
  have cs: "chunk_string ps (p @ [j]) IFFCHNK_FORCEDBIND = Some (binding (cf_subs d ! j))" if "j < length (cf_subs d)" for j
    using chunk_string_tree [OF t sub_at_child [OF b that]] e that by simp
  note m = match_child [OF t b _ s, of _ IFFCHNK_IFID]
  have "for_forms ps (Some p) IFFFORM_IFCFGDATA (\<lambda>ps q. do {
      ok \<leftarrow> match_at ps q IFFCHNK_IFID i;
      if ok then do { s \<leftarrow> chunk_string ps q IFFCHNK_FORCEDBIND; Some (s, ps) } else Some (None, ps) }) =
    (case ?fi of None \<Rightarrow> Some (None, ps) | Some j \<Rightarrow> Some (Some (fst (?s, ps)), snd (?s, ps)))"
  proof (rule for_forms_search [OF t start_at_Some b])
    fix j assume f: "?fi = Some j"
    then have j: "j < length (cf_subs d)" "?hit (cf_subs d ! j)" using first_index_Some by blast+
    then obtain o' where "binding (cf_subs d ! j) = Some o'" by auto
    then show "do { ok \<leftarrow> match_at ps (p @ [j]) IFFCHNK_IFID i;
      if ok then do { s \<leftarrow> chunk_string ps (p @ [j]) IFFCHNK_FORCEDBIND; Some (s, ps) } else Some (None, ps) } =
      Some (Some (fst (?s, ps)), snd (?s, ps))"
      using j m cs f by simp
  next
    fix j assume "j < length (cf_subs d)" "\<not> ?hit (cf_subs d ! j)"
    then show "do { ok \<leftarrow> match_at ps (p @ [j]) IFFCHNK_IFID i;
      if ok then do { s \<leftarrow> chunk_string ps (p @ [j]) IFFCHNK_FORCEDBIND; Some (s, ps) } else Some (None, ps) } =
      Some (None, ps)" using m cs by auto
  qed
  moreover have "(\<lambda>f. cf_id f = IFFFORM_IFCFGDATA \<and> ?hit f) = (\<lambda>f. if_of i f \<and> binding f \<noteq> None)"
    by (rule ext) (auto simp: has_string_def)
  moreover have "j < length (cf_subs d) \<and> binding (cf_subs d ! j) \<noteq> None"
    if "first_index (\<lambda>f. if_of i f \<and> binding f \<noteq> None) (cf_subs d) = Some j" for j
    using first_index_Some [OF that] by blast
  ultimately show ?thesis by (auto simp: bound_in_def split: option.splits)
qed

lemma psdGetForcedBinding_tree:
  assumes t: "tree ps a" and s: "str_ok devid" "ifid \<noteq> None \<longrightarrow> str_ok (the ifid)" and e: "bindings_ok a"
  shows "psdGetForcedBinding devid ifid ps = Some (bound_to devid ifid a)"
proof -
  let ?fi = "first_index (dev_of devid) (cf_subs a)"
  let ?b = "bound_to devid ifid a"
  let ?act = "\<lambda>ps p. case ifid of
      Some i \<Rightarrow> do {
        (b, _) \<leftarrow> for_forms ps (Some p) IFFFORM_IFCFGDATA (\<lambda>ps q. do {
          ok \<leftarrow> match_at ps q IFFCHNK_IFID i;
          if ok then do { s \<leftarrow> chunk_string ps q IFFCHNK_FORCEDBIND; Some (s, ps) } else Some (None, ps) });
        Some (Some b, ps) }
    | None \<Rightarrow> do { s \<leftarrow> chunk_string ps p IFFCHNK_FORCEDBIND; Some (Some s, ps) }"
  have "for_forms ps None IFFFORM_DEVICECFG (\<lambda>ps p. do {
       ok \<leftarrow> match_at ps p IFFCHNK_DEVID devid; if ok then ?act ps p else Some (None, ps) }) =
    (case ?fi of None \<Rightarrow> Some (None, ps) | Some i \<Rightarrow> Some (Some (fst (?b, ps)), snd (?b, ps)))"
  proof (rule dev_search [OF t s(1)])
    fix i assume f: "?fi = Some i"
    then have i: "i < length (cf_subs a)" using has_stringD by blast
    have b: "sub_at a [i] = Some (cf_subs a ! i)" and ed: "ended (cf_subs a ! i)" "\<forall>f \<in> set (cf_subs (cf_subs a ! i)). ended f"
      using i e nth_mem [OF i] by (auto simp: bindings_ok_def)
    show "?act ps [i] = Some (Some (fst (?b, ps)), snd (?b, ps))"
    proof (cases ifid)
      case None
      then show ?thesis using chunk_string_tree [OF t b ed(1)] f by (simp add: bound_to_def bound_in_def)
    next
      case (Some j)
      then show ?thesis using if_binding_search [OF t b _ ed(2), of j] s(2) f by (simp add: bound_to_def)
    qed
  qed
  then show ?thesis unfolding psdGetForcedBinding_def by (simp add: bound_to_def split: option.splits)
qed

section \<open>Storing a binding\<close>

definition rebound :: "bytes \<Rightarrow> cform \<Rightarrow> cform" where
  "rebound owner f = (if owner \<noteq> [] then with_string f IFFCHNK_FORCEDBIND owner
     else CForm (cf_id f) (cut_chunk IFFCHNK_FORCEDBIND (cf_chunks f)) (cf_subs f))"

definition new_if_form :: "bytes \<Rightarrow> bytes \<Rightarrow> cform" where
  "new_if_form owner i = CForm IFFFORM_IFCFGDATA
     [str_chunk IFFCHNK_OWNER owner, str_chunk IFFCHNK_FORCEDBIND owner, str_chunk IFFCHNK_IFID i] []"

definition rebind_dev :: "bytes \<Rightarrow> bytes option \<Rightarrow> cform \<Rightarrow> cform" where
  "rebind_dev owner ifid d = (case ifid of None \<Rightarrow> rebound owner d
     | Some i \<Rightarrow> if owner = [] \<or> (\<exists>f \<in> set (cf_subs d). if_of i f)
         then with_subs d (map (\<lambda>f. if if_of i f then rebound owner f else f) (cf_subs d))
         else with_subs d (cf_subs d @ [new_if_form owner i]))"

definition new_dev_form :: "bytes \<Rightarrow> bytes \<Rightarrow> bytes option \<Rightarrow> cform" where
  "new_dev_form owner devid ifid = (case ifid of
       None \<Rightarrow> CForm IFFFORM_DEVICECFG [str_chunk IFFCHNK_DEVID devid, str_chunk IFFCHNK_FORCEDBIND owner] []
     | Some i \<Rightarrow> CForm IFFFORM_DEVICECFG [str_chunk IFFCHNK_DEVID devid] [new_if_form owner i])"

definition rebind :: "bytes \<Rightarrow> bytes \<Rightarrow> bytes option \<Rightarrow> cform \<Rightarrow> cform" where
  "rebind owner devid ifid a = (case first_index (dev_of devid) (cf_subs a) of
       Some k \<Rightarrow> with_subs a ((cf_subs a)[k := rebind_dev owner ifid (cf_subs a ! k)])
     | None \<Rightarrow> if owner = [] then a else with_subs a (cf_subs a @ [new_dev_form owner devid ifid]))"

lemma rebound_sel [simp]: "cf_id (rebound owner f) = cf_id f" "cf_subs (rebound owner f) = cf_subs f"
  by (simp_all add: rebound_def with_string_def)

lemma str_at_rebound: "owner = [] \<or> str_ok owner \<Longrightarrow>
    str_at (cf_chunks (rebound owner f)) cid = (if cid = IFFCHNK_FORCEDBIND then (if owner = [] then None else Some owner)
      else str_at (cf_chunks f) cid)"
  by (auto simp: rebound_def with_string_def str_at_put str_at_cut)

lemma bind_chunk_tree:
  assumes t: "tree ps a" and c: "calm ps" and b: "sub_at a p = Some f" and e: "roomy f" and o: "owner = [] \<or> str_ok owner"
  shows "\<exists>ps'. bind_chunk owner ps p = Some (True, ps') \<and> calm ps' \<and> tree ps' (upd_at a p (rebound owner f))"
proof (cases "owner = []")
  case False
  then have s: "str_ok owner" using o by simp
  show ?thesis using add_string_tree [OF t c b _ str_small [OF s], of IFFCHNK_FORCEDBIND] e False
    by (auto simp: bind_chunk_def rebound_def roomy_def)
next
  case True
  let ?op = "\<lambda>f m. map_option (\<lambda>(r, f). (r, f, m)) (pRemCfgChunk f IFFCHNK_FORCEDBIND)"
  have "\<exists>ps'. at_form ps p ?op = Some (IFFCHNK_FORCEDBIND \<in> fst ` set (cf_chunks f), ps') \<and>
      tree ps' (upd_at a p (rebound owner f)) \<and> calm ps'"
  proof (rule at_form_tree [OF t c b])
    fix g assume g: "rep f g"
    obtain g' where "pRemCfgChunk g IFFCHNK_FORCEDBIND = Some (IFFCHNK_FORCEDBIND \<in> fst ` set (cf_chunks f), g')"
        "rep (CForm (cf_id f) (cut_chunk IFFCHNK_FORCEDBIND (cf_chunks f)) (cf_subs f)) g'"
      using pRemCfgChunk_rep [OF g, of IFFCHNK_FORCEDBIND] by blast
    then show "\<exists>f'. ?op g [] = Some (IFFCHNK_FORCEDBIND \<in> fst ` set (cf_chunks f), f', []) \<and> rep (rebound owner f) f'"
      using True by (simp add: rebound_def)
  qed
  then show ?thesis using True by (auto simp: bind_chunk_def)
qed

text \<open>The first \<open>k\<close> sub forms have been gone through.\<close>

definition bound_upto :: "(cform \<Rightarrow> cform) \<Rightarrow> cform \<Rightarrow> nat \<Rightarrow> cform" where
  "bound_upto g d k = with_subs d (map g (take k (cf_subs d)) @ drop k (cf_subs d))"

lemma bound_upto_skip:
  assumes "\<forall>i < j. g (drop k (cf_subs d) ! i) = drop k (cf_subs d) ! i" "k + j \<le> length (cf_subs d)"
  shows "bound_upto g d k = bound_upto g d (k + j)"
proof -
  have "map g (take j (drop k (cf_subs d))) = take j (drop k (cf_subs d))"
    using assms by (intro nth_equalityI) auto
  then show ?thesis using take_add [of k j "cf_subs d"] append_take_drop_id [of j "drop k (cf_subs d)"]
    by (simp add: bound_upto_def add.commute)
qed

lemma bound_upto_step:
  assumes "i < length (cf_subs d)"
  shows "with_subs (bound_upto g d i) ((cf_subs (bound_upto g d i))[i := g (cf_subs d ! i)]) = bound_upto g d (Suc i)"
  using assms Cons_nth_drop_Suc [OF assms]
  by (simp add: bound_upto_def take_Suc_conv_app_nth list_update_append) (metis list_update_code(2))

definition bind_in :: "bytes \<Rightarrow> bytes \<Rightarrow> cform \<Rightarrow> cform" where
  "bind_in owner i f = (if if_of i f then rebound owner f else f)"

lemma bind_in_other: "cf_id f \<noteq> IFFFORM_IFCFGDATA \<Longrightarrow> bind_in owner i f = f" "cf_id (bind_in owner i f) = cf_id f"
  by (simp_all add: bind_in_def has_string_def)

text \<open>One round of the loop, at the sub form \<open>k\<close>.\<close>

lemma bind_loop_step:
  fixes owner i d
  defines "g \<equiv> bind_in owner i"
  assumes b: "sub_at a p = Some d" and s: "str_ok i" "owner = [] \<or> str_ok owner" and e: "\<forall>f \<in> set (cf_subs d). roomy f"
    and t: "tree ps (upd_at a p (bound_upto g d k))" and c: "calm ps"
    and k: "k < length (cf_subs d)" and idf: "cf_id (cf_subs d ! k) = IFFFORM_IFCFGDATA"
  shows "\<exists>ps'. bind_loop (Suc n) owner i r ps (Some (p @ [k])) =
      bind_loop n owner i (r \<or> if_of i (cf_subs d ! k)) ps'
        (map_option (\<lambda>m. p @ [Suc k + m]) (first_index (has_id IFFFORM_IFCFGDATA) (drop (Suc k) (cf_subs d)))) \<and>
      calm ps' \<and> tree ps' (upd_at a p (bound_upto g d (Suc k)))"
proof -
  let ?f = "cf_subs d ! k" and ?d = "bound_upto g d k" and ?d1 = "bound_upto g d (Suc k)"
  let ?a = "upd_at a p ?d"
  have sd: "sub_at ?a p = Some ?d" using sub_at_upd_same [OF b] .
  have nth: "cf_subs ?d ! k = ?f" "k < length (cf_subs ?d)" using k by (simp_all add: bound_upto_def nth_append)
  have m: "match_at ps (p @ [k]) IFFCHNK_IFID i = Some (if_of i ?f)"
    using match_child [OF t sd nth(2) s(1), of IFFCHNK_IFID] idf by (simp add: nth has_string_def)
  have sf: "sub_at ?a (p @ [k]) = Some ?f" using sub_at_child [OF sd nth(2)] nth(1) by simp
  obtain p1 where p1: "(if if_of i ?f then do { (r', ps) \<leftarrow> bind_chunk owner ps (p @ [k]); Some (r \<or> r', ps) } else Some (r, ps)) =
      Some (r \<or> if_of i ?f, p1)" "calm p1" "tree p1 (upd_at ?a (p @ [k]) (g ?f))"
  proof (cases "if_of i ?f")
    case True
    then show ?thesis using bind_chunk_tree [OF t c sf _ s(2)] e k that by (auto simp: g_def bind_in_def)
  next
    case False
    then show ?thesis using t c that upd_at_same [OF sf] by (simp add: g_def bind_in_def)
  qed
  have "upd_at ?a (p @ [k]) (g ?f) = upd_at a p ?d1"
    using upd_at_upd [OF b, of ?d "[k]" "g ?f"] bound_upto_step [OF k, of g] nth(1) by simp
  then have t1: "tree p1 (upd_at a p ?d1)" using p1(3) by simp
  have s1: "sub_at (upd_at a p ?d1) p = Some ?d1" using sub_at_upd_same [OF b] .
  have n1: "cf_id (cf_subs ?d1 ! k) = IFFFORM_IFCFGDATA" "k < length (cf_subs ?d1)"
    "drop (Suc k) (cf_subs ?d1) = drop (Suc k) (cf_subs d)"
    using k idf by (simp_all add: bound_upto_def nth_append take_Suc_conv_app_nth g_def bind_in_other)
  have "psdNextCfgForm p1 (Some (p @ [k])) =
      Some (map_option (\<lambda>m. p @ [Suc k + m]) (first_index (has_id IFFFORM_IFCFGDATA) (drop (Suc k) (cf_subs d))))"
    using psdNextCfgForm_tree [OF t1 s1 n1(2)] n1 by simp
  then show ?thesis using m p1(1,2) t1 by (intro exI [of _ p1]) simp
qed

lemma bind_loop_tree:
  fixes owner i d
  defines "g \<equiv> bind_in owner i"
  assumes b: "sub_at a p = Some d" and s: "str_ok i" "owner = [] \<or> str_ok owner" and e: "\<forall>f \<in> set (cf_subs d). roomy f"
  shows "tree ps (upd_at a p (bound_upto g d k)) \<Longrightarrow> calm ps \<Longrightarrow> length (cf_subs d) < n + k \<Longrightarrow> k \<le> length (cf_subs d) \<Longrightarrow>
    \<exists>ps'. bind_loop n owner i r ps (map_option (\<lambda>j. p @ [k + j]) (first_index (has_id IFFFORM_IFCFGDATA) (drop k (cf_subs d)))) =
      Some (r \<or> (\<exists>f \<in> set (drop k (cf_subs d)). if_of i f), ps') \<and> calm ps' \<and>
      tree ps' (upd_at a p (with_subs d (map g (cf_subs d))))"
proof (induction n arbitrary: k r ps)
  case 0 then show ?case by simp
next
  case (Suc n)
  let ?D = "drop k (cf_subs d)"
  have gid: "g f = f" if "cf_id f \<noteq> IFFFORM_IFCFGDATA" for f using that by (simp add: g_def bind_in_other)
  show ?case
  proof (cases "first_index (has_id IFFFORM_IFCFGDATA) ?D")
    case None
    then have n: "\<forall>f \<in> set ?D. cf_id f \<noteq> IFFFORM_IFCFGDATA" by (simp add: first_index_None)
    then have "map g ?D = ?D" using gid by (simp add: map_idI)
    then have "bound_upto g d k = with_subs d (map g (cf_subs d))"
      unfolding bound_upto_def by (metis append_take_drop_id map_append)
    moreover have "\<not> (\<exists>f \<in> set ?D. if_of i f)" using n by (auto simp: has_string_def)
    ultimately show ?thesis using None Suc.prems by simp
  next
    case (Some j)
    let ?k = "k + j"
    note fi = first_index_Some [OF Some]
    then have kl: "?k < length (cf_subs d)" using Suc.prems(4) by (simp add: less_diff_conv add.commute)
    let ?f = "cf_subs d ! ?k"
    have idf: "cf_id ?f = IFFFORM_IFCFGDATA" and before: "\<forall>m < j. cf_id (?D ! m) \<noteq> IFFFORM_IFCFGDATA" using fi kl by auto
    have t: "tree ps (upd_at a p (bound_upto g d ?k))"
      using Suc.prems(1) bound_upto_skip [of j g k d] before gid kl by simp
    obtain p1 where st: "bind_loop (Suc n) owner i r ps (Some (p @ [?k])) = bind_loop n owner i (r \<or> if_of i ?f) p1
        (map_option (\<lambda>m. p @ [Suc ?k + m]) (first_index (has_id IFFFORM_IFCFGDATA) (drop (Suc ?k) (cf_subs d))))"
      "calm p1" "tree p1 (upd_at a p (bound_upto g d (Suc ?k)))"
      using bind_loop_step [OF b s e t [unfolded g_def] Suc.prems(2) kl idf] unfolding g_def by blast
    have ih: "length (cf_subs d) < n + Suc ?k" "Suc ?k \<le> length (cf_subs d)" using Suc.prems(3) kl by simp_all
    have split: "?D = take j ?D @ ?f # drop (Suc ?k) (cf_subs d)"
      using id_take_nth_drop [of j ?D] fi kl by (simp add: add.commute)
    have "\<not> (\<exists>f \<in> set (take j ?D). if_of i f)" using before fi by (auto simp: in_set_conv_nth has_string_def)
    then have "(\<exists>f \<in> set ?D. if_of i f) \<longleftrightarrow> if_of i ?f \<or> (\<exists>f \<in> set (drop (Suc ?k) (cf_subs d)). if_of i f)"
      by (subst split) auto
    then show ?thesis using Suc.IH [OF st(3,2) ih, of "r \<or> if_of i ?f"] st(1) Some by auto
  qed
qed

lemma area_two: "str_ok s \<Longrightarrow> str_ok t \<Longrightarrow> length (area [str_chunk i s, str_chunk j t]) < 1073741824"
  using length_str_chunk [OF str_small, of s i] length_str_chunk [OF str_small, of t j] by (simp add: str_ok_def)

lemma new_if_bind_tree:
  assumes t: "tree ps a" and c: "calm ps" and b: "sub_at a p = Some d" and s: "str_ok owner" "str_ok i"
  shows "\<exists>ps'. new_if_bind owner i ps p = Some (True, ps') \<and> calm ps' \<and>
    tree ps' (upd_at a p (with_subs d (cf_subs d @ [new_if_form owner i])))"
proof -
  let ?n = "length (cf_subs d)" and ?t = "CForm IFFFORM_IFCFGDATA [] []"
  obtain p1 where p1: "alloc_form ps p IFFFORM_IFCFGDATA = Some (Some (p @ [?n]), p1)" "calm p1"
      "tree p1 (upd_at a p (with_subs d (cf_subs d @ [?t])))"
    using alloc_form_tree [OF t c b, of IFFFORM_IFCFGDATA] by (auto simp: grown_def)
  let ?t1 = "with_string ?t IFFCHNK_OWNER owner" and ?t2 = "with_string (with_string ?t IFFCHNK_OWNER owner) IFFCHNK_FORCEDBIND owner"
  have c1: "cf_chunks ?t1 = [str_chunk IFFCHNK_OWNER owner]" by (simp add: with_string_def put_chunk_def)
  have c2: "cf_chunks ?t2 = [str_chunk IFFCHNK_OWNER owner, str_chunk IFFCHNK_FORCEDBIND owner]"
    by (simp add: with_string_def put_chunk_def str_chunk_def)
  obtain p2 where p2: "add_string p1 (p @ [?n]) IFFCHNK_OWNER owner = Some (True, p2)" "calm p2"
      "tree p2 (upd_at a p (with_subs d (cf_subs d @ [?t1])))"
    using add_string_last [OF p1(3,2) b, of IFFCHNK_OWNER owner] s by auto
  obtain p3 where p3: "add_string p2 (p @ [?n]) IFFCHNK_FORCEDBIND owner = Some (True, p3)" "calm p3"
      "tree p3 (upd_at a p (with_subs d (cf_subs d @ [?t2])))"
    using add_string_last [OF p2(3,2) b _ s(1), of IFFCHNK_FORCEDBIND] chunk_small [OF s(1)] c1 by auto
  obtain p4 where p4: "add_string p3 (p @ [?n]) IFFCHNK_IFID i = Some (True, p4)" "calm p4"
      "tree p4 (upd_at a p (with_subs d (cf_subs d @ [with_string ?t2 IFFCHNK_IFID i])))"
    using add_string_last [OF p3(3,2) b _ s(2), of IFFCHNK_IFID] area_two [OF s(1) s(1)] c2 by auto
  have "with_string ?t2 IFFCHNK_IFID i = new_if_form owner i"
    by (simp add: with_string_def put_chunk_def new_if_form_def str_chunk_def)
  then show ?thesis using p1 p2 p3 p4 by (simp add: new_if_bind_def)
qed

lemma forms_fuel_tree: "tree ps a \<Longrightarrow> sub_at a p = Some d \<Longrightarrow> forms_fuel ps (Some p) = Suc (Suc (length (cf_subs d)))"
  using get_form_rep list_all2_lengthD [OF rep_subs] by (fastforce simp: forms_fuel_def start_at_Some)

lemma bind_dev_tree:
  assumes t: "tree ps a" and c: "calm ps" and b: "sub_at a p = Some d" and e: "roomy d" "\<forall>f \<in> set (cf_subs d). roomy f"
    and s: "owner = [] \<or> str_ok owner" "ifid \<noteq> None \<longrightarrow> str_ok (the ifid)"
  shows "\<exists>ps'. bind_dev owner ifid ps p = Some (True, ps') \<and> calm ps' \<and> tree ps' (upd_at a p (rebind_dev owner ifid d))"
proof (cases ifid)
  case None
  then show ?thesis using bind_chunk_tree [OF t c b e(1) s(1)] by (simp add: bind_dev_def rebind_dev_def)
next
  case (Some i)
  let ?any = "\<exists>f \<in> set (cf_subs d). if_of i f" and ?m = "with_subs d (map (bind_in owner i) (cf_subs d))"
  have si: "str_ok i" using s(2) Some by simp
  have m: "(\<lambda>f. if if_of i f then rebound owner f else f) = bind_in owner i" by (rule ext) (simp add: bind_in_def)
  have "tree ps (upd_at a p (bound_upto (bind_in owner i) d 0))"
    using t upd_at_same [OF b] by (simp add: bound_upto_def)
  then obtain p1 where p1: "bind_loop (Suc (Suc (length (cf_subs d)))) owner i False ps
      (map_option (\<lambda>j. p @ [j]) (first_index (has_id IFFFORM_IFCFGDATA) (cf_subs d))) = Some (?any, p1)" "calm p1"
      "tree p1 (upd_at a p ?m)"
    using bind_loop_tree [OF b si s(1) e(2), of ps 0 "Suc (Suc (length (cf_subs d)))" False] c by auto
  have bd: "bind_dev owner ifid ps p = (if owner = [] then Some (True, p1) else if \<not> ?any then new_if_bind owner i p1 p else Some (?any, p1))"
    using p1(1) psdFindCfgForm_tree [OF t start_at_Some b, of IFFFORM_IFCFGDATA] forms_fuel_tree [OF t b] Some
    by (simp add: bind_dev_def)
  show ?thesis
  proof (cases "owner = [] \<or> ?any")
    case True
    then have "bind_dev owner ifid ps p = Some (True, p1)" using bd by auto
    moreover have "rebind_dev owner ifid d = ?m" unfolding rebind_dev_def Some m option.case by (simp only: True if_True)
    ultimately show ?thesis using p1(2,3) by simp
  next
    case False
    then have same: "map (bind_in owner i) (cf_subs d) = cf_subs d" by (intro map_idI) (auto simp: bind_in_def)
    have so: "str_ok owner" using False s(1) by simp
    have t1: "tree p1 (upd_at a p d)" using p1(3) unfolding same by simp
    show ?thesis using new_if_bind_tree [OF t1 p1(2) sub_at_upd_same [OF b] so si]
        bd False Some upd_at_upd [OF b, of d "[]"] by (simp add: rebind_dev_def)
  qed
qed

lemma bind_new_dev_tree:
  assumes t: "tree ps a" and c: "calm ps" and s: "str_ok owner" "str_ok devid" "ifid \<noteq> None \<longrightarrow> str_ok (the ifid)"
  shows "\<exists>p1 p2 p3. alloc_form ps [] IFFFORM_DEVICECFG = Some (Some [length (cf_subs a)], p1) \<and>
    add_string p1 [length (cf_subs a)] IFFCHNK_DEVID devid = Some (True, p2) \<and>
    (case ifid of Some i \<Rightarrow> new_if_bind owner i p2 [length (cf_subs a)]
       | None \<Rightarrow> add_string p2 [length (cf_subs a)] IFFCHNK_FORCEDBIND owner) = Some (True, p3) \<and>
    calm p3 \<and> tree p3 (with_subs a (cf_subs a @ [new_dev_form owner devid ifid]))"
proof -
  let ?n = "length (cf_subs a)" and ?t = "CForm IFFFORM_DEVICECFG [] []"
  let ?t2 = "CForm IFFFORM_DEVICECFG [str_chunk IFFCHNK_DEVID devid] []"
  have r: "sub_at a [] = Some a" by simp
  obtain p1 where p1: "alloc_form ps [] IFFFORM_DEVICECFG = Some (Some [?n], p1)" "calm p1"
      "tree p1 (upd_at a [] (with_subs a (cf_subs a @ [?t])))"
    using alloc_form_tree [OF t c r, of IFFFORM_DEVICECFG] by (auto simp: grown_def)
  obtain p2 where p2: "add_string p1 [?n] IFFCHNK_DEVID devid = Some (True, p2)" "calm p2"
      "tree p2 (upd_at a [] (with_subs a (cf_subs a @ [?t2])))"
    using add_string_last [OF p1(3,2) r, of IFFCHNK_DEVID devid] s(2) by (auto simp: with_string_def put_chunk_def)
  show ?thesis
  proof (cases ifid)
    case None
    obtain p3 where "add_string p2 [?n] IFFCHNK_FORCEDBIND owner = Some (True, p3)" "calm p3"
        "tree p3 (upd_at a [] (with_subs a (cf_subs a @ [with_string ?t2 IFFCHNK_FORCEDBIND owner])))"
      using add_string_last [OF p2(3,2) r _ s(1), of IFFCHNK_FORCEDBIND] chunk_small [OF s(2)] by auto
    moreover have "with_string ?t2 IFFCHNK_FORCEDBIND owner = new_dev_form owner devid ifid"
      using None by (simp add: with_string_def put_chunk_def new_dev_form_def str_chunk_def)
    ultimately show ?thesis using p1(1) p2(1) None by auto
  next
    case (Some i)
    have si: "str_ok i" using s(3) Some by simp
    have t2: "tree p2 (with_subs a (cf_subs a @ [?t2]))" using p2(3) by simp
    have "sub_at (with_subs a (cf_subs a @ [?t2])) [?n] = Some ?t2" by simp
    from new_if_bind_tree [OF t2 p2(2) this s(1) si]
    obtain p3 where "new_if_bind owner i p2 [?n] = Some (True, p3)" "calm p3"
        "tree p3 (with_subs a (cf_subs a @ [with_subs ?t2 [new_if_form owner i]]))" by auto
    moreover have "with_subs ?t2 [new_if_form owner i] = new_dev_form owner devid ifid"
      using Some by (simp add: with_subs_def new_dev_form_def)
    ultimately show ?thesis using p1(1) p2(1) Some by auto
  qed
qed

lemma psdSetForcedBinding_tree:
  assumes t: "tree ps a" and c: "calm ps" and e: "bindings_roomy a"
    and s: "owner = [] \<or> str_ok owner" "str_ok devid" "ifid \<noteq> None \<longrightarrow> str_ok (the ifid)"
  shows "\<exists>ps'. psdSetForcedBinding owner devid ifid ps = Some (True, ps') \<and> calm ps' \<and> tree ps' (rebind owner devid ifid a)"
proof -
  let ?fi = "first_index (dev_of devid) (cf_subs a)"
  let ?act = "\<lambda>ps p. do { (r, ps) \<leftarrow> bind_dev owner ifid ps p; Some (Some r, ps) }"
  note ds = dev_search [OF t s(2), of ?act]
  obtain root where root: "ps_ConfigRoot ps = Some root" using t by (auto simp: tree_def)
  show ?thesis
  proof (cases ?fi)
    case (Some k)
    have k: "k < length (cf_subs a)" using has_stringD [OF Some] by simp
    then have b: "sub_at a [k] = Some (cf_subs a ! k)" and ed: "roomy (cf_subs a ! k)" "\<forall>f \<in> set (cf_subs (cf_subs a ! k)). roomy f"
      using e nth_mem [OF k] by (auto simp: bindings_roomy_def)
    obtain p1 where p1: "bind_dev owner ifid ps [k] = Some (True, p1)" "calm p1"
        "tree p1 (upd_at a [k] (rebind_dev owner ifid (cf_subs a ! k)))"
      using bind_dev_tree [OF t c b ed s(1,3)] by blast
    have "psdSetForcedBinding owner devid ifid ps = checked (True, p1)"
      using ds [of "(True, p1)"] Some p1(1) by (simp add: psdSetForcedBinding_def)
    then show ?thesis using checked_tree [OF p1(3,2), of True] Some by (simp add: rebind_def)
  next
    case None
    then have ff: "for_forms ps None IFFFORM_DEVICECFG (\<lambda>ps p. do {
        ok \<leftarrow> match_at ps p IFFCHNK_DEVID devid; if ok then ?act ps p else Some (None, ps) }) = Some (None, ps)"
      using ds by simp
    show ?thesis
    proof (cases "owner = []")
      case True
      have "psdSetForcedBinding owner devid ifid ps = checked (True, ps)"
        unfolding psdSetForcedBinding_def ff using True by simp
      then show ?thesis using checked_tree [OF t c, of True] None True by (simp add: rebind_def)
    next
      case False
      then have so: "str_ok owner" using s(1) by simp
      obtain p1 p2 p3 where p: "alloc_form ps [] IFFFORM_DEVICECFG = Some (Some [length (cf_subs a)], p1)"
        "add_string p1 [length (cf_subs a)] IFFCHNK_DEVID devid = Some (True, p2)"
        "(case ifid of Some i \<Rightarrow> new_if_bind owner i p2 [length (cf_subs a)]
          | None \<Rightarrow> add_string p2 [length (cf_subs a)] IFFCHNK_FORCEDBIND owner) = Some (True, p3)"
        "calm p3" "tree p3 (with_subs a (cf_subs a @ [new_dev_form owner devid ifid]))"
        using bind_new_dev_tree [OF t c so s(2,3)] by blast
      have "psdSetForcedBinding owner devid ifid ps = checked (True, p3)"
        using ff root p(1-3) False by (simp add: psdSetForcedBinding_def)
      then show ?thesis using checked_tree [OF p(5,4), of True] None False by (simp add: rebind_def)
    qed
  qed
qed

section \<open>What is found after storing\<close>

lemma first_index_map: "(\<And>x. x \<in> set xs \<Longrightarrow> P (g x) = Q x) \<Longrightarrow> first_index P (map g xs) = first_index Q xs"
  by (induction xs) auto

lemma binding_rebound: "owner = [] \<or> str_ok owner \<Longrightarrow> binding (rebound owner f) = (if owner = [] then None else Some owner)"
  by (simp add: binding_def str_at_rebound)

lemma if_of_rebound: "owner = [] \<or> str_ok owner \<Longrightarrow> if_of i (rebound owner f) = if_of i f"
  by (simp add: has_string_def str_at_rebound)

lemma binding_map:
  assumes "\<And>f. f \<in> set fs \<Longrightarrow> (if_of j (g f) \<and> binding (g f) \<noteq> None) = (if_of j f \<and> binding f \<noteq> None)"
    and "\<And>f. f \<in> set fs \<Longrightarrow> if_of j f \<Longrightarrow> binding (g f) = binding f"
  shows "bound_in (Some j) (with_subs d (map g fs)) = bound_in (Some j) (with_subs d fs)"
proof -
  have e: "first_index (\<lambda>f. if_of j f \<and> binding f \<noteq> None) (map g fs) = first_index (\<lambda>f. if_of j f \<and> binding f \<noteq> None) fs"
    by (rule first_index_map) (use assms(1) in simp)
  show ?thesis
  proof (cases "first_index (\<lambda>f. if_of j f \<and> binding f \<noteq> None) fs")
    case (Some k)
    then have "k < length fs" "if_of j (fs ! k)" using first_index_Some by blast+
    then show ?thesis using assms(2) [of "fs ! k"] unfolding bound_in_def option.case with_subs_sel e Some by simp
  next
    case None
    show ?thesis unfolding bound_in_def option.case with_subs_sel e None by simp
  qed
qed

lemma binding_new_if: "str_ok owner \<Longrightarrow> str_ok i \<Longrightarrow> binding (new_if_form owner i) = Some owner \<and> if_of j (new_if_form owner i) = (j = i)"
proof -
  assume s: "str_ok owner" "str_ok i"
  have "str_at (cf_chunks (new_if_form owner i)) cid = (if cid = IFFCHNK_IFID then Some i
      else if cid = IFFCHNK_FORCEDBIND then Some owner else str_at [str_chunk IFFCHNK_OWNER owner] cid)" for cid
    using str_at_put [OF s(2), of IFFCHNK_IFID "[str_chunk IFFCHNK_OWNER owner, str_chunk IFFCHNK_FORCEDBIND owner]" cid]
      str_at_put [OF s(1), of IFFCHNK_FORCEDBIND "[str_chunk IFFCHNK_OWNER owner]" cid]
    by (simp add: put_chunk_def new_if_form_def str_chunk_def)
  then show ?thesis by (auto simp: binding_def has_string_def new_if_form_def)
qed

lemma bound_in_rebind_same:
  assumes s: "owner = [] \<or> str_ok owner" "ifid \<noteq> None \<longrightarrow> str_ok (the ifid)"
  shows "bound_in ifid (rebind_dev owner ifid d) = (if owner = [] then None else Some owner)"
proof (cases ifid)
  case None
  then show ?thesis using binding_rebound [OF s(1)] by (simp add: bound_in_def rebind_dev_def)
next
  case (Some i)
  let ?P = "\<lambda>f. if_of i f \<and> binding f \<noteq> None"
  show ?thesis
  proof (cases "owner = [] \<or> (\<exists>f \<in> set (cf_subs d). if_of i f)")
    case True
    have m: "rebind_dev owner ifid d = with_subs d (map (bind_in owner i) (cf_subs d))"
      unfolding rebind_dev_def Some option.case bind_in_def by (simp only: True if_True)
    have e: "first_index ?P (map (bind_in owner i) (cf_subs d)) = first_index (\<lambda>f. if_of i f \<and> owner \<noteq> []) (cf_subs d)"
      by (rule first_index_map) (auto simp: bind_in_def binding_rebound [OF s(1)] if_of_rebound [OF s(1)])
    show ?thesis
    proof (cases "first_index (\<lambda>f. if_of i f \<and> owner \<noteq> []) (cf_subs d)")
      case None
      then have "owner = []" using True by (auto simp: first_index_None)
      moreover have "bound_in ifid (rebind_dev owner ifid d) = None"
        unfolding m unfolding Some bound_in_def option.case with_subs_sel e None by simp
      ultimately show ?thesis by simp
    next
      case k: (Some k)
      then have "k < length (cf_subs d)" "if_of i (cf_subs d ! k)" "owner \<noteq> []" using first_index_Some by blast+
      then have "binding (bind_in owner i (cf_subs d ! k)) = Some owner" by (simp add: bind_in_def binding_rebound [OF s(1)])
      then have "bound_in ifid (rebind_dev owner ifid d) = Some owner"
        unfolding m unfolding Some bound_in_def option.case with_subs_sel e k using \<open>k < length (cf_subs d)\<close> by simp
      then show ?thesis using \<open>owner \<noteq> []\<close> by simp
    qed
  next
    case False
    then have so: "str_ok owner" "str_ok i" using s Some by auto
    have "first_index ?P (cf_subs d) = None" using False by (auto simp: first_index_None)
    then show ?thesis using False binding_new_if [OF so, of i] Some
      by (simp add: bound_in_def rebind_dev_def first_index_append)
  qed
qed

lemma bound_in_rebind_other:
  assumes s: "owner = [] \<or> str_ok owner" "ifid \<noteq> None \<longrightarrow> str_ok (the ifid)" and n: "ifid' \<noteq> ifid"
  shows "bound_in ifid' (rebind_dev owner ifid d) = bound_in ifid' d"
proof (cases ifid)
  case None
  then show ?thesis using n by (cases ifid') (simp_all add: bound_in_def rebind_dev_def)
next
  case (Some i)
  show ?thesis
  proof (cases ifid')
    case None
    then show ?thesis using Some by (simp add: bound_in_def rebind_dev_def binding_def)
  next
    case j: (Some j)
    then have ij: "j \<noteq> i" using n Some by simp
    then have ex: "\<not> (if_of i f \<and> if_of j f)" for f by (auto simp: has_string_def)
    show ?thesis
    proof (cases "owner = [] \<or> (\<exists>f \<in> set (cf_subs d). if_of i f)")
      case True
      have m: "rebind_dev owner ifid d = with_subs d (map (bind_in owner i) (cf_subs d))"
        unfolding rebind_dev_def Some option.case bind_in_def by (simp only: True if_True)
      have "bound_in (Some j) (with_subs d (map (bind_in owner i) (cf_subs d))) = bound_in (Some j) (with_subs d (cf_subs d))"
        by (rule binding_map) (use ex in \<open>auto simp: bind_in_def if_of_rebound [OF s(1)]\<close>)
      then show ?thesis unfolding m unfolding j by simp
    next
      case False
      then have "\<not> if_of j (new_if_form owner i)" using binding_new_if [of owner i j] s Some ij by auto
      then show ?thesis using False unfolding Some j
        by (auto simp: bound_in_def rebind_dev_def first_index_append nth_append dest: first_index_Some split: option.splits)
    qed
  qed
qed

lemma dev_of_rebind: "owner = [] \<or> str_ok owner \<Longrightarrow> dev_of x (rebind_dev owner ifid d) = dev_of x d"
  by (cases ifid) (simp_all add: rebind_dev_def has_string_def str_at_rebound)

lemma new_dev_form_plain: "bound_in ifid' (CForm IFFFORM_DEVICECFG [str_chunk IFFCHNK_DEVID devid] []) = None"
  by (cases ifid') (simp_all add: bound_in_def binding_def str_at_def chunk_at_def str_chunk_def)

lemma new_dev_form_rebind: "owner \<noteq> [] \<Longrightarrow>
    new_dev_form owner devid ifid = rebind_dev owner ifid (CForm IFFFORM_DEVICECFG [str_chunk IFFCHNK_DEVID devid] [])"
  by (cases ifid) (simp_all add: new_dev_form_def rebind_dev_def rebound_def with_string_def put_chunk_def with_subs_def str_chunk_def)

lemma bound_to_rebind:
  assumes s: "owner = [] \<or> str_ok owner" "str_ok devid" "ifid \<noteq> None \<longrightarrow> str_ok (the ifid)"
  shows "bound_to devid' ifid' (rebind owner devid ifid a) =
    (if devid' = devid \<and> ifid' = ifid then (if owner = [] then None else Some owner) else bound_to devid' ifid' a)"
proof (cases "first_index (dev_of devid) (cf_subs a)")
  case (Some k)
  let ?d = "cf_subs a ! k" and ?r = "rebind_dev owner ifid (cf_subs a ! k)"
  have k: "k < length (cf_subs a)" "dev_of devid ?d" using first_index_Some [OF Some] by blast+
  have e: "first_index (dev_of devid') ((cf_subs a)[k := ?r]) = first_index (dev_of devid') (cf_subs a)"
    using first_index_update_other [OF k(1)] dev_of_rebind [OF s(1)] by metis
  have other: "j \<noteq> k" if "devid' \<noteq> devid" "first_index (dev_of devid') (cf_subs a) = Some j" for j
    using first_index_Some [OF that(2)] k(2) that(1) by (auto simp: has_string_def)
  show ?thesis
  proof (cases "devid' = devid")
    case True
    then show ?thesis using Some e k bound_in_rebind_same [OF s(1,3)] bound_in_rebind_other [OF s(1,3)]
      by (simp add: bound_to_def rebind_def)
  next
    case False
    then show ?thesis using Some e other by (auto simp: bound_to_def rebind_def split: option.splits)
        (cases "first_index (dev_of devid') (cf_subs a)"; simp)
  qed
next
  case None
  let ?p = "CForm IFFFORM_DEVICECFG [str_chunk IFFCHNK_DEVID devid] []"
  show ?thesis
  proof (cases "owner = []")
    case True
    then show ?thesis using None by (simp add: bound_to_def rebind_def)
  next
    case False
    have dv: "dev_of devid' (new_dev_form owner devid ifid) = (devid' = devid)"
      unfolding new_dev_form_rebind [OF False] dev_of_rebind [OF s(1)] using str_at_single [OF s(2)]
      by (auto simp: has_string_def)
    have "bound_in ifid' (new_dev_form owner devid ifid) = (if ifid' = ifid then Some owner else None)"
      unfolding new_dev_form_rebind [OF False] using bound_in_rebind_same [OF s(1,3)] bound_in_rebind_other [OF s(1,3)]
        new_dev_form_plain False by auto
    then show ?thesis using None False dv
      by (auto simp: bound_to_def rebind_def first_index_append nth_append dest: first_index_Some split: option.splits)
  qed
qed

text \<open>A binding that is stored has its NUL.\<close>

lemma ended_put: "str_ok s \<Longrightarrow> ended f \<or> cid = IFFCHNK_FORCEDBIND \<Longrightarrow>
    cf_chunks g = put_chunk (str_chunk cid s) (cf_chunks f) \<Longrightarrow> ended g"
proof -
  assume s: "str_ok s" and f: "ended f \<or> cid = IFFCHNK_FORCEDBIND" and g: "cf_chunks g = put_chunk (str_chunk cid s) (cf_chunks f)"
  have "unat (word_of_nat (length s + 1) :: u32) = length s + 1" using s by (intro unat_len1) (simp add: str_ok_def)
  moreover obtain k where "even_up (length s + 1) - length s = Suc k"
    using even_up_ge [of "length s + 1"] by (cases "even_up (length s + 1) - length s") auto
  ultimately have "0 \<in> set (take (unat (fst (snd (str_chunk cid s)))) (snd (snd (str_chunk cid s))))"
    by (simp add: str_chunk_def del: of_nat_Suc of_nat_add)
  moreover have "fst (str_chunk cid s) = cid" by (simp add: str_chunk_def)
  ultimately show ?thesis using f by (auto simp: ended_def g chunk_at_put)
qed

lemma ended_rebound: "owner = [] \<or> str_ok owner \<Longrightarrow> ended (rebound owner f)"
  using ended_put [of owner f IFFCHNK_FORCEDBIND "rebound owner f"]
  by (auto simp: rebound_def with_string_def ended_def chunk_at_cut)

lemma ended_new_if: "str_ok owner \<Longrightarrow> str_ok i \<Longrightarrow> ended (new_if_form owner i)"
proof -
  assume s: "str_ok owner" "str_ok i"
  let ?c = "[str_chunk IFFCHNK_OWNER owner, str_chunk IFFCHNK_FORCEDBIND owner]"
  have "ended (CForm 0 ?c [])"
    using ended_put [OF s(1), of "CForm 0 [str_chunk IFFCHNK_OWNER owner] []" IFFCHNK_FORCEDBIND]
    by (simp add: put_chunk_def str_chunk_def)
  then show ?thesis using ended_put [OF s(2), of "CForm 0 ?c []" IFFCHNK_IFID "new_if_form owner i"]
    by (simp add: put_chunk_def new_if_form_def str_chunk_def)
qed

lemma ended_rebind_dev:
  assumes "owner = [] \<or> str_ok owner" "ifid \<noteq> None \<longrightarrow> str_ok (the ifid)" "ended d" "\<forall>f \<in> set (cf_subs d). ended f"
  shows "ended (rebind_dev owner ifid d) \<and> (\<forall>f \<in> set (cf_subs (rebind_dev owner ifid d)). ended f)"
proof (cases ifid)
  case None
  then show ?thesis using assms ended_rebound by (simp add: rebind_dev_def)
next
  case (Some i)
  have "ended (with_subs d fs)" for fs using assms(3) by (simp add: ended_def)
  then show ?thesis using assms Some ended_rebound ended_new_if by (auto simp: rebind_dev_def)
qed

lemma bindings_ok_rebind:
  assumes "owner = [] \<or> str_ok owner" "str_ok devid" "ifid \<noteq> None \<longrightarrow> str_ok (the ifid)" "bindings_ok a"
  shows "bindings_ok (rebind owner devid ifid a)"
proof (cases "first_index (dev_of devid) (cf_subs a)")
  case (Some k)
  have k: "k < length (cf_subs a)" using first_index_Some [OF Some] by blast
  have "ended (rebind_dev owner ifid (cf_subs a ! k)) \<and> (\<forall>f \<in> set (cf_subs (rebind_dev owner ifid (cf_subs a ! k))). ended f)"
    by (rule ended_rebind_dev [OF assms(1,3)]) (use assms(4) nth_mem [OF k] in \<open>auto simp: bindings_ok_def\<close>)
  then show ?thesis using assms(4) Some by (auto simp: bindings_ok_def rebind_def dest!: set_update_subset_insert [THEN subsetD])
next
  case None
  let ?p = "CForm IFFFORM_DEVICECFG [str_chunk IFFCHNK_DEVID devid] []"
  have p: "ended ?p" by (simp add: ended_def chunk_at_def str_chunk_def)
  show ?thesis
  proof (cases "owner = []")
    case False
    have "ended (rebind_dev owner ifid ?p) \<and> (\<forall>f \<in> set (cf_subs (rebind_dev owner ifid ?p)). ended f)"
      using ended_rebind_dev [OF assms(1,3) p] by simp
    then show ?thesis using assms(4) None False by (auto simp: bindings_ok_def rebind_def new_dev_form_rebind)
  qed (use assms(4) None in \<open>simp add: rebind_def\<close>)
qed

end
