(* ===== verification/Cfg_Props.thy ===== *)
theory Cfg_Props
  imports Cfg_Runs Cfg_Binding
begin

text \<open>
  What the configuration of neptune.library promises: what is written is what is read back, a
  form read is the list of its chunks and forms, strings and settings are found as they were
  stored, and live settings survive older preference files; and two things it does not.
\<close>

section \<open>Writing\<close>

lemma write_cfg_rep:
  assumes "rep b f" "length (form_image b) < 4294967296"
  shows "\<exists>f'. write_cfg f [] = Some (Some (form_image b), f', []) \<and> rep b f'"
proof -
  obtain f1 where m: "pGetFormLength f = (word_of_nat (length (form_image b)), f1)" "rep b f1" "sized b f1"
    using measure_rep(1) [OF assms] by blast
  have u: "unat (word_of_nat (length (form_image b)) :: u32) = length (form_image b)"
    using assms(2) by (subst unat_of_nat) simp
  have "pInternalWriteForm f1 (replicate (length (form_image b)) 0) 0 = Some (form_image b, length (form_image b))"
    using write_rep(1) [OF m(2,3) assms(2), of "replicate (length (form_image b)) 0" 0 "[]" "replicate (length (form_image b)) 0" "[]"]
    by simp
  then show ?thesis using m by (simp add: write_cfg_def psdAllocVec_def Let_def u)
qed

text \<open>The stack form with the live settings in it, and the tree written for a form.\<close>

definition with_globals :: "psdBase \<Rightarrow> cform \<Rightarrow> cform" where
  "with_globals ps b = with_string (with_string
     (CForm (cf_id b) (put_chunk (IFFCHNK_GLOBALCFG, 50, drop 8 (ps_GlobalCfg ps)) (cf_chunks b)) (cf_subs b))
     IFFCHNK_INSERTSND (nt_InsertSndFile ps)) IFFCHNK_REMOVESND (nt_RemoveSndFile ps)"

definition written_tree :: "psdBase \<Rightarrow> path \<Rightarrow> cform \<Rightarrow> cform" where
  "written_tree ps p a = (if p \<noteq> [] then a
     else case first_index (has_id IFFFORM_STACKCFG) (cf_subs a) of None \<Rightarrow> a
       | Some i \<Rightarrow> upd_at a [i] (with_globals ps (cf_subs a ! i)))"

definition names_ok :: "psdBase \<Rightarrow> bool" where
  "names_ok ps \<longleftrightarrow> length (nt_InsertSndFile ps) < 65536 \<and> length (nt_RemoveSndFile ps) < 65536"

lemma put_area: "length (area (put_chunk c cs)) \<le> length (area cs) + length (enc c)"
  using cut_area [of "fst c" cs] by (simp add: put_chunk_def cut_chunk_def)

lemma with_string_area: "length s < 65536 \<Longrightarrow>
    length (area (cf_chunks (with_string b cid s))) \<le> length (area (cf_chunks b)) + length s + 10"
  using put_area [of "str_chunk cid s" "cf_chunks b"] length_str_chunk [of s cid] by (simp add: with_string_def)

lemma at_form_keeps: "at_form ps p oper = Some (x, ps') \<Longrightarrow> nt_InsertSndFile ps' = nt_InsertSndFile ps \<and>
    nt_RemoveSndFile ps' = nt_RemoveSndFile ps"
  by (auto simp: at_form_def put_form_def bind_eq_Some_conv)

lemma pUpdateGlobalCfg_tree:
  assumes t: "tree ps a" and c: "calm ps" and n: "names_ok ps"
    and small: "\<forall>f \<in> set (cf_subs a). length (area (cf_chunks f)) < 1000000000"
  shows "\<exists>ps'. pUpdateGlobalCfg ps p = Some ps' \<and> calm ps' \<and> tree ps' (written_tree ps p a)"
proof (cases "p = []")
  case False
  then show ?thesis using t c by (simp add: pUpdateGlobalCfg_def written_tree_def)
next
  case True
  note f = psdFindCfgForm_tree [OF t start_at_root [OF t], of a IFFFORM_STACKCFG, simplified]
  show ?thesis
  proof (cases "first_index (has_id IFFFORM_STACKCFG) (cf_subs a)")
    case None
    then show ?thesis using t c f True by (simp add: pUpdateGlobalCfg_def written_tree_def)
  next
    case (Some i)
    let ?b = "cf_subs a ! i" and ?g = "(IFFCHNK_GLOBALCFG, 50, drop 8 (ps_GlobalCfg ps)) :: chunk"
    have i: "i < length (cf_subs a)" using first_index_Some [OF Some] by blast
    have sm: "length (area (cf_chunks ?b)) < 1000000000" using small i by simp
    obtain d where d: "ps_GlobalCfg ps = be32 IFFCHNK_GLOBALCFG @ be32 50 @ d" "length d = 50" using calm_GlobalCfg [OF c] by blast
    have g: "chunk_ok ?g" "ps_GlobalCfg ps = enc ?g" "length (enc ?g) = 58"
      using d by (simp_all add: chunk_ok_def enc_def even_up_def)
    let ?b1 = "CForm (cf_id ?b) (put_chunk ?g (cf_chunks ?b)) (cf_subs ?b)"
    have sb: "sub_at a [i] = Some ?b" using i by simp
    have "\<exists>ps'. at_form ps [i] (\<lambda>f m. pAddCfgChunk (cfg_fuel (ps_GlobalCfg ps)) f (ps_GlobalCfg ps) 0 m) = Some (True, ps') \<and>
        tree ps' (upd_at a [i] ?b1) \<and> calm ps'"
    proof (rule at_form_tree [OF t c sb])
      fix h assume h: "rep ?b h"
      have "item_ok (Ch ?g)" using g(1) by simp
      from pAddCfgChunk_item [OF h this, of 0 "[]" "cfg_fuel (ps_GlobalCfg ps)" "[]" "[]"]
      show "\<exists>f'. pAddCfgChunk (cfg_fuel (ps_GlobalCfg ps)) h (ps_GlobalCfg ps) 0 [] = Some (True, f', []) \<and> rep ?b1 f'"
        using g(3) sm unfolding ser_item.simps g(2) [symmetric] by (auto simp: cfg_fuel_def built_def)
    qed
    then obtain p1 where p1: "at_form ps [i] (\<lambda>f m. pAddCfgChunk (cfg_fuel (ps_GlobalCfg ps)) f (ps_GlobalCfg ps) 0 m) = Some (True, p1)"
        "tree p1 (upd_at a [i] ?b1)" "calm p1" by blast
    note k1 = at_form_keeps [OF p1(1)]
    have a1: "length (area (cf_chunks ?b1)) < 1000000100" using put_area [of ?g "cf_chunks ?b"] g(3) sm by simp
    let ?b2 = "with_string ?b1 IFFCHNK_INSERTSND (nt_InsertSndFile ps)"
    have l: "length (nt_InsertSndFile ps) < 65536" "length (nt_RemoveSndFile ps) < 65536" using n by (simp_all add: names_ok_def)
    obtain p2 where p2: "add_string p1 [i] IFFCHNK_INSERTSND (nt_InsertSndFile ps) = Some (True, p2)"
        "tree p2 (upd_at (upd_at a [i] ?b1) [i] ?b2)" "calm p2"
      using add_string_tree [OF p1(2,3) sub_at_upd_same [OF sb], of IFFCHNK_INSERTSND] l a1 by auto
    note k2 = at_form_keeps [OF p2(1) [unfolded add_string_def]]
    have t2: "tree p2 (upd_at a [i] ?b2)" using p2(2) upd_at_upd [OF sb, of ?b1 "[]" ?b2] by simp
    have "length (area (cf_chunks ?b2)) < 1073741824" using with_string_area [OF l(1), of ?b1 IFFCHNK_INSERTSND] a1 l(1) by simp
    then obtain p3 where p3: "add_string p2 [i] IFFCHNK_REMOVESND (nt_RemoveSndFile ps) = Some (True, p3)"
        "tree p3 (upd_at (upd_at a [i] ?b2) [i] (with_globals ps ?b))" "calm p3"
      using add_string_tree [OF t2 p2(3) sub_at_upd_same [OF sb], of IFFCHNK_REMOVESND] l(2) by (auto simp: with_globals_def)
    have "pUpdateGlobalCfg ps p = Some p3" using True f Some p1(1) p2(1) p3(1) k1 k2 by (simp add: pUpdateGlobalCfg_def)
    moreover have "tree p3 (written_tree ps p a)"
      using p3(2) upd_at_upd [OF sb, of ?b2 "[]" "with_globals ps ?b"] True Some by (simp add: written_tree_def)
    ultimately show ?thesis using p3(3) by blast
  qed
qed

lemma psdWriteCfg_tree:
  assumes t: "tree ps a" and c: "calm ps" and n: "names_ok ps"
    and small: "\<forall>f \<in> set (cf_subs a). length (area (cf_chunks f)) < 1000000000"
    and b: "sub_at (written_tree ps p a) p = Some b" "length (form_image b) < 4294967296"
  shows "\<exists>ps'. psdWriteCfg ps (Some p) = Some (Some (form_image b), ps') \<and> calm ps' \<and> tree ps' (written_tree ps p a)"
proof -
  obtain p1 where p1: "pUpdateGlobalCfg ps p = Some p1" "calm p1" "tree p1 (written_tree ps p a)"
    using pUpdateGlobalCfg_tree [OF t c n small] by blast
  let ?p = "p1\<lparr>ps_CheckConfigReq := True\<rparr>"
  have tc: "tree ?p (written_tree ps p a)" "calm ?p" using p1 by simp_all
  have "\<exists>ps'. at_form ?p p write_cfg = Some (Some (form_image b), ps') \<and>
      tree ps' (upd_at (written_tree ps p a) p b) \<and> calm ps'"
    by (rule at_form_tree [OF tc b(1)]) (rule write_cfg_rep [OF _ b(2)])
  then show ?thesis using p1(1) upd_at_same [OF b(1)] by (auto simp: psdWriteCfg_def start_at_def)
qed

section \<open>What is read\<close>

definition plain_chunks :: "item list \<Rightarrow> chunk list" where
  "plain_chunks its = concat (map (\<lambda>it. case it of Ch c \<Rightarrow> [c] | Fm _ _ \<Rightarrow> []) its)"

definition plain_forms :: "item list \<Rightarrow> (u32 \<times> item list) list" where
  "plain_forms its = concat (map (\<lambda>it. case it of Ch _ \<Rightarrow> [] | Fm i js \<Rightarrow> [(i, js)]) its)"

lemma contents_snoc: "contents i (its @ [it]) = absorb it (contents i its)"
  by (simp add: contents_def)

lemma contents_chunks: "chunk_at (cf_chunks (contents i its)) cid = List.find (\<lambda>c. fst c = cid) (rev (plain_chunks its))"
proof (induction its rule: rev_induct)
  case Nil
  show ?case by (simp add: contents_def plain_chunks_def chunk_at_def)
next
  case (snoc it its)
  then show ?case by (cases it) (auto simp: contents_snoc plain_chunks_def chunk_at_put)
qed

lemma contents_forms: "cf_subs (contents i its) = map (\<lambda>(i, js). contents i js) (plain_forms its)"
proof (induction its rule: rev_induct)
  case Nil
  show ?case by (simp add: contents_def plain_forms_def)
next
  case (snoc it its)
  then show ?case by (cases it) (simp_all add: contents_snoc plain_forms_def absorb_Fm del: absorb.simps(2))
qed

section \<open>The merge of saved settings\<close>

lemma merged_nth:
  assumes "chunk_ok c" "length G = 58" "k < 58"
  shows "merged G c ! k = (if 8 \<le> k \<and> k < 8 + unat (fst (snd c)) then snd (snd c) ! (k - 8) else G ! k)"
proof -
  define n where "n = unat (min (fst (snd c)) 50)"
  have n: "n = min (unat (fst (snd c))) 50" by (auto simp: n_def min_def word_le_nat_alt)
  have m: "merged G c = take 8 G @ take n (snd (snd c)) @ drop (8 + n) G" by (simp add: merged_def n_def Let_def)
  have l: "n \<le> length (snd (snd c))" using n enc_parts(2) [OF assms(1)] by simp
  show ?thesis
  proof (cases "k < 8 + n")
    case True
    then show ?thesis using assms(2,3) l n unfolding m by (auto simp: nth_append)
  next
    case False
    then have "\<not> k < 8 + unat (fst (snd c))" using n assms(3) by auto
    then show ?thesis using False assms(2,3) l unfolding m by (auto simp: nth_append)
  qed
qed

lemma merge_insert_exact:
  assumes "rep b f" "calm ps"
  shows "merge_insert ps f = Some (ps\<lparr>nt_InsertSndFile :=
    (case str_at (cf_chunks b) IFFCHNK_INSERTSND of None \<Rightarrow> nt_InsertSndFile ps | Some s \<Rightarrow> s)\<rparr>)"
  using assms pMatchStringChunk_rep [OF assms(1), of "nt_InsertSndFile ps" IFFCHNK_INSERTSND]
    pGetStringChunk_rep [OF assms(1), of IFFCHNK_INSERTSND]
  by (simp add: merge_insert_def calm_def)

lemma merge_remove_exact:
  assumes "rep b f" "calm ps"
  shows "merge_remove ps f = Some (ps\<lparr>nt_RemoveSndFile :=
    (case str_at (cf_chunks b) IFFCHNK_REMOVESND of None \<Rightarrow> nt_RemoveSndFile ps | Some s \<Rightarrow> s)\<rparr>)"
  using assms pMatchStringChunk_rep [OF assms(1), of "nt_RemoveSndFile ps" IFFCHNK_REMOVESND]
    pGetStringChunk_rep [OF assms(1), of IFFCHNK_REMOVESND]
  by (simp add: merge_remove_def calm_def)

section \<open>Sample data\<close>

definition sample_base :: psdBase where
  "sample_base = \<lparr>ps_ConfigRoot = Some (Pic IFFFORM_PSDCFG 4 [] 0 0 [Pic IFFFORM_STACKCFG 4 [] 0 0 []]),
     ps_GlobalCfg = be32 IFFCHNK_GLOBALCFG @ be32 50 @ replicate 50 0,
     nt_InsertSndFile = [67], nt_RemoveSndFile = [68], ps_CheckConfigReq = False, ps_ConfigHash = 0,
     ps_LinkPowerReq = False, ps_ConfigChgEvents = 0, ps_Mem = []\<rparr>"

definition sample_tree :: cform where
  "sample_tree = CForm IFFFORM_PSDCFG [] [CForm IFFFORM_STACKCFG [] []]"

lemma sample_ok: "tree sample_base sample_tree" "calm sample_base" "names_ok sample_base"
  "\<forall>f \<in> set (cf_subs sample_tree). length (area (cf_chunks f)) < 1000000000"
  by (simp_all add: sample_base_def sample_tree_def tree_def calm_def names_ok_def)

definition sample_item :: item where
  "sample_item = Ch (0x41424344, 3, [1, 2, 3, 0])"

lemma sample_item_ok: "item_ok sample_item" "length (ser_item sample_item) = 12"
  by (simp_all add: sample_item_def chunk_ok_def even_up_def enc_def)

section \<open>Properties\<close>

text \<open>C20: Writing a form and reading the result into a form of the same kind, in this or another
  configuration, gives the same chunks and sub forms (those of the root with the live settings put
  into the stack form first), and equal checksums; the bytes written are exactly the length the
  measuring pass announced and stay inside the buffer it sized.\<close>

theorem config_roundtrip:
  assumes "tree ps a" and "calm ps" and "names_ok ps"
    and "\<forall>f \<in> set (cf_subs a). length (area (cf_chunks f)) < 1000000000"
    and "sub_at (written_tree ps p a) p = Some b" and "length (form_image b) < 1073741824"
    and "tree qs c" and "calm qs" and "sub_at c q = Some d" and "cf_id d = cf_id b"
  shows "\<exists>buf ps' qs' f g. psdWriteCfg ps (Some p) = Some (Some buf, ps') \<and> length buf = length (form_image b) \<and>
    tree ps' (written_tree ps p a) \<and> get_form ps' p = Some f \<and> rep b f \<and>
    psdReadCfg qs (Some q) buf = Some (True, qs') \<and> tree qs' (upd_at c q b) \<and>
    get_form qs' q = Some g \<and> rep b g \<and> pCalcCfgCRC g = pCalcCfgCRC f"
proof -
  obtain ps' where w: "psdWriteCfg ps (Some p) = Some (Some (form_image b), ps')" "tree ps' (written_tree ps p a)"
    using psdWriteCfg_tree [OF assms(1-5)] assms(6) by auto
  obtain f where f: "get_form ps' p = Some f" "rep b f" using get_form_rep [OF w(2) assms(5)] by blast
  have ok: "cform_ok b" by (rule rep_cform_ok [OF f(2)])
  have im: "form_image b = ser_item (Fm (cf_id d) (items_of b)) @ []"
    using assms(10) by (simp add: form_image_def form_item_def)
  obtain qs' where r: "psdReadCfg qs (Some q) (form_image b) = Some (True, qs')" "tree qs' (upd_at c q b)"
    using psdReadCfg_tree [OF assms(7-9) items_of_ok [OF ok] im] assms(6,10) im contents_items [OF ok] by auto
  obtain g where g: "get_form qs' q = Some g" "rep b g"
    using get_form_rep [OF r(2) sub_at_upd_same [OF assms(9)]] by blast
  show ?thesis using w r f g crc_rep(1) [OF f(2)] crc_rep(1) [OF g(2)] by (intro exI conjI) (assumption | simp)+
qed

lemma config_roundtrip_witness:
  "\<exists>buf ps' qs' f g. psdWriteCfg sample_base (Some [0]) = Some (Some buf, ps') \<and> length buf = 12 \<and>
    tree ps' sample_tree \<and> get_form ps' [0] = Some f \<and> rep (CForm IFFFORM_STACKCFG [] []) f \<and>
    psdReadCfg sample_base (Some [0]) buf = Some (True, qs') \<and> tree qs' sample_tree \<and>
    get_form qs' [0] = Some g \<and> rep (CForm IFFFORM_STACKCFG [] []) g \<and> pCalcCfgCRC g = pCalcCfgCRC f"
  using config_roundtrip [OF sample_ok, of "[0]" "CForm IFFFORM_STACKCFG [] []" sample_base sample_tree "[0]" "CForm IFFFORM_STACKCFG [] []"]
    sample_ok by (simp add: written_tree_def sample_tree_def length_image images_def with_subs_def)

text \<open>C33: Reading a form of any well formed contents, whether memory runs out or not, stays inside
  its buffers and leaves a well formed form; when it succeeds, as it does with memory at hand, the
  form holds for every chunk id the last chunk read and the sub forms in the order read, whatever
  it held before.\<close>

theorem read_last_wins:
  assumes "rep b f" and "\<forall>it \<in> set its. item_ok it" and "d = ser_item (Fm (cf_id b) its) @ r"
    and "length (ser_item (Fm (cf_id b) its)) < 1073741824"
  shows "alien_form f d = Some False \<and> (\<exists>ok f' m'. read_cfg f d m = Some (ok, f', m') \<and> pic_ok f' \<and>
    (m = [] \<longrightarrow> ok) \<and> (ok \<longrightarrow> (\<exists>c. rep c f' \<and> cf_id c = cf_id b \<and>
      (\<forall>cid. chunk_at (cf_chunks c) cid = List.find (\<lambda>c. fst c = cid) (rev (plain_chunks its))) \<and>
      cf_subs c = map (\<lambda>(i, js). contents i js) (plain_forms its))))"
proof -
  note rc = read_cfg_rep [OF assms(1-3)]
  have l: "length (ser_item (Fm (cf_id b) its)) < 2147483648" using assms(4) by simp
  obtain ok f' m' where r: "read_cfg f d m = Some (ok, f', m')" "built b (contents (cf_id b) its) ok f'" "m = [] \<longrightarrow> ok"
    using rc(2) [OF l, of m] by blast
  then show ?thesis using rc(1) [OF l] contents_chunks [of "cf_id b" its] contents_forms [of "cf_id b" its]
    by (auto simp: built_def)
qed

lemma read_last_wins_witness:
  "\<exists>ok f' m'. read_cfg (new_form 7) (ser_item (Fm 7 [sample_item])) [] = Some (ok, f', m') \<and> ok"
  using read_last_wins [of "CForm 7 [] []" "new_form 7" "[sample_item]" "ser_item (Fm 7 [sample_item])" "[]" "[]"]
    sample_item_ok by (auto simp: ser_item_Fm)

text \<open>C34: A string added to a form is the one that matches and that is copied out afterwards, every
  other id keeps its string, and removing it again leaves no chunk of the id and all others; running
  out of memory is reported, and the form stays well formed.\<close>

theorem string_chunk_stored:
  assumes "rep b f" and "cid \<noteq> ID_FORM" and "str_ok s" and "length (area (cf_chunks b)) < 1000000000"
  shows "\<exists>ok f' m'. pAddStringChunk f cid s m = Some (ok, f', m') \<and> pic_ok f' \<and> (m = [] \<longrightarrow> ok) \<and>
    (ok \<longrightarrow> pGetStringChunk f' cid [] = Some (Some s, []) \<and>
      (\<forall>e t. str_ok t \<longrightarrow> pMatchStringChunk f' e t = (if e = cid then Some (t = s) else pMatchStringChunk f e t)) \<and>
      (\<exists>g. pRemCfgChunk f' cid = Some (True, g) \<and> pFindCfgChunk g cid = Some None \<and>
        (\<forall>e t. e \<noteq> cid \<longrightarrow> str_ok t \<longrightarrow> pMatchStringChunk g e t = pMatchStringChunk f e t)))"
proof -
  let ?cs = "put_chunk (str_chunk cid s) (cf_chunks b)" let ?b = "CForm (cf_id b) ?cs (cf_subs b)"
  have l: "length s < 65536" using assms(3) by (simp add: str_ok_def)
  obtain ok f' m' where a: "pAddStringChunk f cid s m = Some (ok, f', m')" "built b ?b ok f'" "m = [] \<longrightarrow> ok"
    using pAddStringChunk_rep [OF assms(1,2) l, of m] assms(4) l by auto
  note nul = str_ok_def
  show ?thesis
  proof (cases ok)
    case False
    then show ?thesis using a by (auto simp: built_def)
  next
    case True
    then have r: "rep ?b f'" using a(2) by (simp add: built_def)
    note at = str_at_put [OF assms(3), of cid "cf_chunks b"]
    obtain g where g: "pRemCfgChunk f' cid = Some (cid \<in> fst ` set ?cs, g)" "rep (CForm (cf_id b) (cut_chunk cid ?cs) (cf_subs b)) g"
      using pRemCfgChunk_rep [OF r, of cid] by auto
    have "cid \<in> fst ` set ?cs" by (simp add: put_chunk_def str_chunk_def)
    moreover have "pFindCfgChunk g cid = Some None" using find_rep_None [OF g(2)] by (simp add: chunk_at_cut)
    moreover have "pMatchStringChunk g e t = pMatchStringChunk f e t" if "e \<noteq> cid" "str_ok t" for e t
      using pMatchStringChunk_rep [OF g(2), of t e] pMatchStringChunk_rep [OF assms(1), of t e] that at
      by (simp add: nul str_at_cut)
    moreover have "pMatchStringChunk f' e t = (if e = cid then Some (t = s) else pMatchStringChunk f e t)" if "str_ok t" for e t
      using pMatchStringChunk_rep [OF r, of t e] pMatchStringChunk_rep [OF assms(1), of t e] that at by (auto simp: nul)
    moreover have "pGetStringChunk f' cid [] = Some (Some s, [])" using pGetStringChunk_rep [OF r] at by simp
    ultimately show ?thesis using a pic_okI [OF r] g(1) by auto
  qed
qed

lemma string_chunk_stored_witness:
  "\<exists>f' m'. pAddStringChunk (new_form 7) 8 [65] [] = Some (True, f', m') \<and> pMatchStringChunk f' 8 [65] = Some True"
  using string_chunk_stored [of "CForm 7 [] []" "new_form 7" 8 "[65]" "[]"] by (auto simp: str_ok_def)

text \<open>C31: Class settings: in a store in which every class form has its data form, after any sequence of
  psdSetClsCfg() calls, all of which succeed, psdGetClsCfg() finds for every class the contents it set
  last; a class that set nothing finds what it found before; and in the new store again every class form
  has its data form. (The setter never makes a class form without one; where a file brought one,
  class_settings_lost shows what happens.)\<close>

theorem class_settings_kept:
  assumes "tree ps a" and "calm ps"
    and "\<forall>f \<in> set (cf_subs a). cf_id f = IFFFORM_CLASSCFG \<longrightarrow> first_index (has_id IFFFORM_CLASSDATA) (cf_subs f) \<noteq> None"
    and "\<forall>(owner, s) \<in> set sets. str_ok owner \<and> data_ok IFFFORM_CLASSDATA (fst s) (snd s)"
  shows "\<exists>ps' a'. run_sets (\<lambda>owner s. psdSetClsCfg owner (snd s)) sets ps = Some ps' \<and>
    (\<forall>owner. str_ok owner \<longrightarrow> (\<exists>c. shows_form ps (psdGetClsCfg owner ps) c \<and>
      shows_form ps' (psdGetClsCfg owner ps') (case map_of (rev sets) owner of
        Some s \<Rightarrow> Some (contents IFFFORM_CLASSDATA (fst s)) | None \<Rightarrow> c))) \<and>
    tree ps' a' \<and> (\<forall>f \<in> set (cf_subs a'). cf_id f = IFFFORM_CLASSCFG \<longrightarrow>
      first_index (has_id IFFFORM_CLASSDATA) (cf_subs f) \<noteq> None)"
proof -
  note w = assms(3) [folded classes_complete_def]
  from cls_settings.sets_kept [OF assms(1,2) w assms(4)] obtain ps' where
    p: "run_sets (\<lambda>owner s. psdSetClsCfg owner (snd s)) sets ps = Some ps'"
      "\<forall>owner. str_ok owner \<longrightarrow> (\<exists>c. shows_form ps (psdGetClsCfg owner ps) c \<and>
        shows_form ps' (psdGetClsCfg owner ps') (case map_of (rev sets) owner of
          Some s \<Rightarrow> Some (contents IFFFORM_CLASSDATA (fst s)) | None \<Rightarrow> c))" by blast
  then show ?thesis using cls_settings.run_whole [OF assms(1,2) w assms(4) p(1)] unfolding classes_complete_def by blast
qed

definition sample_data :: bytes where
  "sample_data = ser_item (Fm IFFFORM_CLASSDATA [sample_item])"

lemma sample_data_ok: "data_ok IFFFORM_CLASSDATA [sample_item] (Some sample_data)"
  using sample_item_ok by (auto simp: data_ok_def sample_data_def ser_item_Fm)

lemma class_settings_kept_witness:
  "\<exists>ps'. run_sets (\<lambda>owner s. psdSetClsCfg owner (snd s)) [([65], ([], None)), ([65], ([sample_item], Some sample_data))] sample_base = Some ps' \<and>
     shows_form ps' (psdGetClsCfg [65] ps') (Some (contents IFFFORM_CLASSDATA [sample_item]))"
proof -
  have "\<forall>f \<in> set (cf_subs sample_tree). cf_id f = IFFFORM_CLASSCFG \<longrightarrow> first_index (has_id IFFFORM_CLASSDATA) (cf_subs f) \<noteq> None"
    by (simp add: sample_tree_def)
  then obtain ps' where "run_sets (\<lambda>owner s. psdSetClsCfg owner (snd s))
      [([65], ([], None)), ([65], ([sample_item], Some sample_data))] sample_base = Some ps'" and
    f: "\<forall>owner. str_ok owner \<longrightarrow> (\<exists>c. shows_form sample_base (psdGetClsCfg owner sample_base) c \<and>
      shows_form ps' (psdGetClsCfg owner ps') (case map_of (rev [([65], ([], None)), ([65], ([sample_item], Some sample_data))]) owner of
        Some s \<Rightarrow> Some (contents IFFFORM_CLASSDATA (fst s)) | None \<Rightarrow> c))"
    using class_settings_kept [OF sample_ok(1,2), of "[([65], ([], None)), ([65], ([sample_item], Some sample_data))]"]
      sample_data_ok by (auto simp: str_ok_def data_ok_def)
  then show ?thesis using spec [OF f, of "[65]"] by (simp add: str_ok_def)
qed

text \<open>C21: Settings of devices and of their interfaces: after any sequence of psdSetUsbDevCfg() calls,
  all of which succeed, psdGetUsbDevCfg() finds for every owner, device and interface the contents
  set last for exactly these three, and otherwise what it found before.\<close>

theorem device_settings_kept:
  assumes "tree ps a" and "calm ps"
    and "\<forall>(k, s) \<in> set sets. dev_key_ok k \<and> data_ok (data_id (snd (snd k))) (fst s) (snd s)"
  shows "\<exists>ps'. run_sets (\<lambda>(owner, devid, ifid) s. psdSetUsbDevCfg owner devid ifid (snd s)) sets ps = Some ps' \<and>
    (\<forall>owner devid ifid. dev_key_ok (owner, devid, ifid) \<longrightarrow> (\<exists>c. shows_form ps (psdGetUsbDevCfg owner devid ifid ps) c \<and>
      shows_form ps' (psdGetUsbDevCfg owner devid ifid ps') (case map_of (rev sets) (owner, devid, ifid) of
        Some s \<Rightarrow> Some (contents (data_id ifid) (fst s)) | None \<Rightarrow> c)))"
proof -
  have "\<forall>(k, v) \<in> set sets. dev_key_ok k \<and> (\<lambda>(owner, devid, ifid) s. data_ok (data_id ifid) (fst s) (snd s)) k v"
    using assms(3) by auto
  from dev_settings.sets_kept [OF assms(1,2) TrueI this] show ?thesis by auto
qed

lemma device_settings_kept_witness:
  "\<exists>ps'. run_sets (\<lambda>(owner, devid, ifid) s. psdSetUsbDevCfg owner devid ifid (snd s))
     [(([65], [66], Some [67]), ([] :: item list, None)), (([65], [66], None), ([], None))] sample_base = Some ps' \<and>
     shows_form ps' (psdGetUsbDevCfg [65] [66] (Some [67]) ps') (Some (contents IFFFORM_IFCLSDATA []))"
proof -
  let ?l = "[(([65], [66], Some [67]), ([], None)), (([65], [66], None), ([], None))] :: (dev_key \<times> settings) list"
  obtain ps' where r: "run_sets (\<lambda>(owner, devid, ifid) s. psdSetUsbDevCfg owner devid ifid (snd s)) ?l sample_base = Some ps'" and
    f: "\<forall>owner devid ifid. dev_key_ok (owner, devid, ifid) \<longrightarrow> (\<exists>c. shows_form sample_base (psdGetUsbDevCfg owner devid ifid sample_base) c \<and>
      shows_form ps' (psdGetUsbDevCfg owner devid ifid ps') (case map_of (rev ?l) (owner, devid, ifid) of
        Some s \<Rightarrow> Some (contents (data_id ifid) (fst s)) | None \<Rightarrow> c))"
    using device_settings_kept [OF sample_ok(1,2), of ?l] by (auto simp: dev_key_ok_def str_ok_def data_ok_def)
  have "shows_form ps' (psdGetUsbDevCfg [65] [66] (Some [67]) ps') (Some (contents IFFFORM_IFCLSDATA []))"
    using f [rule_format, of "[65]" "[66]" "Some [67]"] by (simp add: dev_key_ok_def str_ok_def data_id_def)
  with r show ?thesis by blast
qed

text \<open>C32: Forced bindings: after psdSetForcedBinding() for a device or an interface
  psdGetForcedBinding() gives the owner stored, or none when it was removed by an empty owner; the
  bindings of all other devices and interfaces are unchanged.\<close>

theorem forced_binding_stored:
  assumes "tree ps a" and "calm ps" and "bindings_ok a" and "bindings_roomy a" and "owner = [] \<or> str_ok owner"
    and "str_ok devid" and "ifid \<noteq> None \<longrightarrow> str_ok (the ifid)"
  shows "\<exists>ps' a'. psdSetForcedBinding owner devid ifid ps = Some (True, ps') \<and> calm ps' \<and> tree ps' a' \<and> bindings_ok a' \<and>
    (\<forall>d i. str_ok d \<longrightarrow> (i \<noteq> None \<longrightarrow> str_ok (the i)) \<longrightarrow>
      psdGetForcedBinding d i ps' = (if d = devid \<and> i = ifid then Some (if owner = [] then None else Some owner)
        else psdGetForcedBinding d i ps))"
proof -
  obtain ps' where p: "psdSetForcedBinding owner devid ifid ps = Some (True, ps')" "calm ps'" "tree ps' (rebind owner devid ifid a)"
    using psdSetForcedBinding_tree [OF assms(1,2,4-7)] by blast
  have ok: "bindings_ok (rebind owner devid ifid a)" by (rule bindings_ok_rebind [OF assms(5-7,3)])
  have "psdGetForcedBinding d i ps' = (if d = devid \<and> i = ifid then Some (if owner = [] then None else Some owner)
      else psdGetForcedBinding d i ps)"
    if "str_ok d" "i \<noteq> None \<longrightarrow> str_ok (the i)" for d i
    using psdGetForcedBinding_tree [OF p(3) that ok] psdGetForcedBinding_tree [OF assms(1) that assms(3)]
      bound_to_rebind [OF assms(5-7), of d i a] by simp
  then show ?thesis using p ok by blast
qed

lemma forced_binding_stored_witness:
  "\<exists>ps'. psdSetForcedBinding [65] [66] (Some [67]) sample_base = Some (True, ps') \<and>
     psdGetForcedBinding [66] (Some [67]) ps' = Some (Some [65])"
  using forced_binding_stored [OF sample_ok(1,2), of "[65]" "[66]" "Some [67]"]
  by (force simp: sample_tree_def bindings_ok_def bindings_roomy_def ended_def roomy_def chunk_at_def str_ok_def)

text \<open>C35: When the saved configuration has changed, the live settings take from a saved settings
  chunk the fields it has and keep their own value of every field it lacks, their header and size
  stay as they are, the sound files take the names saved, the link power policy is re-checked
  exactly when its switch changed, one event is sent and the tree is left alone.\<close>

theorem older_settings_merge:
  assumes "tree ps a" and "calm ps" and "crc_tree a \<noteq> ps_ConfigHash ps"
    and "first_index (has_id IFFFORM_STACKCFG) (cf_subs a) = Some i"
    and "chunk_at (cf_chunks (cf_subs a ! i)) IFFCHNK_GLOBALCFG = Some c"
  shows "\<exists>ps'. pCheckCfgChanged ps = Some (True, ps') \<and> calm ps' \<and> ps_ConfigRoot ps' = ps_ConfigRoot ps \<and>
    ps_ConfigHash ps' = crc_tree a \<and> ps_ConfigChgEvents ps' = Suc (ps_ConfigChgEvents ps) \<and>
    (\<forall>k < 58. ps_GlobalCfg ps' ! k =
      (if 8 \<le> k \<and> k < 8 + unat (fst (snd c)) then snd (snd c) ! (k - 8) else ps_GlobalCfg ps ! k)) \<and>
    (ps_LinkPowerReq ps' \<longleftrightarrow> ps_LinkPowerReq ps \<or> link_word (ps_GlobalCfg ps') \<noteq> link_word (ps_GlobalCfg ps)) \<and>
    nt_InsertSndFile ps' = (case str_at (cf_chunks (cf_subs a ! i)) IFFCHNK_INSERTSND of None \<Rightarrow> nt_InsertSndFile ps | Some s \<Rightarrow> s) \<and>
    nt_RemoveSndFile ps' = (case str_at (cf_chunks (cf_subs a ! i)) IFFCHNK_REMOVESND of None \<Rightarrow> nt_RemoveSndFile ps | Some s \<Rightarrow> s)"
proof -
  let ?b = "cf_subs a ! i" let ?p = "ps\<lparr>ps_CheckConfigReq := False, ps_ConfigHash := crc_tree a\<rparr>"
  obtain root where root: "ps_ConfigRoot ps = Some root" "rep a root" using assms(1) by (auto simp: tree_def)
  have t: "tree ?p a" "calm ?p" using assms(1,2) by (simp_all add: tree_def calm_def)
  have i: "sub_at a [i] = Some ?b" using first_index_Some [OF assms(4)] by simp
  obtain f where f: "get_form ?p [i] = Some f" "rep ?b f" using get_form_rep [OF t(1) i] by blast
  have q: "psdFindCfgForm ?p (Some []) IFFFORM_STACKCFG = Some (Some [i])"
    using psdFindCfgForm_tree [OF t(1) start_at_Some [of _ "[]"], of a IFFFORM_STACKCFG] assms(4) by simp
  note mg = merge_global_Some [OF f(2) t(2) assms(5)]
  define p1 where "p1 = ?p\<lparr>ps_GlobalCfg := merged (ps_GlobalCfg ps) c, ps_LinkPowerReq :=
      (link_word (merged (ps_GlobalCfg ps) c) \<noteq> link_word (ps_GlobalCfg ps) \<or> ps_LinkPowerReq ps)\<rparr>"
  have p1: "merge_global ?p f = Some p1" unfolding p1_def using mg(1) by simp
  have c1: "calm p1" using merge_global_calm [OF f(2) t(2)] p1 t(2) by (simp add: settled_def)
  define p2 where "p2 = p1\<lparr>nt_InsertSndFile :=
      (case str_at (cf_chunks ?b) IFFCHNK_INSERTSND of None \<Rightarrow> nt_InsertSndFile p1 | Some s \<Rightarrow> s)\<rparr>"
  have p2: "merge_insert p1 f = Some p2" unfolding p2_def by (rule merge_insert_exact [OF f(2) c1])
  have c2: "calm p2" using merge_insert_calm [OF f(2) c1] p2 c1 by (simp add: settled_def)
  define p3 where "p3 = p2\<lparr>nt_RemoveSndFile :=
      (case str_at (cf_chunks ?b) IFFCHNK_REMOVESND of None \<Rightarrow> nt_RemoveSndFile p2 | Some s \<Rightarrow> s)\<rparr>"
  have p3: "merge_remove p2 f = Some p3" unfolding p3_def by (rule merge_remove_exact [OF f(2) c2])
  have c3: "calm p3" using merge_remove_calm [OF f(2) c2] p3 c2 by (simp add: settled_def)
  let ?e = "p3\<lparr>ps_ConfigChgEvents := Suc (ps_ConfigChgEvents p3)\<rparr>"
  have "pCheckCfgChanged ps = Some (True, ?e)"
    using root crc_rep(1) [OF root(2)] assms(3) q f(1) p1 p2 p3 by (simp add: pCheckCfgChanged_def Let_def)
  moreover have fields: "ps_ConfigRoot ?e = ps_ConfigRoot ps" "ps_ConfigHash ?e = crc_tree a"
    "ps_ConfigChgEvents p3 = ps_ConfigChgEvents ps" "ps_GlobalCfg ?e = merged (ps_GlobalCfg ps) c"
    "ps_LinkPowerReq ?e \<longleftrightarrow> ps_LinkPowerReq ps \<or> link_word (merged (ps_GlobalCfg ps) c) \<noteq> link_word (ps_GlobalCfg ps)"
    "nt_InsertSndFile ?e = (case str_at (cf_chunks ?b) IFFCHNK_INSERTSND of None \<Rightarrow> nt_InsertSndFile ps | Some s \<Rightarrow> s)"
    "nt_RemoveSndFile ?e = (case str_at (cf_chunks ?b) IFFCHNK_REMOVESND of None \<Rightarrow> nt_RemoveSndFile ps | Some s \<Rightarrow> s)"
    by (simp_all add: p3_def p2_def p1_def disj_commute split: option.splits)
  moreover have "calm ?e" using c3 by (simp add: calm_def)
  moreover have "length (ps_GlobalCfg ps) = 58" using assms(2) by (simp add: calm_def)
  ultimately show ?thesis using merged_nth [OF mg(2)]
    by (intro exI [of _ ?e] conjI) (simp_all add: fields)
qed

definition merge_base :: psdBase where
  "merge_base = sample_base\<lparr>ps_ConfigRoot := Some (Pic IFFFORM_PSDCFG 4 [] 0 0
     [Pic IFFFORM_STACKCFG 4 (be32 IFFCHNK_GLOBALCFG @ be32 2 @ [0, 1]) 10 10 []])\<rparr>"

definition merge_tree :: cform where
  "merge_tree = CForm IFFFORM_PSDCFG [] [CForm IFFFORM_STACKCFG [(IFFCHNK_GLOBALCFG, 2, [0, 1])] []]"

lemma older_settings_merge_witness:
  "\<exists>ps'. pCheckCfgChanged (merge_base\<lparr>ps_ConfigHash := crc_tree merge_tree + 1\<rparr>) = Some (True, ps') \<and>
     ps_ConfigChgEvents ps' = 1"
proof -
  let ?ps = "merge_base\<lparr>ps_ConfigHash := crc_tree merge_tree + 1\<rparr>"
  have t: "tree ?ps merge_tree" "calm ?ps" using sample_ok(2)
    by (simp_all add: merge_base_def merge_tree_def tree_def calm_def sample_base_def enc_def chunk_ok_def even_up_def)
  have h: "crc_tree merge_tree \<noteq> ps_ConfigHash ?ps" by simp
  have "first_index (has_id IFFFORM_STACKCFG) (cf_subs merge_tree) = Some 0"
    "chunk_at (cf_chunks (cf_subs merge_tree ! 0)) IFFCHNK_GLOBALCFG = Some (IFFCHNK_GLOBALCFG, 2, [0, 1])"
    by (simp_all add: merge_tree_def chunk_at_def)
  from older_settings_merge [OF t h this] show ?thesis by (auto simp: merge_base_def sample_base_def)
qed

text \<open>C36: A preference file whose chunk has a length field of 0xFFFFFFF7 makes psdReadCfg() loop for
  ever: the size computed for the chunk wraps to 0, adding it succeeds without storing anything, and
  the position and the length that is left never change, so no amount of steps ends the loop.\<close>

theorem read_corrupt_length_hangs:
  assumes "pic_ChunksLen f = 0" and "cid \<noteq> ID_FORM"
    and "d = be32 ID_FORM @ be32 12 @ be32 (pic_FormID f) @ be32 cid @ be32 0xFFFFFFF7"
  shows "alien_form f d = Some False \<and> pAddCfgChunk (Suc n) f d 12 m = Some (True, f, m) \<and>
    add_loop n f d 12 (form_bytes 12) m = None"
proof -
  let ?l = "0xFFFFFFF7 :: u32"
  have rd: "rd32 d 0 = Some ID_FORM" "rd32 d 8 = Some (pic_FormID f)" "rd32 d 12 = Some cid" "rd32 d 16 = Some ?l"
    unfolding assms(3)
    using rd32_mid [of 0 "[]" ID_FORM] rd32_mid [of 8 "be32 ID_FORM @ be32 12" "pic_FormID f"]
      rd32_mid [of 12 "be32 ID_FORM @ be32 12 @ be32 (pic_FormID f)" cid]
      rd32_mid [of 16 "be32 ID_FORM @ be32 12 @ be32 (pic_FormID f) @ be32 cid" ?l "[]"] by simp_all
  have len: "length d = 20" by (simp add: assms(3))
  have cb: "chunk_bytes ?l = 0" by (simp add: chunk_bytes_def)
  have fb: "form_bytes 12 = 8" by (simp add: form_bytes_def)
  have rm: "pRemCfgChunk f cid = Some (False, f)" using assms(1) by (simp add: pRemCfgChunk_def rem_chunk.simps)
  have wr: "wr_bytes (pic_Chunks f) 0 [] = Some (pic_Chunks f)" by (simp add: wr_bytes_def)
  have sl: "rd_slice d 12 0 = Some []" using len by (simp add: rd_slice_def)
  have same: "pic_with f (pic_Chunks f) 0 (pic_BufferLen f) = f" using assms(1) by (cases f) (simp add: pic_with_def)
  have gr: "grow f 0 m = Some (True, f, m)" for m using assms(1) by (simp add: grow_def)
  have one: "pAddCfgChunk (Suc n) f d 12 m = Some (True, f, m)" for n m
    using rd assms(1,2) rm cb gr wr sl same by (simp add: pAddCfgChunk.simps add_plain_def)
  have next_loop: "add_loop (Suc (Suc k)) f d 12 8 m = add_loop (Suc k) f d 12 8 m" for k
    using one [of k m] by (subst add_loop.simps) (simp add: sle_unat rd(4) cb)
  have last_loop: "add_loop (Suc 0) f d 12 8 m = None"
    by (simp add: add_loop.simps pAddCfgChunk.simps(1) sle_unat)
  have "add_loop n f d 12 8 m = None"
  proof (induction n)
    case (Suc n)
    then show ?case using next_loop [of "n - 1"] last_loop by (cases n) simp_all
  qed (simp add: add_loop.simps)
  then show ?thesis using one rd fb by (simp add: alien_form_def)
qed

lemma read_corrupt_length_hangs_witness:
  "read_cfg (new_form 7) (be32 ID_FORM @ be32 12 @ be32 7 @ be32 8 @ be32 0xFFFFFFF7) [] = None"
  using read_corrupt_length_hangs [of "new_form 7" 8 "be32 ID_FORM @ be32 12 @ be32 7 @ be32 8 @ be32 0xFFFFFFF7"
      "cfg_fuel (be32 ID_FORM @ be32 12 @ be32 7 @ be32 8 @ be32 0xFFFFFFF7)" "[]"]
    rd32_mid [of 4 "be32 ID_FORM" 12 "be32 7 @ be32 8 @ be32 0xFFFFFFF7"]
  by (simp add: read_cfg_def new_form_def pic_with_def pic_subs_def)

text \<open>When the first class form of a class has lost its data form, psdSetClsCfg() reports
  success and stores the settings in a second class form, where psdGetClsCfg() never looks: it goes
  on finding nothing for the class.\<close>

theorem class_settings_lost:
  assumes "tree ps a" and "calm ps" and "str_ok owner" and "data_ok IFFFORM_CLASSDATA its form"
    and "first_index (has_string IFFFORM_CLASSCFG IFFCHNK_OWNER owner) (cf_subs a) = Some i"
    and "first_index (has_id IFFFORM_CLASSDATA) (cf_subs (cf_subs a ! i)) = None"
  shows "\<exists>ps'. psdSetClsCfg owner form ps = Some (True, ps') \<and> psdGetClsCfg owner ps' = Some None"
proof -
  note i = has_stringD [OF assms(5)]
  have "cls_found owner form ps [i] = Some (Some False, ps)"
    using match_child [OF assms(1), of "[]" a i owner IFFCHNK_OWNER] find_child [OF assms(1), of "[]" a i IFFFORM_CLASSDATA]
      assms(3,6) i by (simp add: cls_found_def)
  then have s: "for_forms ps None IFFFORM_CLASSCFG (cls_found owner form) = Some (Some False, ps)"
    using cls_search [OF assms(1,3), of form "(False, ps)"] assms(5) by simp
  let ?a = "with_subs a (cf_subs a @ [CForm IFFFORM_CLASSCFG [str_chunk IFFCHNK_OWNER owner] [contents IFFFORM_CLASSDATA its]])"
  obtain p1 where p1: "cls_create owner form ps = Some (True, p1)" "calm p1" "tree p1 ?a"
    using cls_create_tree [OF assms(1-4)] by blast
  obtain p2 where p2: "checked (True, p1) = Some (True, p2)" "tree p2 ?a" using checked_tree [OF p1(3,2)] by blast
  have "psdSetClsCfg owner form ps = Some (True, p2)" using s p1(1) p2(1) by (simp add: psdSetClsCfg_def)
  moreover have "walk (cls_levels owner) ?a = None"
    using assms(5,6) i by (simp add: cls_levels_def first_index_append nth_append)
  ultimately show ?thesis using psdGetClsCfg_walk [OF p2(2) assms(3)] by simp
qed

definition lost_base :: psdBase where
  "lost_base = sample_base\<lparr>ps_ConfigRoot := Some (Pic IFFFORM_PSDCFG 4 [] 0 0
     [Pic IFFFORM_CLASSCFG 4 (be32 IFFCHNK_OWNER @ be32 2 @ [65, 0]) 10 10 []])\<rparr>"

lemma class_settings_lost_witness:
  "\<exists>ps'. psdSetClsCfg [65] None lost_base = Some (True, ps') \<and> psdGetClsCfg [65] ps' = Some None"
proof -
  let ?a = "CForm IFFFORM_PSDCFG [] [CForm IFFFORM_CLASSCFG [(IFFCHNK_OWNER, 2, [65, 0])] []]"
  have t: "tree lost_base ?a" "calm lost_base" using sample_ok(2)
    by (simp_all add: lost_base_def tree_def calm_def sample_base_def enc_def chunk_ok_def even_up_def)
  show ?thesis
    using class_settings_lost [OF t, of "[65]" "[]" None 0]
    by (simp add: str_ok_def data_ok_def has_string_def str_at_def chunk_at_def c_str_def)
qed

end
