(* ===== verification/Lock_Sem.thy ===== *)
theory Lock_Sem
  imports Neptune_Prelude
begin

text \<open>
  The locks of neptune.library (src/neptune.library/neptune.library.c, pInitSem() to pUnlockSem()):
  counting reader/writer locks with promotion of a sole reader, as they guard the library base, the
  devices and the configuration.

  Everything between Forbid() and Wait() or Permit() runs without another task getting the
  processor, so an operation is modelled as its uninterrupted pieces: what a task does when it
  asks (pLockSemExcl, pLockSemShared), what it does each time Wait() returns (excl_resume,
  shared_resume), and pUnlockSem. A piece gives the task's new mode, running or waiting, and the
  lock; \<open>None\<close> is an access through a list head that is no node. A run of several tasks is a run of
  events; the single signal bit each task waits for may also be set by anybody else.

  Not modelled: psdBorrowLocksWait() (lending locks to another task) and the log messages.
\<close>

section \<open>Data\<close>

type_synonym task = nat

record psdReadLock =
  prl_IsExcl :: bool
  prl_Task :: task
  prl_Count :: u16

record psdLockSem =
  pls_Dead :: bool
  pls_WaitQueue :: "psdReadLock list"
  pls_ReadLocks :: "psdReadLock list"
  pls_Owner :: "task option"
  pls_ExclLockCount :: u16
  pls_SharedLockCount :: u16

text \<open>Where a task stands: not inside a lock operation, or inside Wait() of one.\<close>

datatype mode = Running | WaitExcl | WaitShared

text \<open>A new lock enters the list ps_DeadlockDebug, of the locks' names here, if there is memory.\<close>

definition pInitSem :: "bool \<Rightarrow> string \<Rightarrow> string list \<Rightarrow> psdLockSem \<times> string list" where
  "pInitSem got name sems =
     (\<lparr>pls_Dead = False, pls_WaitQueue = [], pls_ReadLocks = [], pls_Owner = None,
       pls_ExclLockCount = 0, pls_SharedLockCount = 0\<rparr>,
      if got then sems @ [name] else sems)"

definition pDeleteSem :: "string \<Rightarrow> psdLockSem \<Rightarrow> string list \<Rightarrow> psdLockSem \<times> string list" where
  "pDeleteSem name pls sems =
     (pls\<lparr>pls_Dead := True\<rparr>,
      if unat (pls_SharedLockCount pls) + unat (pls_ExclLockCount pls) \<noteq> 0 then sems else remove1 name sems)"

section \<open>Exclusive locks\<close>

text \<open>May the loop of pLockSemExcl() be left?\<close>

definition excl_free :: "task \<Rightarrow> psdLockSem \<Rightarrow> bool option" where
  "excl_free t pls = (if pls_Owner pls = Some t then Some True
     else if pls_ExclLockCount pls = 0 then
       if pls_SharedLockCount pls = 0 then Some True
       else if pls_SharedLockCount pls = 1 then
         (case pls_ReadLocks pls of [] \<Rightarrow> None | prl # _ \<Rightarrow> Some (prl_Task prl = t))
       else Some False
     else Some False)"

text \<open>The wait entry is on the stack of the task; its prl_Count is not set and never read.\<close>

definition pLockSemExcl :: "task \<Rightarrow> psdLockSem \<Rightarrow> (mode \<times> psdLockSem) option" where
  "pLockSemExcl t pls = do {
     free \<leftarrow> excl_free t pls;
     Some (if free then (Running, pls\<lparr>pls_Owner := Some t, pls_ExclLockCount := pls_ExclLockCount pls + 1\<rparr>)
       else (WaitExcl, pls\<lparr>pls_WaitQueue := \<lparr>prl_IsExcl = True, prl_Task = t, prl_Count = 0\<rparr> # pls_WaitQueue pls\<rparr>)) }"

fun unqueue :: "task \<Rightarrow> psdReadLock list \<Rightarrow> psdReadLock list" where
  "unqueue t [] = []"
| "unqueue t (w # ws) = (if prl_Task w = t then ws else w # unqueue t ws)"

definition excl_resume :: "task \<Rightarrow> psdLockSem \<Rightarrow> (mode \<times> psdLockSem) option" where
  "excl_resume t pls = pLockSemExcl t (pls\<lparr>pls_WaitQueue := unqueue t (pls_WaitQueue pls)\<rparr>)"

section \<open>Shared locks\<close>

definition shared_pass :: "psdReadLock \<Rightarrow> psdLockSem \<Rightarrow> mode \<times> psdLockSem" where
  "shared_pass prl pls = (if pls_Owner pls \<noteq> None then
       (WaitShared, pls\<lparr>pls_WaitQueue := pls_WaitQueue pls @ [prl]\<rparr>)
     else if prl_IsExcl prl then
       (Running, pls\<lparr>pls_Owner := Some (prl_Task prl), pls_ExclLockCount := pls_ExclLockCount pls + 1\<rparr>)
     else
       (Running, pls\<lparr>pls_ReadLocks := prl\<lparr>prl_Count := prl_Count prl + 1\<rparr> # pls_ReadLocks pls,
          pls_SharedLockCount := pls_SharedLockCount pls + 1\<rparr>))"

text \<open>One more lock for a task that has a read lock.\<close>

fun bump :: "task \<Rightarrow> psdReadLock list \<Rightarrow> psdReadLock list option" where
  "bump t [] = None"
| "bump t (l # ls) = (if prl_Task l = t then Some (l\<lparr>prl_Count := prl_Count l + 1\<rparr> # ls)
     else map_option ((#) l) (bump t ls))"

text \<open>\<open>got\<close> tells whether there is memory for a read lock.\<close>

definition pLockSemShared :: "task \<Rightarrow> bool \<Rightarrow> psdLockSem \<Rightarrow> (mode \<times> psdLockSem) option" where
  "pLockSemShared t got pls = (if pls_Owner pls = Some t then
       Some (Running, pls\<lparr>pls_ExclLockCount := pls_ExclLockCount pls + 1\<rparr>)
     else case bump t (pls_ReadLocks pls) of
       Some ls \<Rightarrow> Some (Running, pls\<lparr>pls_ReadLocks := ls\<rparr>)
     | None \<Rightarrow> if got then Some (shared_pass \<lparr>prl_IsExcl = False, prl_Task = t, prl_Count = 0\<rparr> pls)
         else pLockSemExcl t pls)"

definition shared_resume :: "task \<Rightarrow> psdLockSem \<Rightarrow> (mode \<times> psdLockSem) option" where
  "shared_resume t pls = do {
     prl \<leftarrow> List.find (\<lambda>w. prl_Task w = t) (pls_WaitQueue pls);
     Some (shared_pass prl (pls\<lparr>pls_WaitQueue := unqueue t (pls_WaitQueue pls)\<rparr>)) }"

section \<open>Unlocking\<close>

text \<open>The read lock of a task with its count one less, and removed when that was the last; the flag
  tells which.\<close>

fun drop_lock :: "task \<Rightarrow> psdReadLock list \<Rightarrow> (bool \<times> psdReadLock list) option" where
  "drop_lock t [] = None"
| "drop_lock t (l # ls) = (if prl_Task l = t then
       if prl_Count l - 1 \<noteq> 0 then Some (False, l\<lparr>prl_Count := prl_Count l - 1\<rparr> # ls) else Some (True, ls)
     else map_option (\<lambda>(b, ls). (b, l # ls)) (drop_lock t ls))"

text \<open>The results of pUnlockSem(): a warning that changes nothing, still locked by the task, or
  released, and then all waiting tasks are signalled.\<close>

datatype unlocked = Warned | StillLocked | Released

definition pUnlockSem :: "task \<Rightarrow> psdLockSem \<Rightarrow> unlocked \<times> psdLockSem" where
  "pUnlockSem t pls = (case pls_Owner pls of
       Some own \<Rightarrow> if own \<noteq> t then (Warned, pls)
         else let pls = pls\<lparr>pls_ExclLockCount := pls_ExclLockCount pls - 1\<rparr> in
           if pls_ExclLockCount pls \<noteq> 0 then (StillLocked, pls)
           else (Released, pls\<lparr>pls_Owner := None\<rparr>)
     | None \<Rightarrow> if pls_SharedLockCount pls = 0 then (Warned, pls)
         else (case drop_lock t (pls_ReadLocks pls) of
             None \<Rightarrow> (Warned, pls)
           | Some (False, ls) \<Rightarrow> (StillLocked, pls\<lparr>pls_ReadLocks := ls\<rparr>)
           | Some (True, ls) \<Rightarrow> (Released, pls\<lparr>pls_ReadLocks := ls, pls_SharedLockCount := pls_SharedLockCount pls - 1\<rparr>)))"

section \<open>Tasks\<close>

record lockState =
  ls_sem :: psdLockSem
  ls_mode :: "task \<Rightarrow> mode"
  ls_sig :: "task \<Rightarrow> bool"

text \<open>A task asks for a lock, comes back from Wait(), unlocks, or is signalled by somebody else.\<close>

datatype event = Excl task | Shared task bool | Resume task | Unlock task | Poke task

text \<open>No counter is at its maximum.\<close>

definition uncrowded :: "psdLockSem \<Rightarrow> bool" where
  "uncrowded pls \<longleftrightarrow> pls_ExclLockCount pls \<noteq> - 1 \<and> pls_SharedLockCount pls \<noteq> - 1 \<and>
     (\<forall>l \<in> set (pls_ReadLocks pls). prl_Count l \<noteq> - 1)"

fun enabled :: "event \<Rightarrow> lockState \<Rightarrow> bool" where
  "enabled (Excl t) s \<longleftrightarrow> ls_mode s t = Running \<and> uncrowded (ls_sem s)"
| "enabled (Shared t got) s \<longleftrightarrow> ls_mode s t = Running \<and> uncrowded (ls_sem s)"
| "enabled (Resume t) s \<longleftrightarrow> ls_mode s t \<noteq> Running \<and> ls_sig s t \<and> uncrowded (ls_sem s)"
| "enabled (Unlock t) s \<longleftrightarrow> ls_mode s t = Running"
| "enabled (Poke t) s \<longleftrightarrow> True"

text \<open>A task that starts to wait clears its signal bit; Wait() clears it when it returns.\<close>

definition entered :: "task \<Rightarrow> mode \<times> psdLockSem \<Rightarrow> lockState \<Rightarrow> lockState" where
  "entered t = (\<lambda>(md, pls) s. s\<lparr>ls_sem := pls, ls_mode := (ls_mode s)(t := md),
     ls_sig := (if md = Running then ls_sig s else (ls_sig s)(t := False))\<rparr>)"

fun locking :: "event \<Rightarrow> lockState \<Rightarrow> lockState option" where
  "locking (Excl t) s = do { r \<leftarrow> pLockSemExcl t (ls_sem s); Some (entered t r s) }"
| "locking (Shared t got) s = do { r \<leftarrow> pLockSemShared t got (ls_sem s); Some (entered t r s) }"
| "locking (Resume t) s = do {
     r \<leftarrow> (if ls_mode s t = WaitExcl then excl_resume t (ls_sem s) else shared_resume t (ls_sem s));
     Some (entered t r (s\<lparr>ls_sig := (ls_sig s)(t := False)\<rparr>)) }"
| "locking (Unlock t) s = (let (r, pls) = pUnlockSem t (ls_sem s) in
     Some (s\<lparr>ls_sem := pls, ls_sig := (if r = Released
       then (\<lambda>u. u \<in> prl_Task ` set (pls_WaitQueue pls) \<or> ls_sig s u) else ls_sig s)\<rparr>))"
| "locking (Poke t) s = Some (s\<lparr>ls_sig := (ls_sig s)(t := True)\<rparr>)"

definition lock_start :: lockState where
  "lock_start = \<lparr>ls_sem = fst (pInitSem True [] []), ls_mode = (\<lambda>t. Running), ls_sig = (\<lambda>t. False)\<rparr>"

inductive lock_runs :: "lockState \<Rightarrow> lockState \<Rightarrow> bool" where
  none: "lock_runs s s"
| more: "lock_runs s u \<Longrightarrow> enabled e u \<Longrightarrow> locking e u = Some v \<Longrightarrow> lock_runs s v"

end
