(* ===== verification/Lock_Inv.thy ===== *)
theory Lock_Inv
  imports Lock_Sem
begin

text \<open>
  The abstract lock: who owns it and how often, and how many read locks each task holds. The
  detailed lock keeps the invariant \<open>lock_inv\<close> and implements the abstract one.
\<close>

section \<open>The abstract lock\<close>

record rwlock =
  rw_owner :: "(task \<times> nat) option"
  rw_readers :: "task \<Rightarrow> nat"

text \<open>An exclusive owner is the only one who holds anything.\<close>

definition rw_ok :: "rwlock \<Rightarrow> bool" where
  "rw_ok a \<longleftrightarrow> (case rw_owner a of None \<Rightarrow> True
     | Some (t, n) \<Rightarrow> n \<noteq> 0 \<and> (\<forall>u. u \<noteq> t \<longrightarrow> rw_readers a u = 0))"

definition rw_may :: "bool \<Rightarrow> task \<Rightarrow> rwlock \<Rightarrow> bool" where
  "rw_may excl t a \<longleftrightarrow> (case rw_owner a of Some (u, _) \<Rightarrow> u = t
     | None \<Rightarrow> excl \<longrightarrow> (\<forall>u. u \<noteq> t \<longrightarrow> rw_readers a u = 0))"

definition rw_take :: "bool \<Rightarrow> task \<Rightarrow> rwlock \<Rightarrow> rwlock" where
  "rw_take excl t a = (case rw_owner a of Some (_, n) \<Rightarrow> a\<lparr>rw_owner := Some (t, Suc n)\<rparr>
     | None \<Rightarrow> if excl then a\<lparr>rw_owner := Some (t, 1)\<rparr>
         else a\<lparr>rw_readers := (rw_readers a)(t := Suc (rw_readers a t))\<rparr>)"

definition rw_drop :: "task \<Rightarrow> rwlock \<Rightarrow> rwlock" where
  "rw_drop t a = (case rw_owner a of
       Some (u, n) \<Rightarrow> if u \<noteq> t then a else a\<lparr>rw_owner := if n = 1 then None else Some (u, n - 1)\<rparr>
     | None \<Rightarrow> a\<lparr>rw_readers := (rw_readers a)(t := rw_readers a t - 1)\<rparr>)"

text \<open>What a task has of the lock.\<close>

definition rw_holds :: "rwlock \<Rightarrow> task \<Rightarrow> bool" where
  "rw_holds a t \<longleftrightarrow> (case rw_owner a of Some (u, _) \<Rightarrow> u = t | None \<Rightarrow> False) \<or> rw_readers a t \<noteq> 0"

fun reads :: "task \<Rightarrow> psdReadLock list \<Rightarrow> nat" where
  "reads t [] = 0"
| "reads t (l # ls) = (if prl_Task l = t then unat (prl_Count l) else reads t ls)"

definition rw_of :: "psdLockSem \<Rightarrow> rwlock" where
  "rw_of pls = \<lparr>rw_owner = map_option (\<lambda>t. (t, unat (pls_ExclLockCount pls))) (pls_Owner pls),
     rw_readers = (\<lambda>t. reads t (pls_ReadLocks pls))\<rparr>"

section \<open>The invariant\<close>

definition locks_ok :: "psdReadLock list \<Rightarrow> bool" where
  "locks_ok ls \<longleftrightarrow> distinct (map prl_Task ls) \<and> (\<forall>l \<in> set ls. prl_Count l \<noteq> 0)"

definition sem_ok :: "psdLockSem \<Rightarrow> bool" where
  "sem_ok pls \<longleftrightarrow> locks_ok (pls_ReadLocks pls) \<and> unat (pls_SharedLockCount pls) = length (pls_ReadLocks pls) \<and>
     (case pls_Owner pls of None \<Rightarrow> pls_ExclLockCount pls = 0
      | Some t \<Rightarrow> pls_ExclLockCount pls \<noteq> 0 \<and> prl_Task ` set (pls_ReadLocks pls) \<subseteq> {t})"

text \<open>The wait queue holds one entry for each waiting task, a reader's with no count.\<close>

definition entry_of :: "mode \<Rightarrow> task \<Rightarrow> psdReadLock" where
  "entry_of md t = \<lparr>prl_IsExcl = (md = WaitExcl), prl_Task = t, prl_Count = 0\<rparr>"

definition queue_ok :: "psdReadLock list \<Rightarrow> (task \<Rightarrow> mode) \<Rightarrow> bool" where
  "queue_ok ws md \<longleftrightarrow> distinct (map prl_Task ws) \<and> (\<forall>w. w \<in> set ws \<longleftrightarrow> md (prl_Task w) \<noteq> Running \<and> w = entry_of (md (prl_Task w)) (prl_Task w))"

definition waiters_ok :: "rwlock \<Rightarrow> (task \<Rightarrow> mode) \<Rightarrow> bool" where
  "waiters_ok a md \<longleftrightarrow> (\<forall>t. md t \<noteq> Running \<longrightarrow> (\<forall>n. rw_owner a \<noteq> Some (t, n)) \<and>
     (md t = WaitShared \<longrightarrow> rw_readers a t = 0))"

text \<open>No wake-up is lost: a waiting task that could have the lock is signalled.\<close>

definition awake :: "lockState \<Rightarrow> bool" where
  "awake s \<longleftrightarrow> (\<forall>t. ls_mode s t \<noteq> Running \<longrightarrow> rw_may (ls_mode s t = WaitExcl) t (rw_of (ls_sem s)) \<longrightarrow> ls_sig s t)"

definition lock_inv :: "lockState \<Rightarrow> bool" where
  "lock_inv s \<longleftrightarrow> sem_ok (ls_sem s) \<and> queue_ok (pls_WaitQueue (ls_sem s)) (ls_mode s) \<and>
     waiters_ok (rw_of (ls_sem s)) (ls_mode s) \<and> awake s"

section \<open>Lists of locks\<close>

lemma locks_ok_simps [simp]: "locks_ok []"
  "locks_ok (l # ls) \<longleftrightarrow> prl_Task l \<notin> prl_Task ` set ls \<and> prl_Count l \<noteq> 0 \<and> locks_ok ls"
  by (auto simp: locks_ok_def)

lemma reads_0: "locks_ok ls \<Longrightarrow> reads t ls = 0 \<longleftrightarrow> t \<notin> prl_Task ` set ls"
  by (induction ls) (auto simp: unat_eq_0)

lemma reads_pos: "locks_ok ls \<Longrightarrow> 0 < reads t ls \<longleftrightarrow> t \<in> prl_Task ` set ls"
  by (induction ls) (auto simp: unat_gt_0)

lemma unat_Suc: "w \<noteq> - 1 \<Longrightarrow> unat (w + 1) = Suc (unat w)" for w :: u16
  by (metis Suc_eq_plus1 add.commute unatSuc add_eq_0_iff)

lemma unat_pred: "w \<noteq> 0 \<Longrightarrow> unat (w - 1) = unat w - 1" for w :: u16
  by (simp add: unat_minus_one)

lemma bump_None: "bump t ls = None \<longleftrightarrow> t \<notin> prl_Task ` set ls"
  by (induction ls) auto

lemma bump_Some: "bump t ls = Some ms \<Longrightarrow> locks_ok ls \<Longrightarrow> \<forall>l \<in> set ls. prl_Count l \<noteq> - 1 \<Longrightarrow>
   locks_ok ms \<and> map prl_Task ms = map prl_Task ls \<and> reads u ms = (if u = t then Suc (reads t ls) else reads u ls)"
proof (induction ls arbitrary: ms)
  case (Cons l ls)
  have nz: "prl_Count l + 1 \<noteq> 0" using Cons.prems(3) by (simp add: eq_neg_iff_add_eq_0)
  show ?case
  proof (cases "prl_Task l = t")
    case True
    then show ?thesis using Cons.prems nz by (auto simp: unat_Suc)
  next
    case False
    then obtain ns where n: "bump t ls = Some ns" "ms = l # ns" using Cons.prems(1) by auto
    have i: "locks_ok ns" "map prl_Task ns = map prl_Task ls" "reads u ns = (if u = t then Suc (reads t ls) else reads u ls)"
      using Cons.IH [OF n(1)] Cons.prems(2,3) by auto
    then have "prl_Task ` set ns = prl_Task ` set ls" by (metis list.set_map)
    then show ?thesis using i n(2) False Cons.prems(2) by auto
  qed
qed simp

lemma drop_None: "drop_lock t ls = None \<longleftrightarrow> t \<notin> prl_Task ` set ls"
  by (induction ls) (auto split: if_splits)

lemma drop_Some: "drop_lock t ls = Some (gone, ms) \<Longrightarrow> locks_ok ls \<Longrightarrow>
   locks_ok ms \<and> prl_Task ` set ms = prl_Task ` set ls - (if gone then {t} else {}) \<and>
   length ls = (if gone then Suc (length ms) else length ms) \<and>
   reads u ms = (if u = t then reads t ls - 1 else reads u ls) \<and> (gone \<longleftrightarrow> reads t ls = 1) \<and> t \<in> prl_Task ` set ls"
proof (induction ls arbitrary: ms)
  case (Cons l ls)
  show ?case
  proof (cases "prl_Task l = t")
    case True
    have "prl_Count l - 1 = 0 \<longleftrightarrow> unat (prl_Count l) = 1" by (metis eq_iff_diff_eq_0 unat_1 word_unat_eq_iff)
    moreover have "reads t ls = 0" "u = t \<longrightarrow> reads u ls = 0" using Cons.prems(2) True by (simp_all add: reads_0)
    ultimately show ?thesis using True Cons.prems by (auto split: if_splits simp: unat_pred)
  next
    case False
    then obtain ns where n: "drop_lock t ls = Some (gone, ns)" "ms = l # ns" using Cons.prems(1) by auto
    have i: "locks_ok ns" "prl_Task ` set ns = prl_Task ` set ls - (if gone then {t} else {})"
       "length ls = (if gone then Suc (length ns) else length ns)"
       "reads u ns = (if u = t then reads t ls - 1 else reads u ls)" "gone \<longleftrightarrow> reads t ls = 1" "t \<in> prl_Task ` set ls"
      using Cons.IH [OF n(1)] Cons.prems(2) by auto
    then show ?thesis using n(2) False Cons.prems(2) by (auto split: if_splits)
  qed
qed simp

section \<open>The operations\<close>

lemma rw_of_simps [simp]: "rw_readers (rw_of pls) = (\<lambda>t. reads t (pls_ReadLocks pls))"
  "rw_owner (rw_of pls) = map_option (\<lambda>t. (t, unat (pls_ExclLockCount pls))) (pls_Owner pls)"
  "rw_of (pls_WaitQueue_update f pls) = rw_of pls" "rw_of (pls_Dead_update g pls) = rw_of pls"
  by (simp_all add: rw_of_def)

lemma sem_ok_queue [simp]: "sem_ok (pls_WaitQueue_update f pls) = sem_ok pls"
  by (cases "pls_Owner pls") (simp_all add: sem_ok_def)

lemma rw_of_ok: "sem_ok pls \<Longrightarrow> rw_ok (rw_of pls)"
  by (auto simp: sem_ok_def rw_ok_def unat_eq_0 reads_0 unat_gt_0 split: option.splits)

text \<open>The answer to a request: taken as the abstract lock has it, or an entry in the queue.\<close>

definition answers :: "bool \<Rightarrow> task \<Rightarrow> psdLockSem \<Rightarrow> mode \<times> psdLockSem \<Rightarrow> bool" where
  "answers excl t pls r \<longleftrightarrow> sem_ok (snd r) \<and>
     (if rw_may excl t (rw_of pls) then fst r = Running \<and> rw_of (snd r) = rw_take excl t (rw_of pls) \<and>
        pls_WaitQueue (snd r) = pls_WaitQueue pls
      else fst r = (if excl then WaitExcl else WaitShared) \<and> rw_of (snd r) = rw_of pls \<and>
        (\<exists>a b. pls_WaitQueue pls = a @ b \<and> pls_WaitQueue (snd r) = a @ entry_of (fst r) t # b))"

lemma excl_free_rw:
  assumes "sem_ok pls"
  shows "excl_free t pls = Some (rw_may True t (rw_of pls))"
proof -
  let ?ls = "pls_ReadLocks pls"
  have one: "pls_SharedLockCount pls = 1 \<longleftrightarrow> length ?ls = 1" and zero: "pls_SharedLockCount pls = 0 \<longleftrightarrow> ?ls = []"
    using assms by (metis sem_ok_def unat_1 word_unat_eq_iff, metis sem_ok_def length_0_conv unat_eq_0)
  have r: "reads u ?ls = 0 \<longleftrightarrow> u \<notin> prl_Task ` set ?ls" for u using assms by (simp add: sem_ok_def reads_0)
  have many: "\<exists>u. u \<noteq> t \<and> u \<in> prl_Task ` set ?ls" if l: "length ?ls \<noteq> 0" "length ?ls \<noteq> 1"
  proof -
    obtain x y zs where "?ls = x # y # zs" using l by (cases ?ls rule: remdups_adj.cases) auto
    then have "prl_Task x \<noteq> prl_Task y" "{prl_Task x, prl_Task y} \<subseteq> prl_Task ` set ?ls"
      using assms by (auto simp: sem_ok_def)
    then show ?thesis by (metis insert_subset)
  qed
  show ?thesis
  proof (cases "pls_Owner pls")
    case None
    then have "rw_may True t (rw_of pls) \<longleftrightarrow> prl_Task ` set ?ls \<subseteq> {t}" by (auto simp: rw_may_def r)
    then show ?thesis using None assms many by (cases ?ls rule: remdups_adj.cases)
      (auto simp: excl_free_def one zero sem_ok_def)
  qed (use assms in \<open>auto simp: excl_free_def rw_may_def sem_ok_def\<close>)
qed

lemma pLockSemExcl_answers:
  assumes "sem_ok pls" and "pls_ExclLockCount pls \<noteq> - 1"
  shows "\<exists>r. pLockSemExcl t pls = Some r \<and> answers True t pls r"
proof (cases "rw_may True t (rw_of pls)")
  case True
  have nz: "pls_ExclLockCount pls + 1 \<noteq> 0" using assms(2) by (simp add: eq_neg_iff_add_eq_0)
  have "prl_Task ` set (pls_ReadLocks pls) \<subseteq> {t}"
    using True assms(1) by (auto simp: rw_may_def sem_ok_def reads_0 split: option.splits)
  then show ?thesis using True assms nz unat_Suc [OF assms(2)]
    by (auto simp: pLockSemExcl_def excl_free_rw answers_def sem_ok_def rw_take_def rw_of_def rw_may_def split: option.splits)
next
  case False
  then show ?thesis using assms(1)
    by (auto simp: pLockSemExcl_def excl_free_rw answers_def entry_of_def intro: exI [of _ "[]"])
qed

lemma shared_pass_answers:
  assumes "sem_ok pls" and "pls_Owner pls \<noteq> Some t" and "t \<notin> prl_Task ` set (pls_ReadLocks pls)"
    and "pls_SharedLockCount pls \<noteq> - 1"
  shows "answers False t pls (shared_pass (entry_of WaitShared t) pls)"
  using assms unat_Suc [OF assms(4)]
  by (cases "pls_Owner pls") (auto simp: answers_def shared_pass_def entry_of_def sem_ok_def rw_may_def rw_take_def rw_of_def
    reads_0 split: if_splits)

text \<open>A reader without memory asks for the whole lock, unless the task holds some of it already.\<close>

definition wants_excl :: "task \<Rightarrow> bool \<Rightarrow> psdLockSem \<Rightarrow> bool" where
  "wants_excl t got pls \<longleftrightarrow> \<not> got \<and> \<not> rw_holds (rw_of pls) t"

lemma pLockSemShared_answers:
  assumes "sem_ok pls" and "uncrowded pls"
  shows "\<exists>r. pLockSemShared t got pls = Some r \<and> answers (wants_excl t got pls) t pls r"
proof (cases "rw_holds (rw_of pls) t")
  case True
  show ?thesis
  proof (cases "pls_Owner pls = Some t")
    case True
    have "pls_ExclLockCount pls \<noteq> - 1" using assms(2) by (simp add: uncrowded_def)
    then have "pls_ExclLockCount pls + 1 \<noteq> 0" "unat (pls_ExclLockCount pls + 1) = Suc (unat (pls_ExclLockCount pls))"
      by (simp_all add: eq_neg_iff_add_eq_0 unat_Suc)
    then show ?thesis using True assms(1)
      by (auto simp: pLockSemShared_def answers_def rw_may_def rw_take_def rw_of_def sem_ok_def)
  next
    case False
    then have t: "t \<in> prl_Task ` set (pls_ReadLocks pls)"
      using True assms(1) by (auto simp: rw_holds_def reads_pos sem_ok_def split: option.splits)
    then obtain ms where m: "bump t (pls_ReadLocks pls) = Some ms" using bump_None by (metis option.exhaust)
    have b: "locks_ok ms" "map prl_Task ms = map prl_Task (pls_ReadLocks pls)"
      "reads u ms = (if u = t then Suc (reads t (pls_ReadLocks pls)) else reads u (pls_ReadLocks pls))" for u
      using bump_Some [OF m] assms by (auto simp: sem_ok_def uncrowded_def)
    have "length ms = length (pls_ReadLocks pls)" using b(2) by (metis length_map)
    moreover have "pls_Owner pls = None" using t False assms(1) by (auto simp: sem_ok_def split: option.splits)
    ultimately show ?thesis using m False b assms(1) True
      by (auto simp: pLockSemShared_def answers_def rw_may_def rw_take_def rw_of_def sem_ok_def wants_excl_def fun_eq_iff)
  qed
next
  case False
  then have o: "pls_Owner pls \<noteq> Some t" "t \<notin> prl_Task ` set (pls_ReadLocks pls)"
    using assms(1) by (auto simp: rw_holds_def sem_ok_def reads_0)
  then have b: "bump t (pls_ReadLocks pls) = None" by (simp add: bump_None)
  show ?thesis
  proof (cases got)
    case True
    then show ?thesis using o b shared_pass_answers [OF assms(1) o] assms(2)
      by (auto simp: pLockSemShared_def wants_excl_def uncrowded_def entry_of_def)
  next
    case False
    then show ?thesis using o b pLockSemExcl_answers [OF assms(1)] assms(2) \<open>\<not> rw_holds (rw_of pls) t\<close>
      by (auto simp: pLockSemShared_def wants_excl_def uncrowded_def)
  qed
qed

lemma rw_drop_of:
  assumes "sem_ok pls"
  shows "sem_ok (snd (pUnlockSem t pls)) \<and> pls_WaitQueue (snd (pUnlockSem t pls)) = pls_WaitQueue pls \<and>
    rw_of (snd (pUnlockSem t pls)) = rw_drop t (rw_of pls) \<and>
    (fst (pUnlockSem t pls) \<noteq> Released \<longrightarrow> (\<forall>x u. rw_may x u (rw_drop t (rw_of pls)) \<longleftrightarrow> rw_may x u (rw_of pls))) \<and>
    (fst (pUnlockSem t pls) = Warned \<longleftrightarrow> (case pls_Owner pls of Some u \<Rightarrow> u \<noteq> t | None \<Rightarrow> \<not> rw_holds (rw_of pls) t))"
proof (cases "pls_Owner pls")
  case None
  note ok = assms [unfolded sem_ok_def]
  have z: "pls_SharedLockCount pls = 0 \<longleftrightarrow> pls_ReadLocks pls = []" using ok by (metis length_0_conv unat_eq_0)
  show ?thesis
  proof (cases "drop_lock t (pls_ReadLocks pls)")
    case None
    then have "reads t (pls_ReadLocks pls) = 0" using ok by (simp add: drop_None reads_0)
    moreover from this have "(\<lambda>u. reads u (pls_ReadLocks pls))(t := 0) = (\<lambda>u. reads u (pls_ReadLocks pls))" by auto
    ultimately show ?thesis using None \<open>pls_Owner pls = None\<close> assms
      by (auto simp: pUnlockSem_def rw_drop_def rw_of_def rw_holds_def)
  next
    case (Some p)
    obtain gone ms where d: "drop_lock t (pls_ReadLocks pls) = Some (gone, ms)" using Some by (cases p) auto
    have m: "locks_ok ms" "prl_Task ` set ms = prl_Task ` set (pls_ReadLocks pls) - (if gone then {t} else {})"
      "length (pls_ReadLocks pls) = (if gone then Suc (length ms) else length ms)"
      "gone \<longleftrightarrow> reads t (pls_ReadLocks pls) = 1" "t \<in> prl_Task ` set (pls_ReadLocks pls)"
      using drop_Some [OF d] ok by auto
    have rd: "reads u ms = (if u = t then reads t (pls_ReadLocks pls) - 1 else reads u (pls_ReadLocks pls))" for u
      using drop_Some [OF d] ok by auto
    have t: "reads t (pls_ReadLocks pls) \<noteq> 0" "pls_ReadLocks pls \<noteq> []" using m(5) ok by (auto simp: reads_0)
    then have "pls_SharedLockCount pls \<noteq> 0" using z by simp
    then show ?thesis using d m rd t \<open>pls_Owner pls = None\<close> ok
      by (cases gone) (auto simp: pUnlockSem_def rw_drop_def rw_of_def rw_holds_def fun_eq_iff sem_ok_def rw_may_def unat_pred)
  qed
next
  case (Some u)
  have w: "pls_ExclLockCount pls - 1 = 0 \<longleftrightarrow> unat (pls_ExclLockCount pls) = 1" by (metis eq_iff_diff_eq_0 unat_1 word_unat_eq_iff)
  show ?thesis using Some assms w
    by (auto simp: pUnlockSem_def Let_def rw_drop_def rw_of_def sem_ok_def rw_may_def unat_pred split: if_splits)
qed

end
