(* ===== verification/Lock_Props.thy ===== *)
theory Lock_Props
  imports Lock_Inv
begin

text \<open>
  Runs of several tasks over one lock: the invariant holds throughout, every answer is the one of the
  abstract lock, no wake-up is lost, and two readers that both ask for promotion wait for ever.
\<close>

section \<open>The invariant holds in every run\<close>

text \<open>A request: who asks, and for the whole lock or not.\<close>

fun request :: "event \<Rightarrow> lockState \<Rightarrow> (task \<times> bool) option" where
  "request (Excl t) s = Some (t, True)"
| "request (Shared t got) s = Some (t, wants_excl t got (ls_sem s))"
| "request (Resume t) s = Some (t, ls_mode s t = WaitExcl)"
| "request _ s = None"

lemma unqueue_entry:
  assumes "queue_ok ws md" and "md t \<noteq> Running"
  shows "List.find (\<lambda>w. prl_Task w = t) ws = Some (entry_of (md t) t) \<and> queue_ok (unqueue t ws) (md(t := Running))"
proof -
  have "entry_of (md t) t \<in> set ws" using assms by (auto simp: queue_ok_def entry_of_def)
  then obtain a b where ws: "ws = a @ entry_of (md t) t # b" by (meson split_list)
  then have a: "\<forall>w \<in> set a. prl_Task w \<noteq> t" "\<forall>w \<in> set b. prl_Task w \<noteq> t"
    using assms(1) by (auto simp: queue_ok_def entry_of_def rev_image_eqI)
  have u: "unqueue t (a @ entry_of (md t) t # b) = a @ b" using a(1) by (induction a) (auto simp: entry_of_def)
  have "List.find (\<lambda>w. prl_Task w = t) (a @ entry_of (md t) t # b) = Some (entry_of (md t) t)"
    using a(1) by (induction a) (auto simp: entry_of_def)
  moreover have "w \<in> set (a @ b) \<longleftrightarrow> w \<in> set ws \<and> prl_Task w \<noteq> t" for w using ws a by (auto simp: entry_of_def)
  ultimately show ?thesis using ws u assms(1) by (auto simp: queue_ok_def)
qed

lemma queue_enter:
  assumes "queue_ok (a @ b) md" and "md t = Running" and "m \<noteq> Running"
  shows "queue_ok (a @ entry_of m t # b) (md(t := m))"
proof -
  have "\<forall>w \<in> set (a @ b). prl_Task w \<noteq> t" using assms by (auto simp: queue_ok_def)
  then show ?thesis using assms by (auto simp: queue_ok_def entry_of_def)
qed

lemma may_after_take:
  assumes "rw_ok a" and "rw_may x t a" and "u \<noteq> t" and "rw_may y u (rw_take x t a)"
  shows "rw_may y u a"
  using assms by (auto simp: rw_may_def rw_take_def rw_ok_def split: option.splits if_splits)

lemma answers_inv:
  assumes "sem_ok pls" and "queue_ok (pls_WaitQueue pls) md" and "waiters_ok (rw_of pls) md"
    and "\<forall>u. md u \<noteq> Running \<longrightarrow> rw_may (md u = WaitExcl) u (rw_of pls) \<longrightarrow> sg u"
    and "md t = Running" and "answers x t pls r" and "x \<or> rw_readers (rw_of pls) t = 0 \<or> rw_may x t (rw_of pls)"
    and "(ls_mode s)(t := Running) = md" and "\<forall>u. u \<noteq> t \<longrightarrow> ls_sig s u = sg u"
  shows "lock_inv (entered t r s)"
proof -
  obtain m' p' where r: "r = (m', p')" by (cases r)
  note an = assms(6) [unfolded r answers_def, simplified]
  have s: "ls_sem (entered t r s) = p'" "ls_mode (entered t r s) = md(t := m')"
    "u \<noteq> t \<Longrightarrow> ls_sig (entered t r s) u = sg u" for u
    using assms(8,9) by (auto simp: entered_def r)
  show ?thesis
  proof (cases "rw_may x t (rw_of pls)")
    case True
    then have m': "m' = Running" "rw_of p' = rw_take x t (rw_of pls)" "pls_WaitQueue p' = pls_WaitQueue pls" "sem_ok p'"
      using an by auto
    have "md(t := Running) = md" using assms(5) by auto
    moreover have "waiters_ok (rw_of p') md" using assms(3,5) True unfolding m'(2)
      by (auto simp: waiters_ok_def rw_take_def rw_may_def simp del: rw_of_simps split: option.splits)
    moreover have "ls_sig (entered t r s) u" if "md u \<noteq> Running" "rw_may (md u = WaitExcl) u (rw_of p')" for u
      using may_after_take [OF rw_of_ok [OF assms(1)] True, of u "md u = WaitExcl"] that assms(4,5) m'(2)
        s(3) [of u] by (cases "u = t") auto
    ultimately show ?thesis using m' assms(2,5) by (auto simp: s(1,2) lock_inv_def awake_def)
  next
    case False
    then obtain a b' where m': "m' = (if x then WaitExcl else WaitShared)" "rw_of p' = rw_of pls" "sem_ok p'"
      "pls_WaitQueue pls = a @ b'" "pls_WaitQueue p' = a @ entry_of m' t # b'" using an by auto
    have "queue_ok (pls_WaitQueue p') (md(t := m'))"
      unfolding m'(5) using queue_enter [of a b' md t m'] assms(2,5) m'(1,4) by auto
    moreover have "waiters_ok (rw_of p') (md(t := m'))" using assms(3,7) False unfolding m'(2)
      by (auto simp: waiters_ok_def rw_may_def m'(1) simp del: rw_of_simps split: option.splits)
    moreover have "m' \<noteq> Running" "(m' = WaitExcl) = x" using m'(1) by auto
    ultimately show ?thesis using m'(2,3) assms(4) False by (auto simp: s lock_inv_def awake_def simp del: rw_of_simps)
  qed
qed

text \<open>What one event does, in terms of the abstract lock.\<close>

definition follows :: "event \<Rightarrow> lockState \<Rightarrow> lockState \<Rightarrow> bool" where
  "follows e s v \<longleftrightarrow> (case request e s of
       Some (t, x) \<Rightarrow> if rw_may x t (rw_of (ls_sem s))
         then ls_mode v t = Running \<and> rw_of (ls_sem v) = rw_take x t (rw_of (ls_sem s))
         else ls_mode v t = (if x then WaitExcl else WaitShared) \<and> rw_of (ls_sem v) = rw_of (ls_sem s)
     | None \<Rightarrow> rw_of (ls_sem v) = (case e of Unlock t \<Rightarrow> rw_drop t (rw_of (ls_sem s)) | _ \<Rightarrow> rw_of (ls_sem s)))"

lemma follows_request:
  assumes "request e s = Some (t, x)" and "answers x t pls r" and "rw_of pls = rw_of (ls_sem s)"
  shows "follows e s (entered t r v)"
  using assms by (cases r) (auto simp: follows_def answers_def entered_def)

lemma locking_inv:
  assumes "lock_inv s" and "enabled e s"
  shows "\<exists>v. locking e s = Some v \<and> lock_inv v \<and> follows e s v"
proof -
  note inv = assms(1) [unfolded lock_inv_def awake_def]
  let ?p = "ls_sem s" and ?md = "ls_mode s" and ?sg = "ls_sig s"
  show ?thesis
  proof (cases e)
    case (Excl t)
    obtain r where r: "pLockSemExcl t ?p = Some r" "answers True t ?p r"
      using pLockSemExcl_answers [of ?p t] inv assms(2) Excl by (auto simp: uncrowded_def)
    have "lock_inv (entered t r s)"
      using answers_inv [of ?p ?md ?sg t True r s] inv assms(2) Excl r fun_upd_idem [of ?md t Running] by simp
    then show ?thesis using r Excl follows_request [of e s t True ?p r s] by simp
  next
    case (Shared t got)
    let ?x = "wants_excl t got ?p"
    obtain r where r: "pLockSemShared t got ?p = Some r" "answers ?x t ?p r"
      using pLockSemShared_answers [of ?p t got] inv assms(2) Shared by auto
    have "?x \<or> reads t (pls_ReadLocks ?p) = 0 \<or> rw_may ?x t (rw_of ?p)"
      using rw_of_ok [of ?p] inv by (auto simp: rw_may_def rw_ok_def split: option.splits)
    then have "lock_inv (entered t r s)"
      using answers_inv [of ?p ?md ?sg t ?x r s] inv assms(2) Shared r fun_upd_idem [of ?md t Running] by simp
    then show ?thesis using r Shared follows_request [of e s t ?x ?p r s] by simp
  next
    case (Resume t)
    let ?q = "?p\<lparr>pls_WaitQueue := unqueue t (pls_WaitQueue ?p)\<rparr>" and ?x = "?md t = WaitExcl"
    have w: "?md t \<noteq> Running" "uncrowded ?p" using assms(2) Resume by simp_all
    have q: "List.find (\<lambda>w. prl_Task w = t) (pls_WaitQueue ?p) = Some (entry_of (?md t) t)"
      "queue_ok (pls_WaitQueue ?q) (?md(t := Running))" using unqueue_entry [of _ ?md t] inv w by auto
    have ok: "sem_ok ?q" "rw_of ?q = rw_of ?p" using inv by simp_all
    have wt: "waiters_ok (rw_of ?q) (?md(t := Running))" using inv by (auto simp: waiters_ok_def)
    have nr: "?md t = WaitShared \<longrightarrow> reads t (pls_ReadLocks ?p) = 0 \<and> pls_Owner ?p \<noteq> Some t"
      using inv w by (auto simp: waiters_ok_def)
    obtain r where r: "(if ?x then excl_resume t ?p else shared_resume t ?p) = Some r" "answers ?x t ?q r"
    proof (cases ?x)
      case True
      then show ?thesis using that pLockSemExcl_answers [OF ok(1), of t] w(2) by (auto simp: excl_resume_def uncrowded_def)
    next
      case False
      then have "?md t = WaitShared" using w(1) by (cases "?md t") auto
      then show ?thesis using that False shared_pass_answers [OF ok(1), of t] w(2) q(1) nr inv
        by (auto simp: shared_resume_def uncrowded_def sem_ok_def reads_0)
    qed
    have aw: "\<forall>u. (?md(t := Running)) u \<noteq> Running \<longrightarrow> rw_may ((?md(t := Running)) u = WaitExcl) u (rw_of ?q) \<longrightarrow> ?sg u"
      using inv by auto
    have "?x \<or> rw_readers (rw_of ?q) t = 0 \<or> rw_may ?x t (rw_of ?q)" using nr w(1) by (cases "?md t") auto
    from answers_inv [OF ok(1) q(2) wt aw _ r(2) this, of "s\<lparr>ls_sig := ?sg(t := False)\<rparr>"]
    have "lock_inv (entered t r (s\<lparr>ls_sig := ?sg(t := False)\<rparr>))" by (simp add: fun_upd_def)
    then show ?thesis using r Resume follows_request [of e s t ?x ?q r "s\<lparr>ls_sig := ?sg(t := False)\<rparr>"] by simp
  next
    case (Unlock t)
    let ?u = "pUnlockSem t ?p"
    let ?v = "s\<lparr>ls_sem := snd ?u, ls_sig := (if fst ?u = Released
       then (\<lambda>u. u \<in> prl_Task ` set (pls_WaitQueue (snd ?u)) \<or> ?sg u) else ?sg)\<rparr>"
    have l: "locking e s = Some ?v" using Unlock by (simp add: case_prod_beta Let_def)
    note d = rw_drop_of [of ?p t]
    have "waiters_ok (rw_of (snd ?u)) ?md" using d inv
      by (auto simp: waiters_ok_def rw_drop_def simp del: rw_of_simps split: option.splits if_splits)
    moreover have "ls_sig ?v u" if "?md u \<noteq> Running" "rw_may (?md u = WaitExcl) u (rw_of (snd ?u))" for u
    proof (cases "fst ?u = Released")
      case True
      have "entry_of (?md u) u \<in> set (pls_WaitQueue ?p)" using inv that(1) by (auto simp: queue_ok_def entry_of_def)
      then show ?thesis using True d inv by (auto simp: entry_of_def intro: rev_image_eqI)
    next
      case False
      then show ?thesis using d inv that by auto
    qed
    ultimately have "lock_inv ?v" using d inv by (auto simp: lock_inv_def awake_def)
    then show ?thesis using l Unlock d inv by (auto simp: follows_def)
  next
    case (Poke t)
    then show ?thesis using inv by (auto simp: lock_inv_def awake_def follows_def)
  qed
qed

lemma lock_start_inv: "lock_inv lock_start"
  by (auto simp: lock_inv_def lock_start_def pInitSem_def sem_ok_def queue_ok_def waiters_ok_def awake_def)

lemma lock_runs_inv: "lock_runs s v \<Longrightarrow> lock_inv s \<Longrightarrow> lock_inv v"
  by (induction rule: lock_runs.induct) (use locking_inv in fastforce)+

lemma locking_frame: "locking e s = Some v \<Longrightarrow> ls_mode v t \<noteq> ls_mode s t \<Longrightarrow>
    e = Excl t \<or> e = Resume t \<or> (\<exists>got. e = Shared t got)"
  by (cases e) (auto simp: entered_def Let_def split: bind_splits if_splits prod.splits)

text \<open>Both tasks have a read lock and wait for the exclusive lock.\<close>

definition both_wait :: "task \<Rightarrow> task \<Rightarrow> lockState \<Rightarrow> bool" where
  "both_wait t u s \<longleftrightarrow> (\<forall>w \<in> {t, u}. ls_mode s w = WaitExcl \<and> rw_readers (rw_of (ls_sem s)) w \<noteq> 0)"

lemma both_wait_step:
  assumes "lock_inv s" and "enabled e s" and "locking e s = Some v" and "both_wait t u s" and "t \<noteq> u"
  shows "both_wait t u v"
proof -
  have f: "follows e s v" using locking_inv [OF assms(1,2)] assms(3) by simp
  have own: "rw_owner (rw_of (ls_sem s)) \<noteq> Some (w, n)" if "w \<in> {t, u}" for w n
    using assms(1,4) that unfolding both_wait_def lock_inv_def waiters_ok_def by (metis mode.distinct(1))
  have no: "\<not> rw_may True w (rw_of (ls_sem s))" if "w \<in> {t, u}" for w
    using own [OF that] assms(4,5) that
    by (auto simp: both_wait_def rw_may_def simp del: rw_of_simps split: option.splits)
  have "ls_mode v w = WaitExcl \<and> rw_readers (rw_of (ls_sem v)) w \<noteq> 0" if w: "w \<in> {t, u}" for w
  proof -
    have m: "ls_mode s w = WaitExcl" "rw_readers (rw_of (ls_sem s)) w \<noteq> 0" using assms(4) w by (auto simp: both_wait_def simp del: rw_of_simps)
    show ?thesis
    proof (cases "e = Resume w")
      case True
      then show ?thesis using f m no [OF w] by (simp add: follows_def del: rw_of_simps)
    next
      case False
      have "ls_mode v w = WaitExcl"
      proof (rule ccontr)
        assume "ls_mode v w \<noteq> WaitExcl"
        then have "e = Excl w \<or> (\<exists>got. e = Shared w got)" using locking_frame [OF assms(3), of w] m(1) False by simp
        then show False using assms(2) m(1) by auto
      qed
      moreover have "rw_readers (rw_of (ls_sem v)) w \<noteq> 0" using f m False assms(2)
        by (cases e) (auto simp: follows_def rw_take_def rw_drop_def simp del: rw_of_simps split: option.splits if_splits)
      ultimately show ?thesis by simp
    qed
  qed
  then show ?thesis by (simp add: both_wait_def)
qed

section \<open>Properties\<close>

text \<open>C5: In every run of any number of tasks locking and unlocking, with or without memory for read
  locks, each operation goes through and does exactly what the abstract reader/writer lock does: the
  lock is taken at once, or the task queued, as the abstract lock allows or refuses it, an unlock
  gives back one lock of its owner or reader, and an exclusive owner is always the only task that
  holds anything.\<close>

theorem lock_refines:
  assumes "lock_runs lock_start s" and "enabled e s"
  shows "\<exists>v. locking e s = Some v \<and> follows e s v \<and> rw_ok (rw_of (ls_sem s)) \<and> rw_ok (rw_of (ls_sem v))"
proof -
  have i: "lock_inv s" by (rule lock_runs_inv [OF assms(1) lock_start_inv])
  obtain v where "locking e s = Some v" "lock_inv v" "follows e s v" using locking_inv [OF i assms(2)] by blast
  then show ?thesis using i rw_of_ok by (auto simp: lock_inv_def)
qed

definition one_reader :: lockState where
  "one_reader = the (locking (Shared 1 True) lock_start)"

lemma one_reader_reached: "lock_runs lock_start one_reader" "enabled (Shared 1 True) lock_start"
proof -
  show e: "enabled (Shared 1 True) lock_start" by (simp add: lock_start_def pInitSem_def uncrowded_def)
  have "locking (Shared 1 True) lock_start = Some one_reader"
    by (simp add: one_reader_def lock_start_def pInitSem_def pLockSemShared_def)
  then show "lock_runs lock_start one_reader" using lock_runs.intros e by metis
qed

lemma lock_refines_witness:
  "\<exists>v. locking (Excl 1) one_reader = Some v \<and> follows (Excl 1) one_reader v"
proof -
  have "enabled (Excl 1) one_reader"
    by (simp add: one_reader_def lock_start_def pInitSem_def pLockSemShared_def shared_pass_def entered_def uncrowded_def)
  from lock_refines [OF one_reader_reached(1) this] show ?thesis by blast
qed

text \<open>C6: No wake-up is lost: in every state a run reaches, a waiting task that the lock is free for
  has its signal, and takes the lock when it gets the processor.\<close>

theorem no_lost_wakeup:
  assumes "lock_runs lock_start s" and "ls_mode s t \<noteq> Running"
    and "rw_may (ls_mode s t = WaitExcl) t (rw_of (ls_sem s))"
  shows "ls_sig s t \<and> (uncrowded (ls_sem s) \<longrightarrow> (\<exists>v. locking (Resume t) s = Some v \<and> ls_mode v t = Running \<and>
    rw_of (ls_sem v) = rw_take (ls_mode s t = WaitExcl) t (rw_of (ls_sem s))))"
proof -
  have i: "lock_inv s" by (rule lock_runs_inv [OF assms(1) lock_start_inv])
  then have sg: "ls_sig s t" using assms(2,3) by (auto simp: lock_inv_def awake_def)
  then show ?thesis using locking_inv [OF i, of "Resume t"] assms(2,3) by (auto simp: follows_def simp del: rw_of_simps)
qed

lemma lock_runs_events:
  assumes "lock_runs s u" and "enabled e u" and "locking e u \<noteq> None"
  shows "lock_runs s (the (locking e u))"
  using lock_runs.more [OF assms(1,2)] assms(3) by auto

text \<open>A reader, a writer that has to wait for it, and the reader gone.\<close>

definition reader_gone :: lockState where
  "reader_gone = the (locking (Unlock 1) (the (locking (Excl 2) one_reader)))"

lemmas lock_eval = one_reader_def reader_gone_def lock_start_def pInitSem_def pLockSemShared_def shared_pass_def
  entered_def uncrowded_def pLockSemExcl_def excl_free_def pUnlockSem_def

lemma reader_gone_reached: "lock_runs lock_start reader_gone"
proof -
  have "lock_runs lock_start (the (locking (Excl 2) one_reader))"
    by (rule lock_runs_events [OF one_reader_reached(1)]) (simp_all add: lock_eval)
  then show ?thesis unfolding reader_gone_def by (rule lock_runs_events) (simp_all add: lock_eval)
qed

lemma no_lost_wakeup_witness: "ls_mode reader_gone 2 = WaitExcl \<and> ls_sig reader_gone 2"
proof -
  have "ls_mode reader_gone 2 = WaitExcl" "rw_may True 2 (rw_of (ls_sem reader_gone))"
    by (simp_all add: lock_eval rw_may_def)
  then show ?thesis using no_lost_wakeup [OF reader_gone_reached, of 2] by simp
qed

text \<open>C7: Two tasks that each have a read lock and both ask for the exclusive lock wait for ever: no
  run, whatever other tasks do, lets either of them go on.\<close>

theorem promotion_deadlock:
  assumes "lock_runs lock_start s" and "t \<noteq> u" and "both_wait t u s" and "lock_runs s v"
  shows "both_wait t u v"
proof -
  have "lock_inv s" by (rule lock_runs_inv [OF assms(1) lock_start_inv])
  with assms(4,3) have "both_wait t u v \<and> lock_inv v"
    by (induction rule: lock_runs.induct) (use both_wait_step [OF _ _ _ _ assms(2)] locking_inv in fastforce)+
  then show ?thesis by simp
qed

definition two_readers :: lockState where
  "two_readers = the (locking (Excl 2) (the (locking (Excl 1) (the (locking (Shared 2 True) one_reader)))))"

lemma two_readers_reached: "lock_runs lock_start two_readers"
proof -
  have "lock_runs lock_start (the (locking (Shared 2 True) one_reader))"
    by (rule lock_runs_events [OF one_reader_reached(1)]) (simp_all add: lock_eval)
  then have "lock_runs lock_start (the (locking (Excl 1) (the (locking (Shared 2 True) one_reader))))"
    by (rule lock_runs_events) (simp_all add: lock_eval)
  then show ?thesis unfolding two_readers_def by (rule lock_runs_events) (simp_all add: lock_eval)
qed

lemma promotion_deadlock_witness: "lock_runs lock_start two_readers \<and> both_wait 1 2 two_readers"
proof -
  have "both_wait 1 2 two_readers" by (simp add: both_wait_def two_readers_def lock_eval)
  then show ?thesis
    using promotion_deadlock [OF two_readers_reached _ _ lock_runs.none, of 1 2] two_readers_reached by simp
qed

end
