(* ===== verification/Dsc_Model.thy ===== *)
theory Dsc_Model
  imports Neptune_Prelude
begin

text \<open>
  The configurations of a device, pGetDevConfig() of src/neptune.library/neptune.library.c: the
  descriptors a device sends for each configuration are read into a tree of configurations,
  interfaces with their alternate settings, and endpoints, and kept as a list of descriptors.

  A pointer to an object of the tree is its place in it: a configuration is its index in
  pd_Configs, a setting of an interface is the interface's index with the index among its
  alternates, if it is one, an endpoint is its index in the setting's list. pif_ParentIf is where
  the setting is. An operation yields \<open>None\<close> when the code would read outside the buffer that holds
  the descriptors, follow a pointer to nothing, or shift by 32 or more.

  The transfers are a parameter: \<open>get c n\<close> are the \<open>n\<close> bytes the device answers for configuration
  index \<open>c\<close>, or nothing on an error. So is the number format of RawDoFmt(), \<open>hex\<close>. The names for
  display (pc_CfgStr, pif_IfStr, pdd_Name) are not modelled, nor are their allocations.
\<close>

unbundle bit_operations_syntax

section \<open>Data\<close>

record psdEndpoint =
  pep_EPNum :: u16
  pep_Direction :: u16
  pep_TransType :: u16
  pep_MaxPktSize :: u16
  pep_NumTransMuFr :: u16
  pep_Interval :: u16
  pep_IntervalRaw :: u16
  pep_SyncType :: u16
  pep_UsageType :: u16
  pep_MaxBurst :: u16
  pep_CompAttributes :: u16
  pep_BytesPerInterval :: u32
  pep_MaxStreams :: u16

text \<open>A setting of an interface, main or alternate; an interface is its main setting and the
  alternates linked to it.\<close>

record psdSetting =
  pif_IfNum :: u16
  pif_Alternate :: u16
  pif_NumEPs :: u16
  pif_IfClass :: u16
  pif_IfSubClass :: u16
  pif_IfProto :: u16
  pif_IDString :: "string option"
  pif_IfBinding :: u32
  pif_ClsBinding :: u32
  pif_EPs :: "psdEndpoint list"

record psdInterface =
  pif_Main :: psdSetting
  pif_AlterIfs :: "psdSetting list"

record psdConfig =
  pc_CfgNum :: u16
  pc_Attr :: u16
  pc_MaxPower :: u16
  pc_NumIfs :: u16
  pc_Interfaces :: "psdInterface list"

type_synonym setting_ptr = "nat \<times> nat option"

record psdDescriptor =
  pdd_Type :: u16
  pdd_Length :: u16
  pdd_CSSubType :: u16
  pdd_Data :: bytes
  pdd_Config :: "nat option"
  pdd_Interface :: "setting_ptr option"
  pdd_Endpoint :: "nat option"

record psdDevice =
  pd_Flags :: u16
  pd_NumCfgs :: u16
  pd_Configs :: "psdConfig list"
  pd_Descriptors :: "psdDescriptor list"

abbreviation PDFF_LOWSPEED :: u16 where "PDFF_LOWSPEED \<equiv> 0x0001"
abbreviation PDFF_CONFIGURED :: u16 where "PDFF_CONFIGURED \<equiv> 0x0010"
abbreviation PDFF_HIGHSPEED :: u16 where "PDFF_HIGHSPEED \<equiv> 0x0020"
abbreviation PDFF_SUPERSPEED :: u16 where "PDFF_SUPERSPEED \<equiv> 0x0400"
abbreviation USEAF_CONTROL :: u16 where "USEAF_CONTROL \<equiv> 0"
abbreviation USEAF_ISOCHRONOUS :: u16 where "USEAF_ISOCHRONOUS \<equiv> 1"
abbreviation USEAF_BULK :: u16 where "USEAF_BULK \<equiv> 2"
abbreviation USEAF_INTERRUPT :: u16 where "USEAF_INTERRUPT \<equiv> 3"
abbreviation UDT_CONFIGURATION :: u8 where "UDT_CONFIGURATION \<equiv> 0x02"
abbreviation UDT_INTERFACE :: u8 where "UDT_INTERFACE \<equiv> 0x04"
abbreviation UDT_ENDPOINT :: u8 where "UDT_ENDPOINT \<equiv> 0x05"
abbreviation UDT_CS_UNDEFINED :: u8 where "UDT_CS_UNDEFINED \<equiv> 0x20"
abbreviation UDT_CS_ENDPOINT :: u8 where "UDT_CS_ENDPOINT \<equiv> 0x25"
abbreviation UDT_SUPERSPEED_EP_COMP :: u8 where "UDT_SUPERSPEED_EP_COMP \<equiv> 0x30"
abbreviation UDT_SUPERSPEED_ISO_COMP :: u8 where "UDT_SUPERSPEED_ISO_COMP \<equiv> 0x31"

text \<open>The parser's variables: the device, the memory, and its pointers.\<close>

record parser =
  pr_Dev :: psdDevice
  pr_Mem :: mem
  pr_pc :: "nat option"
  pr_pif :: "nat option"
  pr_altif :: "setting_ptr option"
  pr_pep :: "nat option"

section \<open>Endpoints\<close>

text \<open>\<open>1 << (n - 1)\<close>, kept in 16 bits.\<close>

definition pow_interval :: "u16 \<Rightarrow> u16 option" where
  "pow_interval n = (if n = 0 \<or> 32 < n then None else Some (push_bit (unat n - 1) 1))"

definition nonzero_interval :: "u16 \<Rightarrow> u16" where
  "nonzero_interval n = (if n = 0 then 1 else n)"

definition clamp_interval :: "u16 \<Rightarrow> u16" where
  "clamp_interval n = (if n = 0 then 1 else if 16 < n then 16 else n)"

definition set_periodic :: "(u16 \<Rightarrow> u16) \<Rightarrow> psdEndpoint \<Rightarrow> psdEndpoint option" where
  "set_periodic fix ep = do {
     i \<leftarrow> pow_interval (fix (pep_Interval ep));
     Some (ep\<lparr>pep_Interval := i\<rparr>) }"

definition cap_packet :: "u16 \<Rightarrow> psdEndpoint \<Rightarrow> psdEndpoint" where
  "cap_packet n ep = (if n < pep_MaxPktSize ep then ep\<lparr>pep_MaxPktSize := n\<rparr> else ep)"

definition fix_endpoint :: "u16 \<Rightarrow> psdEndpoint \<Rightarrow> psdEndpoint option" where
  "fix_endpoint flags ep = (let ty = pep_TransType ep in
     if flags AND PDFF_SUPERSPEED \<noteq> 0 then
       if ty = USEAF_CONTROL \<or> ty = USEAF_BULK then Some (ep\<lparr>pep_Interval := 0\<rparr>)
       else if ty = USEAF_ISOCHRONOUS then set_periodic clamp_interval (cap_packet 1024 ep)
       else if ty = USEAF_INTERRUPT then set_periodic nonzero_interval ep
       else Some ep
     else if flags AND PDFF_HIGHSPEED \<noteq> 0 then
       if ty = USEAF_CONTROL \<or> ty = USEAF_BULK then Some ep
       else if ty = USEAF_ISOCHRONOUS then set_periodic clamp_interval (cap_packet 1024 ep)
       else if ty = USEAF_INTERRUPT then set_periodic clamp_interval ep
       else Some ep
     else if flags AND PDFF_LOWSPEED \<noteq> 0 then
       if ty = USEAF_INTERRUPT then Some (if pep_Interval ep < 8 then ep\<lparr>pep_Interval := 8\<rparr> else ep)
       else if ty = USEAF_CONTROL \<or> ty = USEAF_BULK then Some (ep\<lparr>pep_Interval := 0\<rparr>)
       else Some ep
     else
       if ty = USEAF_INTERRUPT then Some (ep\<lparr>pep_Interval := nonzero_interval (pep_Interval ep)\<rparr>)
       else if ty = USEAF_CONTROL \<or> ty = USEAF_BULK then Some (ep\<lparr>pep_Interval := 0\<rparr>)
       else if ty = USEAF_ISOCHRONOUS then set_periodic clamp_interval (cap_packet 1023 ep)
       else Some ep)"

definition raw_endpoint :: "u8 \<Rightarrow> u8 \<Rightarrow> u16 \<Rightarrow> u8 \<Rightarrow> psdEndpoint" where
  "raw_endpoint addr attr mps iv =
     (let n = (drop_bit 11 mps AND 3) + 1; pkt = mps AND 0x07ff in
     \<lparr>pep_EPNum = ucast addr AND 0x0f, pep_Direction = drop_bit 7 (ucast addr), pep_TransType = ucast attr AND 3,
      pep_MaxPktSize = pkt, pep_NumTransMuFr = (if n = 4 then 1 else n),
      pep_Interval = ucast iv, pep_IntervalRaw = ucast iv,
      pep_SyncType = drop_bit 2 (ucast attr) AND 3, pep_UsageType = drop_bit 4 (ucast attr) AND 3,
      pep_MaxBurst = 1, pep_CompAttributes = 0, pep_BytesPerInterval = ucast pkt, pep_MaxStreams = 0\<rparr>)"

definition pGetMaxStreamsForEndpoint :: "u16 \<Rightarrow> psdEndpoint \<Rightarrow> u16" where
  "pGetMaxStreamsForEndpoint flags ep = (
     if flags AND PDFF_SUPERSPEED = 0 then 0
     else if pep_TransType ep \<noteq> USEAF_BULK then 0
     else let n = pep_CompAttributes ep AND 0x1F in
       if n = 0 then 0 else if 16 \<le> n then 0xFFFF else push_bit (unat n) 1)"

definition comp_endpoint :: "u16 \<Rightarrow> u8 \<Rightarrow> u8 \<Rightarrow> u16 \<Rightarrow> psdEndpoint \<Rightarrow> psdEndpoint" where
  "comp_endpoint flags burst attr bytes ep =
     (let ep = ep\<lparr>pep_MaxBurst := ucast burst + 1, pep_CompAttributes := ucast attr, pep_BytesPerInterval := ucast bytes\<rparr>;
          ep = ep\<lparr>pep_MaxStreams := pGetMaxStreamsForEndpoint flags ep\<rparr> in
     if flags AND PDFF_SUPERSPEED \<noteq> 0 \<and> pep_TransType ep = USEAF_ISOCHRONOUS
     then ep\<lparr>pep_NumTransMuFr := (ucast attr AND 3) + 1\<rparr> else ep)"

section \<open>Objects of the tree\<close>

text \<open>A pointer to an object in a list.\<close>

definition at_index :: "nat \<Rightarrow> ('a \<Rightarrow> 'a option) \<Rightarrow> 'a list \<Rightarrow> 'a list option" where
  "at_index i f xs = (if i < length xs then do { x \<leftarrow> f (xs ! i); Some (xs[i := x]) } else None)"

definition at_config :: "nat \<Rightarrow> (psdConfig \<Rightarrow> psdConfig option) \<Rightarrow> psdDevice \<Rightarrow> psdDevice option" where
  "at_config c f pd = do { cs \<leftarrow> at_index c f (pd_Configs pd); Some (pd\<lparr>pd_Configs := cs\<rparr>) }"

definition at_setting :: "setting_ptr \<Rightarrow> (psdSetting \<Rightarrow> psdSetting option) \<Rightarrow> psdConfig \<Rightarrow> psdConfig option" where
  "at_setting q f pc = do {
     ifs \<leftarrow> at_index (fst q) (\<lambda>pif. case snd q of
         None \<Rightarrow> do { s \<leftarrow> f (pif_Main pif); Some (pif\<lparr>pif_Main := s\<rparr>) }
       | Some k \<Rightarrow> do { ss \<leftarrow> at_index k f (pif_AlterIfs pif); Some (pif\<lparr>pif_AlterIfs := ss\<rparr>) }) (pc_Interfaces pc);
     Some (pc\<lparr>pc_Interfaces := ifs\<rparr>) }"

definition at_eps :: "nat \<Rightarrow> setting_ptr \<Rightarrow> (psdEndpoint list \<Rightarrow> psdEndpoint list option) \<Rightarrow> psdDevice \<Rightarrow> psdDevice option" where
  "at_eps c q f = at_config c (at_setting q (\<lambda>s. do { eps \<leftarrow> f (pif_EPs s); Some (s\<lparr>pif_EPs := eps\<rparr>) }))"

definition index :: "'a list \<Rightarrow> nat \<Rightarrow> 'a option" where
  "index xs i = (if i < length xs then Some (xs ! i) else None)"

definition setting_of :: "psdDevice \<Rightarrow> nat \<Rightarrow> setting_ptr \<Rightarrow> psdSetting option" where
  "setting_of pd c q = do {
     pc \<leftarrow> index (pd_Configs pd) c;
     pif \<leftarrow> index (pc_Interfaces pc) (fst q);
     case snd q of None \<Rightarrow> Some (pif_Main pif) | Some k \<Rightarrow> index (pif_AlterIfs pif) k }"

section \<open>One descriptor\<close>

text \<open>The branches of the switch: the descriptor starts at \<open>i\<close>.\<close>

definition config_desc :: "bytes \<Rightarrow> nat \<Rightarrow> parser \<Rightarrow> parser option" where
  "config_desc b i p = (let p = p\<lparr>pr_pif := None, pr_altif := None, pr_pep := None\<rparr>;
       (got, m) = psdAllocVec (pr_Mem p); p = p\<lparr>pr_Mem := m\<rparr> in
     if got then do {
       nifs \<leftarrow> rd8 b (i + 4); num \<leftarrow> rd8 b (i + 5); str \<leftarrow> rd8 b (i + 6);
       attr \<leftarrow> rd8 b (i + 7); power \<leftarrow> rd8 b (i + 8);
       let pd = pr_Dev p;
       let pc = \<lparr>pc_CfgNum = ucast num, pc_Attr = ucast attr, pc_MaxPower = push_bit 1 (ucast power),
         pc_NumIfs = ucast nifs, pc_Interfaces = []\<rparr>;
       Some (p\<lparr>pr_Dev := pd\<lparr>pd_Flags := pd_Flags pd OR PDFF_CONFIGURED, pd_Configs := pd_Configs pd @ [pc]\<rparr>,
               pr_pc := Some (length (pd_Configs pd))\<rparr>) }
     else Some (p\<lparr>pr_pc := None\<rparr>))"

text \<open>The key of an interface in the configuration store.\<close>

definition id_string :: "(u16 \<Rightarrow> string) \<Rightarrow> u16 \<Rightarrow> u16 list \<Rightarrow> string" where
  "id_string hex cfg ws = concat (map (\<lambda>w. hex w @ ''-'') (butlast (if cfg = 1 then ws else cfg # ws))) @ hex (last ws)"

text \<open>A new setting is appended to the configuration's interfaces; an alternate with an interface
  before it is moved to that interface's alternates. The steps together:\<close>

definition add_setting :: "psdSetting \<Rightarrow> nat option \<Rightarrow> psdConfig \<Rightarrow> (psdConfig \<times> nat \<times> setting_ptr) option" where
  "add_setting s pif pc = (case (if pif_Alternate s \<noteq> 0 then pif else None) of
       None \<Rightarrow> let k = length (pc_Interfaces pc) in
         Some (pc\<lparr>pc_Interfaces := pc_Interfaces pc @ [\<lparr>pif_Main = s, pif_AlterIfs = []\<rparr>]\<rparr>, k, (k, None))
     | Some k \<Rightarrow> do {
         pif \<leftarrow> index (pc_Interfaces pc) k;
         Some (pc\<lparr>pc_Interfaces := (pc_Interfaces pc)[k := pif\<lparr>pif_AlterIfs := pif_AlterIfs pif @ [s]\<rparr>]\<rparr>,
           k, (k, Some (length (pif_AlterIfs pif)))) })"

definition interface_desc :: "(u16 \<Rightarrow> string) \<Rightarrow> bytes \<Rightarrow> nat \<Rightarrow> parser \<Rightarrow> parser option" where
  "interface_desc hex b i p = (let p = p\<lparr>pr_pep := None\<rparr> in
     case pr_pc p of None \<Rightarrow> Some p
     | Some c \<Rightarrow> let (got, m) = psdAllocVec (pr_Mem p); p = p\<lparr>pr_Mem := m\<rparr> in
         if got then do {
           num \<leftarrow> rd8 b (i + 2); alt \<leftarrow> rd8 b (i + 3); neps \<leftarrow> rd8 b (i + 4);
           cls \<leftarrow> rd8 b (i + 5); sub \<leftarrow> rd8 b (i + 6); proto \<leftarrow> rd8 b (i + 7); str \<leftarrow> rd8 b (i + 8);
           pc \<leftarrow> index (pd_Configs (pr_Dev p)) c;
           let (named, m) = psdAllocVec (pr_Mem p);
           let ids = (if named then Some (id_string hex (pc_CfgNum pc)
             [ucast num, ucast alt, ucast cls, ucast sub, ucast proto]) else None);
           (pc, pif, altif) \<leftarrow> add_setting \<lparr>pif_IfNum = ucast num, pif_Alternate = ucast alt, pif_NumEPs = ucast neps,
             pif_IfClass = ucast cls, pif_IfSubClass = ucast sub, pif_IfProto = ucast proto,
             pif_IDString = ids, pif_IfBinding = 0, pif_ClsBinding = 0, pif_EPs = []\<rparr> (pr_pif p) pc;
           Some (p\<lparr>pr_Dev := (pr_Dev p)\<lparr>pd_Configs := (pd_Configs (pr_Dev p))[c := pc]\<rparr>, pr_Mem := m,
             pr_pif := Some pif, pr_altif := Some altif\<rparr>) }
         else Some (p\<lparr>pr_altif := None\<rparr>))"

definition endpoint_desc :: "bytes \<Rightarrow> nat \<Rightarrow> parser \<Rightarrow> parser option" where
  "endpoint_desc b i p = (case pr_altif p of None \<Rightarrow> Some p
     | Some q \<Rightarrow> let (got, m) = psdAllocVec (pr_Mem p); p = p\<lparr>pr_Mem := m\<rparr> in
         if got then do {
           addr \<leftarrow> rd8 b (i + 2); attr \<leftarrow> rd8 b (i + 3); mps \<leftarrow> rd_le16 b (i + 4); iv \<leftarrow> rd8 b (i + 6);
           ep \<leftarrow> fix_endpoint (pd_Flags (pr_Dev p)) (raw_endpoint addr attr (word_of_nat mps) iv);
           c \<leftarrow> pr_pc p;
           s \<leftarrow> setting_of (pr_Dev p) c q;
           pd \<leftarrow> at_eps c q (\<lambda>eps. Some (eps @ [ep])) (pr_Dev p);
           Some (p\<lparr>pr_Dev := pd, pr_pep := Some (length (pif_EPs s))\<rparr>) }
         else Some (p\<lparr>pr_pep := None\<rparr>))"

text \<open>The endpoint pointed to.\<close>

definition at_pep :: "(psdEndpoint \<Rightarrow> psdEndpoint) \<Rightarrow> parser \<Rightarrow> parser option" where
  "at_pep f p = do {
     e \<leftarrow> pr_pep p; q \<leftarrow> pr_altif p; c \<leftarrow> pr_pc p;
     pd \<leftarrow> at_eps c q (at_index e (\<lambda>ep. Some (f ep))) (pr_Dev p);
     Some (p\<lparr>pr_Dev := pd\<rparr>) }"

definition ep_comp_desc :: "bytes \<Rightarrow> nat \<Rightarrow> parser \<Rightarrow> parser option" where
  "ep_comp_desc b i p = (if pr_pep p = None then Some p else do {
     burst \<leftarrow> rd8 b (i + 2); attr \<leftarrow> rd8 b (i + 3); n \<leftarrow> rd_le16 b (i + 4);
     at_pep (comp_endpoint (pd_Flags (pr_Dev p)) burst attr (word_of_nat n)) p })"

definition iso_comp_desc :: "bytes \<Rightarrow> nat \<Rightarrow> parser \<Rightarrow> parser option" where
  "iso_comp_desc b i p = (if pr_pep p = None then Some p else do {
     n \<leftarrow> rd_le32 b (i + 4);
     at_pep (\<lambda>ep. ep\<lparr>pep_BytesPerInterval := word_of_nat n\<rparr>) p })"

text \<open>pAllocDescriptor() and the pointers it gets; naming it reads the interface pif.\<close>

definition keep_desc :: "bytes \<Rightarrow> nat \<Rightarrow> u8 \<Rightarrow> u8 \<Rightarrow> parser \<Rightarrow> parser option" where
  "keep_desc b i len ty p = (let (got, m) = psdAllocVec (pr_Mem p); p = p\<lparr>pr_Mem := m\<rparr> in
     if got then do {
       sub \<leftarrow> (if UDT_CS_UNDEFINED \<le> ty \<and> ty \<le> UDT_CS_ENDPOINT then rd8 b (i + 2) else Some 0);
       d \<leftarrow> rd_slice b i (unat len);
       if pr_altif p \<noteq> None \<and> pr_pif p = None then None else
       Some (p\<lparr>pr_Dev := (pr_Dev p)\<lparr>pd_Descriptors := pd_Descriptors (pr_Dev p) @
         [\<lparr>pdd_Type = ucast ty, pdd_Length = ucast len, pdd_CSSubType = ucast sub, pdd_Data = d,
           pdd_Config = pr_pc p, pdd_Interface = pr_altif p, pdd_Endpoint = pr_pep p\<rparr>]\<rparr>\<rparr>) }
     else Some p)"

definition one_desc :: "(u16 \<Rightarrow> string) \<Rightarrow> bytes \<Rightarrow> nat \<Rightarrow> u8 \<Rightarrow> parser \<Rightarrow> parser option" where
  "one_desc hex b i len p = do {
     ty \<leftarrow> rd8 b (i + 1);
     p \<leftarrow> (if ty = UDT_CONFIGURATION then config_desc b i p
       else if ty = UDT_INTERFACE then interface_desc hex b i p
       else if ty = UDT_ENDPOINT then endpoint_desc b i p
       else if ty = UDT_SUPERSPEED_EP_COMP then ep_comp_desc b i p
       else if ty = UDT_SUPERSPEED_ISO_COMP then iso_comp_desc b i p
       else Some p);
     keep_desc b i len ty p }"

section \<open>The descriptors of a configuration, and of all\<close>

text \<open>A descriptor of less than two bytes ends the loop; one that is longer than the rest of the
  buffer is only reported.\<close>

function parse_descs :: "(u16 \<Rightarrow> string) \<Rightarrow> bytes \<Rightarrow> nat \<Rightarrow> parser \<Rightarrow> parser option" where
  "parse_descs hex b i p = (if i < length b then
       let len = b ! i in
       if len < 2 then Some p else do {
         p \<leftarrow> one_desc hex b i len p;
         parse_descs hex b (i + unat len) p }
     else Some p)"
  by pat_completeness auto
termination
  by (relation "measure (\<lambda>(hex, b, i, p). length b - i)") (auto simp: word_less_nat_alt)

declare parse_descs.simps [simp del]

definition start_parser :: "psdDevice \<Rightarrow> mem \<Rightarrow> parser" where
  "start_parser pd m = \<lparr>pr_Dev = pd, pr_Mem = m, pr_pc = None, pr_pif = None, pr_altif = None, pr_pep = None\<rparr>"

fun config_loop :: "(u16 \<Rightarrow> string) \<Rightarrow> (nat \<Rightarrow> nat \<Rightarrow> bytes option) \<Rightarrow> nat list \<Rightarrow> psdDevice \<Rightarrow> mem
    \<Rightarrow> (bool \<times> psdDevice \<times> mem) option" where
  "config_loop hex get [] pd m = Some (True, pd, m)"
| "config_loop hex get (cur # curs) pd m = (case get cur 9 of
       None \<Rightarrow> Some (False, pd, m)
     | Some uscd \<Rightarrow> do {
         num \<leftarrow> rd8 uscd 5;
         if ucast num \<in> pc_CfgNum ` set (pd_Configs pd) then config_loop hex get curs pd m
         else do {
           len \<leftarrow> rd_le16 uscd 2;
           let (got, m) = psdAllocVec m;
           if got then (case get cur len of
               None \<Rightarrow> Some (False, pd, m)
             | Some b \<Rightarrow> do {
                 p \<leftarrow> parse_descs hex b 0 (start_parser pd m);
                 config_loop hex get curs (pr_Dev p) (pr_Mem p) })
           else Some (False, pd, m) } })"

definition pGetDevConfig :: "(u16 \<Rightarrow> string) \<Rightarrow> (nat \<Rightarrow> nat \<Rightarrow> bytes option) \<Rightarrow> psdDevice \<Rightarrow> mem
    \<Rightarrow> (bool \<times> psdDevice \<times> mem) option" where
  "pGetDevConfig hex get pd m = config_loop hex get [0..<unat (pd_NumCfgs pd)] pd m"

end
