(* ===== verification/Dsc_Walk.thy ===== *)
theory Dsc_Walk
  imports Dsc_Model
begin

text \<open>
  Walking the buffer: on a buffer that is a sequence of descriptors, each as long as it says and long
  enough for its type, the parser takes the descriptors one by one; a descriptor that is longer
  than the rest of the buffer is read past the end.
\<close>

lemma parse_descs_step: "i < length b \<Longrightarrow> \<not> b ! i < 2 \<Longrightarrow>
   parse_descs hex b i p = do { p \<leftarrow> one_desc hex b i (b ! i) p; parse_descs hex b (i + unat (b ! i)) p }"
  by (subst parse_descs.simps) (simp add: Let_def)

lemma parse_descs_stop: "\<not> (i < length b \<and> \<not> b ! i < 2) \<Longrightarrow> parse_descs hex b i p = Some p"
  by (subst parse_descs.simps) auto

section \<open>Descriptors\<close>

text \<open>The bytes the code desc_reads of a descriptor of a type.\<close>

definition min_len :: "u8 \<Rightarrow> nat" where
  "min_len ty = (if ty = UDT_CONFIGURATION \<or> ty = UDT_INTERFACE then 9 else if ty = UDT_ENDPOINT then 7
     else if ty = UDT_SUPERSPEED_EP_COMP then 6 else if ty = UDT_SUPERSPEED_ISO_COMP then 8
     else if UDT_CS_UNDEFINED \<le> ty \<and> ty \<le> UDT_CS_ENDPOINT then 3 else 2)"

definition desc_ok :: "bytes \<Rightarrow> bool" where
  "desc_ok d \<longleftrightarrow> 2 \<le> length d \<and> unat (d ! 0) = length d \<and> min_len (d ! 1) \<le> length d"

definition take_desc :: "(u16 \<Rightarrow> string) \<Rightarrow> parser \<Rightarrow> bytes \<Rightarrow> parser option" where
  "take_desc hex p d = one_desc hex d 0 (d ! 0) p"

fun take_descs :: "(u16 \<Rightarrow> string) \<Rightarrow> bytes list \<Rightarrow> parser \<Rightarrow> parser option" where
  "take_descs hex [] p = Some p"
| "take_descs hex (d # ds) p = do { p \<leftarrow> take_desc hex p d; take_descs hex ds p }"

lemma take_descs_append: "take_descs hex (ds @ es) p = do { p \<leftarrow> take_descs hex ds p; take_descs hex es p }"
  by (induction ds arbitrary: p) (simp_all split: bind_split)

lemma min_len_2: "2 \<le> min_len ty" "desc_ok d \<Longrightarrow> 1 < length d"
  by (auto simp: min_len_def desc_ok_def)

section \<open>Reading in the middle of a buffer\<close>

lemma rd_mid [simp]:
  "k < length d \<Longrightarrow> rd8 (pre @ d @ post) (length pre + k) = rd8 d k"
  "k + 2 \<le> length d \<Longrightarrow> rd_le16 (pre @ d @ post) (length pre + k) = rd_le16 d k"
  "k + 4 \<le> length d \<Longrightarrow> rd_le32 (pre @ d @ post) (length pre + k) = rd_le32 d k"
  "rd_slice (pre @ d @ post) (length pre) (length d) = rd_slice d 0 (length d)"
  by (simp_all add: rd8_def rd_le16_def rd_le32_def rd_slice_def nth_append)

lemma one_desc_mid:
  assumes "desc_ok d"
  shows "one_desc hex (pre @ d @ post) (length pre) (d ! 0) p = take_desc hex p d"
proof -
  let ?b = "pre @ d @ post" and ?i = "length pre"
  have l: "unat (d ! 0) = length d" "1 < length d" "min_len (d ! 1) \<le> length d" using assms by (auto simp: desc_ok_def)
  have ty: "rd8 ?b (?i + 1) = Some (d ! 1)" "rd8 d (0 + 1) = Some (d ! 1)" using l rd_mid(1) [of 1 d] by (simp_all add: rd8_def)
  have cs: "UDT_CS_UNDEFINED \<le> d ! 1 \<Longrightarrow> d ! 1 \<le> UDT_CS_ENDPOINT \<Longrightarrow> 3 \<le> length d"
    using l(3) by (auto simp: min_len_def split: if_splits)
  then have e1: "(if UDT_CS_UNDEFINED \<le> d ! 1 \<and> d ! 1 \<le> UDT_CS_ENDPOINT then rd8 ?b (?i + 2) else Some 0) =
    (if UDT_CS_UNDEFINED \<le> d ! 1 \<and> d ! 1 \<le> UDT_CS_ENDPOINT then rd8 d (0 + 2) else Some 0)"
    using rd_mid(1) [of 2 d pre post] by (auto simp: numeral_2_eq_2)
  have e2: "rd_slice ?b ?i (unat (d ! 0)) = rd_slice d 0 (unat (d ! 0))" using l(1) by simp
  have "keep_desc ?b ?i (d ! 0) (d ! 1) = keep_desc d 0 (d ! 0) (d ! 1)"
    by (rule ext) (unfold keep_desc_def e1 e2, rule refl)
  then have "ty = d ! 1 \<Longrightarrow> keep_desc ?b ?i (d ! 0) ty = keep_desc d 0 (d ! 0) ty" for ty by simp
  moreover have "d ! 1 = UDT_CONFIGURATION \<Longrightarrow> config_desc ?b ?i p = config_desc d 0 p"
    "d ! 1 = UDT_INTERFACE \<Longrightarrow> interface_desc hex ?b ?i p = interface_desc hex d 0 p"
    "d ! 1 = UDT_ENDPOINT \<Longrightarrow> endpoint_desc ?b ?i p = endpoint_desc d 0 p"
    "d ! 1 = UDT_SUPERSPEED_EP_COMP \<Longrightarrow> ep_comp_desc ?b ?i p = ep_comp_desc d 0 p"
    "d ! 1 = UDT_SUPERSPEED_ISO_COMP \<Longrightarrow> iso_comp_desc ?b ?i p = iso_comp_desc d 0 p"
    using l(3) by (auto simp: min_len_def config_desc_def interface_desc_def endpoint_desc_def ep_comp_desc_def iso_comp_desc_def
      simp del: add_2_eq_Suc add_2_eq_Suc' cong: if_cong option.case_cong)
  ultimately show ?thesis using ty by (simp add: take_desc_def one_desc_def)
qed

lemma parse_descs_mid:
  assumes "\<forall>d \<in> set ds. desc_ok d"
  shows "parse_descs hex (pre @ concat ds @ post) (length pre) p =
    do { p \<leftarrow> take_descs hex ds p; parse_descs hex (pre @ concat ds @ post) (length pre + length (concat ds)) p }"
  using assms
proof (induction ds arbitrary: pre p)
  case (Cons d ds)
  have d: "desc_ok d" "1 < length d" "unat (d ! 0) = length d" using Cons.prems by (auto simp: desc_ok_def)
  have n: "(pre @ concat (d # ds) @ post) ! length pre = d ! 0" using d(2) by (cases d) simp_all
  have "unat (d ! 0) \<ge> 2" using d by simp
  then have "\<not> d ! 0 < 2" by (simp add: word_less_nat_alt)
  moreover define b where "b = pre @ concat (d # ds) @ post"
  moreover have "length pre < length b" using d(2) by (cases d) (simp_all add: b_def)
  ultimately have "parse_descs hex b (length pre) p =
    do { p \<leftarrow> one_desc hex b (length pre) (d ! 0) p; parse_descs hex b (length pre + length d) p }"
    using d(3) n by (subst parse_descs.simps) simp
  moreover have "one_desc hex b (length pre) (d ! 0) p = take_desc hex p d"
    using one_desc_mid [OF d(1), of hex pre "concat ds @ post" p] by (simp add: b_def)
  ultimately have "parse_descs hex (pre @ concat (d # ds) @ post) (length pre) p =
    do { p \<leftarrow> take_desc hex p d; parse_descs hex ((pre @ d) @ concat ds @ post) (length (pre @ d)) p }"
    by (simp add: b_def)
  also have "\<dots> = do { p \<leftarrow> take_descs hex (d # ds) p;
      parse_descs hex (pre @ concat (d # ds) @ post) (length pre + length (concat (d # ds))) p }"
    using Cons.IH [of "pre @ d"] Cons.prems by (simp add: add.assoc)
  finally show ?case .
qed simp

lemma parse_descs_end: "length b \<le> i \<Longrightarrow> parse_descs hex b i p = Some p"
  by (simp add: parse_descs.simps)

lemma parse_descs_all: "\<forall>d \<in> set ds. desc_ok d \<Longrightarrow> parse_descs hex (concat ds) 0 p = take_descs hex ds p"
  using parse_descs_mid [of ds hex "[]" "[]" p] by (simp add: parse_descs_end)

text \<open>The last descriptor claims more bytes than there are: whatever it is, its copy desc_reads on.\<close>

lemma keep_desc_beyond: "psdAllocVec (pr_Mem p) = (True, m) \<Longrightarrow> length b < i + unat len \<Longrightarrow> keep_desc b i len ty p = None"
  by (auto simp: keep_desc_def rd_slice_def rd8_def)

lemma desc_mem:
  assumes "pr_Mem p = []"
  shows "config_desc b i p = Some q \<Longrightarrow> pr_Mem q = []" "interface_desc hex b i p = Some q \<Longrightarrow> pr_Mem q = []"
    "endpoint_desc b i p = Some q \<Longrightarrow> pr_Mem q = []" "at_pep f p = Some q \<Longrightarrow> pr_Mem q = []"
    "keep_desc b i len ty p = Some q \<Longrightarrow> pr_Mem q = []"
  using assms by (auto simp: config_desc_def interface_desc_def endpoint_desc_def at_pep_def keep_desc_def psdAllocVec_def Let_def
    split: bind_splits option.splits if_splits)

lemma comp_mem:
  assumes "pr_Mem p = []"
  shows "ep_comp_desc b i p = Some q \<Longrightarrow> pr_Mem q = []" "iso_comp_desc b i p = Some q \<Longrightarrow> pr_Mem q = []"
  using assms desc_mem(4) [OF assms] by (auto simp: ep_comp_desc_def iso_comp_desc_def split: bind_splits if_splits)

lemma one_desc_beyond:
  assumes "pr_Mem p = []" and "length b < i + unat len"
  shows "one_desc hex b i len p = None"
proof -
  have k: "keep_desc b i len ty q = None" if "pr_Mem q = []" for q ty
    using keep_desc_beyond [of q "[]"] that assms(2) by (simp add: psdAllocVec_def)
  show ?thesis using k desc_mem [OF assms(1)] comp_mem [OF assms(1)] assms(1)
    by (auto simp: one_desc_def split: bind_split)
qed

lemma take_descs_mem: "take_descs hex ds p = Some q \<Longrightarrow> pr_Mem p = [] \<Longrightarrow> pr_Mem q = []"
proof (induction ds arbitrary: p)
  case (Cons d ds)
  then obtain r where r: "take_desc hex p d = Some r" "take_descs hex ds r = Some q" by (auto split: bind_splits)
  have "pr_Mem r = []" using r(1) Cons.prems(2)
    unfolding take_desc_def one_desc_def by (auto split: bind_splits if_splits dest: desc_mem comp_mem)
  then show ?case using Cons.IH r(2) by blast
qed simp

end
