(* ===== verification/Dsc_Types.thy ===== *)
theory Dsc_Types
  imports Dsc_Walk
begin

text \<open>
  The tree is well typed whatever the device sends: the fields of endpoints are in their ranges,
  alternates are alternates, and every pointer of a descriptor and of the parser is one to an object.
\<close>

declare split_paired_All [simp del] split_paired_Ex [simp del]

section \<open>Well typed devices\<close>

text \<open>A power of two that fits the field.\<close>

definition is_pow :: "u16 \<Rightarrow> bool" where
  "is_pow w \<longleftrightarrow> (\<exists>k < 16. w = push_bit k 1)"

definition ep_typed :: "u16 \<Rightarrow> psdEndpoint \<Rightarrow> bool" where
  "ep_typed fl ep \<longleftrightarrow> pep_EPNum ep < 16 \<and> pep_Direction ep < 2 \<and> pep_TransType ep < 4 \<and> pep_MaxPktSize ep < 2048 \<and>
     1 \<le> pep_NumTransMuFr ep \<and> pep_NumTransMuFr ep \<le> 4 \<and> 1 \<le> pep_MaxBurst ep \<and> pep_MaxBurst ep \<le> 256 \<and>
     pep_IntervalRaw ep < 256 \<and>
     (if fl AND PDFF_SUPERSPEED \<noteq> 0 then pep_TransType ep = USEAF_ISOCHRONOUS \<longrightarrow> pep_MaxPktSize ep \<le> 1024 \<and> is_pow (pep_Interval ep)
      else if fl AND PDFF_HIGHSPEED \<noteq> 0 then
        (pep_TransType ep = USEAF_ISOCHRONOUS \<longrightarrow> pep_MaxPktSize ep \<le> 1024 \<and> is_pow (pep_Interval ep)) \<and>
        (pep_TransType ep = USEAF_INTERRUPT \<longrightarrow> is_pow (pep_Interval ep))
      else if fl AND PDFF_LOWSPEED \<noteq> 0 then pep_TransType ep = USEAF_INTERRUPT \<longrightarrow> 8 \<le> pep_Interval ep
      else (pep_TransType ep = USEAF_ISOCHRONOUS \<longrightarrow> pep_MaxPktSize ep \<le> 1023 \<and> is_pow (pep_Interval ep)) \<and>
        (pep_TransType ep = USEAF_INTERRUPT \<longrightarrow> 1 \<le> pep_Interval ep))"

definition ptrs_ok :: "psdDevice \<Rightarrow> nat option \<Rightarrow> setting_ptr option \<Rightarrow> nat option \<Rightarrow> bool" where
  "ptrs_ok pd pc pif pep \<longleftrightarrow> (\<forall>c. pc = Some c \<longrightarrow> c < length (pd_Configs pd)) \<and> (pep \<noteq> None \<longrightarrow> pif \<noteq> None) \<and>
     (\<forall>q. pif = Some q \<longrightarrow> (\<exists>c s. pc = Some c \<and> setting_of pd c q = Some s \<and> (\<forall>e. pep = Some e \<longrightarrow> e < length (pif_EPs s))))"

definition dev_typed :: "psdDevice \<Rightarrow> bool" where
  "dev_typed pd \<longleftrightarrow> (\<forall>c q s. setting_of pd c q = Some s \<longrightarrow>
       (\<forall>ep \<in> set (pif_EPs s). ep_typed (pd_Flags pd) ep) \<and> (snd q \<noteq> None \<longrightarrow> pif_Alternate s \<noteq> 0)) \<and>
     (\<forall>d \<in> set (pd_Descriptors pd). ptrs_ok pd (pdd_Config d) (pdd_Interface d) (pdd_Endpoint d) \<and>
       unat (pdd_Length d) = length (pdd_Data d))"

definition parser_ok :: "parser \<Rightarrow> bool" where
  "parser_ok p \<longleftrightarrow> dev_typed (pr_Dev p) \<and> ptrs_ok (pr_Dev p) (pr_pc p) (pr_altif p) (pr_pep p) \<and>
     (pr_altif p \<noteq> None \<longrightarrow> pr_pif p \<noteq> None) \<and>
     (\<forall>k. pr_pif p = Some k \<longrightarrow> (\<exists>c. pr_pc p = Some c \<and> k < length (pc_Interfaces (pd_Configs (pr_Dev p) ! c))))"

section \<open>Places in the tree\<close>

lemma index_Some [simp]: "index xs i = Some x \<longleftrightarrow> i < length xs \<and> x = xs ! i"
  by (auto simp: index_def)

text \<open>Putting a setting where one is.\<close>

definition put_setting :: "psdDevice \<Rightarrow> nat \<Rightarrow> setting_ptr \<Rightarrow> psdSetting \<Rightarrow> psdDevice" where
  "put_setting pd c q s = (let pc = pd_Configs pd ! c; pif = pc_Interfaces pc ! fst q in
     pd\<lparr>pd_Configs := (pd_Configs pd)[c := pc\<lparr>pc_Interfaces := (pc_Interfaces pc)[fst q :=
       (case snd q of None \<Rightarrow> pif\<lparr>pif_Main := s\<rparr> | Some k \<Rightarrow> pif\<lparr>pif_AlterIfs := (pif_AlterIfs pif)[k := s]\<rparr>)]\<rparr>]\<rparr>)"

lemma setting_cases:
  assumes "setting_of pd c q = Some s"
  obtains (main) i where "q = (i, None)" "c < length (pd_Configs pd)" "i < length (pc_Interfaces (pd_Configs pd ! c))"
      "s = pif_Main (pc_Interfaces (pd_Configs pd ! c) ! i)"
  | (alt) i k where "q = (i, Some k)" "c < length (pd_Configs pd)" "i < length (pc_Interfaces (pd_Configs pd ! c))"
      "k < length (pif_AlterIfs (pc_Interfaces (pd_Configs pd ! c) ! i))" "s = pif_AlterIfs (pc_Interfaces (pd_Configs pd ! c) ! i) ! k"
  using assms by (cases q; cases "snd q") (auto simp: setting_of_def index_def split: bind_splits if_splits)

lemma at_eps_put:
  assumes "setting_of pd c q = Some s"
  shows "at_eps c q f pd = map_option (\<lambda>eps. put_setting pd c q (s\<lparr>pif_EPs := eps\<rparr>)) (f (pif_EPs s))"
  using assms by (cases rule: setting_cases; cases "f (pif_EPs s)")
    (simp_all add: at_eps_def at_config_def at_setting_def at_index_def put_setting_def Let_def)

lemma setting_of_put:
  assumes "setting_of pd c q = Some s"
  shows "setting_of (put_setting pd c q t) c' q' = (if c' = c \<and> q' = q then Some t else setting_of pd c' q')"
  using assms
proof (cases rule: setting_cases)
  case (main i)
  then show ?thesis by (cases q'; cases "c' = c"; cases "fst q' = i"; cases "snd q'")
    (simp_all add: setting_of_def put_setting_def Let_def index_def)
next
  case (alt i k)
  then show ?thesis by (cases q'; cases "c' = c"; cases "fst q' = i"; cases "snd q'")
    (simp_all add: setting_of_def put_setting_def Let_def index_def nth_list_update)
qed

lemma put_setting_simps [simp]: "pd_Flags (put_setting pd c q s) = pd_Flags pd"
  "pd_Descriptors (put_setting pd c q s) = pd_Descriptors pd" "length (pd_Configs (put_setting pd c q s)) = length (pd_Configs pd)"
  "pd_NumCfgs (put_setting pd c q s) = pd_NumCfgs pd"
  by (simp_all add: put_setting_def Let_def)

lemma put_setting_ifs: "c < length (pd_Configs pd) \<Longrightarrow>
   length (pc_Interfaces (pd_Configs (put_setting pd c q s) ! c')) = length (pc_Interfaces (pd_Configs pd ! c'))"
  by (cases "c = c'") (auto simp: put_setting_def Let_def)

lemma setting_of_simps [simp]:
  "setting_of (pd\<lparr>pd_Flags := fl\<rparr>) c q = setting_of pd c q" "setting_of (pd\<lparr>pd_Descriptors := ds\<rparr>) c q = setting_of pd c q"
  by (simp_all add: setting_of_def)

lemma setting_of_config: "setting_of pd c q \<noteq> None \<Longrightarrow> c < length (pd_Configs pd)"
  by (auto simp: setting_of_def split: bind_splits)

lemma setting_of_append:
  assumes "pc_Interfaces pc = []"
  shows "setting_of (pd\<lparr>pd_Flags := fl, pd_Configs := pd_Configs pd @ [pc]\<rparr>) c q = setting_of pd c q"
  using assms by (auto simp: setting_of_def index_def nth_append split: bind_splits)

lemma setting_of_add:
  assumes "add_setting s pif pc = Some (pc', k, q)" and "c < length (pd_Configs pd)" and "pc = pd_Configs pd ! c"
  shows "setting_of (pd\<lparr>pd_Configs := (pd_Configs pd)[c := pc']\<rparr>) c' q' =
      (if c' = c \<and> q' = q then Some s else setting_of pd c' q') \<and> setting_of pd c q = None \<and>
    k < length (pc_Interfaces pc') \<and> (snd q \<noteq> None \<longrightarrow> pif_Alternate s \<noteq> 0) \<and> length (pc_Interfaces pc) \<le> length (pc_Interfaces pc')"
proof (cases "if pif_Alternate s \<noteq> 0 then pif else None")
  case None
  then have a: "pc' = pc\<lparr>pc_Interfaces := pc_Interfaces pc @ [\<lparr>pif_Main = s, pif_AlterIfs = []\<rparr>]\<rparr>"
    "k = length (pc_Interfaces pc)" "q = (k, None)" using assms(1) by (auto simp: add_setting_def Let_def)
  show ?thesis using a assms(2,3) by (cases q'; cases "c' = c"; cases "fst q' < k"; cases "fst q' = k"; cases "snd q'")
    (simp_all add: setting_of_def index_def nth_append)
next
  case (Some j)
  then have a: "j < length (pc_Interfaces pc)" "k = j" "q = (j, Some (length (pif_AlterIfs (pc_Interfaces pc ! j))))"
    "pc' = pc\<lparr>pc_Interfaces := (pc_Interfaces pc)[j := (pc_Interfaces pc ! j)\<lparr>pif_AlterIfs := pif_AlterIfs (pc_Interfaces pc ! j) @ [s]\<rparr>]\<rparr>"
    using assms(1) by (auto simp: add_setting_def split: bind_splits)
  have "pif_Alternate s \<noteq> 0" using Some by (simp split: if_splits)
  then show ?thesis using a assms(2,3) by (cases q'; cases "c' = c"; cases "fst q' = j"; cases "snd q'")
    (simp_all add: setting_of_def index_def nth_append)
qed

section \<open>Endpoints\<close>

lemma unat_ucast16: "unat (ucast w :: u16) = unat w" for w :: u8
proof -
  have "unat w < 2 ^ 16" using unat_u8_less [of w] by simp
  then show ?thesis by (simp add: unsigned_ucast_eq take_bit_nat_eq_self)
qed

lemma ucast16_eq: "(ucast w :: u16) = ucast v \<longleftrightarrow> w = v" "(ucast w :: u16) = 0 \<longleftrightarrow> w = 0" for w v :: u8
  by (metis unat_ucast16 word_unat_eq_iff) (metis unat_ucast16 unat_eq_0)

lemma unat_ucast_less: "unat (ucast w :: u16) < 256" for w :: u8
  using unat_u8_less [of w] by (simp add: unat_ucast16)

lemma word_and_less: "w AND m < Suc_m" if "m < Suc_m" for w m Suc_m :: u16
  using word_and_le1 [of w m] that by (metis order.strict_trans1)

lemma clamp_pow: "pow_interval (clamp_interval n) = Some i \<Longrightarrow> is_pow i" "pow_interval (clamp_interval n) \<noteq> None"
proof -
  have c: "clamp_interval n \<noteq> 0" "clamp_interval n \<le> 16" by (auto simp: clamp_interval_def not_less)
  then have "unat (clamp_interval n) \<le> 16" by (simp add: word_le_nat_alt)
  moreover have "0 < unat (clamp_interval n)" using c(1) by (simp add: unat_gt_0)
  ultimately show "pow_interval (clamp_interval n) = Some i \<Longrightarrow> is_pow i"
    unfolding pow_interval_def is_pow_def by (auto intro!: exI [of _ "unat (clamp_interval n) - 1"] split: if_splits)
  show "pow_interval (clamp_interval n) \<noteq> None" using c by (auto simp: pow_interval_def word_less_nat_alt word_le_nat_alt)
qed

text \<open>What no branch of the speed switch touches.\<close>

definition base_typed :: "psdEndpoint \<Rightarrow> bool" where
  "base_typed ep \<longleftrightarrow> pep_EPNum ep < 16 \<and> pep_Direction ep < 2 \<and> pep_TransType ep < 4 \<and> pep_MaxPktSize ep < 2048 \<and>
     1 \<le> pep_NumTransMuFr ep \<and> pep_NumTransMuFr ep \<le> 4 \<and> 1 \<le> pep_MaxBurst ep \<and> pep_MaxBurst ep \<le> 256 \<and>
     pep_IntervalRaw ep < 256"

lemma two_bits: "1 \<le> (w AND 3) + 1 \<and> (w AND 3) + 1 \<le> 4" for w :: u16
proof -
  have "w AND 3 \<le> 3" by (rule word_and_le1)
  then have "unat (w AND 3) \<le> 3" by (simp add: word_le_nat_alt)
  then show ?thesis by (simp add: word_le_nat_alt unat_word_ariths)
qed

lemma raw_typed: "base_typed (raw_endpoint addr attr mps iv)"
proof -
  have "drop_bit 7 (ucast addr :: u16) < 2"
    unfolding word_less_nat_alt unat_drop_bit_eq drop_bit_nat_def using unat_ucast_less [of addr] by (simp add: less_mult_imp_div_less)
  moreover have "(ucast iv :: u16) < 256" using unat_ucast_less [of iv] by (simp add: word_less_nat_alt)
  ultimately show ?thesis using two_bits [of "drop_bit 11 mps"]
    by (simp add: base_typed_def raw_endpoint_def Let_def word_and_less)
qed

lemma fix_typed:
  assumes "base_typed ep" and "fix_endpoint fl ep = Some e"
  shows "ep_typed fl e \<and> base_typed e"
proof -
  have cap: "base_typed (cap_packet n ep)" "pep_MaxPktSize (cap_packet n ep) \<le> n" "pep_TransType (cap_packet n ep) = pep_TransType ep"
    if "n < 2048" for n using assms(1) that by (auto simp: base_typed_def cap_packet_def not_less)
  have per: "base_typed e \<and> pep_MaxPktSize e = pep_MaxPktSize x \<and> pep_TransType e = pep_TransType x \<and> pow_interval (f (pep_Interval x)) = Some (pep_Interval e)"
    if "set_periodic f x = Some e" "base_typed x" for f x
    using that by (auto simp: set_periodic_def base_typed_def split: bind_splits)
  have iso: "base_typed e \<and> pep_MaxPktSize e \<le> n \<and> is_pow (pep_Interval e) \<and> pep_TransType e = pep_TransType ep"
    if "set_periodic clamp_interval (cap_packet n ep) = Some e" "n < 2048" for n
    using per [OF that(1)] cap [OF that(2)] by (auto intro: clamp_pow(1))
  have int: "base_typed e \<and> is_pow (pep_Interval e) \<and> pep_TransType e = pep_TransType ep" if "set_periodic clamp_interval ep = Some e"
    using per [OF that assms(1)] by (auto intro: clamp_pow(1))
  have ssint: "base_typed e \<and> pep_TransType e = pep_TransType ep" if "set_periodic nonzero_interval ep = Some e"
    using per [OF that assms(1)] by simp
  have one: "1 \<le> nonzero_interval w" for w by (simp add: nonzero_interval_def word_le_nat_alt unat_gt_0 Suc_le_eq)
  have b: "base_typed e"
    using assms iso [of 1024] iso [of 1023] int ssint unfolding fix_endpoint_def Let_def
    by (auto split: if_splits simp: base_typed_def)
  have "ep_typed fl e \<longleftrightarrow> (if fl AND PDFF_SUPERSPEED \<noteq> 0 then pep_TransType e = USEAF_ISOCHRONOUS \<longrightarrow> pep_MaxPktSize e \<le> 1024 \<and> is_pow (pep_Interval e)
      else if fl AND PDFF_HIGHSPEED \<noteq> 0 then
        (pep_TransType e = USEAF_ISOCHRONOUS \<longrightarrow> pep_MaxPktSize e \<le> 1024 \<and> is_pow (pep_Interval e)) \<and>
        (pep_TransType e = USEAF_INTERRUPT \<longrightarrow> is_pow (pep_Interval e))
      else if fl AND PDFF_LOWSPEED \<noteq> 0 then pep_TransType e = USEAF_INTERRUPT \<longrightarrow> 8 \<le> pep_Interval e
      else (pep_TransType e = USEAF_ISOCHRONOUS \<longrightarrow> pep_MaxPktSize e \<le> 1023 \<and> is_pow (pep_Interval e)) \<and>
        (pep_TransType e = USEAF_INTERRUPT \<longrightarrow> 1 \<le> pep_Interval e))"
    using b by (simp add: ep_typed_def base_typed_def)
  moreover have \<dots>
  proof (cases "fl AND PDFF_SUPERSPEED \<noteq> 0")
    case True
    then show ?thesis using assms(2) iso [of 1024] ssint by (auto simp: fix_endpoint_def Let_def split: if_splits)
  next
    case ss: False
    show ?thesis
    proof (cases "fl AND PDFF_HIGHSPEED \<noteq> 0")
      case True
      then show ?thesis using assms(2) ss iso [of 1024] int by (auto simp: fix_endpoint_def Let_def split: if_splits)
    next
      case hs: False
      show ?thesis
        by (cases "fl AND PDFF_LOWSPEED \<noteq> 0")
          (use assms(2) ss hs iso [of 1023] one in \<open>auto simp: fix_endpoint_def Let_def split: if_splits\<close>)
    qed
  qed
  ultimately show ?thesis using b by simp
qed

text \<open>The interval of a SuperSpeed interrupt endpoint is only kept from being zero, not from being too high
  as at high speed: above 16 it becomes zero, above 32 it is shifted out of range.\<close>

lemma superspeed_interrupt_interval:
  assumes "fl AND PDFF_SUPERSPEED \<noteq> 0" and "pep_TransType ep = USEAF_INTERRUPT" and "16 < pep_Interval ep"
  shows "fix_endpoint fl ep = (if pep_Interval ep \<le> 32 then Some (ep\<lparr>pep_Interval := 0\<rparr>) else None)"
proof -
  have n: "nonzero_interval (pep_Interval ep) = pep_Interval ep" "pep_Interval ep \<noteq> 0" using assms(3) by (auto simp: nonzero_interval_def)
  have "push_bit (unat (pep_Interval ep) - 1) (1 :: u16) = 0" using assms(3)
    by (intro bit_word_eqI) (auto simp: word_less_nat_alt bit_simps)
  then show ?thesis using assms(1,2) n by (auto simp: fix_endpoint_def Let_def set_periodic_def pow_interval_def dest: leD)
qed

lemma comp_typed:
  assumes "ep_typed fl ep"
  shows "ep_typed fl (comp_endpoint fl burst attr bytes ep)"
proof -
  have b: "unat (ucast burst :: u16) < 256" by (rule unat_ucast_less)
  then have "1 \<le> (ucast burst :: u16) + 1" "(ucast burst :: u16) + 1 \<le> 256" by (simp_all add: word_le_nat_alt unat_word_ariths)
  then show ?thesis using assms two_bits [of "ucast attr"] by (auto simp: ep_typed_def comp_endpoint_def Let_def)
qed

section \<open>Growing devices\<close>

definition grows_to :: "psdDevice \<Rightarrow> psdDevice \<Rightarrow> bool" where
  "grows_to pd pd' \<longleftrightarrow> length (pd_Configs pd) \<le> length (pd_Configs pd') \<and>
     (\<forall>c q s. setting_of pd c q = Some s \<longrightarrow> (\<exists>t. setting_of pd' c q = Some t \<and> length (pif_EPs s) \<le> length (pif_EPs t)))"

lemma ptrs_ok_grows:
  assumes g: "grows_to pd pd'" and p: "ptrs_ok pd pc pif pep"
  shows "ptrs_ok pd' pc pif pep"
proof -
  have "\<exists>c t. pc = Some c \<and> setting_of pd' c q = Some t \<and> (\<forall>e. pep = Some e \<longrightarrow> e < length (pif_EPs t))" if q: "pif = Some q" for q
  proof -
    obtain c s where s: "pc = Some c" "setting_of pd c q = Some s" "\<forall>e. pep = Some e \<longrightarrow> e < length (pif_EPs s)"
      using p q by (auto simp: ptrs_ok_def)
    then obtain t where "setting_of pd' c q = Some t" "length (pif_EPs s) \<le> length (pif_EPs t)"
      using g unfolding grows_to_def by blast
    then show ?thesis using s by auto
  qed
  then show ?thesis using g p by (auto simp: ptrs_ok_def grows_to_def)
qed

lemma dev_typedI:
  assumes "dev_typed pd" and "grows_to pd pd'" and "pd_Descriptors pd' = pd_Descriptors pd"
    and "\<And>c q s. setting_of pd' c q = Some s \<Longrightarrow>
      (\<forall>ep \<in> set (pif_EPs s). ep_typed (pd_Flags pd') ep) \<and> (snd q \<noteq> None \<longrightarrow> pif_Alternate s \<noteq> 0)"
  shows "dev_typed pd'"
  using assms ptrs_ok_grows by (simp add: dev_typed_def)

lemma put_grows:
  assumes "setting_of pd c q = Some s" and "length (pif_EPs s) \<le> length (pif_EPs t)"
  shows "grows_to pd (put_setting pd c q t)"
  using assms by (auto simp: grows_to_def setting_of_put [OF assms(1)])

text \<open>A device stays well typed when a setting is replaced by a well typed one.\<close>

lemma put_typed:
  assumes "dev_typed pd" and "setting_of pd c q = Some s"
    and "\<forall>ep \<in> set eps. ep_typed (pd_Flags pd) ep" and "length (pif_EPs s) \<le> length eps"
  shows "dev_typed (put_setting pd c q (s\<lparr>pif_EPs := eps\<rparr>))"
proof -
  have "grows_to pd (put_setting pd c q (s\<lparr>pif_EPs := eps\<rparr>))" using put_grows [OF assms(2)] assms(4) by simp
  then show ?thesis using assms(2,3) assms(1) [unfolded dev_typed_def]
    by (intro dev_typedI [OF assms(1)]) (auto simp: setting_of_put [OF assms(2)] split: if_splits)
qed

lemma parser_okD:
  assumes "parser_ok p" and "pr_altif p = Some q"
  obtains c s where "pr_pc p = Some c" "setting_of (pr_Dev p) c q = Some s"
    "\<And>e. pr_pep p = Some e \<Longrightarrow> e < length (pif_EPs s)" "c < length (pd_Configs (pr_Dev p))"
  using assms by (auto simp: parser_ok_def ptrs_ok_def dest: setting_of_config)

lemma flags_configured: "(fl OR PDFF_CONFIGURED) AND m = fl AND m" if "PDFF_CONFIGURED AND m = 0" for fl m :: u16
  using that by (simp add: bit.conj_disj_distrib2)

lemma ep_typed_configured [simp]: "ep_typed (fl OR PDFF_CONFIGURED) ep = ep_typed fl ep"
  by (simp add: ep_typed_def flags_configured)

lemma parser_ok_mem [simp]: "parser_ok (p\<lparr>pr_Mem := m\<rparr>) = parser_ok p"
  by (simp add: parser_ok_def)

section \<open>Every descriptor keeps the types\<close>

lemma config_typed:
  assumes "parser_ok p" and "config_desc b i p = Some p'"
  shows "parser_ok p'"
proof (cases "psdAllocVec (pr_Mem p)")
  case (Pair got m)
  show ?thesis
  proof (cases got)
    case False
    then show ?thesis using assms Pair by (auto simp: config_desc_def parser_ok_def ptrs_ok_def)
  next
    case True
    let ?pd = "pr_Dev p"
    obtain pc where p': "p' = p\<lparr>pr_pif := None, pr_altif := None, pr_pep := None, pr_Mem := m,
        pr_Dev := ?pd\<lparr>pd_Flags := pd_Flags ?pd OR PDFF_CONFIGURED, pd_Configs := pd_Configs ?pd @ [pc]\<rparr>,
        pr_pc := Some (length (pd_Configs ?pd))\<rparr>" "pc_Interfaces pc = []"
      using assms(2) Pair True by (auto simp: config_desc_def Let_def split: bind_splits)
    have st: "setting_of (pr_Dev p') c q = setting_of ?pd c q" for c q using setting_of_append [OF p'(2)] p'(1) by simp
    then have "grows_to ?pd (pr_Dev p')" using p'(1) by (auto simp: grows_to_def)
    moreover have d: "dev_typed ?pd" using assms(1) by (simp add: parser_ok_def)
    ultimately have "dev_typed (pr_Dev p')" using d [unfolded dev_typed_def] st
      by (intro dev_typedI [OF d]) (auto simp: p'(1))
    then show ?thesis using p' by (auto simp: parser_ok_def ptrs_ok_def)
  qed
qed

lemma interface_typed:
  assumes "parser_ok p" and "interface_desc hex b i p = Some p'"
  shows "parser_ok p'"
proof (cases "pr_pc p")
  case None
  then have n: "pr_altif p = None" "pr_pif p = None" using assms(1) by (auto simp: parser_ok_def ptrs_ok_def)
  then show ?thesis using assms None by (auto simp: interface_desc_def parser_ok_def ptrs_ok_def)
next
  case (Some c)
  let ?pd = "pr_Dev p"
  have c: "c < length (pd_Configs ?pd)" using assms(1) Some by (auto simp: parser_ok_def ptrs_ok_def)
  obtain got m where m: "psdAllocVec (pr_Mem p) = (got, m)" by (cases "psdAllocVec (pr_Mem p)")
  show ?thesis
  proof (cases got)
    case False
    then show ?thesis using assms Some m by (auto simp: interface_desc_def parser_ok_def ptrs_ok_def)
  next
    case True
    obtain s pc k q m' where a: "add_setting s (pr_pif p) (pd_Configs ?pd ! c) = Some (pc, k, q)" "pif_EPs s = []"
      and p': "p' = p\<lparr>pr_pep := None, pr_Dev := ?pd\<lparr>pd_Configs := (pd_Configs ?pd)[c := pc]\<rparr>, pr_Mem := m', pr_pif := Some k, pr_altif := Some q\<rparr>"
      using assms(2) Some m True by (auto simp: interface_desc_def Let_def split: bind_splits prod.splits)
    note st = setting_of_add [OF a(1) c refl]
    have f: "setting_of ?pd c q = None" "k < length (pc_Interfaces pc)" "snd q \<noteq> None \<longrightarrow> pif_Alternate s \<noteq> 0" using st by auto
    have s': "setting_of (pr_Dev p') c' q' = (if c' = c \<and> q' = q then Some s else setting_of ?pd c' q')" for c' q'
      using st by (simp add: p')
    have len: "length (pd_Configs (pr_Dev p')) = length (pd_Configs ?pd)" by (simp add: p')
    then have "grows_to ?pd (pr_Dev p')" using f(1) by (auto simp: grows_to_def s')
    moreover have fl: "pd_Flags (pr_Dev p') = pd_Flags ?pd" "pd_Descriptors (pr_Dev p') = pd_Descriptors ?pd" by (simp_all add: p')
    moreover have d: "dev_typed ?pd" using assms(1) by (simp add: parser_ok_def)
    ultimately have "dev_typed (pr_Dev p')" using d [unfolded dev_typed_def] f(3) a(2)
      by (intro dev_typedI [OF d]) (auto simp: s' fl split: if_splits)
    then show ?thesis using Some c f(2) s' by (auto simp: parser_ok_def ptrs_ok_def p')
  qed
qed

lemma endpoint_typed:
  assumes "parser_ok p" and "endpoint_desc b i p = Some p'"
  shows "parser_ok p'"
proof (cases "pr_altif p")
  case None
  then show ?thesis using assms by (simp add: endpoint_desc_def)
next
  case (Some q)
  let ?pd = "pr_Dev p"
  obtain c s where s: "pr_pc p = Some c" "setting_of ?pd c q = Some s" "c < length (pd_Configs ?pd)"
    using parser_okD [OF assms(1) Some] by metis
  obtain got m where m: "psdAllocVec (pr_Mem p) = (got, m)" by (cases "psdAllocVec (pr_Mem p)")
  show ?thesis
  proof (cases got)
    case False
    then show ?thesis using assms Some m by (auto simp: endpoint_desc_def parser_ok_def ptrs_ok_def)
  next
    case True
    obtain e addr attr mps iv where e: "fix_endpoint (pd_Flags ?pd) (raw_endpoint addr attr mps iv) = Some e"
      and p': "p' = p\<lparr>pr_Mem := m, pr_Dev := put_setting ?pd c q (s\<lparr>pif_EPs := pif_EPs s @ [e]\<rparr>), pr_pep := Some (length (pif_EPs s))\<rparr>"
      using assms(2) Some m True s by (auto simp: endpoint_desc_def at_eps_put split: bind_splits)
    have et: "ep_typed (pd_Flags ?pd) e" using fix_typed [OF raw_typed e] by simp
    have old: "\<forall>ep \<in> set (pif_EPs s). ep_typed (pd_Flags ?pd) ep" using assms(1) s(2) by (auto simp: parser_ok_def dev_typed_def)
    have "dev_typed (pr_Dev p')" using put_typed [of ?pd c q s "pif_EPs s @ [e]"] assms(1) s(2) et old by (auto simp: p' parser_ok_def)
    moreover have "pr_pif p = Some k \<Longrightarrow> pr_pc p = Some c \<Longrightarrow> k < length (pc_Interfaces (pd_Configs (pr_Dev p') ! c))" for k
      using assms(1) s(3) put_setting_ifs [of c ?pd q _ c] by (auto simp: parser_ok_def p')
    ultimately show ?thesis using s Some assms(1)
      by (auto simp: parser_ok_def ptrs_ok_def p' setting_of_put)
  qed
qed

lemma at_pep_typed:
  assumes "parser_ok p" and "at_pep f p = Some p'" and "\<forall>ep. ep_typed (pd_Flags (pr_Dev p)) ep \<longrightarrow> ep_typed (pd_Flags (pr_Dev p)) (f ep)"
  shows "parser_ok p'"
proof -
  let ?pd = "pr_Dev p"
  obtain e q where eq: "pr_pep p = Some e" "pr_altif p = Some q" using assms(2) by (auto simp: at_pep_def split: bind_splits)
  obtain c s where s: "pr_pc p = Some c" "setting_of ?pd c q = Some s" "e < length (pif_EPs s)" "c < length (pd_Configs ?pd)"
    using parser_okD [OF assms(1) eq(2)] eq(1) by metis
  let ?eps = "(pif_EPs s)[e := f (pif_EPs s ! e)]"
  have p': "p' = p\<lparr>pr_Dev := put_setting ?pd c q (s\<lparr>pif_EPs := ?eps\<rparr>)\<rparr>"
    using assms(2) eq s by (auto simp: at_pep_def at_eps_put at_index_def split: bind_splits)
  have old: "\<forall>ep \<in> set (pif_EPs s). ep_typed (pd_Flags ?pd) ep" using assms(1) s(2) by (auto simp: parser_ok_def dev_typed_def)
  then have "\<forall>ep \<in> set ?eps. ep_typed (pd_Flags ?pd) ep" using assms(3) s(3) set_update_subset_insert by fastforce
  then have "dev_typed (pr_Dev p')" using put_typed [of ?pd c q s ?eps] assms(1) s(2) by (auto simp: p' parser_ok_def)
  moreover have "pr_pif p = Some k \<Longrightarrow> pr_pc p = Some c \<Longrightarrow> k < length (pc_Interfaces (pd_Configs (pr_Dev p') ! c))" for k
    using assms(1) s(4) put_setting_ifs [of c ?pd q _ c] by (auto simp: parser_ok_def p')
  ultimately show ?thesis using s eq assms(1)
    by (auto simp: parser_ok_def ptrs_ok_def p' setting_of_put)
qed

lemma keep_typed:
  assumes "parser_ok p" and "keep_desc b i len ty p = Some p'"
  shows "parser_ok p'"
proof (cases "psdAllocVec (pr_Mem p)")
  case (Pair got m)
  have l: "rd_slice b i (unat len) = Some d \<Longrightarrow> length d = unat len" for d by (auto simp: rd_slice_def split: if_splits)
  note u = unat_ucast16 [of len]
  show ?thesis
  proof (cases got)
    case False
    then show ?thesis using assms Pair by (auto simp: keep_desc_def)
  next
    case True
    obtain d where d: "p' = p\<lparr>pr_Mem := m, pr_Dev := (pr_Dev p)\<lparr>pd_Descriptors := pd_Descriptors (pr_Dev p) @ [d]\<rparr>\<rparr>"
      "length (pdd_Data d) = unat (pdd_Length d)" "pdd_Config d = pr_pc p" "pdd_Interface d = pr_altif p" "pdd_Endpoint d = pr_pep p"
      using assms(2) Pair True l u by (auto simp: keep_desc_def Let_def split: bind_splits if_splits)
    have "ptrs_ok (pr_Dev p') x y z = ptrs_ok (pr_Dev p) x y z" for x y z by (simp add: ptrs_ok_def d(1))
    then show ?thesis using assms(1) d by (auto simp: parser_ok_def dev_typed_def)
  qed
qed

lemma comps_typed:
  assumes "parser_ok p"
  shows "ep_comp_desc b i p = Some q \<Longrightarrow> parser_ok q" "iso_comp_desc b i p = Some q \<Longrightarrow> parser_ok q"
proof -
  have iso: "ep_typed fl ep \<longrightarrow> ep_typed fl (ep\<lparr>pep_BytesPerInterval := n\<rparr>)" for fl ep n by (simp add: ep_typed_def)
  show "ep_comp_desc b i p = Some q \<Longrightarrow> parser_ok q" "iso_comp_desc b i p = Some q \<Longrightarrow> parser_ok q"
    using at_pep_typed [OF assms] comp_typed iso assms
    by (auto simp: ep_comp_desc_def iso_comp_desc_def split: bind_splits if_splits)
qed

lemma one_desc_typed:
  assumes "parser_ok p" and "one_desc hex b i len p = Some p'"
  shows "parser_ok p'"
proof -
  obtain ty q where q: "keep_desc b i len ty q = Some p'" "config_desc b i p = Some q \<or> interface_desc hex b i p = Some q \<or>
      endpoint_desc b i p = Some q \<or> ep_comp_desc b i p = Some q \<or> iso_comp_desc b i p = Some q \<or> q = p"
    using assms(2) by (auto simp: one_desc_def split: bind_splits if_splits)
  then have "parser_ok q" using config_typed [OF assms(1)] interface_typed [OF assms(1)] endpoint_typed [OF assms(1)]
      comps_typed [OF assms(1)] assms(1) by metis
  then show ?thesis using keep_typed q(1) by blast
qed

lemma parse_descs_typed: "parse_descs hex b i p = Some p' \<Longrightarrow> parser_ok p \<Longrightarrow> parser_ok p'"
proof (induction hex b i p rule: parse_descs.induct)
  case (1 hex b i p)
  show ?case
  proof (cases "i < length b \<and> \<not> b ! i < 2")
    case True
    then obtain q where q: "one_desc hex b i (b ! i) p = Some q" "parse_descs hex b (i + unat (b ! i)) q = Some p'"
      using 1(2) by (auto simp: parse_descs_step split: bind_splits)
    then show ?thesis using 1(1) [of "b ! i" q] True one_desc_typed [OF 1(3) q(1)] by simp
  next
    case False
    then show ?thesis using 1(2,3) by (simp add: parse_descs_stop)
  qed
qed

end
