(* ===== verification/Dsc_Tree.thy ===== *)
theory Dsc_Tree
  imports Dsc_Types
begin

text \<open>
  A reference for the parser: a configuration as nested data, the descriptors a device sends for it,
  and the tree and the descriptor list that stand for it. Reading the descriptors builds them.
\<close>

section \<open>Configurations as nested data\<close>

text \<open>The descriptors that may follow an object without meaning for the tree are given as bytes.\<close>

record ep_spec =
  es_addr :: u8
  es_attr :: u8
  es_mps :: u16
  es_iv :: u8
  es_comp :: "(u8 \<times> u8 \<times> u16) option"
  es_more :: "bytes list"

record set_spec =
  ss_num :: u8
  ss_alt :: u8
  ss_neps :: u8
  ss_cls :: u8
  ss_sub :: u8
  ss_proto :: u8
  ss_str :: u8
  ss_more :: "bytes list"
  ss_eps :: "ep_spec list"

record cfg_spec =
  cs_num :: u8
  cs_str :: u8
  cs_attr :: u8
  cs_power :: u8
  cs_nifs :: u8
  cs_more :: "bytes list"
  cs_ifs :: "(set_spec \<times> set_spec list) list"

definition le_bytes :: "u16 \<Rightarrow> bytes" where
  "le_bytes w = enc_le16 (unat w)"

definition ep_descs :: "ep_spec \<Rightarrow> bytes list" where
  "ep_descs e = ([7, UDT_ENDPOINT, es_addr e, es_attr e] @ le_bytes (es_mps e) @ [es_iv e]) #
     (case es_comp e of None \<Rightarrow> [] | Some (b, a, n) \<Rightarrow> [[6, UDT_SUPERSPEED_EP_COMP, b, a] @ le_bytes n]) @ es_more e"

definition set_descs :: "set_spec \<Rightarrow> bytes list" where
  "set_descs s = [9, UDT_INTERFACE, ss_num s, ss_alt s, ss_neps s, ss_cls s, ss_sub s, ss_proto s, ss_str s] #
     ss_more s @ concat (map ep_descs (ss_eps s))"

definition iface_descs :: "set_spec \<times> set_spec list \<Rightarrow> bytes list" where
  "iface_descs f = set_descs (fst f) @ concat (map set_descs (snd f))"

definition cfg_tail :: "cfg_spec \<Rightarrow> bytes list" where
  "cfg_tail k = cs_more k @ concat (map iface_descs (cs_ifs k))"

definition cfg_size :: "cfg_spec \<Rightarrow> nat" where
  "cfg_size k = 9 + length (concat (cfg_tail k))"

definition cfg_head :: "cfg_spec \<Rightarrow> bytes" where
  "cfg_head k = [9, UDT_CONFIGURATION] @ enc_le16 (cfg_size k) @ [cs_nifs k, cs_num k, cs_str k, cs_attr k, cs_power k]"

definition cfg_image :: "cfg_spec \<Rightarrow> bytes" where
  "cfg_image k = concat (cfg_head k # cfg_tail k)"

section \<open>Trees\<close>

definition ep_tree :: "u16 \<Rightarrow> ep_spec \<Rightarrow> psdEndpoint" where
  "ep_tree fl e = (let ep = the (fix_endpoint fl (raw_endpoint (es_addr e) (es_attr e) (es_mps e) (es_iv e))) in
     case es_comp e of None \<Rightarrow> ep | Some (b, a, n) \<Rightarrow> comp_endpoint fl b a n ep)"

definition set_tree :: "(u16 \<Rightarrow> string) \<Rightarrow> u16 \<Rightarrow> u8 \<Rightarrow> set_spec \<Rightarrow> psdSetting" where
  "set_tree hex fl cfg s = \<lparr>pif_IfNum = ucast (ss_num s), pif_Alternate = ucast (ss_alt s), pif_NumEPs = ucast (ss_neps s),
     pif_IfClass = ucast (ss_cls s), pif_IfSubClass = ucast (ss_sub s), pif_IfProto = ucast (ss_proto s),
     pif_IDString = Some (id_string hex (ucast cfg) [ucast (ss_num s), ucast (ss_alt s), ucast (ss_cls s), ucast (ss_sub s), ucast (ss_proto s)]),
     pif_IfBinding = 0, pif_ClsBinding = 0, pif_EPs = map (ep_tree fl) (ss_eps s)\<rparr>"

definition if_tree :: "(u16 \<Rightarrow> string) \<Rightarrow> u16 \<Rightarrow> u8 \<Rightarrow> set_spec \<times> set_spec list \<Rightarrow> psdInterface" where
  "if_tree hex fl cfg f = \<lparr>pif_Main = set_tree hex fl cfg (fst f), pif_AlterIfs = map (set_tree hex fl cfg) (snd f)\<rparr>"

definition cfg_tree :: "(u16 \<Rightarrow> string) \<Rightarrow> u16 \<Rightarrow> cfg_spec \<Rightarrow> psdConfig" where
  "cfg_tree hex fl k = \<lparr>pc_CfgNum = ucast (cs_num k), pc_Attr = ucast (cs_attr k), pc_MaxPower = 2 * ucast (cs_power k),
     pc_NumIfs = ucast (cs_nifs k), pc_Interfaces = map (if_tree hex fl (cs_num k)) (cs_ifs k)\<rparr>"

text \<open>The list of descriptors: each with the objects it belongs to.\<close>

definition entry :: "nat \<Rightarrow> setting_ptr option \<Rightarrow> nat option \<Rightarrow> bytes \<Rightarrow> psdDescriptor" where
  "entry c q e d = \<lparr>pdd_Type = ucast (d ! 1), pdd_Length = ucast (d ! 0),
     pdd_CSSubType = (if UDT_CS_UNDEFINED \<le> d ! 1 \<and> d ! 1 \<le> UDT_CS_ENDPOINT then ucast (d ! 2) else 0),
     pdd_Data = d, pdd_Config = Some c, pdd_Interface = q, pdd_Endpoint = e\<rparr>"

fun eps_entries :: "nat \<Rightarrow> setting_ptr \<Rightarrow> nat \<Rightarrow> ep_spec list \<Rightarrow> psdDescriptor list" where
  "eps_entries c q k [] = []"
| "eps_entries c q k (e # es) = map (entry c (Some q) (Some k)) (ep_descs e) @ eps_entries c q (Suc k) es"

definition set_entries :: "nat \<Rightarrow> setting_ptr \<Rightarrow> set_spec \<Rightarrow> psdDescriptor list" where
  "set_entries c q s = map (entry c (Some q) None) (hd (set_descs s) # ss_more s) @ eps_entries c q 0 (ss_eps s)"

fun alts_entries :: "nat \<Rightarrow> nat \<Rightarrow> nat \<Rightarrow> set_spec list \<Rightarrow> psdDescriptor list" where
  "alts_entries c i k [] = []"
| "alts_entries c i k (s # ss) = set_entries c (i, Some k) s @ alts_entries c i (Suc k) ss"

fun ifs_entries :: "nat \<Rightarrow> nat \<Rightarrow> (set_spec \<times> set_spec list) list \<Rightarrow> psdDescriptor list" where
  "ifs_entries c i [] = []"
| "ifs_entries c i (f # fs) = set_entries c (i, None) (fst f) @ alts_entries c i 0 (snd f) @ ifs_entries c (Suc i) fs"

definition cfg_entries :: "nat \<Rightarrow> cfg_spec \<Rightarrow> psdDescriptor list" where
  "cfg_entries c k = map (entry c None None) (cfg_head k # cs_more k) @ ifs_entries c 0 (cs_ifs k)"

section \<open>Well formed specifications\<close>

definition other_desc :: "bytes \<Rightarrow> bool" where
  "other_desc d \<longleftrightarrow> desc_ok d \<and>
     d ! 1 \<notin> {UDT_CONFIGURATION, UDT_INTERFACE, UDT_ENDPOINT, UDT_SUPERSPEED_EP_COMP, UDT_SUPERSPEED_ISO_COMP}"

text \<open>A periodic endpoint of a SuperSpeed device has an interval of at most 32.\<close>

definition ep_spec_ok :: "u16 \<Rightarrow> ep_spec \<Rightarrow> bool" where
  "ep_spec_ok fl e \<longleftrightarrow> fix_endpoint fl (raw_endpoint (es_addr e) (es_attr e) (es_mps e) (es_iv e)) \<noteq> None \<and>
     (\<forall>d \<in> set (es_more e). other_desc d)"

definition set_spec_ok :: "u16 \<Rightarrow> set_spec \<Rightarrow> bool" where
  "set_spec_ok fl s \<longleftrightarrow> (\<forall>d \<in> set (ss_more s). other_desc d) \<and> (\<forall>e \<in> set (ss_eps s). ep_spec_ok fl e)"

definition cfg_spec_ok :: "u16 \<Rightarrow> cfg_spec \<Rightarrow> bool" where
  "cfg_spec_ok fl k \<longleftrightarrow> cfg_size k < 65536 \<and> (\<forall>d \<in> set (cs_more k). other_desc d) \<and>
     (\<forall>f \<in> set (cs_ifs k). set_spec_ok fl (fst f) \<and> ss_alt (fst f) = 0 \<and>
        (\<forall>s \<in> set (snd f). set_spec_ok fl s \<and> ss_alt s \<noteq> 0))"

section \<open>Reading single descriptors\<close>

lemma le_bytes_simps [simp]: "length (le_bytes w) = 2" "word_of_nat (le16 (le_bytes w ! 0) (le_bytes w ! Suc 0)) = w"
proof -
  have "unat w < 65536" using unsigned_less [of w] by simp
  then show "length (le_bytes w) = 2" "word_of_nat (le16 (le_bytes w ! 0) (le_bytes w ! Suc 0)) = w"
    using le16_enc [of "unat w"] by (simp_all add: le_bytes_def enc_le16_def)
qed

lemma keep_desc_entry:
  assumes "desc_ok d" and "pr_Mem p = []" and "pr_pc p = Some c" and "pr_altif p = None \<or> pr_pif p \<noteq> None"
  shows "keep_desc d 0 (d ! 0) (d ! 1) p = Some (p\<lparr>pr_Dev := (pr_Dev p)\<lparr>pd_Descriptors :=
    pd_Descriptors (pr_Dev p) @ [entry c (pr_altif p) (pr_pep p) d]\<rparr>\<rparr>)"
proof -
  have l: "unat (d ! 0) = length d" "2 \<le> length d" "min_len (d ! 1) \<le> length d" using assms(1) by (auto simp: desc_ok_def)
  have cs: "UDT_CS_UNDEFINED \<le> d ! 1 \<Longrightarrow> d ! 1 \<le> UDT_CS_ENDPOINT \<Longrightarrow> rd8 d (0 + 2) = Some (d ! 2)"
    using l(3) by (auto simp: min_len_def rd8_def numeral_2_eq_2 split: if_splits)
  have m: "p\<lparr>pr_Mem := []\<rparr> = p" using assms(2) by (cases p) simp
  show ?thesis using assms l cs by (auto simp: keep_desc_def psdAllocVec_def Let_def m rd_slice_def entry_def)
qed

lemma take_other_desc:
  assumes "other_desc d" and "pr_Mem p = []" and "pr_pc p = Some c" and "pr_altif p = None \<or> pr_pif p \<noteq> None"
  shows "take_desc hex p d = Some (p\<lparr>pr_Dev := (pr_Dev p)\<lparr>pd_Descriptors :=
    pd_Descriptors (pr_Dev p) @ [entry c (pr_altif p) (pr_pep p) d]\<rparr>\<rparr>)"
proof -
  have d: "desc_ok d" "1 < length d" using assms(1) by (auto simp: other_desc_def desc_ok_def)
  then show ?thesis using keep_desc_entry [OF d(1) assms(2-4)] assms(1)
    by (simp add: take_desc_def one_desc_def rd8_def other_desc_def)
qed

section \<open>A place for a setting\<close>

text \<open>A device around one setting, the one the parser is at: what holds of a main setting and of an
  alternate alike.\<close>

locale place =
  fixes K :: "psdSetting \<Rightarrow> psdDescriptor list \<Rightarrow> psdDevice" and c :: nat and q :: setting_ptr and fl :: u16
  assumes flags: "pd_Flags (K s ds) = fl"
    and descs: "pd_Descriptors (K s ds) = ds"
    and more: "(K s ds)\<lparr>pd_Descriptors := es\<rparr> = K s es"
    and here: "setting_of (K s ds) c q = Some s"
    and put: "put_setting (K s ds) c q t = K t ds"
begin

definition at :: "psdSetting \<Rightarrow> psdDescriptor list \<Rightarrow> nat \<Rightarrow> nat option \<Rightarrow> parser" where
  "at s ds i e = \<lparr>pr_Dev = K s ds, pr_Mem = [], pr_pc = Some c, pr_pif = Some i, pr_altif = Some q, pr_pep = e\<rparr>"

lemma at_simps [simp]: "pr_Dev (at s ds i e) = K s ds" "pr_Mem (at s ds i e) = []" "pr_pc (at s ds i e) = Some c"
  "pr_pif (at s ds i e) = Some i" "pr_altif (at s ds i e) = Some q" "pr_pep (at s ds i e) = e"
  "(at s ds i e)\<lparr>pr_Dev := K t es\<rparr> = at t es i e" "(at s ds i e)\<lparr>pr_Mem := []\<rparr> = at s ds i e"
  "(at s ds i e)\<lparr>pr_pep := f\<rparr> = at s ds i f"
  by (simp_all add: at_def)

lemmas laws = flags descs more here put at_eps_put [OF here]

lemma other: "other_desc d \<Longrightarrow> take_desc hex (at s ds i e) d = Some (at s (ds @ [entry c (Some q) e d]) i e)"
  by (simp add: take_other_desc [where c = c] laws)

lemma others: "\<forall>d \<in> set xs. other_desc d \<Longrightarrow>
   take_descs hex xs (at s ds i e) = Some (at s (ds @ map (entry c (Some q) e) xs) i e)"
  by (induction xs arbitrary: ds) (simp_all add: other)

lemma endpoint:
  assumes "fix_endpoint fl (raw_endpoint a b w iv) = Some ep"
  shows "take_desc hex (at s ds i e) ([7, UDT_ENDPOINT, a, b] @ le_bytes w @ [iv]) =
    Some (at (s\<lparr>pif_EPs := pif_EPs s @ [ep]\<rparr>) (ds @ [entry c (Some q) (Some (length (pif_EPs s))) ([7, UDT_ENDPOINT, a, b] @ le_bytes w @ [iv])]) i
      (Some (length (pif_EPs s))))"
proof -
  let ?d = "[7, UDT_ENDPOINT, a, b] @ le_bytes w @ [iv]"
  have r: "rd8 ?d 1 = Some UDT_ENDPOINT" "rd8 ?d (0 + 2) = Some a" "rd8 ?d (0 + 3) = Some b"
    "rd_le16 ?d (0 + 4) = Some (le16 (le_bytes w ! 0) (le_bytes w ! Suc 0))" "rd8 ?d (0 + 6) = Some iv"
    by (simp_all add: rd8_def rd_le16_def nth_append eval_nat_numeral)
  have ok: "desc_ok ?d" by (simp add: desc_ok_def min_len_def)
  have "endpoint_desc ?d 0 (at s ds i e) = Some (at (s\<lparr>pif_EPs := pif_EPs s @ [ep]\<rparr>) ds i (Some (length (pif_EPs s))))"
    unfolding endpoint_desc_def r by (simp add: psdAllocVec_def laws assms)
  moreover have "rd8 ?d (0 + 1) = Some UDT_ENDPOINT" using r(1) by simp
  ultimately have "take_desc hex (at s ds i e) ?d =
      keep_desc ?d 0 (?d ! 0) (?d ! 1) (at (s\<lparr>pif_EPs := pif_EPs s @ [ep]\<rparr>) ds i (Some (length (pif_EPs s))))"
    unfolding take_desc_def one_desc_def by simp
  then show ?thesis using keep_desc_entry [OF ok, of "at (s\<lparr>pif_EPs := pif_EPs s @ [ep]\<rparr>) ds i (Some (length (pif_EPs s)))" c]
    by (simp add: laws)
qed

lemma companion:
  assumes "pif_EPs s = eps @ [ep]"
  shows "take_desc hex (at s ds i (Some (length eps))) ([6, UDT_SUPERSPEED_EP_COMP, b, a] @ le_bytes n) =
    Some (at (s\<lparr>pif_EPs := eps @ [comp_endpoint fl b a n ep]\<rparr>)
      (ds @ [entry c (Some q) (Some (length eps)) ([6, UDT_SUPERSPEED_EP_COMP, b, a] @ le_bytes n)]) i (Some (length eps)))"
proof -
  let ?d = "[6, UDT_SUPERSPEED_EP_COMP, b, a] @ le_bytes n"
  let ?s = "s\<lparr>pif_EPs := eps @ [comp_endpoint fl b a n ep]\<rparr>"
  have r: "rd8 ?d (0 + 2) = Some b" "rd8 ?d (0 + 3) = Some a"
    "rd_le16 ?d (0 + 4) = Some (le16 (le_bytes n ! 0) (le_bytes n ! Suc 0))"
    by (simp_all add: rd8_def rd_le16_def nth_append eval_nat_numeral)
  have ok: "desc_ok ?d" by (simp add: desc_ok_def min_len_def)
  have "ep_comp_desc ?d 0 (at s ds i (Some (length eps))) = Some (at ?s ds i (Some (length eps)))"
    unfolding ep_comp_desc_def r by (simp add: at_pep_def laws at_index_def assms)
  moreover have "rd8 ?d (0 + 1) = Some UDT_SUPERSPEED_EP_COMP" by (simp add: rd8_def)
  ultimately have "take_desc hex (at s ds i (Some (length eps))) ?d = keep_desc ?d 0 (?d ! 0) (?d ! 1) (at ?s ds i (Some (length eps)))"
    unfolding take_desc_def one_desc_def by simp
  then show ?thesis using keep_desc_entry [OF ok, of "at ?s ds i (Some (length eps))" c] by (simp add: laws)
qed

lemma ep_read:
  assumes "ep_spec_ok fl x"
  shows "take_descs hex (ep_descs x) (at s ds i e) =
    Some (at (s\<lparr>pif_EPs := pif_EPs s @ [ep_tree fl x]\<rparr>) (ds @ map (entry c (Some q) (Some (length (pif_EPs s)))) (ep_descs x)) i
      (Some (length (pif_EPs s))))"
proof -
  obtain ep where ep: "fix_endpoint fl (raw_endpoint (es_addr x) (es_attr x) (es_mps x) (es_iv x)) = Some ep"
    using assms by (auto simp: ep_spec_ok_def)
  have m: "\<forall>d \<in> set (es_more x). other_desc d" using assms by (simp add: ep_spec_ok_def)
  show ?thesis
  proof (cases "es_comp x")
    case None
    then show ?thesis using endpoint [OF ep] others [OF m] ep by (simp add: ep_descs_def ep_tree_def)
  next
    case (Some y)
    obtain b a n where y: "y = (b, a, n)" by (cases y) auto
    show ?thesis using endpoint [OF ep] others [OF m] ep Some y companion [of _ "pif_EPs s" ep]
      by (simp add: ep_descs_def ep_tree_def)
  qed
qed

lemma eps_read:
  "\<forall>x \<in> set xs. ep_spec_ok fl x \<Longrightarrow> \<exists>e'. take_descs hex (concat (map ep_descs xs)) (at s ds i e) =
    Some (at (s\<lparr>pif_EPs := pif_EPs s @ map (ep_tree fl) xs\<rparr>) (ds @ eps_entries c q (length (pif_EPs s)) xs) i e')"
proof (induction xs arbitrary: s ds e)
  case Nil
  have "s\<lparr>pif_EPs := pif_EPs s\<rparr> = s" by simp
  then show ?case by auto
next
  case (Cons x xs)
  then show ?case
    using Cons.IH [of "s\<lparr>pif_EPs := pif_EPs s @ [ep_tree fl x]\<rparr>" "ds @ map (entry c (Some q) (Some (length (pif_EPs s)))) (ep_descs x)" "Some (length (pif_EPs s))"]
    by (simp add: take_descs_append ep_read)
qed

text \<open>What follows the descriptor of a setting.\<close>

lemma set_read:
  assumes "set_spec_ok fl x" and "pif_EPs s = []"
  shows "\<exists>e'. take_descs hex (ss_more x @ concat (map ep_descs (ss_eps x))) (at s (ds @ [entry c (Some q) None (hd (set_descs x))]) i None) =
    Some (at (s\<lparr>pif_EPs := map (ep_tree fl) (ss_eps x)\<rparr>) (ds @ set_entries c q x) i e')"
proof -
  have m: "\<forall>d \<in> set (ss_more x). other_desc d" "\<forall>y \<in> set (ss_eps x). ep_spec_ok fl y" using assms(1) by (auto simp: set_spec_ok_def)
  show ?thesis using eps_read [OF m(2), of hex s "ds @ entry c (Some q) None (hd (set_descs x)) # map (entry c (Some q) None) (ss_more x)"]
      assms(2) by (simp add: take_descs_append others [OF m(1)] set_entries_def)
qed

end

section \<open>The places of the parser\<close>

definition around :: "u16 \<Rightarrow> u16 \<Rightarrow> psdConfig list \<Rightarrow> psdConfig \<Rightarrow> psdInterface list \<Rightarrow> psdDescriptor list \<Rightarrow> psdDevice" where
  "around fl n ks k ifs ds = \<lparr>pd_Flags = fl, pd_NumCfgs = n, pd_Configs = ks @ [k\<lparr>pc_Interfaces := ifs\<rparr>], pd_Descriptors = ds\<rparr>"

interpretation main: place "\<lambda>s ds. around fl n ks k (ifs @ [\<lparr>pif_Main = s, pif_AlterIfs = []\<rparr>]) ds" "length ks" "(length ifs, None)" fl
  for fl n ks k ifs
  by unfold_locales (simp_all add: around_def setting_of_def index_def put_setting_def Let_def)

interpretation alter: place "\<lambda>s ds. around fl n ks k (ifs @ [\<lparr>pif_Main = m, pif_AlterIfs = as @ [s]\<rparr>]) ds" "length ks"
    "(length ifs, Some (length as))" fl
  for fl n ks k ifs m as
  by unfold_locales (simp_all add: around_def setting_of_def index_def put_setting_def Let_def)

lemma interface_desc_read:
  assumes "pr_pc p = Some (length ks)" and "pr_Mem p = []" and "pr_Dev p = around fl n ks k ifs ds" and "pc_CfgNum k = ucast cfg"
    and "add_setting (set_tree hex fl cfg (x\<lparr>ss_eps := []\<rparr>)) (pr_pif p) (k\<lparr>pc_Interfaces := ifs\<rparr>) = Some (k\<lparr>pc_Interfaces := ifs'\<rparr>, i, q)"
  shows "take_desc hex p (hd (set_descs x)) = Some (p\<lparr>pr_Dev := around fl n ks k ifs' (ds @ [entry (length ks) (Some q) None (hd (set_descs x))]),
    pr_pif := Some i, pr_altif := Some q, pr_pep := None\<rparr>)"
proof -
  let ?d = "hd (set_descs x)"
  let ?p = "p\<lparr>pr_Dev := around fl n ks k ifs' ds, pr_pif := Some i, pr_altif := Some q, pr_pep := None\<rparr>"
  have r: "rd8 ?d (0 + 2) = Some (ss_num x)" "rd8 ?d (0 + 3) = Some (ss_alt x)" "rd8 ?d (0 + 4) = Some (ss_neps x)"
    "rd8 ?d (0 + 5) = Some (ss_cls x)" "rd8 ?d (0 + 6) = Some (ss_sub x)" "rd8 ?d (0 + 7) = Some (ss_proto x)" "rd8 ?d (0 + 8) = Some (ss_str x)"
    by (simp_all add: rd8_def set_descs_def)
  have ok: "desc_ok ?d" "?d ! 1 = UDT_INTERFACE" "rd8 ?d (0 + 1) = Some UDT_INTERFACE"
    by (simp_all add: desc_ok_def min_len_def set_descs_def rd8_def)
  have st: "set_tree hex fl cfg (x\<lparr>ss_eps := []\<rparr>) = \<lparr>pif_IfNum = ucast (ss_num x), pif_Alternate = ucast (ss_alt x), pif_NumEPs = ucast (ss_neps x),
     pif_IfClass = ucast (ss_cls x), pif_IfSubClass = ucast (ss_sub x), pif_IfProto = ucast (ss_proto x),
     pif_IDString = Some (id_string hex (ucast cfg) [ucast (ss_num x), ucast (ss_alt x), ucast (ss_cls x), ucast (ss_sub x), ucast (ss_proto x)]),
     pif_IfBinding = 0, pif_ClsBinding = 0, pif_EPs = []\<rparr>" by (simp add: set_tree_def)
  have "interface_desc hex ?d 0 p = Some ?p"
    unfolding interface_desc_def r using assms [unfolded st]
    by (simp add: psdAllocVec_def around_def index_def Let_def)
  then have "take_desc hex p ?d = keep_desc ?d 0 (?d ! 0) (?d ! 1) ?p"
    using ok(2,3) unfolding take_desc_def one_desc_def by simp
  then show ?thesis using keep_desc_entry [OF ok(1), of ?p "length ks"] assms(1,2) by (simp add: around_def)
qed

text \<open>A state of the parser in a configuration, between settings.\<close>

definition between_ifs :: "u16 \<Rightarrow> u16 \<Rightarrow> psdConfig list \<Rightarrow> psdConfig \<Rightarrow> psdInterface list \<Rightarrow> psdDescriptor list \<Rightarrow> nat option \<Rightarrow> parser \<Rightarrow> bool" where
  "between_ifs fl n ks k ifs ds i p \<longleftrightarrow> pr_Dev p = around fl n ks k ifs ds \<and> pr_Mem p = [] \<and> pr_pc p = Some (length ks) \<and> pr_pif p = i"

lemma set_tree_eps: "(set_tree hex fl cfg (x\<lparr>ss_eps := []\<rparr>))\<lparr>pif_EPs := map (ep_tree fl) (ss_eps x)\<rparr> = set_tree hex fl cfg x"
  "pif_EPs (set_tree hex fl cfg (x\<lparr>ss_eps := []\<rparr>)) = []"
  by (simp_all add: set_tree_def)

lemma set_descs_Cons: "set_descs x = hd (set_descs x) # ss_more x @ concat (map ep_descs (ss_eps x))"
  by (simp add: set_descs_def)

lemma main_read:
  assumes "between_ifs fl n ks k ifs ds j p" and "set_spec_ok fl x" and "ss_alt x = 0" and "pc_CfgNum k = ucast cfg"
  shows "\<exists>p'. take_descs hex (set_descs x) p = Some p' \<and>
    between_ifs fl n ks k (ifs @ [\<lparr>pif_Main = set_tree hex fl cfg x, pif_AlterIfs = []\<rparr>])
      (ds @ set_entries (length ks) (length ifs, None) x) (Some (length ifs)) p'"
proof -
  let ?s = "set_tree hex fl cfg (x\<lparr>ss_eps := []\<rparr>)"
  have "pif_Alternate ?s = 0" using assms(3) by (simp add: set_tree_def)
  then have a: "add_setting ?s (pr_pif p) (k\<lparr>pc_Interfaces := ifs\<rparr>) =
      Some (k\<lparr>pc_Interfaces := ifs @ [\<lparr>pif_Main = ?s, pif_AlterIfs = []\<rparr>]\<rparr>, length ifs, (length ifs, None))"
    by (simp add: add_setting_def Let_def)
  note b = assms(1) [unfolded between_ifs_def]
  have "take_desc hex p (hd (set_descs x)) = Some (main.at fl n ks k ifs ?s (ds @ [entry (length ks) (Some (length ifs, None)) None (hd (set_descs x))]) (length ifs) None)"
    using interface_desc_read [OF _ _ _ assms(4) a] b by (cases p) (simp add: main.at_def)
  moreover have "\<exists>e. take_descs hex (ss_more x @ concat (map ep_descs (ss_eps x)))
      (main.at fl n ks k ifs ?s (ds @ [entry (length ks) (Some (length ifs, None)) None (hd (set_descs x))]) (length ifs) None) =
    Some (main.at fl n ks k ifs (?s\<lparr>pif_EPs := map (ep_tree fl) (ss_eps x)\<rparr>) (ds @ set_entries (length ks) (length ifs, None) x) (length ifs) e)"
    by (rule main.set_read [OF assms(2) set_tree_eps(2)])
  ultimately show ?thesis
    by (subst set_descs_Cons) (auto simp: set_tree_eps(1) between_ifs_def)
qed

lemma alter_read:
  assumes "between_ifs fl n ks k (ifs @ [\<lparr>pif_Main = m, pif_AlterIfs = as\<rparr>]) ds (Some (length ifs)) p"
    and "set_spec_ok fl x" and "ss_alt x \<noteq> 0" and "pc_CfgNum k = ucast cfg"
  shows "\<exists>p'. take_descs hex (set_descs x) p = Some p' \<and>
    between_ifs fl n ks k (ifs @ [\<lparr>pif_Main = m, pif_AlterIfs = as @ [set_tree hex fl cfg x]\<rparr>])
      (ds @ set_entries (length ks) (length ifs, Some (length as)) x) (Some (length ifs)) p'"
proof -
  let ?s = "set_tree hex fl cfg (x\<lparr>ss_eps := []\<rparr>)" and ?q = "(length ifs, Some (length as))"
  have "(ucast (ss_alt x) :: u16) \<noteq> 0" using assms(3) by (simp add: ucast16_eq)
  then have a: "add_setting ?s (pr_pif p) (k\<lparr>pc_Interfaces := ifs @ [\<lparr>pif_Main = m, pif_AlterIfs = as\<rparr>]\<rparr>) =
      Some (k\<lparr>pc_Interfaces := ifs @ [\<lparr>pif_Main = m, pif_AlterIfs = as @ [?s]\<rparr>]\<rparr>, length ifs, ?q)"
    using assms(1) by (simp add: add_setting_def between_ifs_def set_tree_def index_def)
  note b = assms(1) [unfolded between_ifs_def]
  have "take_desc hex p (hd (set_descs x)) = Some (alter.at fl n ks k ifs m as ?s (ds @ [entry (length ks) (Some ?q) None (hd (set_descs x))]) (length ifs) None)"
    using interface_desc_read [OF _ _ _ assms(4) a] b by (cases p) (simp add: alter.at_def)
  moreover have "\<exists>e. take_descs hex (ss_more x @ concat (map ep_descs (ss_eps x)))
      (alter.at fl n ks k ifs m as ?s (ds @ [entry (length ks) (Some ?q) None (hd (set_descs x))]) (length ifs) None) =
    Some (alter.at fl n ks k ifs m as (?s\<lparr>pif_EPs := map (ep_tree fl) (ss_eps x)\<rparr>) (ds @ set_entries (length ks) ?q x) (length ifs) e)"
    by (rule alter.set_read [OF assms(2) set_tree_eps(2)])
  ultimately show ?thesis
    by (subst set_descs_Cons) (auto simp: set_tree_eps(1) between_ifs_def)
qed

end
