(* ===== verification/Dsc_Read.thy ===== *)
theory Dsc_Read
  imports Dsc_Tree
begin

text \<open>
  Reading a whole configuration, and all the configurations of a device, builds the trees of the
  reference.
\<close>

section \<open>A whole configuration\<close>

lemma alts_read:
  assumes "between_ifs fl n ks k (ifs @ [\<lparr>pif_Main = m, pif_AlterIfs = as\<rparr>]) ds (Some (length ifs)) p" and "pc_CfgNum k = ucast cfg"
    and "\<forall>x \<in> set xs. set_spec_ok fl x \<and> ss_alt x \<noteq> 0"
  shows "\<exists>p'. take_descs hex (concat (map set_descs xs)) p = Some p' \<and>
    between_ifs fl n ks k (ifs @ [\<lparr>pif_Main = m, pif_AlterIfs = as @ map (set_tree hex fl cfg) xs\<rparr>])
      (ds @ alts_entries (length ks) (length ifs) (length as) xs) (Some (length ifs)) p'"
  using assms
proof (induction xs arbitrary: as ds p)
  case (Cons x xs)
  obtain p' where p': "take_descs hex (set_descs x) p = Some p'"
    "between_ifs fl n ks k (ifs @ [\<lparr>pif_Main = m, pif_AlterIfs = as @ [set_tree hex fl cfg x]\<rparr>])
      (ds @ set_entries (length ks) (length ifs, Some (length as)) x) (Some (length ifs)) p'"
    using alter_read [OF Cons.prems(1) _ _ Cons.prems(2), of x hex] Cons.prems(3) by auto
  show ?case using Cons.IH [OF p'(2) assms(2)] Cons.prems(3) p'(1) by (auto simp: take_descs_append)
qed simp

lemma ifs_read:
  assumes "between_ifs fl n ks k ifs ds i p" and "pc_CfgNum k = ucast cfg"
    and "\<forall>f \<in> set fs. set_spec_ok fl (fst f) \<and> ss_alt (fst f) = 0 \<and> (\<forall>s \<in> set (snd f). set_spec_ok fl s \<and> ss_alt s \<noteq> 0)"
  shows "\<exists>p' j. take_descs hex (concat (map iface_descs fs)) p = Some p' \<and>
    between_ifs fl n ks k (ifs @ map (if_tree hex fl cfg) fs) (ds @ ifs_entries (length ks) (length ifs) fs) j p'"
  using assms
proof (induction fs arbitrary: ifs ds i p)
  case (Cons f fs)
  obtain p1 where p1: "take_descs hex (set_descs (fst f)) p = Some p1"
    "between_ifs fl n ks k (ifs @ [\<lparr>pif_Main = set_tree hex fl cfg (fst f), pif_AlterIfs = []\<rparr>])
      (ds @ set_entries (length ks) (length ifs, None) (fst f)) (Some (length ifs)) p1"
    using main_read [OF Cons.prems(1) _ _ Cons.prems(2), of "fst f" hex] Cons.prems(3) by auto
  obtain p2 where p2: "take_descs hex (concat (map set_descs (snd f))) p1 = Some p2"
    "between_ifs fl n ks k (ifs @ [if_tree hex fl cfg f])
      (ds @ set_entries (length ks) (length ifs, None) (fst f) @ alts_entries (length ks) (length ifs) 0 (snd f)) (Some (length ifs)) p2"
    using alts_read [OF p1(2) Cons.prems(2), of "snd f" hex] Cons.prems(3) by (auto simp: if_tree_def)
  show ?case using Cons.IH [OF p2(2) assms(2)] Cons.prems(3) p1(1) p2(1) by (auto simp: take_descs_append iface_descs_def)
qed auto

lemma others_read:
  assumes "pr_altif p = None" and "pr_pep p = None" and "\<forall>d \<in> set xs. other_desc d"
    and "pr_Dev p = around fl n ks k ifs ds" and "pr_Mem p = []" and "pr_pc p = Some c"
  shows "take_descs hex xs p = Some (p\<lparr>pr_Dev := around fl n ks k ifs (ds @ map (entry c None None) xs)\<rparr>)"
  using assms
proof (induction xs arbitrary: p ds)
  case Nil
  then have "p\<lparr>pr_Dev := around fl n ks k ifs ds\<rparr> = p" by (cases p) simp
  then show ?case by simp
next
  case (Cons x xs)
  then show ?case by (simp add: take_other_desc [where c = c] around_def)
qed

lemma head_read:
  assumes "cfg_size k < 65536"
  shows "take_desc hex (start_parser \<lparr>pd_Flags = fl, pd_NumCfgs = n, pd_Configs = ks, pd_Descriptors = ds\<rparr> []) (cfg_head k) =
    Some \<lparr>pr_Dev = around (fl OR PDFF_CONFIGURED) n ks (cfg_tree hex fl k) [] (ds @ [entry (length ks) None None (cfg_head k)]),
      pr_Mem = [], pr_pc = Some (length ks), pr_pif = None, pr_altif = None, pr_pep = None\<rparr>"
proof -
  let ?d = "cfg_head k"
  have r: "rd8 ?d (0 + 4) = Some (cs_nifs k)" "rd8 ?d (0 + 5) = Some (cs_num k)" "rd8 ?d (0 + 6) = Some (cs_str k)"
    "rd8 ?d (0 + 7) = Some (cs_attr k)" "rd8 ?d (0 + 8) = Some (cs_power k)" "rd8 ?d (0 + 1) = Some UDT_CONFIGURATION" "?d ! 1 = UDT_CONFIGURATION"
    by (simp_all add: rd8_def cfg_head_def enc_le16_def)
  have ok: "desc_ok ?d" by (simp add: desc_ok_def min_len_def cfg_head_def)
  let ?p = "start_parser \<lparr>pd_Flags = fl, pd_NumCfgs = n, pd_Configs = ks, pd_Descriptors = ds\<rparr> []"
  let ?q = "\<lparr>pr_Dev = around (fl OR PDFF_CONFIGURED) n ks (cfg_tree hex fl k) [] ds,
      pr_Mem = [], pr_pc = Some (length ks), pr_pif = None, pr_altif = None, pr_pep = None\<rparr>"
  have "config_desc ?d 0 ?p = Some ?q"
    unfolding config_desc_def r by (simp add: start_parser_def psdAllocVec_def around_def cfg_tree_def Let_def)
  then have "take_desc hex ?p ?d = keep_desc ?d 0 (?d ! 0) (?d ! 1) ?q"
    using r(6,7) unfolding take_desc_def one_desc_def by simp
  then show ?thesis using keep_desc_entry [OF ok, of ?q "length ks"] by (simp add: around_def)
qed

lemma speed_configured: "(fl OR PDFF_CONFIGURED) AND PDFF_SUPERSPEED = fl AND PDFF_SUPERSPEED"
  "(fl OR PDFF_CONFIGURED) AND PDFF_HIGHSPEED = fl AND PDFF_HIGHSPEED"
  "(fl OR PDFF_CONFIGURED) AND PDFF_LOWSPEED = fl AND PDFF_LOWSPEED"
  by (simp_all add: flags_configured)

lemma configured_simps [simp]:
  "fix_endpoint (fl OR PDFF_CONFIGURED) = fix_endpoint fl" "pGetMaxStreamsForEndpoint (fl OR PDFF_CONFIGURED) = pGetMaxStreamsForEndpoint fl"
  "comp_endpoint (fl OR PDFF_CONFIGURED) = comp_endpoint fl"
proof -
  show "fix_endpoint (fl OR PDFF_CONFIGURED) = fix_endpoint fl" by (rule ext) (unfold fix_endpoint_def speed_configured, rule refl)
  show m: "pGetMaxStreamsForEndpoint (fl OR PDFF_CONFIGURED) = pGetMaxStreamsForEndpoint fl"
    by (rule ext) (unfold pGetMaxStreamsForEndpoint_def speed_configured, rule refl)
  show "comp_endpoint (fl OR PDFF_CONFIGURED) = comp_endpoint fl" by (intro ext) (unfold comp_endpoint_def speed_configured m, rule refl)
qed

lemma configured_trees [simp]: "ep_tree (fl OR PDFF_CONFIGURED) = ep_tree fl"
  "set_tree hex (fl OR PDFF_CONFIGURED) = set_tree hex fl" "if_tree hex (fl OR PDFF_CONFIGURED) = if_tree hex fl"
  "ep_spec_ok (fl OR PDFF_CONFIGURED) = ep_spec_ok fl" "set_spec_ok (fl OR PDFF_CONFIGURED) = set_spec_ok fl"
proof -
  show e: "ep_tree (fl OR PDFF_CONFIGURED) = ep_tree fl" by (rule ext) (unfold ep_tree_def configured_simps, rule refl)
  show s: "set_tree hex (fl OR PDFF_CONFIGURED) = set_tree hex fl" by (intro ext) (unfold set_tree_def e, rule refl)
  show "if_tree hex (fl OR PDFF_CONFIGURED) = if_tree hex fl" by (intro ext) (unfold if_tree_def s, rule refl)
  show eo: "ep_spec_ok (fl OR PDFF_CONFIGURED) = ep_spec_ok fl" by (rule ext) (unfold ep_spec_ok_def configured_simps, rule refl)
  show "set_spec_ok (fl OR PDFF_CONFIGURED) = set_spec_ok fl" by (rule ext) (unfold set_spec_ok_def eo, rule refl)
qed

lemma made_descs_ok: "desc_ok ([7, UDT_ENDPOINT, a, b] @ le_bytes w @ [iv])" "desc_ok ([6, UDT_SUPERSPEED_EP_COMP, b, a] @ le_bytes w)"
  "desc_ok (hd (set_descs x))" "desc_ok (cfg_head k)"
  by (simp_all add: desc_ok_def min_len_def set_descs_def cfg_head_def)

lemma ep_descs_ok: "ep_spec_ok fl x \<Longrightarrow> \<forall>d \<in> set (ep_descs x). desc_ok d"
  using made_descs_ok(1,2) by (cases "es_comp x") (auto simp: ep_descs_def ep_spec_ok_def other_desc_def simp del: append.simps)

lemma set_descs_ok: "set_spec_ok fl x \<Longrightarrow> \<forall>d \<in> set (set_descs x). desc_ok d"
  using ep_descs_ok made_descs_ok(3) [of x] by (subst set_descs_Cons) (auto simp: set_spec_ok_def other_desc_def)

lemma cfg_descs_ok:
  assumes "cfg_spec_ok fl k"
  shows "\<forall>d \<in> set (cfg_head k # cfg_tail k). desc_ok d"
proof -
  have "desc_ok d" if f: "f \<in> set (cs_ifs k)" and d: "d \<in> set (iface_descs f)" for f d
  proof -
    have "set_spec_ok fl (fst f)" "\<forall>s \<in> set (snd f). set_spec_ok fl s" using assms f by (simp_all add: cfg_spec_ok_def)
    then show ?thesis using d by (auto simp: iface_descs_def dest: set_descs_ok)
  qed
  moreover have "desc_ok d" if "d \<in> set (cs_more k)" for d using assms that by (simp add: cfg_spec_ok_def other_desc_def)
  ultimately show ?thesis using made_descs_ok(4) [of k] by (auto simp: cfg_tail_def)
qed

lemma cfg_read:
  assumes "cfg_spec_ok fl k"
  shows "\<exists>p. parse_descs hex (cfg_image k) 0 (start_parser \<lparr>pd_Flags = fl, pd_NumCfgs = n, pd_Configs = ks, pd_Descriptors = ds\<rparr> []) = Some p \<and>
    pr_Dev p = \<lparr>pd_Flags = fl OR PDFF_CONFIGURED, pd_NumCfgs = n, pd_Configs = ks @ [cfg_tree hex fl k],
      pd_Descriptors = ds @ cfg_entries (length ks) k\<rparr> \<and> pr_Mem p = []"
proof -
  let ?fl = "fl OR PDFF_CONFIGURED" and ?k = "cfg_tree hex fl k"
  note ok = assms [unfolded cfg_spec_ok_def]
  have k: "pc_CfgNum ?k = ucast (cs_num k)" "?k\<lparr>pc_Interfaces := map (if_tree hex fl (cs_num k)) (cs_ifs k)\<rparr> = ?k" by (simp_all add: cfg_tree_def)
  let ?p = "\<lparr>pr_Dev = around ?fl n ks ?k [] (ds @ [entry (length ks) None None (cfg_head k)]),
      pr_Mem = [], pr_pc = Some (length ks), pr_pif = None, pr_altif = None, pr_pep = None\<rparr>"
  have "between_ifs ?fl n ks ?k [] (ds @ map (entry (length ks) None None) (cfg_head k # cs_more k)) None
      (?p\<lparr>pr_Dev := around ?fl n ks ?k [] (ds @ map (entry (length ks) None None) (cfg_head k # cs_more k))\<rparr>)"
    by (simp add: between_ifs_def)
  from ifs_read [OF this k(1), of "cs_ifs k" hex] ok obtain p j where p: "take_descs hex (concat (map iface_descs (cs_ifs k)))
      (?p\<lparr>pr_Dev := around ?fl n ks ?k [] (ds @ map (entry (length ks) None None) (cfg_head k # cs_more k))\<rparr>) = Some p"
      "between_ifs ?fl n ks ?k (map (if_tree hex fl (cs_num k)) (cs_ifs k)) (ds @ cfg_entries (length ks) k) j p"
    by (auto simp: cfg_entries_def)
  have "parse_descs hex (cfg_image k) 0 (start_parser \<lparr>pd_Flags = fl, pd_NumCfgs = n, pd_Configs = ks, pd_Descriptors = ds\<rparr> []) = Some p"
    unfolding cfg_image_def using parse_descs_all [of "cfg_head k # cfg_tail k"] cfg_descs_ok [OF assms] head_read [of k hex fl n ks ds] ok
      others_read [of ?p "cs_more k" ?fl n ks ?k "[]" "ds @ [entry (length ks) None None (cfg_head k)]" "length ks" hex] p(1)
    by (simp add: cfg_tail_def take_descs_append)
  then show ?thesis using p(2) k(2) by (auto simp: between_ifs_def around_def)
qed

section \<open>All configurations\<close>

text \<open>A configuration whose number is there already is ignored.\<close>

fun new_cfgs :: "u8 set \<Rightarrow> cfg_spec list \<Rightarrow> cfg_spec list" where
  "new_cfgs seen [] = []"
| "new_cfgs seen (k # ks) = (if cs_num k \<in> seen then new_cfgs seen ks else k # new_cfgs (insert (cs_num k) seen) ks)"

fun all_entries :: "nat \<Rightarrow> cfg_spec list \<Rightarrow> psdDescriptor list" where
  "all_entries c [] = []"
| "all_entries c (k # ks) = cfg_entries c k @ all_entries (Suc c) ks"

text \<open>The device answers a request for a configuration with as much of its image as is asked for.\<close>

definition serves :: "(nat \<Rightarrow> nat \<Rightarrow> bytes option) \<Rightarrow> nat \<Rightarrow> cfg_spec list \<Rightarrow> bool" where
  "serves get i ks \<longleftrightarrow> (\<forall>c < length ks. \<forall>n \<le> cfg_size (ks ! c). get (i + c) n = Some (take n (cfg_image (ks ! c))))"

lemma cfg_image_simps: "length (cfg_image k) = cfg_size k" "take 9 (cfg_image k) = cfg_head k" "9 \<le> cfg_size k"
  "rd8 (cfg_head k) 5 = Some (cs_num k)" "cfg_size k < 65536 \<Longrightarrow> rd_le16 (cfg_head k) 2 = Some (cfg_size k)"
proof -
  have h: "length (cfg_head k) = 9" by (simp add: cfg_head_def)
  show "length (cfg_image k) = cfg_size k" "take 9 (cfg_image k) = cfg_head k" "9 \<le> cfg_size k"
    using h by (simp_all add: cfg_image_def cfg_size_def)
  show "rd8 (cfg_head k) 5 = Some (cs_num k)" by (simp add: rd8_def cfg_head_def enc_le16_def)
  show "cfg_size k < 65536 \<Longrightarrow> rd_le16 (cfg_head k) 2 = Some (cfg_size k)"
    using le16_enc [of "cfg_size k"] by (simp add: rd_le16_def cfg_head_def enc_le16_def nth_append)
qed

lemma loop_read:
  assumes "serves get i ks" and "\<forall>k \<in> set ks. cfg_spec_ok fl k" and "pc_CfgNum ` set cs = ucast ` seen"
    and "fl' = fl \<or> fl' = fl OR PDFF_CONFIGURED"
  shows "config_loop hex get [i..<i + length ks] \<lparr>pd_Flags = fl', pd_NumCfgs = n, pd_Configs = cs, pd_Descriptors = ds\<rparr> [] =
    Some (True, \<lparr>pd_Flags = (if new_cfgs seen ks = [] then fl' else fl OR PDFF_CONFIGURED), pd_NumCfgs = n,
      pd_Configs = cs @ map (cfg_tree hex fl) (new_cfgs seen ks), pd_Descriptors = ds @ all_entries (length cs) (new_cfgs seen ks)\<rparr>, [])"
  using assms
proof (induction ks arbitrary: i cs ds seen fl')
  case (Cons k ks)
  let ?pd = "\<lparr>pd_Flags = fl', pd_NumCfgs = n, pd_Configs = cs, pd_Descriptors = ds\<rparr>"
  have up: "[i..<i + length (k # ks)] = i # [Suc i..<Suc i + length ks]" by (simp add: upt_rec)
  have sv: "serves get (Suc i) ks" using Cons.prems(1) by (auto simp: serves_def dest: spec [of _ "Suc _"])
  have ok: "cfg_spec_ok fl k" "cfg_spec_ok fl' k" "cfg_size k < 65536" using Cons.prems(2,4) by (auto simp: cfg_spec_ok_def)
  have g: "get i 9 = Some (cfg_head k)" "get i (cfg_size k) = Some (cfg_image k)"
    using Cons.prems(1) cfg_image_simps(1,2,3) [of k] by (auto simp: serves_def dest: spec [of _ 0])
  have idem: "fl' OR PDFF_CONFIGURED = fl OR PDFF_CONFIGURED" "cfg_tree hex fl' = cfg_tree hex fl"
    using Cons.prems(4) by (auto simp: or.assoc fun_eq_iff cfg_tree_def)
  have "ucast (cs_num k) \<in> pc_CfgNum ` set cs \<longleftrightarrow> cs_num k \<in> seen" using Cons.prems(3) by (auto simp: ucast16_eq)
  then show ?case
  proof (cases "cs_num k \<in> seen")
    case True
    then show ?thesis using Cons.IH [OF sv _ Cons.prems(3,4)] Cons.prems(2,3) g cfg_image_simps(4) [of k]
      by (simp only: up config_loop.simps) simp
  next
    case False
    obtain p where p: "parse_descs hex (cfg_image k) 0 (start_parser ?pd []) = Some p"
      "pr_Dev p = \<lparr>pd_Flags = fl OR PDFF_CONFIGURED, pd_NumCfgs = n, pd_Configs = cs @ [cfg_tree hex fl k], pd_Descriptors = ds @ cfg_entries (length cs) k\<rparr>"
      "pr_Mem p = []" using cfg_read [OF ok(2), of hex n cs ds] idem by auto
    have s: "pc_CfgNum ` set (cs @ [cfg_tree hex fl k]) = ucast ` insert (cs_num k) seen" using Cons.prems(3) by (simp add: cfg_tree_def)
    have n: "ucast (cs_num k) \<notin> pc_CfgNum ` set cs" using False Cons.prems(3) by (auto simp: ucast16_eq)
    show ?thesis using Cons.IH [OF sv _ s, of "fl OR PDFF_CONFIGURED" "ds @ cfg_entries (length cs) k"] Cons.prems(2) False n g p
        cfg_image_simps(4,5) [of k] ok(3)
      by (simp only: up config_loop.simps) (simp add: psdAllocVec_def)
  qed
qed simp

end
