(* ===== verification/Dsc_Safe.thy ===== *)
theory Dsc_Safe
  imports Dsc_Read
begin

text \<open>
  On buffers that are sequences of descriptors the parser never faults, whatever the memory gives.
\<close>

section \<open>Descriptors the code can take\<close>

text \<open>The code shifts by the interval of a SuperSpeed interrupt endpoint, unchecked.\<close>

definition shift_ok :: "u16 \<Rightarrow> bytes \<Rightarrow> bool" where
  "shift_ok fl d \<longleftrightarrow> (d ! 1 = UDT_ENDPOINT \<and> fl AND PDFF_SUPERSPEED \<noteq> 0 \<and> ucast (d ! 3) AND 3 = USEAF_INTERRUPT \<longrightarrow> d ! 6 \<le> 32)"

definition answers_ok :: "u16 \<Rightarrow> (nat \<Rightarrow> nat \<Rightarrow> bytes option) \<Rightarrow> bool" where
  "answers_ok fl get \<longleftrightarrow> (\<forall>c u. get c 9 = Some u \<longrightarrow> length u = 9 \<and>
     (\<forall>b. get c (le16 (u ! 2) (u ! 3)) = Some b \<longrightarrow> (\<exists>ds. b = concat ds \<and> (\<forall>d \<in> set ds. desc_ok d \<and> shift_ok fl d))))"

lemma desc_reads: "k < length d \<Longrightarrow> rd8 d k = Some (d ! k)" "k + 1 < length d \<Longrightarrow> rd_le16 d k = Some (le16 (d ! k) (d ! (k + 1)))"
  "k + 3 < length d \<Longrightarrow> rd_le32 d k \<noteq> None"
  by (auto simp: rd8_def rd_le16_def rd_le32_def)

lemma fix_total:
  assumes "fl AND PDFF_SUPERSPEED \<noteq> 0 \<Longrightarrow> pep_TransType ep = USEAF_INTERRUPT \<Longrightarrow> pep_Interval ep \<le> 32"
  shows "fix_endpoint fl ep \<noteq> None"
proof -
  have c: "set_periodic clamp_interval e \<noteq> None" for e using clamp_pow(2) by (auto simp: set_periodic_def simp del: not_None_eq split: bind_splits)
  have n: "set_periodic nonzero_interval ep \<noteq> None" if "pep_Interval ep \<le> 32"
    using that by (auto simp: set_periodic_def pow_interval_def nonzero_interval_def not_less split: if_splits)
  show ?thesis using assms c n by (auto simp: fix_endpoint_def Let_def)
qed

lemma config_total: "9 \<le> length d \<Longrightarrow> config_desc d 0 p \<noteq> None"
  by (auto simp: config_desc_def desc_reads Let_def split: prod.splits)

lemma interface_total:
  assumes "9 \<le> length d" and "parser_ok p"
  shows "interface_desc hex d 0 p \<noteq> None"
proof (cases "pr_pc p")
  case (Some c)
  have c: "c < length (pd_Configs (pr_Dev p))" using assms(2) Some by (simp add: parser_ok_def ptrs_ok_def)
  have "add_setting s (pr_pif p) (pd_Configs (pr_Dev p) ! c) \<noteq> None" for s
    using assms(2) Some by (auto simp: add_setting_def parser_ok_def Let_def index_def split: option.splits)
  then show ?thesis using assms(1) c Some
    by (auto simp: interface_desc_def desc_reads index_def Let_def simp del: not_None_eq split: prod.splits bind_splits)
qed (simp add: interface_desc_def)

lemma endpoint_total:
  assumes "7 \<le> length d" and "parser_ok p" and "shift_ok (pd_Flags (pr_Dev p)) d" and "d ! 1 = UDT_ENDPOINT"
  shows "endpoint_desc d 0 p \<noteq> None"
proof (cases "pr_altif p")
  case (Some q)
  obtain c s where s: "pr_pc p = Some c" "setting_of (pr_Dev p) c q = Some s" using parser_okD [OF assms(2) Some] by metis
  have "fix_endpoint (pd_Flags (pr_Dev p)) (raw_endpoint a (d ! 3) w (d ! 6)) \<noteq> None" for a w
    using assms(3,4) by (intro fix_total) (simp add: shift_ok_def raw_endpoint_def Let_def word_le_nat_alt unat_ucast16)
  then show ?thesis using assms(1) s Some
    by (auto simp: endpoint_desc_def desc_reads at_eps_put Let_def simp del: not_None_eq split: prod.splits bind_splits)
qed (simp add: endpoint_desc_def)

lemma at_pep_total:
  assumes "parser_ok p" and "pr_pep p \<noteq> None"
  shows "at_pep f p \<noteq> None"
proof -
  obtain e q where q: "pr_pep p = Some e" "pr_altif p = Some q" using assms by (auto simp: parser_ok_def ptrs_ok_def)
  obtain c s where "pr_pc p = Some c" "setting_of (pr_Dev p) c q = Some s" "e < length (pif_EPs s)"
    using parser_okD [OF assms(1) q(2)] q(1) by metis
  then show ?thesis using q by (simp add: at_pep_def at_eps_put at_index_def)
qed

lemma keep_total:
  assumes "desc_ok d" and "parser_ok p"
  shows "keep_desc d 0 (d ! 0) (d ! 1) p \<noteq> None"
proof -
  have "UDT_CS_UNDEFINED \<le> d ! 1 \<Longrightarrow> d ! 1 \<le> UDT_CS_ENDPOINT \<Longrightarrow> 2 < length d"
    using assms(1) by (auto simp: desc_ok_def min_len_def split: if_splits)
  then have "(if UDT_CS_UNDEFINED \<le> d ! 1 \<and> d ! 1 \<le> UDT_CS_ENDPOINT then rd8 d (0 + 2) else Some 0) \<noteq> None"
    using desc_reads(1) [of 2 d] by (auto simp: numeral_2_eq_2)
  then show ?thesis using assms
    by (auto simp: keep_desc_def rd_slice_def desc_ok_def parser_ok_def Let_def simp del: not_None_eq split: prod.splits bind_splits)
qed

lemma take_total:
  assumes "desc_ok d" and "shift_ok (pd_Flags (pr_Dev p)) d" and "parser_ok p"
  shows "take_desc hex p d \<noteq> None"
proof -
  have l: "min_len (d ! 1) \<le> length d" "1 < length d" using assms(1) by (auto simp: desc_ok_def)
  have k: "keep_desc d 0 (d ! 0) (d ! 1) q \<noteq> None" if "parser_ok q" for q by (rule keep_total [OF assms(1) that])
  have r: "rd8 d (0 + 1) = Some (d ! 1)" using l(2) by (simp add: rd8_def)
  have s: "d ! 1 = UDT_CONFIGURATION \<Longrightarrow> config_desc d 0 p \<noteq> None" "d ! 1 = UDT_INTERFACE \<Longrightarrow> interface_desc hex d 0 p \<noteq> None"
    "d ! 1 = UDT_ENDPOINT \<Longrightarrow> endpoint_desc d 0 p \<noteq> None" "d ! 1 = UDT_SUPERSPEED_EP_COMP \<Longrightarrow> ep_comp_desc d 0 p \<noteq> None"
    "d ! 1 = UDT_SUPERSPEED_ISO_COMP \<Longrightarrow> iso_comp_desc d 0 p \<noteq> None"
    using l(1) config_total [of d p] interface_total [of d p hex] endpoint_total [OF _ assms(3,2)] assms(3) at_pep_total [OF assms(3)] desc_reads(3) [of 4 d]
    by (auto simp: min_len_def ep_comp_desc_def iso_comp_desc_def desc_reads simp del: not_None_eq split: bind_splits)
  have t: "config_desc d 0 p = Some q \<Longrightarrow> parser_ok q" "interface_desc hex d 0 p = Some q \<Longrightarrow> parser_ok q"
    "endpoint_desc d 0 p = Some q \<Longrightarrow> parser_ok q" "ep_comp_desc d 0 p = Some q \<Longrightarrow> parser_ok q"
    "iso_comp_desc d 0 p = Some q \<Longrightarrow> parser_ok q" for q
    by (rule config_typed [OF assms(3)] interface_typed [OF assms(3)] endpoint_typed [OF assms(3)] comps_typed [OF assms(3)]; assumption)+
  show ?thesis unfolding take_desc_def one_desc_def r using s t k assms(3) by (auto split: bind_splits)
qed

section \<open>Speed\<close>

lemma at_eps_flags: "at_eps c q f pd = Some pd' \<Longrightarrow> pd_Flags pd' = pd_Flags pd"
  by (auto simp: at_eps_def at_config_def split: bind_splits)

lemma take_speed:
  assumes "take_desc hex p d = Some q"
  shows "pd_Flags (pr_Dev q) AND PDFF_SUPERSPEED = pd_Flags (pr_Dev p) AND PDFF_SUPERSPEED"
proof -
  have k: "keep_desc b i len ty r = Some s \<Longrightarrow> pd_Flags (pr_Dev s) = pd_Flags (pr_Dev r)" for b i len ty r s
    by (auto simp: keep_desc_def Let_def split: bind_splits prod.splits if_splits)
  have "config_desc b i p = Some r \<Longrightarrow> pd_Flags (pr_Dev r) AND PDFF_SUPERSPEED = pd_Flags (pr_Dev p) AND PDFF_SUPERSPEED"
    "interface_desc hex b i p = Some r \<Longrightarrow> pd_Flags (pr_Dev r) = pd_Flags (pr_Dev p)"
    "endpoint_desc b i p = Some r \<Longrightarrow> pd_Flags (pr_Dev r) = pd_Flags (pr_Dev p)"
    "at_pep f p = Some r \<Longrightarrow> pd_Flags (pr_Dev r) = pd_Flags (pr_Dev p)" for b i r f
    by (auto simp: config_desc_def interface_desc_def endpoint_desc_def at_pep_def Let_def flags_configured
      split: bind_splits prod.splits option.splits if_splits dest: at_eps_flags)
  then show ?thesis using assms k unfolding take_desc_def one_desc_def ep_comp_desc_def iso_comp_desc_def
    by (auto split: bind_splits if_splits)
qed

lemma shift_ok_speed: "fl AND PDFF_SUPERSPEED = fl' AND PDFF_SUPERSPEED \<Longrightarrow> shift_ok fl d = shift_ok fl' d"
  by (simp add: shift_ok_def)

lemma take_descs_total:
  assumes "\<forall>d \<in> set ds. desc_ok d \<and> shift_ok (pd_Flags (pr_Dev p)) d" and "parser_ok p"
  shows "\<exists>q. take_descs hex ds p = Some q \<and> pd_Flags (pr_Dev q) AND PDFF_SUPERSPEED = pd_Flags (pr_Dev p) AND PDFF_SUPERSPEED"
  using assms
proof (induction ds arbitrary: p)
  case (Cons d ds)
  obtain r where r: "take_desc hex p d = Some r" using take_total [of d p hex] Cons.prems by auto
  have "parser_ok r" using one_desc_typed Cons.prems(2) r unfolding take_desc_def by blast
  then show ?case using Cons.IH [of r] Cons.prems(1) r take_speed [OF r] shift_ok_speed [OF take_speed [OF r]] by auto
qed simp

lemma loop_total:
  assumes "dev_typed pd" and "answers_ok (pd_Flags pd) get"
  shows "config_loop hex get cs pd m \<noteq> None"
  using assms
proof (induction cs arbitrary: pd m)
  case (Cons c cs)
  have st: "parser_ok (start_parser pd m)" "pr_Dev (start_parser pd m) = pd" for m using Cons.prems(1) by (simp_all add: start_parser_def parser_ok_def ptrs_ok_def)
  have p: "do { p \<leftarrow> parse_descs hex b 0 (start_parser pd m); config_loop hex get cs (pr_Dev p) (pr_Mem p) } \<noteq> None"
    if g: "get c 9 = Some u" "get c (le16 (u ! 2) (u ! 3)) = Some b" for u b m
  proof -
    obtain ds where ds: "b = concat ds" "\<forall>d \<in> set ds. desc_ok d \<and> shift_ok (pd_Flags pd) d"
      using Cons.prems(2) g unfolding answers_ok_def by blast
    obtain q where q: "take_descs hex ds (start_parser pd m) = Some q" "pd_Flags (pr_Dev q) AND PDFF_SUPERSPEED = pd_Flags pd AND PDFF_SUPERSPEED"
      using take_descs_total [of ds "start_parser pd m" hex] ds(2) st by auto
    have e: "parse_descs hex b 0 (start_parser pd m) = Some q" using parse_descs_all [of ds] ds q(1) by simp
    have "answers_ok (pd_Flags (pr_Dev q)) get" using Cons.prems(2) shift_ok_speed [OF q(2)] by (simp add: answers_ok_def)
    then show ?thesis using e Cons.IH parse_descs_typed [OF e st(1)] by (auto simp: parser_ok_def)
  qed
  have u: "get c 9 = Some u \<Longrightarrow> length u = 9" for u using Cons.prems(2) unfolding answers_ok_def by blast
  show ?case
  proof (cases "get c 9")
    case (Some u)
    obtain got m' where g: "psdAllocVec m = (got, m')" by (cases "psdAllocVec m")
    show ?thesis using Some u [OF Some] g Cons.IH [OF Cons.prems] p [OF Some, of _ m']
      by (cases "get c (le16 (u ! 2) (u ! 3))") (auto simp: desc_reads simp del: not_None_eq)
  qed simp
qed simp

end
