(* ===== verification/Dsc_Props.thy ===== *)
theory Dsc_Props
  imports Dsc_Safe
begin

text \<open>
  What pGetDevConfig() gives: the tree of every configuration the device sends, well typed whatever
  is sent, without a fault on well formed answers; and where it goes wrong.
\<close>

section \<open>The trees of all configurations\<close>

text \<open>C1: pGetDevConfig() reads what a device means: if the device answers for every configuration index
  with the bytes of a configuration given as nested data (its interfaces, their alternate settings,
  endpoints with their SuperSpeed companions, and other descriptors anywhere between), a device
  without configurations gets exactly the trees of these configurations in order, one for each
  configuration number (a repeated number is ignored), the speed's fixes applied to every endpoint,
  and a list of all descriptors in order, each with pointers to the configuration, the setting and the
  endpoint it belongs to; it is marked configured, and the code succeeds.\<close>

theorem configs_read:
  assumes "serves get 0 ks" and "length ks = unat n" and "\<forall>k \<in> set ks. cfg_spec_ok fl k"
  shows "pGetDevConfig hex get \<lparr>pd_Flags = fl, pd_NumCfgs = n, pd_Configs = [], pd_Descriptors = ds\<rparr> [] =
    Some (True, \<lparr>pd_Flags = (if ks = [] then fl else fl OR PDFF_CONFIGURED), pd_NumCfgs = n,
      pd_Configs = map (cfg_tree hex fl) (new_cfgs {} ks), pd_Descriptors = ds @ all_entries 0 (new_cfgs {} ks)\<rparr>, [])"
proof -
  have "new_cfgs {} ks = [] \<longleftrightarrow> ks = []" by (cases ks) simp_all
  then show ?thesis using loop_read [OF assms(1,3), of "[]" "{}" fl hex n ds] assms(2) by (simp add: pGetDevConfig_def)
qed

definition sample_cfg :: "u8 \<Rightarrow> cfg_spec" where
  "sample_cfg n = \<lparr>cs_num = n, cs_str = 0, cs_attr = 0x80, cs_power = 50, cs_nifs = 1, cs_more = [[3, 0x0b, 0]],
     cs_ifs = [(\<lparr>ss_num = 0, ss_alt = 0, ss_neps = 0, ss_cls = 3, ss_sub = 0, ss_proto = 0, ss_str = 0, ss_more = [], ss_eps = []\<rparr>,
       [\<lparr>ss_num = 0, ss_alt = 1, ss_neps = 1, ss_cls = 3, ss_sub = 0, ss_proto = 0, ss_str = 0, ss_more = [[4, 0x24, 1, 2]],
         ss_eps = [\<lparr>es_addr = 0x81, es_attr = 3, es_mps = 8, es_iv = 4, es_comp = None, es_more = []\<rparr>]\<rparr>])]\<rparr>"

definition sample_get :: "nat \<Rightarrow> nat \<Rightarrow> bytes option" where
  "sample_get c n = Some (take n (cfg_image (sample_cfg 1)))"

lemma sample_cfg_ok: "cfg_spec_ok PDFF_HIGHSPEED (sample_cfg 1)"
  by (simp add: cfg_spec_ok_def sample_cfg_def set_spec_ok_def ep_spec_ok_def other_desc_def desc_ok_def min_len_def cfg_size_def
    cfg_tail_def iface_descs_def set_descs_def ep_descs_def le_bytes_def enc_le16_def fix_endpoint_def raw_endpoint_def
    set_periodic_def clamp_interval_def pow_interval_def Let_def)

theorem configs_read_witness:
  "\<exists>pd. pGetDevConfig (\<lambda>w. ''00'') sample_get \<lparr>pd_Flags = PDFF_HIGHSPEED, pd_NumCfgs = 2, pd_Configs = [], pd_Descriptors = []\<rparr> [] =
     Some (True, pd, []) \<and> pd_Configs pd = [cfg_tree (\<lambda>w. ''00'') PDFF_HIGHSPEED (sample_cfg 1)] \<and> length (pd_Descriptors pd) = 6"
proof -
  have "serves sample_get 0 [sample_cfg 1, sample_cfg 1]" by (simp add: serves_def sample_get_def nth_Cons split: nat.splits)
  from configs_read [OF this, of 2 PDFF_HIGHSPEED "\<lambda>w. ''00''" "[]"] sample_cfg_ok
  show ?thesis by (simp add: sample_cfg_def cfg_entries_def set_entries_def ep_descs_def le_bytes_def enc_le16_def)
qed

section \<open>Types\<close>

lemma loop_typed: "config_loop hex get cs pd m = Some (ok, pd', m') \<Longrightarrow> dev_typed pd \<Longrightarrow> dev_typed pd'"
proof (induction cs arbitrary: pd m)
  case (Cons c cs)
  have st: "dev_typed pd \<Longrightarrow> parser_ok (start_parser pd m)" for m by (simp add: start_parser_def parser_ok_def ptrs_ok_def)
  have p: "dev_typed (pr_Dev p)" if "parse_descs hex b 0 (start_parser pd m) = Some p" for b m p
    using parse_descs_typed [OF that st [OF Cons.prems(2)]] by (simp add: parser_ok_def)
  show ?case using Cons.prems Cons.IH p
    by (auto simp: Let_def split: option.splits bind_splits if_splits prod.splits)
qed simp

lemma case_resultE:
  assumes "case r of None \<Rightarrow> False | Some (ok, pd, m) \<Rightarrow> ok \<and> m = [] \<and> P pd"
  shows "\<exists>pd. r = Some (True, pd, []) \<and> P pd"
  using assms by (auto split: option.splits prod.splits)

text \<open>C2: whatever the device answers and however the memory runs out, the tree stays well typed: endpoint
  numbers, directions, transfer types, packet sizes, bursts and intervals are in the ranges the rest of
  the stack relies on for the device's speed (isochronous intervals are powers of two below 2^16,
  packets at most 1024 or 1023 bytes), only settings with a nonzero number are alternates, and every
  configuration, setting and endpoint a descriptor of the list points to exists, its data as long
  as it says.\<close>

theorem device_tree_typed:
  assumes "dev_typed pd" and "pGetDevConfig hex get pd m = Some (ok, pd', m')"
  shows "dev_typed pd'"
  using loop_typed assms unfolding pGetDevConfig_def by blast

definition sample_dev :: psdDevice where
  "sample_dev = \<lparr>pd_Flags = PDFF_SUPERSPEED, pd_NumCfgs = 1, pd_Configs = [], pd_Descriptors = []\<rparr>"

lemma sample_dev_typed: "dev_typed sample_dev"
  by (simp add: dev_typed_def sample_dev_def setting_of_def index_def)

text \<open>A device of one configuration with its image.\<close>

definition one_get :: "bytes \<Rightarrow> nat \<Rightarrow> nat \<Rightarrow> bytes option" where
  "one_get b c n = (if c = 0 then Some (take n (b @ replicate n 0)) else None)"

definition iso_image :: bytes where
  "iso_image = concat [[9, 2, 25, 0, 1, 1, 0, 0x80, 50], [9, 4, 0, 0, 1, 1, 2, 0, 0], [7, 5, 0x81, 1, 0xff, 0x1f, 40]]"

theorem device_tree_typed_witness:
  "\<exists>pd. pGetDevConfig (\<lambda>w. ''00'') (one_get iso_image) sample_dev [True, True, True, True, True, True, False] = Some (True, pd, []) \<and>
     map (\<lambda>pc. map (pif_EPs \<circ> pif_Main) (pc_Interfaces pc)) (pd_Configs pd) = [[[]]] \<and> dev_typed pd"
proof -
  have "case pGetDevConfig (\<lambda>w. ''00'') (one_get iso_image) sample_dev [True, True, True, True, True, True, False] of
      None \<Rightarrow> False | Some (ok, pd, m) \<Rightarrow> ok \<and> m = [] \<and> map (\<lambda>pc. map (pif_EPs \<circ> pif_Main) (pc_Interfaces pc)) (pd_Configs pd) = [[[]]]"
    by code_simp
  from case_resultE [OF this] obtain pd where
    pd: "pGetDevConfig (\<lambda>w. ''00'') (one_get iso_image) sample_dev [True, True, True, True, True, True, False] = Some (True, pd, [])"
    "map (\<lambda>pc. map (pif_EPs \<circ> pif_Main) (pc_Interfaces pc)) (pd_Configs pd) = [[[]]]" by (elim exE conjE) (rule that)
  show ?thesis by (rule exI, rule conjI [OF pd(1) conjI [OF pd(2) device_tree_typed [OF sample_dev_typed pd(1)]]])
qed

text \<open>C3: if every configuration the device sends is a sequence of descriptors, each at least as long as the
  code reads of its type (and no SuperSpeed interrupt endpoint asks for an interval above 32),
  pGetDevConfig() ends without reading outside the buffer, following a null pointer or shifting too far,
  in whatever order the descriptors come, for whatever number of configurations, and whichever
  allocation fails.\<close>

theorem get_config_safe:
  assumes "dev_typed pd" and "answers_ok (pd_Flags pd) get"
  shows "\<exists>ok pd' m'. pGetDevConfig hex get pd m = Some (ok, pd', m')"
proof -
  have "pGetDevConfig hex get pd m \<noteq> None" using loop_total [OF assms] by (simp add: pGetDevConfig_def)
  then show ?thesis by auto
qed

theorem get_config_safe_witness:
  "\<exists>ok pd' m'. pGetDevConfig (\<lambda>w. ''00'') (one_get iso_image) sample_dev [True, False] = Some (ok, pd', m')"
proof (rule get_config_safe [OF sample_dev_typed])
  have "iso_image = concat [[9, 2, 25, 0, 1, 1, 0, 0x80, 50], [9, 4, 0, 0, 1, 1, 2, 0, 0], [7, 5, 0x81, 1, 0xff, 0x1f, 40]]"
    by (simp only: iso_image_def)
  moreover have "\<forall>d \<in> set [[9, 2, 25, 0, 1, 1, 0, 0x80, 50], [9, 4, 0, 0, 1, 1, 2, 0, 0], [7, 5, 0x81, 1, 0xff, 0x1f, 40]].
      desc_ok d \<and> shift_ok (pd_Flags sample_dev) d" by (simp add: desc_ok_def min_len_def shift_ok_def sample_dev_def)
  ultimately show "answers_ok (pd_Flags sample_dev) (one_get iso_image)"
    unfolding answers_ok_def by (auto simp: one_get_def iso_image_def le16_def intro!: exI [of _ "[[9, 2, 25, 0, 1, 1, 0, 0x80, 50], [9, 4, 0, 0, 1, 1, 2, 0, 0], [7, 5, 0x81, 1, 0xff, 0x1f, 40]]"])
qed

text \<open>C4: a descriptor that claims more bytes than are left of the configuration is only reported ("End of
  descriptor past buffer!"): its copy for the descriptor list then reads past the end of the buffer,
  whatever comes before it and whatever the type.\<close>

theorem config_overread:
  assumes "get 0 9 = Some u" and "length u = 9" and "get 0 (le16 (u ! 2) (u ! 3)) = Some (concat ds @ l # ty # r)"
    and "\<forall>d \<in> set ds. desc_ok d" and "2 \<le> l" and "length r + 2 < unat l" and "0 < pd_NumCfgs pd" and "pd_Configs pd = []"
  shows "pGetDevConfig hex get pd [] = None"
proof -
  let ?b = "concat ds @ l # ty # r" and ?p = "start_parser pd []"
  have m: "pr_Mem ?p = []" by (simp add: start_parser_def)
  have stop: "parse_descs hex ?b (length (concat ds)) q = None" if "pr_Mem q = []" for q
    using assms(5,6) one_desc_beyond [OF that, of ?b "length (concat ds)" l hex] by (subst parse_descs_step) (simp_all add: not_less)
  have "parse_descs hex ?b 0 ?p = do { q \<leftarrow> take_descs hex ds ?p; parse_descs hex ?b (length (concat ds)) q }"
    using parse_descs_mid [OF assms(4), of hex "[]" "l # ty # r" ?p] by simp
  then have p: "parse_descs hex ?b 0 ?p = None" using stop take_descs_mem [OF _ m] by (auto split: bind_splits)
  obtain k where "[0..<unat (pd_NumCfgs pd)] = 0 # k" using assms(7) by (simp add: upt_rec word_less_nat_alt)
  then show ?thesis using assms(1,2,3,8) p by (simp add: pGetDevConfig_def desc_reads psdAllocVec_def)
qed

theorem config_overread_witness:
  "pGetDevConfig (\<lambda>w. ''00'') (one_get [9, 2, 11, 0, 1, 1, 0, 0x80, 50, 4, 0x24]) sample_dev [] = None"
  by (rule config_overread [where ds = "[[9, 2, 11, 0, 1, 1, 0, 0x80, 50]]" and l = "4" and ty = "0x24" and r = "[]" and
        u = "[9, 2, 11, 0, 1, 1, 0, 0x80, 50]"])
    (simp_all add: one_get_def sample_dev_def desc_ok_def min_len_def le16_def)

end
