(* ===== verification/Tree_Query.thy ===== *)
theory Tree_Query
  imports Dsc_Model
begin

text \<open>
  The queries on a device's tree, psdFindInterfaceA(), psdFindEndpointA() and psdFindDescriptorA() of
  src/neptune.library/neptune.library.c: each finds the first object after a given one that fits a list of
  tags.

  A tag list is what FindTagItem() answers for the tags the code asks for: a record of optional
  data. The configuration set, pd_CurrentConfig, and the display names of settings, pif_IfStr, are arguments.
  A query yields \<open>None\<close> when it compares with a name that is a null pointer.
\<close>

section \<open>Tags\<close>

definition tag_ok :: "u32 option \<Rightarrow> u32 \<Rightarrow> bool" where
  "tag_ok ti v = (case ti of None \<Rightarrow> True | Some d \<Rightarrow> d = v)"

definition name_ok :: "string option \<Rightarrow> string option \<Rightarrow> bool option" where
  "name_ok ti v = (case ti of None \<Rightarrow> Some True | Some d \<Rightarrow> (case v of None \<Rightarrow> None | Some s \<Rightarrow> Some (d = s)))"

section \<open>Interfaces\<close>

record if_tags =
  IFA_InterfaceNum :: "u32 option"
  IFA_AlternateNum :: "u32 option"
  IFA_NumEndpoints :: "u32 option"
  IFA_Class :: "u32 option"
  IFA_SubClass :: "u32 option"
  IFA_Protocol :: "u32 option"
  IFA_Binding :: "u32 option"
  IFA_InterfaceName :: "string option"
  IFA_IDString :: "string option"

text \<open>An alternate number above 0xff only asks for alternates to be searched.\<close>

definition take_if :: "if_tags \<Rightarrow> string option \<Rightarrow> psdSetting \<Rightarrow> bool option" where
  "take_if tags name s = do {
     n \<leftarrow> name_ok (IFA_InterfaceName tags) name;
     i \<leftarrow> name_ok (IFA_IDString tags) (pif_IDString s);
     Some (tag_ok (IFA_InterfaceNum tags) (ucast (pif_IfNum s)) \<and>
       (case IFA_AlternateNum tags of None \<Rightarrow> True | Some d \<Rightarrow> d \<le> 0xff \<longrightarrow> d = ucast (pif_Alternate s)) \<and>
       tag_ok (IFA_NumEndpoints tags) (ucast (pif_NumEPs s)) \<and> tag_ok (IFA_Class tags) (ucast (pif_IfClass s)) \<and>
       tag_ok (IFA_SubClass tags) (ucast (pif_IfSubClass s)) \<and> tag_ok (IFA_Protocol tags) (ucast (pif_IfProto s)) \<and>
       tag_ok (IFA_Binding tags) (pif_IfBinding s) \<and> n \<and> i) }"

definition setting_in :: "psdInterface list \<Rightarrow> setting_ptr \<Rightarrow> psdSetting option" where
  "setting_in ifs q = do {
     pif \<leftarrow> index ifs (fst q);
     case snd q of None \<Rightarrow> Some (pif_Main pif) | Some k \<Rightarrow> index (pif_AlterIfs pif) k }"

text \<open>The next node of the walk; the end of the list of interfaces is the place behind the last.\<close>

definition walk_next :: "psdInterface list \<Rightarrow> bool \<Rightarrow> setting_ptr \<Rightarrow> setting_ptr" where
  "walk_next ifs searchalt q = (case snd q of
       None \<Rightarrow> if searchalt \<and> pif_AlterIfs (ifs ! fst q) \<noteq> [] then (fst q, Some 0) else (Suc (fst q), None)
     | Some k \<Rightarrow> if Suc k < length (pif_AlterIfs (ifs ! fst q)) then (fst q, Some (Suc k)) else (Suc (fst q), None))"

function find_if :: "psdInterface list \<Rightarrow> (setting_ptr \<Rightarrow> psdSetting \<Rightarrow> bool option) \<Rightarrow> bool \<Rightarrow> setting_ptr \<Rightarrow> setting_ptr option option" where
  "find_if ifs takeit searchalt q = (case setting_in ifs q of
       None \<Rightarrow> Some None
     | Some s \<Rightarrow> do {
         t \<leftarrow> takeit q s;
         if t then Some (Some q) else find_if ifs takeit searchalt (walk_next ifs searchalt q) })"
  by pat_completeness auto
termination
  by (relation "measures [\<lambda>(ifs, t, sa, q). length ifs - fst q, \<lambda>(ifs, t, sa, q). case snd q of
       None \<Rightarrow> Suc (length (pif_AlterIfs (ifs ! fst q))) | Some k \<Rightarrow> length (pif_AlterIfs (ifs ! fst q)) - k]")
    (auto simp: setting_in_def index_def walk_next_def split: bind_splits option.splits if_splits)

declare find_if.simps [simp del]

text \<open>Where the search goes on from a setting. An alternate's node always has a successor in its list,
  be it the list's end: the other branch of the code is never taken.\<close>

definition start_after :: "psdInterface list \<Rightarrow> bool \<Rightarrow> setting_ptr \<Rightarrow> bool \<times> setting_ptr" where
  "start_after ifs searchalt q = (case snd q of
       Some k \<Rightarrow> (True, (fst q, Some (Suc k)))
     | None \<Rightarrow> if searchalt \<and> pif_AlterIfs (ifs ! fst q) \<noteq> [] then (searchalt, (fst q, Some 0)) else (searchalt, (Suc (fst q), None)))"

definition psdFindInterfaceA :: "psdDevice \<Rightarrow> nat option \<Rightarrow> (nat \<Rightarrow> setting_ptr \<Rightarrow> string option) \<Rightarrow> (nat \<times> setting_ptr) option \<Rightarrow> if_tags
    \<Rightarrow> (nat \<times> setting_ptr) option option" where
  "psdFindInterfaceA pd cur names pif tags = (let searchalt = (IFA_AlternateNum tags \<noteq> None) in
     case (case pif of None \<Rightarrow> map_option (\<lambda>c. (c, None)) cur | Some (c, q) \<Rightarrow> Some (c, Some q)) of
       None \<Rightarrow> Some None
     | Some (c, from_if) \<Rightarrow> do {
         pc \<leftarrow> index (pd_Configs pd) c;
         let ifs = pc_Interfaces pc;
         let (sa, q) = (case from_if of None \<Rightarrow> (searchalt, (0, None)) | Some q \<Rightarrow> start_after ifs searchalt q);
         r \<leftarrow> find_if ifs (\<lambda>q s. take_if tags (names c q) s) sa q;
         Some (map_option (Pair c) r) })"

section \<open>Endpoints and descriptors\<close>

record ep_tags =
  EA_IsIn :: "u32 option"
  EA_EndpointNum :: "u32 option"
  EA_TransferType :: "u32 option"
  EA_MaxPktSize :: "u32 option"
  EA_Interval :: "u32 option"
  EA_MaxBurst :: "u32 option"
  EA_CompAttributes :: "u32 option"
  EA_BytesPerInterval :: "u32 option"

definition take_ep :: "ep_tags \<Rightarrow> psdEndpoint \<Rightarrow> bool" where
  "take_ep tags ep \<longleftrightarrow>
     (case EA_IsIn tags of None \<Rightarrow> True | Some d \<Rightarrow> (d \<noteq> 0) = (pep_Direction ep \<noteq> 0)) \<and>
     tag_ok (EA_EndpointNum tags) (ucast (pep_EPNum ep)) \<and> tag_ok (EA_TransferType tags) (ucast (pep_TransType ep)) \<and>
     tag_ok (EA_MaxPktSize tags) (ucast (pep_MaxPktSize ep)) \<and> tag_ok (EA_Interval tags) (ucast (pep_Interval ep)) \<and>
     tag_ok (EA_MaxBurst tags) (ucast (pep_MaxBurst ep)) \<and> tag_ok (EA_CompAttributes tags) (ucast (pep_CompAttributes ep)) \<and>
     tag_ok (EA_BytesPerInterval tags) (pep_BytesPerInterval ep)"

text \<open>A loop over the nodes of a list from \<open>i\<close>.\<close>

function find_node :: "('a \<Rightarrow> bool) \<Rightarrow> 'a list \<Rightarrow> nat \<Rightarrow> nat option" where
  "find_node takeit xs i = (if i < length xs then if takeit (xs ! i) then Some i else find_node takeit xs (Suc i) else None)"
  by pat_completeness auto
termination by (relation "measure (\<lambda>(t, xs, i). length xs - i)") auto

declare find_node.simps [simp del]

definition psdFindEndpointA :: "psdSetting \<Rightarrow> nat option \<Rightarrow> ep_tags \<Rightarrow> nat option" where
  "psdFindEndpointA pif pep tags = find_node (take_ep tags) (pif_EPs pif) (case pep of None \<Rightarrow> 0 | Some e \<Rightarrow> Suc e)"

text \<open>A pointer tag may be a null pointer: the inner option.\<close>

record desc_tags =
  DDA_Config :: "nat option option"
  DDA_Interface :: "(nat \<times> setting_ptr) option option"
  DDA_Endpoint :: "(nat \<times> setting_ptr \<times> nat) option option"
  DDA_DescriptorType :: "u32 option"
  DDA_CS_SubType :: "u32 option"
  DDA_DescriptorLength :: "u32 option"

text \<open>The objects a descriptor points to: its setting is one of its configuration's, its endpoint one of
  its setting's.\<close>

definition desc_if :: "psdDescriptor \<Rightarrow> (nat \<times> setting_ptr) option" where
  "desc_if d = do { c \<leftarrow> pdd_Config d; q \<leftarrow> pdd_Interface d; Some (c, q) }"

definition desc_ep :: "psdDescriptor \<Rightarrow> (nat \<times> setting_ptr \<times> nat) option" where
  "desc_ep d = do { (c, q) \<leftarrow> desc_if d; e \<leftarrow> pdd_Endpoint d; Some (c, q, e) }"

definition take_dd :: "desc_tags \<Rightarrow> nat option \<Rightarrow> psdDescriptor \<Rightarrow> bool" where
  "take_dd tags cur d \<longleftrightarrow>
     (case DDA_Config tags of None \<Rightarrow> cur = pdd_Config d | Some None \<Rightarrow> True | Some (Some c) \<Rightarrow> pdd_Config d = Some c) \<and>
     (case DDA_Interface tags of None \<Rightarrow> True | Some q \<Rightarrow> q = desc_if d) \<and>
     (case DDA_Endpoint tags of None \<Rightarrow> True | Some e \<Rightarrow> e = desc_ep d) \<and>
     tag_ok (DDA_DescriptorType tags) (ucast (pdd_Type d)) \<and> tag_ok (DDA_CS_SubType tags) (ucast (pdd_CSSubType d)) \<and>
     tag_ok (DDA_DescriptorLength tags) (ucast (pdd_Length d))"

definition psdFindDescriptorA :: "psdDevice \<Rightarrow> nat option \<Rightarrow> nat option \<Rightarrow> desc_tags \<Rightarrow> nat option" where
  "psdFindDescriptorA pd cur pdd tags = find_node (take_dd tags cur) (pd_Descriptors pd) (case pdd of None \<Rightarrow> 0 | Some i \<Rightarrow> Suc i)"

end
