(* ===== verification/Tree_Walk.thy ===== *)
theory Tree_Walk
  imports Tree_Query
begin

text \<open>
  Enumerating with a query: a client asks again and again for the object after the last one found.
\<close>

declare split_paired_All [simp del] split_paired_Ex [simp del]

section \<open>Enumerations\<close>

text \<open>A client's loop, of at most \<open>n\<close> objects.\<close>

fun ask_all :: "nat \<Rightarrow> ('p option \<Rightarrow> 'p option option) \<Rightarrow> 'p option \<Rightarrow> 'p list option" where
  "ask_all 0 ask p = Some []"
| "ask_all (Suc n) ask p = do {
     r \<leftarrow> ask p;
     case r of None \<Rightarrow> Some [] | Some q \<Rightarrow> do { qs \<leftarrow> ask_all n ask (Some q); Some (q # qs) } }"

text \<open>A list up to and with the first element that is a last one.\<close>

fun cut_after :: "('p \<Rightarrow> bool) \<Rightarrow> 'p list \<Rightarrow> 'p list" where
  "cut_after final [] = []"
| "cut_after final (x # xs) = x # (if final x then [] else cut_after final xs)"

lemma cut_after_none: "\<forall>x \<in> set xs. \<not> final x \<Longrightarrow> cut_after final xs = xs"
  by (induction xs) simp_all

lemma find_split: "find P xs = Some x \<Longrightarrow> \<exists>us vs. xs = us @ x # vs \<and> P x \<and> (\<forall>u \<in> set us. \<not> P u)"
proof (induction xs)
  case (Cons y xs)
  show ?case
  proof (cases "P y")
    case True
    then have "y # xs = [] @ x # xs" "P x" using Cons.prems by simp_all
    then show ?thesis by fastforce
  next
    case False
    then obtain us vs where "xs = us @ x # vs \<and> P x \<and> (\<forall>u \<in> set us. \<not> P u)" using Cons by auto
    then have "y # xs = (y # us) @ x # vs \<and> P x \<and> (\<forall>u \<in> set (y # us). \<not> P u)" using False by simp
    then show ?thesis by blast
  qed
qed simp

text \<open>What a query promises: it gives the first object of the walk that fits, after the one given,
  unless that one is final. \<open>ok\<close> is the condition under which it compares no null pointers.\<close>

locale query =
  fixes walk :: "'p list" and fits :: "'p \<Rightarrow> bool" and final :: "'p \<Rightarrow> bool" and ok :: bool
    and ask :: "'p option \<Rightarrow> 'p option option"
  assumes first: "ok \<Longrightarrow> ask None = Some (find fits walk)"
    and after: "ok \<Longrightarrow> walk = xs @ q # ys \<Longrightarrow> ask (Some q) = Some (if final q then None else find fits ys)"
begin

lemma enumerates_from:
  assumes "ok" and "walk = xs @ ys" and "ask p = Some (find fits ys)" and "length ys \<le> n"
  shows "ask_all n ask p = Some (cut_after final (filter fits ys))"
  using assms
proof (induction n arbitrary: xs ys p)
  case (Suc n)
  show ?case
  proof (cases "find fits ys")
    case None
    moreover from this have "filter fits ys = []" by (simp add: find_None_iff)
    ultimately show ?thesis using Suc.prems(3) by simp
  next
    case (Some q)
    then obtain us vs where ys: "ys = us @ q # vs" "fits q" "\<forall>u \<in> set us. \<not> fits u"
      using find_split by metis
    have w: "walk = (xs @ us) @ q # vs" using Suc.prems(2) ys by simp
    have "filter fits us = []" using ys(3) by simp
    then have "filter fits ys = q # filter fits vs" using ys(1,2) by simp
    moreover have "ask_all n ask (Some q) = Some (if final q then [] else cut_after final (filter fits vs))"
    proof (cases "final q")
      case True
      then show ?thesis using after [OF Suc.prems(1) w] by (cases n) simp_all
    next
      case False
      then show ?thesis
        using Suc.IH [of "xs @ us @ [q]" vs "Some q"] Suc.prems ys(1) w after [OF Suc.prems(1) w] by simp
    qed
    ultimately show ?thesis using Suc.prems(3) Some by simp
  qed
qed simp

lemma enumerates: "ok \<Longrightarrow> length walk \<le> n \<Longrightarrow> ask_all n ask None = Some (cut_after final (filter fits walk))"
  using enumerates_from [of "[]" walk None n] first by simp

end

section \<open>Lists of nodes\<close>

lemma find_node_find: "find_node takeit xs i = find (\<lambda>j. takeit (xs ! j)) [i..<length xs]"
proof (induction "length xs - i" arbitrary: i)
  case 0
  then show ?case by (simp add: find_node.simps)
next
  case (Suc n)
  then have "i < length xs" "[i..<length xs] = i # [Suc i..<length xs]" by (simp_all add: upt_conv_Cons)
  then show ?case using Suc by (subst find_node.simps) simp
qed

lemma upt_split: "[0..<n] = xs @ q # ys \<Longrightarrow> ys = [Suc q..<n]"
proof -
  assume a: "[0..<n] = xs @ q # ys"
  then have "length xs < length [0..<n]" "[0..<n] ! length xs = q" by (simp_all only: nth_append_length) simp
  then have "q = length xs" "length xs < n" by simp_all
  then show ?thesis using arg_cong [OF a, of "drop (Suc (length xs))"] by simp
qed

lemma node_query: "query [0..<length xs] (\<lambda>j. takeit (xs ! j)) (\<lambda>_. False) True
    (\<lambda>p. Some (find_node takeit xs (case p of None \<Rightarrow> 0 | Some i \<Rightarrow> Suc i)))"
  by unfold_locales (auto simp: find_node_find dest: upt_split)

interpretation endpoints: query "[0..<length (pif_EPs s)]" "\<lambda>e. take_ep tags (pif_EPs s ! e)" "\<lambda>_. False" True
    "\<lambda>p. Some (psdFindEndpointA s p tags)" for s tags
  unfolding psdFindEndpointA_def by (rule node_query)

interpretation descriptors: query "[0..<length (pd_Descriptors pd)]" "\<lambda>d. take_dd tags cur (pd_Descriptors pd ! d)" "\<lambda>_. False" True
    "\<lambda>p. Some (psdFindDescriptorA pd cur p tags)" for pd cur tags
  unfolding psdFindDescriptorA_def by (rule node_query)

section \<open>The walk over settings\<close>

definition places :: "psdInterface list \<Rightarrow> bool \<Rightarrow> nat \<Rightarrow> setting_ptr list" where
  "places ifs sa i = (i, None) # (if sa then map (\<lambda>k. (i, Some k)) [0..<length (pif_AlterIfs (ifs ! i))] else [])"

definition if_walk :: "psdInterface list \<Rightarrow> bool \<Rightarrow> setting_ptr list" where
  "if_walk ifs sa = concat (map (places ifs sa) [0..<length ifs])"

definition last_alter :: "psdInterface list \<Rightarrow> setting_ptr \<Rightarrow> bool" where
  "last_alter ifs q = (case snd q of None \<Rightarrow> False | Some k \<Rightarrow> Suc k = length (pif_AlterIfs (ifs ! fst q)))"

text \<open>What is left of the walk at a place.\<close>

definition rest :: "psdInterface list \<Rightarrow> bool \<Rightarrow> setting_ptr \<Rightarrow> setting_ptr list" where
  "rest ifs sa q = (let n = fst q; more = concat (map (places ifs sa) [Suc n..<length ifs]) in case snd q of
       None \<Rightarrow> if n < length ifs then places ifs sa n @ more else []
     | Some k \<Rightarrow> map (\<lambda>k. (n, Some k)) [k..<length (pif_AlterIfs (ifs ! n))] @ more)"

lemma rest_walk: "rest ifs sa (0, None) = if_walk ifs sa"
  by (auto simp: rest_def if_walk_def upt_rec [of 0] Let_def)

lemma rest_main: "rest ifs sa (i, None) = concat (map (places ifs sa) [i..<length ifs])"
  by (auto simp: rest_def upt_rec [of i] Let_def)

lemma rest_Cons:
  assumes "setting_in ifs q \<noteq> None" and "snd q \<noteq> None \<longrightarrow> sa"
  shows "rest ifs sa q = q # rest ifs sa (walk_next ifs sa q)"
proof (cases "snd q")
  case None
  then have i: "fst q < length ifs" "q = (fst q, None)" using assms(1) by (auto simp: setting_in_def index_def prod_eq_iff split: bind_splits if_splits)
  then show ?thesis using None rest_main [of ifs sa "Suc (fst q)"]
    by (cases "pif_AlterIfs (ifs ! fst q)") (auto simp: rest_def places_def walk_next_def Let_def)
next
  case (Some k)
  then have k: "k < length (pif_AlterIfs (ifs ! fst q))" "q = (fst q, Some k)" "sa"
    using assms by (auto simp: setting_in_def index_def prod_eq_iff split: bind_splits if_splits)
  then show ?thesis using Some rest_main [of ifs sa "Suc (fst q)"]
    by (auto simp: rest_def walk_next_def Let_def upt_rec [of k])
qed

lemma next_alter: "snd (walk_next ifs sa q) \<noteq> None \<Longrightarrow> snd q \<noteq> None \<longrightarrow> sa \<Longrightarrow> sa"
  by (auto simp: walk_next_def split: option.splits if_splits)

lemma next_valid:
  assumes "setting_in ifs q \<noteq> None"
  shows "setting_in ifs (walk_next ifs sa q) \<noteq> None \<or> rest ifs sa (walk_next ifs sa q) = []"
  using assms by (auto simp: walk_next_def setting_in_def index_def rest_def split: option.splits bind_splits if_splits)

lemma find_if_rest:
  assumes "\<And>q s. setting_in ifs q = Some s \<Longrightarrow> takeit q s = Some (g q)"
    and "snd q \<noteq> None \<longrightarrow> sa" and "setting_in ifs q \<noteq> None \<or> rest ifs sa q = []"
  shows "find_if ifs takeit sa q = Some (find g (rest ifs sa q))"
  using assms
proof (induction ifs takeit sa q rule: find_if.induct)
  case (1 ifs takeit sa q)
  show ?case
  proof (cases "setting_in ifs q")
    case None
    then show ?thesis using "1.prems"(3) by (subst find_if.simps) simp
  next
    case (Some s)
    let ?n = "walk_next ifs sa q"
    note r = rest_Cons [of ifs q sa] and t = "1.prems"(1) [OF Some]
    show ?thesis
    proof (cases "g q")
      case True
      then show ?thesis using Some t r "1.prems"(2) by (subst find_if.simps) simp
    next
      case False
      have "snd ?n \<noteq> None \<longrightarrow> sa" using next_alter "1.prems"(2) by blast
      moreover have "setting_in ifs ?n \<noteq> None \<or> rest ifs sa ?n = []" using next_valid [of ifs q sa] Some by simp
      ultimately have "find_if ifs takeit sa ?n = Some (find g (rest ifs sa ?n))"
        using "1.IH" [OF Some t] False "1.prems"(1) by blast
      then show ?thesis using Some t r "1.prems"(2) False by (subst find_if.simps) simp
    qed
  qed
qed

lemma rest_split: "rest ifs sa p = xs @ q # ys \<Longrightarrow> setting_in ifs p \<noteq> None \<or> rest ifs sa p = [] \<Longrightarrow> snd p \<noteq> None \<longrightarrow> sa \<Longrightarrow>
   setting_in ifs q \<noteq> None \<and> (snd q \<noteq> None \<longrightarrow> sa) \<and> rest ifs sa q = q # ys"
proof (induction xs arbitrary: p)
  case Nil
  then show ?case using rest_Cons [of ifs p sa] by auto
next
  case (Cons x xs)
  then have v: "setting_in ifs p \<noteq> None" by auto
  then have "rest ifs sa (walk_next ifs sa p) = xs @ q # ys" using rest_Cons [of ifs p sa] Cons.prems by simp
  then show ?case using Cons.IH next_valid [OF v] next_alter Cons.prems(3) by metis
qed

lemma find_interface_first:
  assumes "cur = Some c" and "c < length (pd_Configs pd)" and "ifs = pc_Interfaces (pd_Configs pd ! c)"
    and "sa = (IFA_AlternateNum tags \<noteq> None)"
    and "\<And>q s. setting_in ifs q = Some s \<Longrightarrow> take_if tags (names c q) s = Some (g q)"
  shows "psdFindInterfaceA pd cur names None tags = Some (map_option (Pair c) (find g (if_walk ifs sa)))"
proof -
  have "setting_in ifs (0, None) \<noteq> None \<or> rest ifs sa (0, None) = []"
    by (auto simp: setting_in_def index_def rest_def)
  then show ?thesis using find_if_rest [of ifs "\<lambda>q s. take_if tags (names c q) s" g "(0, None)" sa] assms
    by (simp add: psdFindInterfaceA_def rest_walk index_def)
qed

lemma find_interface_after:
  assumes "c < length (pd_Configs pd)" and "ifs = pc_Interfaces (pd_Configs pd ! c)" and "sa = (IFA_AlternateNum tags \<noteq> None)"
    and "\<And>q s. setting_in ifs q = Some s \<Longrightarrow> take_if tags (names c q) s = Some (g q)"
    and "if_walk ifs sa = xs @ q # ys"
  shows "psdFindInterfaceA pd cur names (Some (c, q)) tags = Some (map_option (Pair c) (if last_alter ifs q then None else find g ys))"
proof -
  have "setting_in ifs (0, None) \<noteq> None \<or> rest ifs sa (0, None) = []"
    by (auto simp: setting_in_def index_def rest_def)
  then have q: "setting_in ifs q \<noteq> None" "snd q \<noteq> None \<longrightarrow> sa" "rest ifs sa q = q # ys"
    using rest_split [of ifs sa "(0, None)" xs q ys] assms(5) by (auto simp: rest_walk)
  then have ys: "ys = rest ifs sa (walk_next ifs sa q)" using rest_Cons [OF q(1,2)] by simp
  show ?thesis
  proof (cases "last_alter ifs q")
    case True
    obtain sa' q' where s: "start_after ifs sa q = (sa', q')" by (cases "start_after ifs sa q")
    then have "setting_in ifs q' = None" using True
      by (auto simp: last_alter_def start_after_def setting_in_def index_def split: option.splits)
    then have "find_if ifs t sa' q' = Some None" for t by (subst find_if.simps) simp
    then show ?thesis using True assms(1-3) s by (simp add: psdFindInterfaceA_def index_def)
  next
    case False
    then have s: "start_after ifs sa q = (sa, walk_next ifs sa q)" using q(1,2)
      by (auto simp: last_alter_def start_after_def walk_next_def setting_in_def index_def split: option.splits bind_splits if_splits)
    have "snd (walk_next ifs sa q) \<noteq> None \<longrightarrow> sa" using next_alter q(2) by blast
    then have "find_if ifs (\<lambda>q s. take_if tags (names c q) s) sa (walk_next ifs sa q) = Some (find g ys)"
      using find_if_rest [of ifs "\<lambda>q s. take_if tags (names c q) s" g "walk_next ifs sa q" sa] next_valid [OF q(1), of sa] assms(4) ys
      by blast
    then show ?thesis using assms(1-3) False s by (simp add: psdFindInterfaceA_def index_def Let_def)
  qed
qed

section \<open>The settings of the configuration set\<close>

definition cur_ifs :: "psdDevice \<Rightarrow> nat option \<Rightarrow> psdInterface list" where
  "cur_ifs pd cur = pc_Interfaces (pd_Configs pd ! the cur)"

text \<open>There is a configuration set, and no setting lacks a name the tags ask for.\<close>

definition named :: "psdDevice \<Rightarrow> nat option \<Rightarrow> (nat \<Rightarrow> setting_ptr \<Rightarrow> string option) \<Rightarrow> if_tags \<Rightarrow> bool" where
  "named pd cur names tags \<longleftrightarrow> cur \<noteq> None \<and> the cur < length (pd_Configs pd) \<and>
     (\<forall>q s. setting_in (cur_ifs pd cur) q = Some s \<longrightarrow>
       (IFA_InterfaceName tags \<noteq> None \<longrightarrow> names (the cur) q \<noteq> None) \<and> (IFA_IDString tags \<noteq> None \<longrightarrow> pif_IDString s \<noteq> None))"

definition fits_if :: "psdDevice \<Rightarrow> nat option \<Rightarrow> (nat \<Rightarrow> setting_ptr \<Rightarrow> string option) \<Rightarrow> if_tags \<Rightarrow> nat \<times> setting_ptr \<Rightarrow> bool" where
  "fits_if pd cur names tags p \<longleftrightarrow> take_if tags (names (fst p) (snd p)) (the (setting_in (cur_ifs pd cur) (snd p))) = Some True"

abbreviation all_ifs :: "psdDevice \<Rightarrow> nat option \<Rightarrow> if_tags \<Rightarrow> (nat \<times> setting_ptr) list" where
  "all_ifs pd cur tags \<equiv> map (Pair (the cur)) (if_walk (cur_ifs pd cur) (IFA_AlternateNum tags \<noteq> None))"

lemma take_if_named:
  "named pd cur names tags \<Longrightarrow> setting_in (cur_ifs pd cur) q = Some s \<Longrightarrow>
     take_if tags (names (the cur) q) s = Some (fits_if pd cur names tags (the cur, q))"
  by (fastforce simp: take_if_def named_def fits_if_def name_ok_def split: option.splits)

lemma find_map_Pair: "map_option (Pair c) (find (\<lambda>q. f (c, q)) xs) = find f (map (Pair c) xs)"
  by (induction xs) auto

lemma map_Pair_split: "map (Pair c) ws = xs @ q # ys \<Longrightarrow>
   \<exists>us p vs. ws = us @ p # vs \<and> q = (c, p) \<and> ys = map (Pair c) vs"
  by (auto simp: map_eq_append_conv map_eq_Cons_conv)

interpretation interfaces: query "all_ifs pd cur tags" "fits_if pd cur names tags" "\<lambda>p. last_alter (cur_ifs pd cur) (snd p)"
    "named pd cur names tags" "\<lambda>p. psdFindInterfaceA pd cur names p tags" for pd cur names tags
proof
  assume ok: "named pd cur names tags"
  then have c: "cur = Some (the cur)" "the cur < length (pd_Configs pd)" by (auto simp: named_def)
  note f = take_if_named [OF ok]
  show "psdFindInterfaceA pd cur names None tags = Some (find (fits_if pd cur names tags) (all_ifs pd cur tags))"
    using find_interface_first [where g = "\<lambda>q. fits_if pd cur names tags (the cur, q)" and names = names, OF c cur_ifs_def refl f] by (simp add: find_map_Pair)
  fix xs q ys assume "all_ifs pd cur tags = xs @ q # ys"
  then obtain us p vs where w: "if_walk (cur_ifs pd cur) (IFA_AlternateNum tags \<noteq> None) = us @ p # vs" "q = (the cur, p)" "ys = map (Pair (the cur)) vs"
    using map_Pair_split by metis
  show "psdFindInterfaceA pd cur names (Some q) tags =
      Some (if last_alter (cur_ifs pd cur) (snd q) then None else find (fits_if pd cur names tags) ys)"
    using find_interface_after [where g = "\<lambda>q. fits_if pd cur names tags (the cur, q)" and names = names, OF c(2) cur_ifs_def refl f w(1)] w(2,3) by (simp add: find_map_Pair)
qed

end
