(* ===== verification/Tree_Alt.thy ===== *)
theory Tree_Alt
  imports Dsc_Types Tree_Walk "HOL-Library.Multiset"
begin

text \<open>
  Changing to another setting of an interface, psdSetAltInterface() of
  src/neptune.library/neptune.library.c: the host controller's endpoints are exchanged, the device is told
  and asked, and then the setting takes the place of the interface's main one in the tree, with its
  bindings.

  A pointer to a setting is its place, so a setting that is moved in the lists gets a new one:
  \<open>place_after\<close> is where a setting has gone, and the pointers of the descriptors follow.
  pif_ParentIf is the interface a setting is an alternate of. The answers of the controller and of
  the device are a parameter; the locks of the device are not modelled.
\<close>

section \<open>Moving a setting\<close>

definition remove_at :: "nat \<Rightarrow> 'a list \<Rightarrow> 'a list" where
  "remove_at i xs = take i xs @ drop (Suc i) xs"

text \<open>Remove() of a setting's node: the setting with the list of its alternates, and the other
  interfaces.\<close>

definition take_node :: "psdInterface list \<Rightarrow> setting_ptr \<Rightarrow> psdInterface \<times> psdInterface list" where
  "take_node ifs q = (let pif = ifs ! fst q in case snd q of
       None \<Rightarrow> (pif, remove_at (fst q) ifs)
     | Some k \<Rightarrow> (\<lparr>pif_Main = pif_AlterIfs pif ! k, pif_AlterIfs = []\<rparr>,
         ifs[fst q := pif\<lparr>pif_AlterIfs := remove_at k (pif_AlterIfs pif)\<rparr>]))"

definition switch_alt :: "psdInterface list \<Rightarrow> setting_ptr \<Rightarrow> nat \<Rightarrow> psdInterface list" where
  "switch_alt ifs q j = (let (pif, ifs) = take_node ifs q; curif = ifs ! j; s = pif_Main pif; t = pif_Main curif in
     ifs[j := \<lparr>pif_Main = s\<lparr>pif_IfBinding := pif_IfBinding t, pif_ClsBinding := pif_ClsBinding t\<rparr>,
       pif_AlterIfs = pif_AlterIfs pif @ pif_AlterIfs curif @ [t\<lparr>pif_IfBinding := 0, pif_ClsBinding := 0\<rparr>]\<rparr>])"

text \<open>Where the node at \<open>p\<close> has gone: when the one at \<open>q\<close> was removed, and when it was put in place of
  the interface \<open>j\<close> with \<open>a\<close> alternates of its own before the \<open>m\<close> others.\<close>

definition place_removed :: "setting_ptr \<Rightarrow> setting_ptr \<Rightarrow> setting_ptr" where
  "place_removed q p = (case snd q of
       None \<Rightarrow> (if fst q < fst p then fst p - 1 else fst p, snd p)
     | Some k \<Rightarrow> (fst p, map_option (\<lambda>r. if fst p = fst q \<and> k < r then r - 1 else r) (snd p)))"

definition place_after :: "psdInterface list \<Rightarrow> setting_ptr \<Rightarrow> nat \<Rightarrow> setting_ptr \<Rightarrow> setting_ptr" where
  "place_after ifs q j p = (let (pif, ifs) = take_node ifs q; a = length (pif_AlterIfs pif); m = length (pif_AlterIfs (ifs ! j)) in
     if p = q then (j, None)
     else if snd q = None \<and> fst p = fst q then (j, snd p)
     else let p = place_removed q p in
       if fst p = j then (j, Some (case snd p of None \<Rightarrow> a + m | Some r \<Rightarrow> a + r)) else p)"

definition desc_after :: "nat \<Rightarrow> (setting_ptr \<Rightarrow> setting_ptr) \<Rightarrow> psdDescriptor \<Rightarrow> psdDescriptor" where
  "desc_after c f d = (if pdd_Config d = Some c then d\<lparr>pdd_Interface := map_option f (pdd_Interface d)\<rparr> else d)"

section \<open>The exchange\<close>

text \<open>What the host controller driver and the device answer: to the exchange of the endpoints, to
  SET_INTERFACE, to GET_INTERFACE (with the setting's number), and to the exchange back.\<close>

record alt_wire =
  aw_Hop :: u32
  aw_Set :: u32
  aw_Get :: u32
  aw_Alt :: u8
  aw_Back :: u32

abbreviation STALLED :: u32 where "STALLED \<equiv> 4"

text \<open>The exchanges of endpoints asked for: the setting they are taken from, the one they are given to, and
  the answer.\<close>

type_synonym exchange = "setting_ptr \<times> setting_ptr \<times> u32"

definition switched :: "psdDevice \<Rightarrow> nat \<Rightarrow> setting_ptr \<Rightarrow> nat \<Rightarrow> psdDevice" where
  "switched pd c q j = (let pc = pd_Configs pd ! c; ifs = pc_Interfaces pc in
     pd\<lparr>pd_Configs := (pd_Configs pd)[c := pc\<lparr>pc_Interfaces := switch_alt ifs q j\<rparr>],
        pd_Descriptors := map (desc_after c (place_after ifs q j)) (pd_Descriptors pd)\<rparr>)"

definition psdSetAltInterface :: "psdDevice \<Rightarrow> nat \<Rightarrow> setting_ptr \<Rightarrow> alt_wire option \<Rightarrow> (bool \<times> psdDevice \<times> exchange list) option" where
  "psdSetAltInterface pd c q pp = do {
     pif \<leftarrow> setting_of pd c q;
     pc \<leftarrow> index (pd_Configs pd) c;
     case find_node (\<lambda>curif. pif_IfNum (pif_Main curif) = pif_IfNum pif) (pc_Interfaces pc) 0 of
       None \<Rightarrow> Some (False, pd, [])
     | Some j \<Rightarrow>
         if (j, None) = q then Some (True, pd, [])
         else (case pp of
             None \<Rightarrow> if pif_Alternate pif = pif_Alternate pif AND 0xff then Some (True, switched pd c q j, []) else Some (False, pd, [])
           | Some w \<Rightarrow> let there = ((j, None), q, aw_Hop w); back = (q, (j, None), aw_Back w) in
               if aw_Hop w \<noteq> 0 then Some (False, pd, [there])
               else if aw_Set w \<noteq> 0 \<and> aw_Set w \<noteq> STALLED then Some (False, pd, [there, back])
               else if aw_Get w \<noteq> 0 then Some (False, pd, [there, back])
               else if pif_Alternate pif = ucast (aw_Alt w) then Some (True, switched pd c q j, [there])
               else Some (False, pd, [there, back])) }"

section \<open>Places\<close>

definition unbound :: "psdSetting \<Rightarrow> psdSetting" where
  "unbound s = s\<lparr>pif_IfBinding := 0, pif_ClsBinding := 0\<rparr>"

lemma nth_remove_at: "i < length xs \<Longrightarrow> remove_at i xs ! j = (if j < i then xs ! j else xs ! Suc j)"
  by (simp add: remove_at_def nth_append)

lemma length_remove_at [simp]: "i < length xs \<Longrightarrow> length (remove_at i xs) = length xs - 1"
  by (simp add: remove_at_def)

lemma setting_in_cases:
  assumes "setting_in ifs q = Some s"
  obtains (main) i where "q = (i, None)" "i < length ifs" "s = pif_Main (ifs ! i)"
  | (alt) i k where "q = (i, Some k)" "i < length ifs" "k < length (pif_AlterIfs (ifs ! i))" "s = pif_AlterIfs (ifs ! i) ! k"
  using assms by (cases q; cases "snd q") (auto simp: setting_in_def index_def split: bind_splits if_splits)

lemma setting_in_simps: "setting_in ifs (i, None) = (if i < length ifs then Some (pif_Main (ifs ! i)) else None)"
  "setting_in ifs (i, Some k) = (if i < length ifs \<and> k < length (pif_AlterIfs (ifs ! i)) then Some (pif_AlterIfs (ifs ! i) ! k) else None)"
  by (auto simp: setting_in_def index_def)

lemma unbound_simps [simp]: "unbound (s\<lparr>pif_IfBinding := a, pif_ClsBinding := b\<rparr>) = unbound s"
  by (simp add: unbound_def)

text \<open>A setting is found again where it has gone.\<close>

lemma switch_alt_keeps:
  assumes "setting_in ifs q = Some s" and "j < length ifs" and "snd q = None \<Longrightarrow> j < fst q" and "setting_in ifs p = Some t"
  shows "\<exists>t'. setting_in (switch_alt ifs q j) (place_after ifs q j p) = Some t' \<and> unbound t' = unbound t"
  using assms(1)
proof (cases rule: setting_in_cases)
  case (main i)
  then have j: "j < i" using assms(3) by simp
  from assms(4) show ?thesis
  proof (cases rule: setting_in_cases)
    case main': (main i')
    show ?thesis using main main' j
      by (cases "i' = i"; cases "i < i'"; cases "i' = j")
        (auto simp: Let_def switch_alt_def take_node_def place_after_def place_removed_def setting_in_simps nth_remove_at nth_append nth_list_update)
  next
    case (alt i' k)
    show ?thesis using main alt j
      by (cases "i' = i"; cases "i < i'"; cases "i' = j")
        (auto simp: Let_def switch_alt_def take_node_def place_after_def place_removed_def setting_in_simps nth_remove_at nth_append nth_list_update)
  qed
next
  case (alt i k)
  from assms(4) show ?thesis
  proof (cases rule: setting_in_cases)
    case (main i')
    show ?thesis using alt main assms(2)
      by (cases "i' = i"; cases "i = j"; cases "i' = j")
        (auto simp: Let_def switch_alt_def take_node_def place_after_def place_removed_def setting_in_simps nth_remove_at nth_append nth_list_update)
  next
    case alt': (alt i' r)
    show ?thesis using alt alt' assms(2)
      by (cases "i' = i"; cases "i = j"; cases "i' = j"; cases "r < k"; cases "r = k")
        (auto simp: Let_def switch_alt_def take_node_def place_after_def place_removed_def setting_in_simps nth_remove_at nth_append nth_list_update)
  qed
qed

end
