(* ===== verification/Tree_Props.thy ===== *)
theory Tree_Props
  imports Tree_Alt Dsc_Read
begin

text \<open>
  What the queries on a device's tree give a client that asks again and again, where they stop too
  early, and what changing a setting does to the tree and to the controller.
\<close>

section \<open>Queries\<close>

text \<open>C8: a client that asks psdFindInterfaceA() again and again for the next interface that fits its tags,
  from no interface on and where no setting lacks a name the tags compare, gets exactly the fitting main
  settings of the configuration in order; if it asks for an alternate number, exactly the fitting settings,
  each main one followed by its alternates, but only up to the first fitting one that is the last
  alternate of its interface: from there the query answers NULL, and all further interfaces are lost.\<close>

theorem interfaces_enumerated:
  assumes "named pd cur names tags" and "length (all_ifs pd cur tags) \<le> n"
  shows "ask_all n (\<lambda>p. psdFindInterfaceA pd cur names p tags) None =
    Some (cut_after (\<lambda>p. last_alter (cur_ifs pd cur) (snd p)) (filter (fits_if pd cur names tags) (all_ifs pd cur tags)))"
  by (rule interfaces.enumerates [OF assms])

definition small_setting :: "u16 \<Rightarrow> u16 \<Rightarrow> psdSetting" where
  "small_setting i a = \<lparr>pif_IfNum = i, pif_Alternate = a, pif_NumEPs = 0, pif_IfClass = 3, pif_IfSubClass = 0, pif_IfProto = 0,
     pif_IDString = None, pif_IfBinding = 0, pif_ClsBinding = 0, pif_EPs = []\<rparr>"

definition two_ifs :: psdDevice where
  "two_ifs = \<lparr>pd_Flags = 0, pd_NumCfgs = 1, pd_Configs = [\<lparr>pc_CfgNum = 1, pc_Attr = 0, pc_MaxPower = 0, pc_NumIfs = 2,
     pc_Interfaces = [\<lparr>pif_Main = small_setting 0 0, pif_AlterIfs = [small_setting 0 1]\<rparr>, \<lparr>pif_Main = small_setting 1 0, pif_AlterIfs = []\<rparr>]\<rparr>],
     pd_Descriptors = []\<rparr>"

definition alt_tags :: if_tags where
  "alt_tags = \<lparr>IFA_InterfaceNum = None, IFA_AlternateNum = Some 0xffffffff, IFA_NumEndpoints = None, IFA_Class = Some 3,
     IFA_SubClass = None, IFA_Protocol = None, IFA_Binding = None, IFA_InterfaceName = None, IFA_IDString = None\<rparr>"

text \<open>Of three settings that fit the client gets two: the second interface is lost.\<close>

theorem interfaces_enumerated_witness:
  "ask_all 3 (\<lambda>p. psdFindInterfaceA two_ifs (Some 0) (\<lambda>_ _. None) p alt_tags) None = Some [(0, (0, None)), (0, (0, Some 0))] \<and>
   filter (fits_if two_ifs (Some 0) (\<lambda>_ _. None) alt_tags) (all_ifs two_ifs (Some 0) alt_tags) =
     [(0, (0, None)), (0, (0, Some 0)), (0, (1, None))]"
proof -
  have w: "all_ifs two_ifs (Some 0) alt_tags = [(0, (0, None)), (0, (0, Some 0)), (0, (1, None))]"
    by (simp add: if_walk_def places_def cur_ifs_def two_ifs_def alt_tags_def upt_rec)
  have n: "named two_ifs (Some 0) (\<lambda>_ _. None) alt_tags" by (simp add: named_def two_ifs_def alt_tags_def)
  have f: "filter (fits_if two_ifs (Some 0) (\<lambda>_ _. None) alt_tags) (all_ifs two_ifs (Some 0) alt_tags) =
      [(0, (0, None)), (0, (0, Some 0)), (0, (1, None))]"
    unfolding w by (simp add: fits_if_def cur_ifs_def two_ifs_def setting_in_def index_def take_if_def name_ok_def tag_ok_def alt_tags_def small_setting_def)
  have l: "\<not> last_alter (cur_ifs two_ifs (Some 0)) (0, None)" "last_alter (cur_ifs two_ifs (Some 0)) (0, Some 0)"
    by (simp_all add: last_alter_def cur_ifs_def two_ifs_def)
  have "length (all_ifs two_ifs (Some 0) alt_tags) \<le> 3" unfolding w by simp
  note e = interfaces_enumerated [OF n this, unfolded f]
  show ?thesis unfolding e f using l by simp
qed

text \<open>The endpoints of a setting and the descriptors of a device are enumerated whole.\<close>

lemma endpoints_enumerated:
  "ask_all (length (pif_EPs s)) (\<lambda>p. Some (psdFindEndpointA s p tags)) None =
     Some (filter (\<lambda>e. take_ep tags (pif_EPs s ! e)) [0..<length (pif_EPs s)])"
  using endpoints.enumerates [of s "length (pif_EPs s)" tags] by (simp add: cut_after_none)

lemma descriptors_enumerated:
  "ask_all (length (pd_Descriptors pd)) (\<lambda>p. Some (psdFindDescriptorA pd cur p tags)) None =
     Some (filter (\<lambda>d. take_dd tags cur (pd_Descriptors pd ! d)) [0..<length (pd_Descriptors pd)])"
  by (simp add: descriptors.enumerates cut_after_none)

section \<open>Changing a setting\<close>

text \<open>The setting that has the controller's endpoints after the exchanges that succeeded.\<close>

definition active_after :: "setting_ptr \<Rightarrow> exchange list \<Rightarrow> setting_ptr" where
  "active_after a xs = foldl (\<lambda>a (from_if, to_if, err). if err = 0 \<and> a = from_if then to_if else a) a xs"

lemma set_alt_total: "setting_of pd c q = Some s \<Longrightarrow> \<exists>ok pd' xs. psdSetAltInterface pd c q pp = Some (ok, pd', xs)"
  using setting_of_config [of pd c q] by (auto simp: psdSetAltInterface_def index_def Let_def split: option.split)

text \<open>The controller and the tree agree on the setting in use, if the exchange back goes through.\<close>

lemma set_alt_agrees:
  assumes "psdSetAltInterface pd c q pp = Some (ok, pd', xs)" and "xs \<noteq> []" and "pp = Some w" and "aw_Back w = 0"
  shows "\<exists>j. active_after (j, None) xs = (if ok then q else (j, None)) \<and> (\<not> ok \<longrightarrow> pd' = pd)"
  using assms by (auto simp: psdSetAltInterface_def active_after_def Let_def split: bind_splits option.splits if_splits)

lemma find_node_first:
  "find_node f xs i = Some j \<Longrightarrow> j < length xs \<and> f (xs ! j) \<and> (\<forall>k. i \<le> k \<longrightarrow> k < j \<longrightarrow> \<not> f (xs ! k))"
proof (induction "length xs - i" arbitrary: i)
  case 0
  then show ?case by (simp add: find_node.simps)
next
  case (Suc n)
  then have i: "i < length xs" by simp
  show ?case
  proof (cases "f (xs ! i)")
    case True
    then show ?thesis using Suc.prems i by (subst (asm) find_node.simps) simp
  next
    case False
    then have "find_node f xs (Suc i) = Some j" using Suc.prems i by (subst (asm) find_node.simps) simp
    then have "j < length xs \<and> f (xs ! j) \<and> (\<forall>k. Suc i \<le> k \<longrightarrow> k < j \<longrightarrow> \<not> f (xs ! k))"
      using Suc.hyps(1) [of "Suc i"] Suc.hyps(2) by simp
    then show ?thesis using False by (metis Suc_leI le_neq_implies_less)
  qed
qed

lemma setting_of_in: "setting_of pd c q = (if c < length (pd_Configs pd) then setting_in (pc_Interfaces (pd_Configs pd ! c)) q else None)"
  by (simp add: setting_of_def setting_in_def index_def)

lemma desc_after_id [simp]: "desc_after c id d = d"
  by (simp add: desc_after_def option.map_id0)

text \<open>A change that succeeds puts the setting in the place of its interface, where it is found by its
  number; all settings are still there, but for their bindings, and so are the pointers of the descriptors.\<close>

lemma set_alt_switches:
  assumes "psdSetAltInterface pd c q pp = Some (True, pd', xs)" and "setting_of pd c q = Some s"
  shows "\<exists>f j t. f q = (j, None) \<and> setting_of pd' c (j, None) = Some t \<and> unbound t = unbound s \<and>
    (\<forall>p u. setting_of pd c p = Some u \<longrightarrow> (\<exists>u'. setting_of pd' c (f p) = Some u' \<and> unbound u' = unbound u)) \<and>
    (\<forall>c' p. c' \<noteq> c \<longrightarrow> setting_of pd' c' p = setting_of pd c' p) \<and> pd_Descriptors pd' = map (desc_after c f) (pd_Descriptors pd)"
proof -
  let ?ifs = "pc_Interfaces (pd_Configs pd ! c)"
  have c: "c < length (pd_Configs pd)" and q: "setting_in ?ifs q = Some s" using assms(2) by (simp_all add: setting_of_in split: if_splits)
  obtain j where j: "find_node (\<lambda>curif. pif_IfNum (pif_Main curif) = pif_IfNum s) ?ifs 0 = Some j"
    using assms(1,2) c by (auto simp: psdSetAltInterface_def index_def split: option.splits)
  note jf = find_node_first [OF j]
  show ?thesis
  proof (cases "(j, None) = q")
    case True
    then have "pd' = pd" using assms j c by (auto simp: psdSetAltInterface_def index_def)
    then show ?thesis using True assms(2) by (intro exI [of _ id] exI [of _ j] exI [of _ s]) (auto simp: map_idI)
  next
    case False
    let ?f = "place_after ?ifs q j"
    have pd': "pd' = switched pd c q j" using assms j c False
      by (auto simp: psdSetAltInterface_def index_def Let_def split: option.splits if_splits)
    have lt: "j < fst q" if "snd q = None"
    proof -
      have "q = (fst q, None)" using that by (simp add: prod_eq_iff)
      then have "s = pif_Main (?ifs ! fst q)" "fst q < length ?ifs" using q setting_in_simps(1) [of ?ifs "fst q"] by (simp_all split: if_splits)
      then show ?thesis using jf False that by (metis linorder_neqE_nat prod.collapse zero_le)
    qed
    have k: "\<exists>u'. setting_of pd' c (?f p) = Some u' \<and> unbound u' = unbound u" if "setting_of pd c p = Some u" for p u
      using switch_alt_keeps [OF q _ lt, of p u] jf that c by (simp add: setting_of_in pd' switched_def Let_def)
    have "?f q = (j, None)" by (simp add: place_after_def Let_def split: prod.split)
    moreover obtain t where "setting_of pd' c (?f q) = Some t" "unbound t = unbound s" using k [OF assms(2)] by blast
    moreover have "setting_of pd' c' p = setting_of pd c' p" if "c' \<noteq> c" for c' p
      using that by (simp add: setting_of_in pd' switched_def Let_def)
    moreover have "pd_Descriptors pd' = map (desc_after c ?f) (pd_Descriptors pd)" by (simp add: pd' switched_def Let_def)
    ultimately show ?thesis using k by (intro exI [of _ ?f] exI [of _ j] exI [of _ t]) simp
  qed
qed

end
