(* ===== verification/Spec2Isabelle.thy ===== *)
theory Spec2Isabelle
  imports Neptune_Prelude Midi_Tx Cdc_Props Uvc_Props Cfg_Props Lock_Props Dsc_Props Tree_Props
begin

text \<open>
  Neptune, a USB stack for classic Amigas: formal models of its core logic.

  The program. src/neptune.library is the stack itself: it enumerates devices over the host controller
  drivers, reads their descriptors into a tree of configurations, interfaces and endpoints, keeps
  the preferences of classes and devices in a tree of IFF style forms, guards its data with reader/writer
  locks, and binds devices and interfaces to class drivers. The drivers of src/classes find their
  interfaces and endpoints with the library's queries, keep their settings in its configuration, and
  move the data: here the SANA-II network device of CDC Ethernet, the video device of USB cameras and
  the CAMD MIDI driver. src/neptuneusb, src/c, src/tools and src/usbeject are programs on top.

  How it is modelled. C structures are records, 8, 16 and 32 bit integers are words, buffers are lists
  of bytes with partial accesses, state is passed on. \<open>None\<close> is a fault: an access outside a buffer,
  a null pointer followed, a shift out of range, or a loop without end; each theory says which of
  them can occur. Errors the code reports are values. Answers of the operating system, of the host
  controller, of devices and of clients are arguments. Memory allocation is a list of answers. Code
  between Forbid() and Permit() or Wait() is one step; the systems of steps are inductive relations.

  The theories.

  Neptune_Prelude: integers, buffers, little endian reading and writing, memory, and the locale
  step_invariant of systems of steps.

  Devices, neptune.library.c. Dsc_Model is pGetDevConfig(): the descriptors of a configuration,
  one operation for each branch of its switch (config_desc, interface_desc, endpoint_desc, ep_comp_desc,
  iso_comp_desc, keep_desc), the loop over a buffer (parse_descs, which ends because each descriptor takes at
  least two bytes) and over the configurations (config_loop). A pointer to an object of the tree is
  its place. Dsc_Walk, Dsc_Types, Dsc_Tree, Dsc_Read and Dsc_Safe prove how a buffer is walked, that
  the tree stays well typed, a reference as nested data, that reading builds the reference, and that
  nothing faults; the locale place is what holds at a main and at an alternate setting alike. Dsc_Props has
  the properties. Tree_Query is psdFindInterfaceA(), psdFindEndpointA() and psdFindDescriptorA(),
  Tree_Walk their contract towards a client that enumerates (the locale query, interpreted for all three),
  Tree_Alt is psdSetAltInterface() with the pointers that move, Tree_Props what they give.

  Locks, neptune.library.c from pInitSem() to pUnlockSem(). Lock_Sem has the lock and the uninterrupted
  pieces of its operations, Lock_Inv the abstract lock and the invariant, Lock_Props the runs of
  several tasks: refinement, no lost wake-up, and the deadlock of two promotions.

  Configuration, neptune.library.c from psdReadCfg() to pUpdateGlobalCfg(). Cfg_Form is one form and its
  chunk buffer, Cfg_State the tree below ps_ConfigRoot, Cfg_Ops the settings of classes, devices and
  bindings. Cfg_Area, Cfg_Tree, Cfg_Parse, Cfg_Write, Cfg_Strings and Cfg_Refine show that the
  buffers implement a tree of chunk lists; Cfg_Index, Cfg_Steps, Cfg_Settings, Cfg_Devices, Cfg_Runs and
  Cfg_Binding that the settings implement maps from keys to contents (the locales form_keys and
  keyed_settings, interpreted for the settings of classes and of devices); Cfg_Props has the
  properties. Fuel: reading takes one round more than the buffer has bytes (cfg_fuel), since each chunk is
  at least eight bytes long unless its length is corrupt, and then no fuel suffices; a search among the sub
  forms takes two more rounds than there are sub forms (forms_fuel).

  CDC Ethernet, src/classes/cdceth. Cdc_Sana is the device of dev.c: every command, devBeginIO and
  devAbortIO, with all lists a request can be on. Cdc_Rx and Cdc_Encap are the way of a transfer to
  the reads and back, in the ECM, EEM and NCM encapsulations (cdceth_encap.c), Cdc_Task the class task
  and the station address (cdceth.class.c). Cdc_Account has the invariant and the account of requests: every
  request is in one place of the unit, or answered. Cdc_Props puts device and task together as one system;
  the locale rx_relation is what every packet keeps. The write pump's fuel is one more than the queued
  writes: each round takes one.

  USB video, src/classes/video. Uvc_Desc is the descriptor parser and the lookups of uvc_desc.c, Uvc_Stream the
  payload engine, both transports, start and stop and the read side of the device (uvc_stream.c, uvc_iso.c,
  uvc_bulk.c, dev.c). Uvc_Model shows that every model built is well formed and fits its allocation, Uvc_Refine
  that its arrays implement nested lists, Uvc_Lookup the lookups, Uvc_Embed the extraction of an embedded
  stream in place, Uvc_Engine the invariant of a unit and the account of reads in every run, Uvc_Frames
  that a frame sent in payloads is the frame a read gets. Uvc_Props has the properties.

  CAMD MIDI, src/classes/camdmidi. Midi_Tx is the conversion of a MIDI stream to event packets and back
  and the sending of what camd has queued; the locale tx_hook is camd's side. nTransmit's fuel counts rounds: one
  more than there are bytes queued, since the last one finds nothing.

  The properties are the theorems after a text block with their number C1 to C40; each with hypotheses has
  an instance with the suffix _witness. Lemmas named in no such block are the library, among them some that
  show flaws of the code: superspeed_interrupt_interval, snap_interval_overshoots, class_settings_lost and
  forbid_balanced.

  Assumed, and said in the statements: client copy functions store as much as they are asked for, requests
  have addresses of their own, counters of 8 and 16 bits that the code does not check suffice.

  Not modelled. In neptune.library: enumeration, the host controller backends, pipes, streams and isochronous
  handlers, the binding of classes and psdBorrowLocksWait(), which are sequences of transfers and calls under Exec
  scheduling; psdAddCfgEntry(), psdParseCfg() and the load and save of preference files; display
  names. In the classes: opening and expunging of devices, windows, camera controls. Preemption inside a step of
  the video engine (its Forbid() sections are inside one step) and between a device command and a round of the
  Ethernet task. The structure of a SANA-II request, sana2req, has the fields of the SANA-II developer kit,
  which is not in the repository. Of the other classes - mass storage, HID, hubs, audio, PTP, the other
  network chips, serial, printer, Bluetooth - nothing is modelled yet: mass storage and HID are the next
  in size and worth; neither are the user interfaces, tools and build files.
\<close>

end
